(* ===== verification/Takler_Prelude.thy ===== *)
theory Takler_Prelude
  imports Main "HOL-Library.AList" "HOL-Library.Char_ord" "HOL-Library.List_Lexorder"
begin

text \<open>
  Shared vocabulary of the development.

  \<^item> Programs. Code that writes to the node tree and may raise is a state transformer that
    returns an outcome together with the state it left behind: an exception does not undo the
    writes that preceded it, exactly as in the Python sources, where nothing is rolled back.
  \<^item> The frame locale. A relation between the state before and the state after that is reflexive
    and transitive is respected by a composed program as soon as its parts respect it. Every
    invariant and every frame property of the components is an instance.
  \<^item> Weakest preconditions, for the functional behaviour of the operations.
  \<^item> Dictionaries in insertion order, as association lists.
\<close>

section \<open>Programs: state and exceptions\<close>

type_synonym ('s, 'e, 'a) prog = "'s \<Rightarrow> ('e + 'a) \<times> 's"

definition ret :: "'a \<Rightarrow> ('s, 'e, 'a) prog" where
  "ret x s = (Inr x, s)"

definition raise :: "'e \<Rightarrow> ('s, 'e, 'a) prog" where
  "raise e s = (Inl e, s)"

definition bindM :: "('s, 'e, 'a) prog \<Rightarrow> ('a \<Rightarrow> ('s, 'e, 'b) prog) \<Rightarrow> ('s, 'e, 'b) prog" where
  "bindM m f s = (case m s of (Inl e, s') \<Rightarrow> (Inl e, s') | (Inr x, s') \<Rightarrow> f x s')"

definition seqM :: "('s, 'e, 'a) prog \<Rightarrow> ('s, 'e, 'b) prog \<Rightarrow> ('s, 'e, 'b) prog" where
  "seqM m n = bindM m (\<lambda>_. n)"

definition gets :: "('s \<Rightarrow> 'a) \<Rightarrow> ('s, 'e, 'a) prog" where
  "gets f s = (Inr (f s), s)"

definition modify :: "('s \<Rightarrow> 's) \<Rightarrow> ('s, 'e, unit) prog" where
  "modify f s = (Inr (), f s)"

definition withState :: "('s \<Rightarrow> ('s, 'e, 'a) prog) \<Rightarrow> ('s, 'e, 'a) prog" where
  "withState f s = f s s"

definition liftE :: "('s \<Rightarrow> 'e + 'a) \<Rightarrow> ('s, 'e, 'a) prog" where
  "liftE f s = (f s, s)"

definition whenM :: "bool \<Rightarrow> ('s, 'e, unit) prog \<Rightarrow> ('s, 'e, unit) prog" where
  "whenM b m = (if b then m else ret ())"

primrec forM :: "'x list \<Rightarrow> ('x \<Rightarrow> ('s, 'e, unit) prog) \<Rightarrow> ('s, 'e, unit) prog" where
  "forM [] f = ret ()"
| "forM (x # xs) f = seqM (f x) (forM xs f)"

primrec collectM :: "'x list \<Rightarrow> ('x \<Rightarrow> ('s, 'e, 'b list) prog) \<Rightarrow> ('s, 'e, 'b list) prog" where
  "collectM [] f = ret []"
| "collectM (x # xs) f = bindM (f x) (\<lambda>ys. bindM (collectM xs f) (\<lambda>zs. ret (ys @ zs)))"

primrec foldM :: "'x list \<Rightarrow> ('x \<Rightarrow> 'b \<Rightarrow> ('s, 'e, 'b) prog) \<Rightarrow> 'b \<Rightarrow> ('s, 'e, 'b) prog" where
  "foldM [] f b = ret b"
| "foldM (x # xs) f b = bindM (f x b) (foldM xs f)"

text \<open>\<open>try m except e: h e; raise\<close>: the handler runs on the state the failing part left.\<close>

definition onError :: "('s, 'e, 'a) prog \<Rightarrow> ('e \<Rightarrow> ('s, 'e, unit) prog) \<Rightarrow> ('s, 'e, 'a) prog" where
  "onError m h s = (case m s of (Inr x, s') \<Rightarrow> (Inr x, s')
     | (Inl e, s') \<Rightarrow> (case h e s' of (Inl e', s'') \<Rightarrow> (Inl e', s'') | (Inr _, s'') \<Rightarrow> (Inl e, s'')))"

text \<open>\<open>try m finally f\<close>: the finaliser always runs.\<close>

definition finallyM :: "('s, 'e, 'a) prog \<Rightarrow> ('s \<Rightarrow> 's) \<Rightarrow> ('s, 'e, 'a) prog" where
  "finallyM m f s = (case m s of (r, s') \<Rightarrow> (r, f s'))"

abbreviation outcome :: "('e + 'a) \<times> 's \<Rightarrow> 'e + 'a" where
  "outcome \<equiv> fst"

abbreviation after :: "('e + 'a) \<times> 's \<Rightarrow> 's" where
  "after \<equiv> snd"

lemmas prog_defs = ret_def raise_def bindM_def seqM_def gets_def modify_def withState_def
  liftE_def whenM_def

lemma bindM_ret [simp]: "bindM (ret x) f = f x"
  by (simp add: fun_eq_iff prog_defs)

lemma bindM_raise [simp]: "bindM (raise e) f = raise e"
  by (simp add: fun_eq_iff prog_defs)

lemma bindM_gets [simp]: "bindM (gets g) f s = f (g s) s"
  by (simp add: prog_defs)

lemma seqM_ret [simp]: "seqM (ret x) n = n"
  by (simp add: seqM_def)

lemma bindM_ret_right [simp]: "bindM m ret = m"
  by (rule ext) (simp add: prog_defs split: prod.splits sum.splits)

lemma bindM_assoc: "bindM (bindM m f) g = bindM m (\<lambda>x. bindM (f x) g)"
  by (rule ext) (simp add: prog_defs split: prod.splits sum.splits)

lemma forM_append: "forM (xs @ ys) f = seqM (forM xs f) (forM ys f)"
  by (induction xs) (simp_all add: seqM_def bindM_assoc)

lemma foldM_append: "foldM (xs @ ys) f b = bindM (foldM xs f b) (foldM ys f)"
proof (induction xs arbitrary: b)
  case Nil
  then show ?case by simp
next
  case (Cons x xs)
  have "foldM (xs @ ys) f = (\<lambda>b. bindM (foldM xs f b) (foldM ys f))"
    by (rule ext) (rule Cons.IH)
  then show ?case by (simp add: bindM_assoc)
qed

text \<open>Taking a successful run apart.\<close>

lemma bindM_InrE:
  assumes "bindM m f s = (Inr y, s')"
  obtains x s1 where "m s = (Inr x, s1)" "f x s1 = (Inr y, s')"
  using assms by (auto simp: bindM_def split: prod.splits sum.splits)

lemma seqM_InrE:
  assumes "seqM m n s = (Inr y, s')"
  obtains x s1 where "m s = (Inr x, s1)" "n s1 = (Inr y, s')"
  using assms by (auto simp: seqM_def elim: bindM_InrE)

lemma onError_Inr: "onError m h s = (Inr x, s') \<longleftrightarrow> m s = (Inr x, s')"
  by (auto simp: onError_def split: prod.splits sum.splits)

lemma finallyM_InrE:
  assumes "finallyM m f s = (Inr y, s')"
  obtains s1 where "m s = (Inr y, s1)" "s' = f s1"
  using assms by (auto simp: finallyM_def split: prod.splits)

section \<open>Weakest preconditions\<close>

definition wp :: "('s, 'e, 'a) prog \<Rightarrow> ('e + 'a \<Rightarrow> 's \<Rightarrow> bool) \<Rightarrow> 's \<Rightarrow> bool" where
  "wp m Q s = Q (outcome (m s)) (after (m s))"

lemma wp_ret [simp]: "wp (ret x) Q s = Q (Inr x) s"
  by (simp add: wp_def prog_defs)

lemma wp_raise [simp]: "wp (raise e) Q s = Q (Inl e) s"
  by (simp add: wp_def prog_defs)

lemma wp_gets [simp]: "wp (gets f) Q s = Q (Inr (f s)) s"
  by (simp add: wp_def prog_defs)

lemma wp_modify [simp]: "wp (modify f) Q s = Q (Inr ()) (f s)"
  by (simp add: wp_def prog_defs)

lemma wp_withState [simp]: "wp (withState f) Q s = wp (f s) Q s"
  by (simp add: wp_def prog_defs)

lemma wp_liftE [simp]: "wp (liftE f) Q s = Q (f s) s"
  by (simp add: wp_def prog_defs)

lemma wp_bindM [simp]:
  "wp (bindM m f) Q s =
     wp m (\<lambda>r s'. case r of Inl e \<Rightarrow> Q (Inl e) s' | Inr x \<Rightarrow> wp (f x) Q s') s"
  by (simp add: wp_def bindM_def split: prod.splits sum.splits)

lemma wp_seqM [simp]:
  "wp (seqM m n) Q s = wp m (\<lambda>r s'. case r of Inl e \<Rightarrow> Q (Inl e) s' | Inr x \<Rightarrow> wp n Q s') s"
  by (simp add: seqM_def)

lemma wp_whenM [simp]: "wp (whenM b m) Q s = (if b then wp m Q s else Q (Inr ()) s)"
  by (simp add: whenM_def)

lemma wp_if [simp]: "wp (if b then m else n) Q s = (if b then wp m Q s else wp n Q s)"
  by simp

lemma wp_mono: "wp m P s \<Longrightarrow> (\<And>r s'. P r s' \<Longrightarrow> Q r s') \<Longrightarrow> wp m Q s"
  by (simp add: wp_def)

lemma wp_conj: "wp m (\<lambda>r s'. P r s' \<and> Q r s') s = (wp m P s \<and> wp m Q s)"
  by (simp add: wp_def)

section \<open>Frames: reflexive and transitive relations kept by composition\<close>

named_theorems frame_intro "programs that keep the relation of a frame"

definition obeys :: "('s \<Rightarrow> 's \<Rightarrow> bool) \<Rightarrow> ('s, 'e, 'a) prog \<Rightarrow> bool" where
  "obeys R m \<longleftrightarrow> (\<forall>s. R s (after (m s)))"

lemma obeysD: "obeys R m \<Longrightarrow> R s (after (m s))"
  by (simp add: obeys_def)

locale frame =
  fixes R :: "'s \<Rightarrow> 's \<Rightarrow> bool"
  assumes R_refl: "R s s"
    and R_trans: "R s t \<Longrightarrow> R t u \<Longrightarrow> R s u"
begin

lemma obeys_ret [frame_intro]: "obeys R (ret x)"
  by (simp add: obeys_def prog_defs R_refl)

lemma obeys_raise [frame_intro]: "obeys R (raise e)"
  by (simp add: obeys_def prog_defs R_refl)

lemma obeys_gets [frame_intro]: "obeys R (gets f)"
  by (simp add: obeys_def prog_defs R_refl)

lemma obeys_liftE [frame_intro]: "obeys R (liftE f)"
  by (simp add: obeys_def prog_defs R_refl)

lemma obeys_withState [frame_intro]: "(\<And>s. obeys R (f s)) \<Longrightarrow> obeys R (withState f)"
  by (simp add: obeys_def prog_defs)

lemma obeys_bindM [frame_intro]:
  assumes "obeys R m" and "\<And>x. obeys R (f x)"
  shows "obeys R (bindM m f)"
  unfolding obeys_def
proof
  fix s
  have 1: "R s (after (m s))" using assms(1) by (rule obeysD)
  show "R s (after (bindM m f s))"
  proof (cases "m s")
    case (Pair r s')
    with 1 have st: "R s s'" by simp
    show ?thesis
    proof (cases r)
      case (Inl e)
      with Pair st show ?thesis by (simp add: bindM_def)
    next
      case (Inr x)
      from assms(2) have "R s' (after (f x s'))" by (rule obeysD)
      with st have "R s (after (f x s'))" by (rule R_trans)
      with Pair Inr show ?thesis by (simp add: bindM_def)
    qed
  qed
qed

lemma obeys_seqM [frame_intro]: "obeys R m \<Longrightarrow> obeys R n \<Longrightarrow> obeys R (seqM m n)"
  by (simp add: seqM_def obeys_bindM)

lemma obeys_whenM [frame_intro]: "obeys R m \<Longrightarrow> obeys R (whenM b m)"
  by (simp add: whenM_def obeys_ret)

lemma obeys_if [frame_intro]:
  "obeys R m \<Longrightarrow> obeys R n \<Longrightarrow> obeys R (if b then m else n)"
  by simp

lemma obeys_option [frame_intro]:
  "obeys R m \<Longrightarrow> (\<And>x. obeys R (f x)) \<Longrightarrow> obeys R (case y of None \<Rightarrow> m | Some x \<Rightarrow> f x)"
  by (cases y) simp_all

lemma obeys_sum [frame_intro]:
  "(\<And>x. obeys R (f x)) \<Longrightarrow> (\<And>x. obeys R (g x)) \<Longrightarrow>
   obeys R (case y of Inl x \<Rightarrow> f x | Inr x \<Rightarrow> g x)"
  by (cases y) simp_all

lemma obeys_prod [frame_intro]:
  "(\<And>a b. obeys R (f a b)) \<Longrightarrow> obeys R (case y of (a, b) \<Rightarrow> f a b)"
  by (cases y) simp

lemma obeys_Let [frame_intro]: "(\<And>x. obeys R (f x)) \<Longrightarrow> obeys R (Let y f)"
  by simp

lemma obeys_forM [frame_intro]: "(\<And>x. x \<in> set xs \<Longrightarrow> obeys R (f x)) \<Longrightarrow> obeys R (forM xs f)"
  by (induction xs) (simp_all add: obeys_ret obeys_seqM)

lemma obeys_collectM_in: "(\<And>x. x \<in> set xs \<Longrightarrow> obeys R (f x)) \<Longrightarrow> obeys R (collectM xs f)"
  by (induction xs) (simp_all add: obeys_ret obeys_bindM)

lemma obeys_foldM_in: "(\<And>x b. x \<in> set xs \<Longrightarrow> obeys R (f x b)) \<Longrightarrow> obeys R (foldM xs f b)"
proof (induction xs arbitrary: b)
  case (Cons x xs)
  then show ?case by (simp add: obeys_bindM)
qed (simp add: obeys_ret)

lemma obeys_collectM [frame_intro]: "(\<And>x. obeys R (f x)) \<Longrightarrow> obeys R (collectM xs f)"
  by (rule obeys_collectM_in)

lemma obeys_foldM [frame_intro]: "(\<And>x b. obeys R (f x b)) \<Longrightarrow> obeys R (foldM xs f b)"
  by (rule obeys_foldM_in)

lemma obeys_onError [frame_intro]:
  assumes "obeys R m" and "\<And>e. obeys R (h e)"
  shows "obeys R (onError m h)"
  unfolding obeys_def
proof
  fix s
  have 1: "R s (after (m s))" using assms(1) by (rule obeysD)
  show "R s (after (onError m h s))"
  proof (cases "m s")
    case (Pair r s')
    with 1 have st: "R s s'" by simp
    have "R s (after (h e s'))" for e
      using R_trans [OF st obeysD [OF assms(2)]] .
    with Pair st show ?thesis
      by (cases r) (simp_all add: onError_def split: prod.splits sum.splits, metis snd_conv)
  qed
qed

lemma obeys_finallyM [frame_intro]:
  assumes "obeys R m" and "\<And>s. R s (f s)"
  shows "obeys R (finallyM m f)"
  unfolding obeys_def
proof
  fix s
  have "R s (after (m s))" using assms(1) by (rule obeysD)
  then have "R s (f (after (m s)))" using assms(2) by (rule R_trans)
  then show "R s (after (finallyM m f s))" by (simp add: finallyM_def split_beta)
qed

end

text \<open>Two ways to get a frame: an invariant, and an observation that stays the same.\<close>

definition keeps_inv :: "('s \<Rightarrow> bool) \<Rightarrow> 's \<Rightarrow> 's \<Rightarrow> bool" where
  "keeps_inv P s t \<longleftrightarrow> (P s \<longrightarrow> P t)"

definition same :: "('s \<Rightarrow> 'b) \<Rightarrow> 's \<Rightarrow> 's \<Rightarrow> bool" where
  "same f s t \<longleftrightarrow> f t = f s"

lemma frame_keeps_inv: "frame (keeps_inv P)"
  by unfold_locales (auto simp: keeps_inv_def)

lemma frame_same: "frame (same f)"
  by unfold_locales (auto simp: same_def)

lemma obeys_same_wp: "obeys (same f) m \<Longrightarrow> f (after (m s)) = f s"
  by (simp add: obeys_def same_def)

lemma obeys_keeps_invD: "obeys (keeps_inv P) m \<Longrightarrow> P s \<Longrightarrow> P (after (m s))"
  by (simp add: obeys_def keeps_inv_def)

section \<open>Dictionaries in insertion order\<close>

type_synonym 'v dict = "(string \<times> 'v) list"

abbreviation dict_get :: "'v dict \<Rightarrow> string \<Rightarrow> 'v option" where
  "dict_get d k \<equiv> map_of d k"

abbreviation dict_set :: "string \<Rightarrow> 'v \<Rightarrow> 'v dict \<Rightarrow> 'v dict" where
  "dict_set \<equiv> AList.update"

text \<open>\<open>for key, p in other.items(): if key not in params: params[key] = p\<close>\<close>

primrec dict_fill :: "'v dict \<Rightarrow> 'v dict \<Rightarrow> 'v dict" where
  "dict_fill d [] = d"
| "dict_fill d (kv # rest) =
     dict_fill (if dict_get d (fst kv) = None then dict_set (fst kv) (snd kv) d else d) rest"

text \<open>\<open>d.update(other)\<close>\<close>

primrec dict_update :: "'v dict \<Rightarrow> 'v dict \<Rightarrow> 'v dict" where
  "dict_update d [] = d"
| "dict_update d (kv # rest) = dict_update (dict_set (fst kv) (snd kv) d) rest"

lemma dict_get_set: "dict_get (dict_set k v d) k' = (if k' = k then Some v else dict_get d k')"
  by (simp add: update_conv')

lemma dict_get_fill:
  "distinct (map fst other) \<Longrightarrow>
   dict_get (dict_fill d other) k =
     (case dict_get d k of Some v \<Rightarrow> Some v | None \<Rightarrow> dict_get other k)"
proof (induction other arbitrary: d)
  case Nil
  then show ?case by (simp split: option.splits)
next
  case (Cons kv rest)
  then have "dict_get rest (fst kv) = None" by (simp add: map_of_eq_None_iff)
  with Cons show ?case by (cases kv) (auto simp: dict_get_set split: option.splits)
qed

lemma dict_get_update:
  "distinct (map fst other) \<Longrightarrow>
   dict_get (dict_update d other) k =
     (case dict_get other k of Some v \<Rightarrow> Some v | None \<Rightarrow> dict_get d k)"
proof (induction other arbitrary: d)
  case Nil
  then show ?case by simp
next
  case (Cons kv rest)
  then have "dict_get rest (fst kv) = None" by (simp add: map_of_eq_None_iff)
  with Cons show ?case by (cases kv) (auto simp: dict_get_set split: option.splits)
qed

lemma distinct_dict_set: "distinct (map fst d) \<Longrightarrow> distinct (map fst (dict_set k v d))"
  by (rule distinct_update)

lemma distinct_dict_fill: "distinct (map fst d) \<Longrightarrow> distinct (map fst (dict_fill d other))"
  by (induction other arbitrary: d) (simp_all add: distinct_dict_set)

lemma distinct_dict_update: "distinct (map fst d) \<Longrightarrow> distinct (map fst (dict_update d other))"
  by (induction other arbitrary: d) (simp_all add: distinct_dict_set)

section \<open>Lists\<close>

text \<open>The first index whose element satisfies a predicate, as the search loops return it.\<close>

fun find_index :: "('a \<Rightarrow> bool) \<Rightarrow> 'a list \<Rightarrow> nat option" where
  "find_index P [] = None"
| "find_index P (x # xs) = (if P x then Some 0 else map_option Suc (find_index P xs))"

lemma find_index_SomeD:
  "find_index P xs = Some i \<Longrightarrow> i < length xs \<and> P (xs ! i) \<and> (\<forall>j < i. \<not> P (xs ! j))"
proof (induction xs arbitrary: i)
  case Nil
  then show ?case by simp
next
  case (Cons x xs)
  then show ?case by (cases i) (auto simp: less_Suc_eq_0_disj split: if_splits)
qed

lemma find_index_None_iff: "find_index P xs = None \<longleftrightarrow> (\<forall>x \<in> set xs. \<not> P x)"
  by (induction xs) auto

lemma find_index_SomeI:
  assumes "i < length xs" "P (xs ! i)" "\<And>j. j < i \<Longrightarrow> \<not> P (xs ! j)"
  shows "find_index P xs = Some i"
  using assms
proof (induction xs arbitrary: i)
  case Nil
  then show ?case by simp
next
  case (Cons x xs)
  show ?case
  proof (cases i)
    case 0
    with Cons.prems show ?thesis by simp
  next
    case (Suc k)
    have "find_index P xs = Some k"
    proof (rule Cons.IH)
      show "k < length xs" "P (xs ! k)" using Cons.prems Suc by auto
      show "\<not> P (xs ! j)" if "j < k" for j using Cons.prems(3) [of "Suc j"] that Suc by simp
    qed
    moreover have "\<not> P x" using Cons.prems(3) [of 0] Suc by simp
    ultimately show ?thesis using Suc by simp
  qed
qed

end
