(* ===== verification/Takler_Errors.thy ===== *)
theory Takler_Errors
  imports Takler_Prelude
begin

text \<open>
  The exception hierarchy of \<^verbatim>\<open>takler/exceptions.py\<close> and its classification into the numeric
  codes of \<^verbatim>\<open>takler/protocol/error_code.py\<close>. An exception is a value; the attributes an
  exception carries beside its type (message, path) do not take part in any decision of the
  modelled code and are left out, except the code of a query failure, which the classification
  reads. Exceptions of the Python runtime that the sources let escape are collected in
  \<open>py_exc\<close>.
\<close>

section \<open>Exceptions\<close>

datatype py_exc = PyTypeError | PyValueError | PyRuntimeError | PyAttributeError | PyIndexError
  | PyKeyError | PyNotImplementedError | PyOverflowError | PyZeroDivisionError | PyAssertionError

datatype exc =
    TaklerError
  | InvalidRequestError
  | NodeNotFoundError
  | InvalidNodePathError
  | NodeTypeError
  | UnsupportedValueError
  | FlowStateError
  | ExpressionSyntaxError
  | JobSubmissionError
  | ZombieError
  | AttemptMismatchError
  | ServerHaltedError
  | TransportError
  | ClientConnectionError
  | ServerResponseError
  | QueryResponseError string
  | PermissionDeniedError
  | SecurityConfigError
  | PyError py_exc

section \<open>Error codes\<close>

definition SUCCESS :: int where "SUCCESS = 0"

definition GENERIC_TAKLER_ERROR :: int where "GENERIC_TAKLER_ERROR = 1"

definition INTERNAL_SERVER_ERROR :: int where "INTERNAL_SERVER_ERROR = 99"

definition UNKNOWN_ERROR_NAME :: string where "UNKNOWN_ERROR_NAME = ''unknown''"

text \<open>\<open>isinstance(exc, TaklerError)\<close>: every type of the module derives from it.\<close>

definition is_TaklerError :: "exc \<Rightarrow> bool" where
  "is_TaklerError e \<longleftrightarrow> (case e of PyError _ \<Rightarrow> False | _ \<Rightarrow> True)"

text \<open>The lookup is by exact type; a type that is not a key has no entry.\<close>

fun ERROR_CODE_BY_TYPE :: "exc \<Rightarrow> int option" where
  "ERROR_CODE_BY_TYPE TaklerError = Some GENERIC_TAKLER_ERROR"
| "ERROR_CODE_BY_TYPE NodeNotFoundError = Some 10"
| "ERROR_CODE_BY_TYPE InvalidNodePathError = Some 11"
| "ERROR_CODE_BY_TYPE NodeTypeError = Some 12"
| "ERROR_CODE_BY_TYPE UnsupportedValueError = Some 13"
| "ERROR_CODE_BY_TYPE FlowStateError = Some 14"
| "ERROR_CODE_BY_TYPE InvalidRequestError = Some 15"
| "ERROR_CODE_BY_TYPE ExpressionSyntaxError = Some 20"
| "ERROR_CODE_BY_TYPE JobSubmissionError = Some 30"
| "ERROR_CODE_BY_TYPE ZombieError = Some 31"
| "ERROR_CODE_BY_TYPE AttemptMismatchError = Some 32"
| "ERROR_CODE_BY_TYPE ServerHaltedError = Some 33"
| "ERROR_CODE_BY_TYPE TransportError = Some 40"
| "ERROR_CODE_BY_TYPE ClientConnectionError = Some 41"
| "ERROR_CODE_BY_TYPE ServerResponseError = Some 42"
| "ERROR_CODE_BY_TYPE PermissionDeniedError = Some 43"
| "ERROR_CODE_BY_TYPE _ = None"

definition ERROR_NAME_BY_CODE :: "(int \<times> string) list" where
  "ERROR_NAME_BY_CODE =
    [(SUCCESS, ''success''), (GENERIC_TAKLER_ERROR, ''takler_error''), (10, ''node_not_found''),
     (11, ''invalid_node_path''), (12, ''node_type''), (13, ''unsupported_value''),
     (14, ''flow_state''), (15, ''invalid_request''), (16, ''batch_failed''),
     (20, ''expression_syntax''), (30, ''job_submission''), (31, ''zombie''),
     (32, ''attempt_mismatch''), (33, ''server_halted''), (40, ''transport''),
     (41, ''client_connection''), (42, ''server_response''), (43, ''permission_denied''),
     (INTERNAL_SERVER_ERROR, ''internal_error'')]"

definition error_code_for_exception :: "exc \<Rightarrow> int" where
  "error_code_for_exception e =
     (case e of
        QueryResponseError code \<Rightarrow>
          (if code \<in> {''invalid_request'', ''unsupported_version'', ''unsupported_capability'',
                      ''permission_denied'', ''stale_identity'', ''field_too_large''}
           then 15 else 42)
      | _ \<Rightarrow> (case ERROR_CODE_BY_TYPE e of
                Some code \<Rightarrow> code
              | None \<Rightarrow> if is_TaklerError e then GENERIC_TAKLER_ERROR else INTERNAL_SERVER_ERROR))"

definition error_name_for_code :: "int \<Rightarrow> string" where
  "error_name_for_code code =
     (case map_of ERROR_NAME_BY_CODE code of Some n \<Rightarrow> n | None \<Rightarrow> UNKNOWN_ERROR_NAME)"

lemmas error_code_defs = error_code_for_exception_def SUCCESS_def GENERIC_TAKLER_ERROR_def
  INTERNAL_SERVER_ERROR_def is_TaklerError_def

lemma error_code_values:
  "error_code_for_exception e \<in> {1, 10, 11, 12, 13, 14, 15, 20, 30, 31, 32, 33, 40, 41, 42, 43, 99}"
  by (cases e) (simp_all add: error_code_defs)

lemma error_code_by_type_inj:
  "ERROR_CODE_BY_TYPE e = Some c \<Longrightarrow> ERROR_CODE_BY_TYPE e' = Some c \<Longrightarrow> e = e'"
  by (cases e; cases e') (simp_all add: GENERIC_TAKLER_ERROR_def)

text \<open>
  C18. The error classification never presents a failure as success, gives every exception a code
  with a registered name, separates the internal errors of the runtime (99) from the errors takler
  raises on purpose, and is injective on the types that have a code of their own.
\<close>

theorem error_classification:
  "error_code_for_exception e \<noteq> SUCCESS
   \<and> error_name_for_code (error_code_for_exception e) \<noteq> UNKNOWN_ERROR_NAME
   \<and> (error_code_for_exception e = INTERNAL_SERVER_ERROR \<longleftrightarrow> \<not> is_TaklerError e)
   \<and> inj_on ERROR_CODE_BY_TYPE {e. ERROR_CODE_BY_TYPE e \<noteq> None}"
proof -
  have "error_name_for_code (error_code_for_exception e) \<noteq> UNKNOWN_ERROR_NAME"
    using error_code_values [of e]
    by (auto simp: error_name_for_code_def ERROR_NAME_BY_CODE_def UNKNOWN_ERROR_NAME_def
        SUCCESS_def GENERIC_TAKLER_ERROR_def INTERNAL_SERVER_ERROR_def)
  moreover have "error_code_for_exception e \<noteq> SUCCESS"
    using error_code_values [of e] by (auto simp: SUCCESS_def)
  moreover have "error_code_for_exception e = INTERNAL_SERVER_ERROR \<longleftrightarrow> \<not> is_TaklerError e"
    by (cases e) (simp_all add: error_code_defs)
  moreover have "inj_on ERROR_CODE_BY_TYPE {e. ERROR_CODE_BY_TYPE e \<noteq> None}"
    by (rule inj_onI) (auto intro: error_code_by_type_inj)
  ultimately show ?thesis by blast
qed

end
