(* ===== verification/Takler_State.thy ===== *)
theory Takler_State
  imports Takler_Prelude
begin

text \<open>
  \<^verbatim>\<open>takler/core/state.py\<close>: the ordered status of a node, the scheduling status of the service and
  the state record of a node. \<open>OrderedEnum\<close> compares members by value, which makes the statuses a
  linear order.
\<close>

section \<open>Node status\<close>

datatype node_status = unknown | complete | queued | submitted | active | aborted

fun status_value :: "node_status \<Rightarrow> int" where
  "status_value unknown = 1"
| "status_value complete = 2"
| "status_value queued = 3"
| "status_value submitted = 4"
| "status_value active = 5"
| "status_value aborted = 6"

lemma status_value_inj: "status_value s = status_value t \<Longrightarrow> s = t"
  by (cases s; cases t) simp_all

instantiation node_status :: linorder
begin

definition less_eq_node_status :: "node_status \<Rightarrow> node_status \<Rightarrow> bool" where
  "less_eq_node_status s t \<longleftrightarrow> status_value s \<le> status_value t"

definition less_node_status :: "node_status \<Rightarrow> node_status \<Rightarrow> bool" where
  "less_node_status s t \<longleftrightarrow> status_value s < status_value t"

instance
  by standard (auto simp: less_eq_node_status_def less_node_status_def dest: status_value_inj)

end

lemmas status_order_defs = less_eq_node_status_def less_node_status_def

text \<open>\<open>NodeStatus(value)\<close>: a value that is not a member raises.\<close>

definition NodeStatus_of_value :: "int \<Rightarrow> node_status option" where
  "NodeStatus_of_value v =
     (if v = 1 then Some unknown else if v = 2 then Some complete else if v = 3 then Some queued
      else if v = 4 then Some submitted else if v = 5 then Some active
      else if v = 6 then Some aborted else None)"

text \<open>\<open>NodeStatus[name]\<close>, used by the force command.\<close>

definition NodeStatus_of_name :: "string \<Rightarrow> node_status option" where
  "NodeStatus_of_name n =
     (if n = ''unknown'' then Some unknown else if n = ''complete'' then Some complete
      else if n = ''queued'' then Some queued else if n = ''submitted'' then Some submitted
      else if n = ''active'' then Some active else if n = ''aborted'' then Some aborted else None)"

lemma NodeStatus_of_value_inverse: "NodeStatus_of_value (status_value s) = Some s"
  by (cases s) (simp_all add: NodeStatus_of_value_def)

lemma all_statuses: "(\<forall>s. P s) \<longleftrightarrow> P unknown \<and> P complete \<and> P queued \<and> P submitted \<and> P active \<and> P aborted"
  by (metis node_status.exhaust)

section \<open>Service status\<close>

datatype server_status = running | halted

datatype halt_cause = manual | recovery | checkpoint_failure

section \<open>The state of a node\<close>

record node_state =
  node_status :: node_status
  suspended :: bool

definition new_state :: node_state where
  "new_state = \<lparr>node_status = unknown, suspended = False\<rparr>"

definition in_flight :: "node_status \<Rightarrow> bool" where
  "in_flight s \<longleftrightarrow> s = submitted \<or> s = active"

lemma in_flight_simps [simp]:
  "in_flight submitted" "in_flight active" "\<not> in_flight unknown" "\<not> in_flight complete"
  "\<not> in_flight queued" "\<not> in_flight aborted"
  by (simp_all add: in_flight_def)

end
