(* ===== verification/Py_Dates.thy ===== *)
theory Py_Dates
  imports Takler_Errors
begin

text \<open>
  Python's \<open>datetime\<close> arithmetic, as far as the sources use it. A \<open>date\<close> is its proleptic
  Gregorian ordinal (1 for 1 January of year 1); a naive \<open>datetime\<close> is a count of microseconds
  since the start of that day, and a \<open>timedelta\<close> a difference of such counts. The conversion
  between ordinals and (year, month, day) is the algorithm of the standard library.
\<close>

section \<open>Ordinals and civil dates\<close>

definition is_leap :: "int \<Rightarrow> bool" where
  "is_leap y \<longleftrightarrow> y mod 4 = 0 \<and> (y mod 100 \<noteq> 0 \<or> y mod 400 = 0)"

definition days_in_month :: "int \<Rightarrow> int \<Rightarrow> int" where
  "days_in_month y m = (if m = 2 then (if is_leap y then 29 else 28)
     else if m = 4 \<or> m = 6 \<or> m = 9 \<or> m = 11 then 30 else 31)"

definition days_before_year :: "int \<Rightarrow> int" where
  "days_before_year y = (let p = y - 1 in p * 365 + p div 4 - p div 100 + p div 400)"

definition days_before_month_common :: "int \<Rightarrow> int" where
  "days_before_month_common m =
     (if m = 1 then 0 else if m = 2 then 31 else if m = 3 then 59 else if m = 4 then 90
      else if m = 5 then 120 else if m = 6 then 151 else if m = 7 then 181 else if m = 8 then 212
      else if m = 9 then 243 else if m = 10 then 273 else if m = 11 then 304 else 334)"

definition days_before_month :: "bool \<Rightarrow> int \<Rightarrow> int" where
  "days_before_month leap m = days_before_month_common m + (if m > 2 \<and> leap then 1 else 0)"

definition ymd2ord :: "int \<Rightarrow> int \<Rightarrow> int \<Rightarrow> int" where
  "ymd2ord y m d = days_before_year y + days_before_month (is_leap y) m + d"

definition month_day :: "bool \<Rightarrow> int \<Rightarrow> int \<times> int" where
  "month_day leap n =
     (let month = (n + 50) div 32; preceding = days_before_month leap month in
      if preceding > n
      then (month - 1, n - days_before_month leap (month - 1) + 1)
      else (month, n - preceding + 1))"

definition ord2ymd :: "int \<Rightarrow> int \<times> int \<times> int" where
  "ord2ymd ordinal =
     (let n = ordinal - 1;
          n400 = n div 146097; r400 = n mod 146097;
          n100 = r400 div 36524; r100 = r400 mod 36524;
          n4 = r100 div 1461; r4 = r100 mod 1461;
          n1 = r4 div 365; r1 = r4 mod 365;
          year = n400 * 400 + 1 + n100 * 100 + n4 * 4 + n1 in
      if n1 = 4 \<or> n100 = 4 then (year - 1, 12, 31)
      else let leap = (n1 = 3 \<and> (n4 \<noteq> 24 \<or> n100 = 3)); (m, d) = month_day leap r1 in (year, m, d))"

definition valid_ymd :: "int \<Rightarrow> int \<Rightarrow> int \<Rightarrow> bool" where
  "valid_ymd y m d \<longleftrightarrow> 1 \<le> y \<and> y \<le> 9999 \<and> 1 \<le> m \<and> m \<le> 12 \<and> 1 \<le> d \<and> d \<le> days_in_month y m"

definition MAXORDINAL :: int where "MAXORDINAL = 3652059"

lemma month_range: "1 \<le> (m::int) \<Longrightarrow> m \<le> 12 \<Longrightarrow>
  m = 1 \<or> m = 2 \<or> m = 3 \<or> m = 4 \<or> m = 5 \<or> m = 6 \<or> m = 7 \<or> m = 8 \<or> m = 9 \<or> m = 10 \<or> m = 11 \<or> m = 12"
  by presburger

lemma month_cases:
  assumes "1 \<le> (m::int)" "m \<le> 12"
  obtains "m = 1" | "m = 2" | "m = 3" | "m = 4" | "m = 5" | "m = 6" | "m = 7" | "m = 8" | "m = 9"
    | "m = 10" | "m = 11" | "m = 12"
  using month_range [OF assms] by blast

lemmas month_simps = days_before_month_def days_before_month_common_def days_in_month_def

lemma month_day_correct:
  assumes "1 \<le> m" "m \<le> 12" "1 \<le> d" "d \<le> days_in_month y m" "leap = is_leap y"
  shows "month_day leap (days_before_month leap m + d - 1) = (m, d)"
proof -
  let ?n = "days_before_month leap m + d - 1"
  have "32 * m \<le> ?n + 50" "?n + 50 < 32 * m + (if m = 12 then 32 else 64)"
    by (rule month_cases [OF assms(1,2)];
        use assms(3-5) in \<open>simp add: month_simps split: if_splits\<close>)+
  then have guess: "(?n + 50) div 32 = m \<or> (?n + 50) div 32 = m + 1 \<and> m < 12"
    using assms(2) by (simp split: if_splits; linarith)
  have next_month: "m < 12 \<Longrightarrow> days_before_month leap (m + 1) > ?n"
    by (rule month_cases [OF assms(1,2)])
      (use assms(3-5) in \<open>simp_all add: month_simps split: if_splits\<close>)
  from guess next_month assms(3) show ?thesis
    by (auto simp: month_day_def Let_def)
qed

lemma div_mod_eq:
  fixes k :: int
  assumes "0 \<le> r" "r < k"
  shows "(k * q + r) div k = q" "(k * q + r) mod k = r"
  using assms by (simp_all add: div_pos_pos_trivial)

lemma mod_full_iff:
  fixes k :: int
  assumes "0 < r" "r \<le> k"
  shows "(k * q + r) mod k = 0 \<longleftrightarrow> r = k"
  using assms by (cases "r = k") (simp_all add: mod_pos_pos_trivial)

lemma year_digits:
  fixes Y :: int
  assumes "0 \<le> Y"
  obtains a b c e where "Y = 400 * a + 100 * b + 4 * c + e" "0 \<le> a" "0 \<le> b" "b \<le> 3"
    "0 \<le> c" "c \<le> 24" "0 \<le> e" "e \<le> 3"
proof -
  define r s where "r = Y mod 400" and "s = r mod 100"
  have r: "0 \<le> r" "r < 400" and s: "0 \<le> s" "s < 100" by (simp_all add: r_def s_def)
  have "Y = 400 * (Y div 400) + r" "r = 100 * (r div 100) + s" "s = 4 * (s div 4) + s mod 4"
    by (simp_all add: r_def s_def)
  then have "Y = 400 * (Y div 400) + 100 * (r div 100) + 4 * (s div 4) + s mod 4" by linarith
  moreover have "0 \<le> Y div 400" using assms by (simp add: pos_imp_zdiv_nonneg_iff)
  moreover have "0 \<le> r div 100" "r div 100 \<le> 3" using r by linarith+
  moreover have "0 \<le> s div 4" "s div 4 \<le> 24" using s by linarith+
  moreover have "0 \<le> s mod 4" "s mod 4 \<le> 3" by simp_all
  ultimately show ?thesis using that by blast
qed

lemma days_before_year_digits:
  fixes a b c e :: int
  assumes "0 \<le> b" "b \<le> 3" "0 \<le> c" "c \<le> 24" "0 \<le> e" "e \<le> 3"
  shows "days_before_year (400 * a + 100 * b + 4 * c + e + 1) = 146097 * a + 36524 * b + 1461 * c + 365 * e"
proof -
  let ?Y = "400 * a + 100 * b + 4 * c + e"
  have "?Y = 4 * (100 * a + 25 * b + c) + e" "?Y = 100 * (4 * a + b) + (4 * c + e)"
    "?Y = 400 * a + (100 * b + 4 * c + e)" by simp_all
  then have "?Y div 4 = 100 * a + 25 * b + c" "?Y div 100 = 4 * a + b" "?Y div 400 = a"
    using div_mod_eq(1) [of e 4 "100 * a + 25 * b + c"] div_mod_eq(1) [of "4 * c + e" 100 "4 * a + b"]
      div_mod_eq(1) [of "100 * b + 4 * c + e" 400 a] assms by simp_all
  then show ?thesis by (simp add: days_before_year_def Let_def)
qed

lemma leap_digits:
  fixes a b c e :: int
  assumes "0 \<le> b" "b \<le> 3" "0 \<le> c" "c \<le> 24" "0 \<le> e" "e \<le> 3"
  shows "is_leap (400 * a + 100 * b + 4 * c + e + 1) \<longleftrightarrow> e = 3 \<and> (c \<noteq> 24 \<or> b = 3)"
proof -
  let ?y = "400 * a + 100 * b + 4 * c + e + 1"
  have eqs: "?y = 4 * (100 * a + 25 * b + c) + (e + 1)" "?y = 100 * (4 * a + b) + (4 * c + e + 1)"
    "?y = 400 * a + (100 * b + 4 * c + e + 1)" by simp_all
  have "?y mod 4 = 0 \<longleftrightarrow> e + 1 = 4"
    unfolding eqs(1) by (rule mod_full_iff) (use assms in linarith)+
  moreover have "?y mod 100 = 0 \<longleftrightarrow> 4 * c + e + 1 = 100"
    unfolding eqs(2) by (rule mod_full_iff) (use assms in linarith)+
  moreover have "?y mod 400 = 0 \<longleftrightarrow> 100 * b + 4 * c + e + 1 = 400"
    unfolding eqs(3) by (rule mod_full_iff) (use assms in linarith)+
  moreover have "4 * c + e + 1 = 100 \<longleftrightarrow> c = 24 \<and> e = 3" using assms by linarith
  moreover have "100 * b + 4 * c + e + 1 = 400 \<longleftrightarrow> b = 3 \<and> c = 24 \<and> e = 3"
    using assms by linarith
  ultimately show ?thesis by (auto simp: is_leap_def)
qed

lemma doy_bounds:
  assumes "1 \<le> m" "m \<le> 12" "1 \<le> d" "d \<le> days_in_month y m"
  defines "t \<equiv> days_before_month (is_leap y) m + d - 1"
  shows "0 \<le> t" "t \<le> (if is_leap y then 365 else 364)" "t = 365 \<Longrightarrow> m = 12 \<and> d = 31"
  by (rule month_cases [OF assms(1,2)];
      use assms(3,4) in \<open>simp add: t_def month_simps split: if_splits\<close>)+

lemma ord2ymd_last_day:
  fixes a b c :: int
  assumes "0 \<le> a" "0 \<le> b" "b \<le> 3" "0 \<le> c" "c \<le> 24" "c \<noteq> 24 \<or> b = 3"
  shows "ord2ymd (146097 * a + (36524 * b + (1461 * c + 1460)) + 1)
    = (400 * a + 100 * b + 4 * c + 4, 12, 31)"
proof -
  define r where "r = 36524 * b + (1461 * c + 1460)"
  have "0 \<le> r" "r < 146097" using assms by (auto simp: r_def)
  then have r: "(146097 * a + r) div 146097 = a" "(146097 * a + r) mod 146097 = r"
    by (rule div_mod_eq)+
  show ?thesis
  proof (cases "c = 24")
    case True
    with assms have b: "b = 3" by simp
    have "r div 36524 = 4" "r mod 36524 = 0" using True b by (simp_all add: r_def)
    then show ?thesis using r True b unfolding ord2ymd_def r_def [symmetric] Let_def by simp
  next
    case False
    then have "0 \<le> 1461 * c + 1460" "1461 * c + 1460 < 36524" using assms by auto
    then have 2: "r div 36524 = b" "r mod 36524 = 1461 * c + 1460"
      unfolding r_def by (rule div_mod_eq)+
    have 3: "(1461 * c + 1460) div 1461 = c" "(1461 * c + 1460) mod 1461 = 1460"
      by (rule div_mod_eq; simp)+
    show ?thesis
      unfolding ord2ymd_def r_def [symmetric] Let_def add_diff_cancel_right' r 2 3 by simp
  qed
qed

lemma ord2ymd_inner_day:
  fixes a b c e t :: int
  assumes "0 \<le> a" "0 \<le> b" "b \<le> 3" "0 \<le> c" "c \<le> 24" "0 \<le> e" "e \<le> 3" "0 \<le> t" "t \<le> 364"
  shows "ord2ymd (146097 * a + (36524 * b + (1461 * c + (365 * e + t))) + 1)
    = (400 * a + 100 * b + 4 * c + e + 1, month_day (e = 3 \<and> (c \<noteq> 24 \<or> b = 3)) t)"
proof -
  define r4 where "r4 = 365 * e + t"
  define r100 where "r100 = 1461 * c + r4"
  define r400 where "r400 = 36524 * b + r100"
  have B: "0 \<le> r4" "r4 < 1461" "0 \<le> r100" "r100 < 36524" "0 \<le> r400" "r400 < 146097"
    using assms by (auto simp: r4_def r100_def r400_def)
  have 4: "r4 div 365 = e" "r4 mod 365 = t" unfolding r4_def
    using assms by (intro div_mod_eq; simp)+
  have 3: "r100 div 1461 = c" "r100 mod 1461 = r4"
    unfolding r100_def using B(1,2) by (rule div_mod_eq)+
  have 2: "r400 div 36524 = b" "r400 mod 36524 = r100"
    unfolding r400_def using B(3,4) by (rule div_mod_eq)+
  have 1: "(146097 * a + r400) div 146097 = a" "(146097 * a + r400) mod 146097 = r400"
    using B(5,6) by (rule div_mod_eq)+
  have "(e = 4 \<or> b = 4) = False" using assms by simp
  then show ?thesis
    unfolding ord2ymd_def r4_def [symmetric] r100_def [symmetric] r400_def [symmetric] Let_def
      add_diff_cancel_right' 1 2 3 4
    by (simp only: if_False split_beta prod.collapse) simp
qed

lemma ord2ymd_ymd2ord:
  assumes "valid_ymd y m d"
  shows "ord2ymd (ymd2ord y m d) = (y, m, d)"
proof -
  have md: "1 \<le> m" "m \<le> 12" "1 \<le> d" "d \<le> days_in_month y m" and "0 \<le> y - 1"
    using assms by (auto simp: valid_ymd_def)
  obtain a b c e where Y: "y - 1 = 400 * a + 100 * b + 4 * c + e" and
    B: "0 \<le> a" "0 \<le> b" "b \<le> 3" "0 \<le> c" "c \<le> 24" "0 \<le> e" "e \<le> 3"
    using year_digits [OF \<open>0 \<le> y - 1\<close>] .
  have y: "y = 400 * a + 100 * b + 4 * c + e + 1" using Y by simp
  let ?leap = "e = 3 \<and> (c \<noteq> 24 \<or> b = 3)"
  let ?t = "days_before_month (is_leap y) m + d - 1"
  have leap: "is_leap y \<longleftrightarrow> ?leap" unfolding y by (rule leap_digits) (use B in auto)
  have ord: "ymd2ord y m d = 146097 * a + (36524 * b + (1461 * c + (365 * e + ?t))) + 1"
    using days_before_year_digits [of b c e a] B by (simp add: ymd2ord_def y)
  note t = doy_bounds [OF md]
  show ?thesis
  proof (cases "?t = 365")
    case True
    with t(2) have "is_leap y" by (simp split: if_splits)
    with leap have e: "e = 3" "c \<noteq> 24 \<or> b = 3" by auto
    have "ymd2ord y m d = 146097 * a + (36524 * b + (1461 * c + 1460)) + 1"
      using ord True e(1) by simp
    then show ?thesis
      using ord2ymd_last_day [of a b c] B e t(3) [OF True] by (simp add: y)
  next
    case False
    with t(2) have "?t \<le> 364" by (simp split: if_splits)
    then have "ord2ymd (ymd2ord y m d) = (y, month_day (is_leap y) ?t)"
      unfolding ord leap using ord2ymd_inner_day [of a b c e "days_before_month ?leap m + d - 1"] B t(1)
      by (simp add: leap y [symmetric])
    then show ?thesis using month_day_correct [OF md refl] by simp
  qed
qed

section \<open>Datetimes\<close>

type_synonym datetime = int
type_synonym timedelta = int

definition us_per_day :: int where "us_per_day = 86400000000"

definition dt_ordinal :: "datetime \<Rightarrow> int" where "dt_ordinal t = t div us_per_day + 1"

definition dt_hour :: "datetime \<Rightarrow> int" where "dt_hour t = (t div 3600000000) mod 24"

definition dt_minute :: "datetime \<Rightarrow> int" where "dt_minute t = (t div 60000000) mod 60"

definition dt_year :: "datetime \<Rightarrow> int" where "dt_year t = fst (ord2ymd (dt_ordinal t))"

definition dt_month :: "datetime \<Rightarrow> int" where "dt_month t = fst (snd (ord2ymd (dt_ordinal t)))"

definition dt_day :: "datetime \<Rightarrow> int" where "dt_day t = snd (snd (ord2ymd (dt_ordinal t)))"

text \<open>\<open>isoweekday\<close>: \<open>toordinal() % 7 or 7\<close>.\<close>

definition dt_isoweekday :: "datetime \<Rightarrow> int" where
  "dt_isoweekday t = (if dt_ordinal t mod 7 = 0 then 7 else dt_ordinal t mod 7)"

definition dt_yday :: "datetime \<Rightarrow> int" where
  "dt_yday t = dt_ordinal t - days_before_year (dt_year t)"

section \<open>Decimal text\<close>

definition digit_char :: "int \<Rightarrow> char" where
  "digit_char d = char_of (48 + nat d)"

definition digit_value :: "char \<Rightarrow> int" where
  "digit_value c = int (of_char c) - 48"

definition is_digit :: "char \<Rightarrow> bool" where
  "is_digit c \<longleftrightarrow> 48 \<le> (of_char c :: nat) \<and> (of_char c :: nat) \<le> 57"

lemma digit_char_value:
  assumes "0 \<le> d" "d \<le> 9"
  shows "is_digit (digit_char d)" "digit_value (digit_char d) = d"
proof -
  have "(of_char (digit_char d) :: nat) = 48 + nat d"
    using assms unfolding digit_char_def by (simp add: of_char_of)
  then show "is_digit (digit_char d)" "digit_value (digit_char d) = d"
    using assms by (simp_all add: is_digit_def digit_value_def)
qed

text \<open>Two digits with a leading zero, and the four digit year of \<open>strftime\<close> for years from 1000.\<close>

definition fmt2 :: "int \<Rightarrow> string" where
  "fmt2 v = [digit_char (v div 10), digit_char (v mod 10)]"

definition fmt4 :: "int \<Rightarrow> string" where
  "fmt4 v = [digit_char (v div 1000), digit_char (v div 100 mod 10), digit_char (v div 10 mod 10),
     digit_char (v mod 10)]"

end
