(* ===== verification/Attributes.thy ===== *)
theory Attributes
  imports Takler_Errors Takler_State Py_Dates
begin

text \<open>
  The attributes a node carries: parameters, events, meters, limits and in-limits, time
  attributes, the calendar of a flow and the date repeat
  (\<^verbatim>\<open>parameter.py\<close>, \<^verbatim>\<open>event.py\<close>, \<^verbatim>\<open>meter.py\<close>, \<^verbatim>\<open>limit.py\<close>, \<^verbatim>\<open>time_attr.py\<close>,
  \<^verbatim>\<open>calendar.py\<close>, \<^verbatim>\<open>repeat.py\<close> under \<^verbatim>\<open>takler/core\<close>). Each operation is a function of the attribute
  alone; the node theories lift them into the tree.
\<close>

section \<open>Parameters\<close>

text \<open>The value of a parameter. Floating point values are outside the model.\<close>

datatype pval = PNone | PStr string | PInt int | PBool bool

record parameter =
  pa_name :: string
  pa_value :: pval

definition Parameter :: "string \<Rightarrow> pval \<Rightarrow> parameter" where
  "Parameter n v = \<lparr>pa_name = n, pa_value = v\<rparr>"

section \<open>Events\<close>

record event =
  ev_name :: string
  ev_initial_value :: bool
  ev_value :: bool

definition Event :: "string \<Rightarrow> bool \<Rightarrow> event" where
  "Event n iv = \<lparr>ev_name = n, ev_initial_value = iv, ev_value = iv\<rparr>"

definition event_set_value :: "bool \<Rightarrow> event \<Rightarrow> event" where
  "event_set_value v e = e\<lparr>ev_value := v\<rparr>"

definition event_reset :: "event \<Rightarrow> event" where
  "event_reset e = event_set_value (ev_initial_value e) e"

section \<open>Meters\<close>

record meter =
  mt_name :: string
  mt_min_value :: int
  mt_max_value :: int
  mt_value :: int

definition Meter :: "string \<Rightarrow> int \<Rightarrow> int \<Rightarrow> meter" where
  "Meter n lo hi = \<lparr>mt_name = n, mt_min_value = lo, mt_max_value = hi, mt_value = lo\<rparr>"

definition meter_is_invalid :: "meter \<Rightarrow> int \<Rightarrow> bool" where
  "meter_is_invalid m v \<longleftrightarrow> v < mt_min_value m \<or> v > mt_max_value m"

definition meter_set_value :: "int \<Rightarrow> meter \<Rightarrow> exc + meter" where
  "meter_set_value v m =
     (if meter_is_invalid m v then Inl (PyError PyValueError) else Inr (m\<lparr>mt_value := v\<rparr>))"

definition meter_reset :: "meter \<Rightarrow> exc + meter" where
  "meter_reset m = meter_set_value (mt_min_value m) m"

definition meter_ok :: "meter \<Rightarrow> bool" where
  "meter_ok m \<longleftrightarrow> mt_min_value m \<le> mt_value m \<and> mt_value m \<le> mt_max_value m"

lemma meter_new_ok: "lo \<le> hi \<Longrightarrow> meter_ok (Meter n lo hi)"
  by (simp add: meter_ok_def Meter_def)

lemma meter_set_ok: "meter_set_value v m = Inr m' \<Longrightarrow> meter_ok m'"
  by (auto simp: meter_set_value_def meter_is_invalid_def meter_ok_def split: if_splits)

lemma meter_reset_total: "meter_ok m \<Longrightarrow> meter_reset m = Inr (m\<lparr>mt_value := mt_min_value m\<rparr>)"
  by (auto simp: meter_reset_def meter_set_value_def meter_is_invalid_def meter_ok_def)

section \<open>Limits\<close>

text \<open>
  A position in the tree of flows, leaf first: the head is the index of a node among the children
  of its parent, the last entry the identity of the flow object the node belongs to. A limit is
  identified by the position of the node that owns it and its index in that node's list.
\<close>

type_synonym pos = "nat list"
type_synonym lref = "pos \<times> nat"

record limit =
  lm_name :: string
  lm_limit :: int
  lm_value :: int
  lm_node_paths :: "string set"

definition Limit :: "string \<Rightarrow> int \<Rightarrow> limit" where
  "Limit n l = \<lparr>lm_name = n, lm_limit = l, lm_value = 0, lm_node_paths = {}\<rparr>"

definition limit_in_limit :: "limit \<Rightarrow> int \<Rightarrow> bool" where
  "limit_in_limit l tokens \<longleftrightarrow> lm_value l + tokens \<le> lm_limit l"

definition limit_increment :: "int \<Rightarrow> string \<Rightarrow> limit \<Rightarrow> limit" where
  "limit_increment tokens path l =
     (if path \<in> lm_node_paths l then l
      else l\<lparr>lm_node_paths := insert path (lm_node_paths l), lm_value := lm_value l + tokens\<rparr>)"

definition limit_decrement :: "int \<Rightarrow> string \<Rightarrow> limit \<Rightarrow> limit" where
  "limit_decrement tokens path l =
     (if path \<notin> lm_node_paths l then l
      else let v = lm_value l - tokens in
        if v < 0 then l\<lparr>lm_node_paths := {}, lm_value := 0\<rparr>
        else l\<lparr>lm_node_paths := lm_node_paths l - {path}, lm_value := v\<rparr>)"

definition limit_reset :: "limit \<Rightarrow> limit" where
  "limit_reset l = l\<lparr>lm_node_paths := {}, lm_value := 0\<rparr>"

text \<open>What a limit promises: no negative count, never over capacity.\<close>

definition limit_ok :: "limit \<Rightarrow> bool" where
  "limit_ok l \<longleftrightarrow> 0 \<le> lm_value l \<and> lm_value l \<le> lm_limit l"

lemma limit_increment_idem: "limit_increment k p (limit_increment j p l) = limit_increment j p l"
  by (simp add: limit_increment_def)

lemma limit_decrement_idem: "limit_decrement k p (limit_decrement j p l) = limit_decrement j p l"
  by (simp add: limit_decrement_def Let_def)

lemma limit_frame [simp]:
  "lm_name (limit_increment k p l) = lm_name l" "lm_limit (limit_increment k p l) = lm_limit l"
  "lm_name (limit_decrement k p l) = lm_name l" "lm_limit (limit_decrement k p l) = lm_limit l"
  by (simp_all add: limit_increment_def limit_decrement_def Let_def)

lemma limit_increment_ok:
  "limit_ok l \<Longrightarrow> 0 \<le> k \<Longrightarrow> path \<in> lm_node_paths l \<or> lm_value l + k \<le> lm_limit l \<Longrightarrow>
   limit_ok (limit_increment k path l)"
  by (auto simp: limit_increment_def limit_ok_def)

lemma limit_decrement_ok: "limit_ok l \<Longrightarrow> 0 \<le> k \<Longrightarrow> limit_ok (limit_decrement k path l)"
  by (auto simp: limit_decrement_def limit_ok_def Let_def)

lemma limit_decrement_nonneg: "0 \<le> lm_value l \<Longrightarrow> 0 \<le> lm_value (limit_decrement k path l)"
  by (auto simp: limit_decrement_def Let_def)

lemma limit_decrement_increment:
  "path \<notin> lm_node_paths l \<Longrightarrow> 0 \<le> lm_value l \<Longrightarrow> limit_decrement k path (limit_increment k path l) = l"
  by (simp add: limit_decrement_def limit_increment_def Let_def)

text \<open>
  The abstract specification of a limit: a table of reservations. The concrete count is the sum of
  the tokens reserved, as long as every holder is released with the tokens it reserved.
\<close>

definition limit_abs :: "limit \<Rightarrow> (string \<rightharpoonup> int) \<Rightarrow> bool" where
  "limit_abs l h \<longleftrightarrow> finite (dom h) \<and> dom h = lm_node_paths l \<and> lm_value l = (\<Sum>p \<in> dom h. the (h p))
     \<and> (\<forall>p \<in> dom h. 0 \<le> the (h p))"

lemma limit_abs_new: "limit_abs (Limit n l) Map.empty"
  by (simp add: limit_abs_def Limit_def)

lemma sum_upd_the:
  "p \<notin> A \<Longrightarrow> (\<Sum>q\<in>A. the (if q = p then Some k else h q)) = (\<Sum>q\<in>A. the (h q) :: int)"
  by (rule sum.cong) auto

lemma limit_abs_increment:
  assumes "limit_abs l h" "0 \<le> k"
  shows "limit_abs (limit_increment k p l) (if h p = None then h(p \<mapsto> k) else h)"
proof (cases "h p = None")
  case True
  then have p: "p \<notin> dom h" by auto
  with assms(1) have "p \<notin> lm_node_paths l" by (simp add: limit_abs_def)
  with assms p True show ?thesis
    by (auto simp: limit_abs_def limit_increment_def sum_upd_the)
next
  case False
  then have "p \<in> lm_node_paths l" using assms(1) by (auto simp: limit_abs_def)
  then have "limit_increment k p l = l" by (simp add: limit_increment_def)
  with False assms(1) show ?thesis by auto
qed

lemma limit_abs_decrement:
  assumes abs: "limit_abs l h" and k: "h p = Some k \<or> h p = None"
  shows "limit_abs (limit_decrement k p l) (h(p := None))"
proof (cases "h p = None")
  case True
  then have "p \<notin> lm_node_paths l" using abs by (auto simp: limit_abs_def)
  moreover have "h(p := None) = h" using True by auto
  ultimately show ?thesis using abs by (simp add: limit_decrement_def)
next
  case False
  with k have hp: "h p = Some k" by simp
  then have pin: "p \<in> dom h" by auto
  have fin: "finite (dom h)" and nn: "\<forall>q\<in>dom h. 0 \<le> the (h q)"
    and val: "lm_value l = (\<Sum>q\<in>dom h. the (h q))" and dom: "dom h = lm_node_paths l"
    using abs by (auto simp: limit_abs_def)
  have "(\<Sum>q\<in>dom h. the (h q)) = k + (\<Sum>q\<in>dom h - {p}. the (h q))"
    using sum.remove [OF fin pin, of "\<lambda>q. the (h q)"] hp by simp
  then have v: "lm_value l - k = (\<Sum>q\<in>dom h - {p}. the (h q))" using val by simp
  have "0 \<le> (\<Sum>q\<in>dom h - {p}. the (h q))" using nn by (intro sum_nonneg) auto
  moreover have "(\<Sum>q\<in>dom h - {p}. the ((h(p := None)) q)) = (\<Sum>q\<in>dom h - {p}. the (h q))"
    by (rule sum.cong) auto
  ultimately show ?thesis
    using v dom pin fin nn by (auto simp: limit_abs_def limit_decrement_def Let_def)
qed

section \<open>In-limits\<close>

record in_limit =
  il_limit_name :: string
  il_tokens :: int
  il_node_path :: "string option"
  il_limit :: "lref option"

definition InLimit :: "string \<Rightarrow> string option \<Rightarrow> int \<Rightarrow> in_limit" where
  "InLimit n np tokens = \<lparr>il_limit_name = n, il_tokens = tokens, il_node_path = np, il_limit = None\<rparr>"

text \<open>\<open>InLimitManager.has_in_limit\<close>: equal limit name and equal (or both absent) node path.\<close>

definition has_in_limit :: "in_limit list \<Rightarrow> in_limit \<Rightarrow> bool" where
  "has_in_limit items il \<longleftrightarrow>
     (\<exists>item \<in> set items. il_limit_name item = il_limit_name il \<and> il_node_path item = il_node_path il)"

section \<open>Calendar\<close>

record calendar =
  cal_initial_time :: "datetime option"
  cal_flow_time :: "datetime option"
  cal_duration :: "timedelta option"
  cal_increment :: "timedelta option"
  cal_initial_real_time :: "datetime option"
  cal_last_real_time :: "datetime option"

definition Calendar :: calendar where
  "Calendar = \<lparr>cal_initial_time = None, cal_flow_time = None, cal_duration = None,
     cal_increment = None, cal_initial_real_time = None, cal_last_real_time = None\<rparr>"

definition cal_field :: "(datetime \<Rightarrow> int) \<Rightarrow> calendar \<Rightarrow> int" where
  "cal_field f c = (case cal_flow_time c of None \<Rightarrow> -1 | Some t \<Rightarrow> f t)"

definition calendar_year :: "calendar \<Rightarrow> int" where "calendar_year = cal_field dt_year"

definition calendar_month :: "calendar \<Rightarrow> int" where "calendar_month = cal_field dt_month"

definition calendar_day_of_month :: "calendar \<Rightarrow> int" where "calendar_day_of_month = cal_field dt_day"

definition calendar_day_of_week :: "calendar \<Rightarrow> int" where "calendar_day_of_week = cal_field dt_isoweekday"

definition calendar_day_of_year :: "calendar \<Rightarrow> int" where "calendar_day_of_year = cal_field dt_yday"

text \<open>\<open>begin(time)\<close>; the second argument is the reading of \<open>datetime.now()\<close> it makes.\<close>

definition calendar_begin :: "datetime \<Rightarrow> datetime \<Rightarrow> calendar \<Rightarrow> calendar" where
  "calendar_begin time now c = c\<lparr>cal_initial_time := Some time, cal_flow_time := Some time,
     cal_duration := Some 0, cal_increment := Some 0,
     cal_initial_real_time := Some now, cal_last_real_time := Some now\<rparr>"

text \<open>\<open>update(time)\<close>: arithmetic on a missing field raises, after the writes before it.\<close>

definition calendar_update :: "datetime \<Rightarrow> calendar \<Rightarrow> exc option \<times> calendar" where
  "calendar_update now c =
     (case cal_last_real_time c of
        None \<Rightarrow> (Some (PyError PyTypeError), c)
      | Some lrt \<Rightarrow>
          let c1 = c\<lparr>cal_increment := Some (now - lrt)\<rparr> in
          (case cal_initial_real_time c of
             None \<Rightarrow> (Some (PyError PyTypeError), c1)
           | Some irt \<Rightarrow>
               let c2 = c1\<lparr>cal_duration := Some (now - irt)\<rparr> in
               (case cal_flow_time c of
                  None \<Rightarrow> (Some (PyError PyTypeError), c2)
                | Some ft \<Rightarrow>
                    (None, c2\<lparr>cal_flow_time := Some (ft + (now - lrt)), cal_last_real_time := Some now\<rparr>))))"

text \<open>A started calendar: logical time runs in step with real time.\<close>

definition calendar_ok :: "calendar \<Rightarrow> bool" where
  "calendar_ok c \<longleftrightarrow> (case (cal_initial_time c, cal_flow_time c, cal_duration c, cal_initial_real_time c,
        cal_last_real_time c) of
      (Some it, Some ft, Some du, Some irt, Some lrt) \<Rightarrow> du = lrt - irt \<and> ft = it + du
    | _ \<Rightarrow> False)"

lemma calendar_begin_ok: "calendar_ok (calendar_begin t now c)"
  by (simp add: calendar_begin_def calendar_ok_def)

lemma calendar_update_ok:
  "calendar_ok c \<Longrightarrow> fst (calendar_update now c) = None \<and> calendar_ok (snd (calendar_update now c))"
  by (auto simp: calendar_ok_def calendar_update_def Let_def split: option.splits)

section \<open>Time attributes\<close>

record time_attr =
  ta_hour :: int
  ta_minute :: int
  ta_free :: bool

definition TimeAttribute :: "int \<Rightarrow> int \<Rightarrow> time_attr" where
  "TimeAttribute h m = \<lparr>ta_hour = h, ta_minute = m, ta_free = False\<rparr>"

text \<open>Reading the hour of a missing flow time raises \<open>AttributeError\<close>.\<close>

definition time_is_free :: "calendar \<Rightarrow> time_attr \<Rightarrow> exc + bool" where
  "time_is_free cal ta =
     (if ta_free ta then Inr True
      else case cal_flow_time cal of
        None \<Rightarrow> Inl (PyError PyAttributeError)
      | Some t \<Rightarrow> Inr (dt_hour t = ta_hour ta \<and> dt_minute t = ta_minute ta))"

definition time_set_free :: "time_attr \<Rightarrow> time_attr" where "time_set_free ta = ta\<lparr>ta_free := True\<rparr>"

definition time_clear_free :: "time_attr \<Rightarrow> time_attr" where "time_clear_free ta = ta\<lparr>ta_free := False\<rparr>"

definition time_reset :: "time_attr \<Rightarrow> time_attr" where "time_reset ta = time_clear_free ta"

definition time_calendar_changed :: "calendar \<Rightarrow> time_attr \<Rightarrow> exc + time_attr" where
  "time_calendar_changed cal ta =
     (if ta_free ta then Inr ta
      else case time_is_free cal ta of
        Inl e \<Rightarrow> Inl e
      | Inr b \<Rightarrow> Inr (if b then time_set_free ta else ta))"

text \<open>The latch: once the minute has been seen, the attribute stays free whatever the calendar.\<close>

lemma time_latch:
  "time_calendar_changed cal ta = Inr ta' \<Longrightarrow> time_is_free cal ta = Inr True \<Longrightarrow>
   time_is_free cal' ta' = Inr True"
  by (auto simp: time_calendar_changed_def time_is_free_def time_set_free_def split: if_splits)

section \<open>Date repeat\<close>

text \<open>\<open>step\<close> counts days; the dates are ordinals.\<close>

record repeat_date =
  rd_name :: string
  rd_start :: int
  rd_end :: int
  rd_step :: int
  rd_value :: int

definition RepeatDate :: "string \<Rightarrow> int \<Rightarrow> int \<Rightarrow> int \<Rightarrow> repeat_date" where
  "RepeatDate n s e st = \<lparr>rd_name = n, rd_start = s, rd_end = e, rd_step = st, rd_value = s\<rparr>"

definition date_int :: "int \<Rightarrow> int" where
  "date_int ord = (case ord2ymd ord of (y, m, d) \<Rightarrow> y * 10000 + m * 100 + d)"

definition repeat_start :: "repeat_date \<Rightarrow> int" where "repeat_start r = date_int (rd_start r)"

definition repeat_end :: "repeat_date \<Rightarrow> int" where "repeat_end r = date_int (rd_end r)"

definition repeat_value :: "repeat_date \<Rightarrow> int" where "repeat_value r = date_int (rd_value r)"

definition repeat_valid :: "repeat_date \<Rightarrow> bool" where
  "repeat_valid r \<longleftrightarrow> rd_start r \<le> rd_value r \<and> rd_value r \<le> rd_end r"

text \<open>\<open>date + timedelta\<close> outside the calendar raises \<open>OverflowError\<close>.\<close>

definition date_add :: "int \<Rightarrow> int \<Rightarrow> exc + int" where
  "date_add d k = (if 1 \<le> d + k \<and> d + k \<le> MAXORDINAL then Inr (d + k) else Inl (PyError PyOverflowError))"

definition repeat_increment :: "repeat_date \<Rightarrow> exc + (bool \<times> repeat_date)" where
  "repeat_increment r =
     (case date_add (rd_value r) (rd_step r) of
        Inl e \<Rightarrow> Inl e
      | Inr v \<Rightarrow> if v \<le> rd_end r then Inr (True, r\<lparr>rd_value := v\<rparr>) else Inr (False, r))"

definition repeat_change :: "int \<Rightarrow> repeat_date \<Rightarrow> exc + repeat_date" where
  "repeat_change v r =
     (if v < rd_start r \<or> v > rd_end r then Inl (PyError PyValueError)
      else if rd_step r = 0 then Inl (PyError PyZeroDivisionError)
      else if \<not> rd_step r dvd (v - rd_start r) then Inl (PyError PyValueError)
      else Inr (r\<lparr>rd_value := v\<rparr>))"

definition repeat_reset :: "repeat_date \<Rightarrow> repeat_date" where
  "repeat_reset r = r\<lparr>rd_value := rd_start r\<rparr>"

definition repeat_generated_parameters :: "repeat_date \<Rightarrow> parameter dict" where
  "repeat_generated_parameters r = [(rd_name r, Parameter (rd_name r) (PInt (repeat_value r)))]"

text \<open>The wrapper class \<open>Repeat\<close> holds an optional inner repeat; calling through \<open>None\<close> raises.\<close>

record repeat =
  rp_r :: "repeat_date option"

definition Repeat_increment :: "repeat \<Rightarrow> exc + (bool \<times> repeat)" where
  "Repeat_increment rp =
     (case rp_r rp of
        None \<Rightarrow> Inl (PyError PyAttributeError)
      | Some r \<Rightarrow> (case repeat_increment r of
                     Inl e \<Rightarrow> Inl e
                   | Inr (b, r') \<Rightarrow> Inr (b, rp\<lparr>rp_r := Some r'\<rparr>)))"

definition Repeat_reset :: "repeat \<Rightarrow> exc + repeat" where
  "Repeat_reset rp =
     (case rp_r rp of
        None \<Rightarrow> Inl (PyError PyAttributeError)
      | Some r \<Rightarrow> Inr (rp\<lparr>rp_r := Some (repeat_reset r)\<rparr>))"

definition Repeat_generated_parameters :: "repeat \<Rightarrow> exc + parameter dict" where
  "Repeat_generated_parameters rp =
     (case rp_r rp of
        None \<Rightarrow> Inl (PyError PyAttributeError)
      | Some r \<Rightarrow> Inr (repeat_generated_parameters r))"

text \<open>A repeat that is on its grid of dates and inside its range.\<close>

definition repeat_ok :: "repeat_date \<Rightarrow> bool" where
  "repeat_ok r \<longleftrightarrow> 1 \<le> rd_start r \<and> rd_end r \<le> MAXORDINAL \<and> 0 < rd_step r \<and> repeat_valid r
     \<and> rd_step r dvd (rd_value r - rd_start r)"

lemma repeat_increment_ok:
  "repeat_ok r \<Longrightarrow> repeat_increment r = Inr (b, r') \<Longrightarrow> repeat_ok r'"
  by (auto simp: repeat_ok_def repeat_increment_def repeat_valid_def date_add_def
      split: sum.splits if_splits) (simp add: algebra_simps dvd_add_right_iff flip: add_diff_eq)

lemma repeat_change_ok:
  "repeat_ok r \<Longrightarrow> repeat_change v r = Inr r' \<Longrightarrow> repeat_ok r'"
  by (auto simp: repeat_ok_def repeat_change_def repeat_valid_def split: if_splits)

lemma repeat_reset_ok: "repeat_ok r \<Longrightarrow> repeat_ok (repeat_reset r)"
  by (auto simp: repeat_ok_def repeat_reset_def repeat_valid_def)

text \<open>The loop a repeat drives: increment until it answers \<open>False\<close> or raises.\<close>

fun repeat_run :: "nat \<Rightarrow> repeat_date \<Rightarrow> int list" where
  "repeat_run 0 r = [rd_value r]"
| "repeat_run (Suc k) r =
     (case repeat_increment r of Inr (True, r') \<Rightarrow> rd_value r # repeat_run k r' | _ \<Rightarrow> [rd_value r])"

lemma repeat_increment_cases:
  assumes "repeat_ok r"
  shows "repeat_increment r =
    (if rd_value r + rd_step r \<le> rd_end r then Inr (True, r\<lparr>rd_value := rd_value r + rd_step r\<rparr>)
     else if rd_value r + rd_step r \<le> MAXORDINAL then Inr (False, r)
     else Inl (PyError PyOverflowError))"
  using assms by (auto simp: repeat_ok_def repeat_increment_def repeat_valid_def date_add_def)


end
