(* ===== verification/Posix_Path.thy ===== *)
theory Posix_Path
  imports Takler_Prelude
begin

text \<open>
  The part of Python's \<open>pathlib.PurePosixPath\<close> and \<open>str.split\<close> that the node paths use: joining
  segments, splitting off the root, dropping empty and dot components, parent, join, parts and
  the printed form. It is the standard library's behaviour, written out.
\<close>

abbreviation slash :: char where "slash \<equiv> CHR ''/''"

definition startswith :: "string \<Rightarrow> string \<Rightarrow> bool" where
  "startswith s pre \<longleftrightarrow> take (length pre) s = pre"

definition endswith :: "string \<Rightarrow> string \<Rightarrow> bool" where
  "endswith s suf \<longleftrightarrow> length suf \<le> length s \<and> drop (length s - length suf) s = suf"

fun py_split :: "char \<Rightarrow> string \<Rightarrow> string list" where
  "py_split c [] = [[]]"
| "py_split c (x # xs) =
     (if x = c then [] # py_split c xs
      else (case py_split c xs of [] \<Rightarrow> [[x]] | y # ys \<Rightarrow> (x # y) # ys))"

fun py_join :: "string \<Rightarrow> string list \<Rightarrow> string" where
  "py_join sep [] = []"
| "py_join sep [x] = x"
| "py_join sep (x # y # ys) = x @ sep @ py_join sep (y # ys)"

definition posix_join :: "string \<Rightarrow> string \<Rightarrow> string" where
  "posix_join a b =
     (if startswith b ''/'' then b
      else if a = [] \<or> endswith a ''/'' then a @ b
      else a @ ''/'' @ b)"

record posix_path =
  pp_root :: string
  pp_tail :: "string list"

definition splitroot :: "string \<Rightarrow> string \<times> string" where
  "splitroot p =
     (if \<not> startswith p ''/'' then ([], p)
      else if startswith p ''//'' \<and> \<not> startswith p ''///'' then (''//'', drop 2 p)
      else (''/'', drop 1 p))"

definition parse_path :: "string \<Rightarrow> posix_path" where
  "parse_path s = (let (root, rel) = splitroot s in
     \<lparr>pp_root = root, pp_tail = filter (\<lambda>x. x \<noteq> [] \<and> x \<noteq> ''.'') (py_split slash rel)\<rparr>)"

definition path_str :: "posix_path \<Rightarrow> string" where
  "path_str p = (let s = pp_root p @ py_join ''/'' (pp_tail p) in if s = [] then ''.'' else s)"

definition path_parent :: "posix_path \<Rightarrow> posix_path" where
  "path_parent p = (if pp_tail p = [] then p else p\<lparr>pp_tail := butlast (pp_tail p)\<rparr>)"

definition path_joinpath :: "posix_path \<Rightarrow> string \<Rightarrow> posix_path" where
  "path_joinpath p s = parse_path (posix_join (path_str p) s)"

text \<open>\<open>PurePosixPath("/", *names)\<close>, the path object behind \<open>Node.node_path\<close>.\<close>

definition pure_path :: "string list \<Rightarrow> posix_path" where
  "pure_path names = parse_path (foldl posix_join ''/'' names)"

section \<open>Clean names\<close>

text \<open>A name that pathlib passes through unchanged.\<close>

definition clean_name :: "string \<Rightarrow> bool" where
  "clean_name n \<longleftrightarrow> n \<noteq> [] \<and> slash \<notin> set n \<and> n \<noteq> ''.'' \<and> n \<noteq> ''..''"

lemma startswith_Cons [simp]: "startswith (x # xs) (y # ys) \<longleftrightarrow> x = y \<and> startswith xs ys"
  by (auto simp: startswith_def)

lemma startswith_Nil [simp]: "startswith s []" "startswith [] (c # cs) = False"
  by (simp_all add: startswith_def)

lemma endswith_slash [simp]: "endswith (xs @ [c]) ''/'' \<longleftrightarrow> c = slash"
  by (auto simp: endswith_def)

lemma py_split_no_sep [simp]: "c \<notin> set xs \<Longrightarrow> py_split c xs = [xs]"
  by (induction xs) auto

lemma py_split_append_sep:
  "c \<notin> set xs \<Longrightarrow> py_split c (xs @ c # ys) = xs # py_split c ys"
  by (induction xs) auto

lemma py_split_join:
  "names \<noteq> [] \<Longrightarrow> \<forall>n \<in> set names. c \<notin> set n \<Longrightarrow> py_split c (py_join [c] names) = names"
proof (induction "[c]" names rule: py_join.induct)
  case (3 x y ys)
  then show ?case by (simp add: py_split_append_sep)
qed simp_all

lemma clean_not_slash:
  assumes "clean_name n"
  shows "\<not> startswith n ''/''" and "\<not> endswith (xs @ n) ''/''"
proof -
  from assms obtain m c where n: "n = m @ [c]" "c \<noteq> slash"
    by (cases n rule: rev_cases) (auto simp: clean_name_def)
  have "endswith (xs @ n) ''/'' \<longleftrightarrow> c = slash"
    unfolding n append_assoc [symmetric] by (rule endswith_slash)
  then show "\<not> endswith (xs @ n) ''/''" using n(2) by simp
  show "\<not> startswith n ''/''" using assms by (cases n) (auto simp: clean_name_def)
qed

lemma foldl_posix_join_clean:
  assumes "\<forall>n \<in> set names. clean_name n" and "pre \<noteq> []" and "\<not> endswith pre ''/''"
  shows "foldl posix_join pre names = pre @ concat (map (\<lambda>n. ''/'' @ n) names)"
  using assms
proof (induction names arbitrary: pre)
  case Nil
  then show ?case by simp
next
  case (Cons n ns)
  then have n: "clean_name n" by simp
  then have "posix_join pre n = pre @ ''/'' @ n"
    using Cons.prems clean_not_slash(1) by (simp add: posix_join_def)
  moreover have "\<not> endswith (pre @ ''/'' @ n) ''/''"
    using clean_not_slash(2) [OF n, of "pre @ ''/''"] by simp
  ultimately show ?case using Cons by simp
qed

lemma slash_join: "names \<noteq> [] \<Longrightarrow> concat (map (\<lambda>n. ''/'' @ n) names) = ''/'' @ py_join ''/'' names"
  by (induction "''/''" names rule: py_join.induct) simp_all

lemma posix_join_root: "clean_name n \<Longrightarrow> posix_join ''/'' n = ''/'' @ n"
  using clean_not_slash(1) [of n] by (simp add: posix_join_def endswith_def)

lemma foldl_root_clean:
  assumes "\<forall>n \<in> set names. clean_name n"
  shows "foldl posix_join ''/'' names = ''/'' @ py_join ''/'' names"
proof (cases names)
  case Nil
  then show ?thesis by simp
next
  case (Cons n ns)
  then have n: "clean_name n" and ns: "\<forall>n \<in> set ns. clean_name n" using assms by auto
  have "\<not> endswith (''/'' @ n) ''/''" using clean_not_slash(2) [OF n] .
  then have "foldl posix_join (''/'' @ n) ns = (''/'' @ n) @ concat (map (\<lambda>n. ''/'' @ n) ns)"
    using ns foldl_posix_join_clean [of ns "''/'' @ n"] by simp
  then show ?thesis
    using n slash_join [of "n # ns"] by (simp add: Cons posix_join_root)
qed

lemma py_join_clean_head:
  assumes "\<forall>n \<in> set names. clean_name n"
  shows "\<not> startswith (py_join ''/'' names) ''/''"
proof (cases names)
  case Nil
  then show ?thesis by simp
next
  case (Cons n ns)
  then have "clean_name n" using assms by simp
  then obtain c cs where "n = c # cs" "c \<noteq> slash" by (cases n) (auto simp: clean_name_def)
  then show ?thesis using Cons by (cases ns) simp_all
qed

lemma py_split_slash_clean:
  assumes "\<forall>n \<in> set names. clean_name n"
  shows "filter (\<lambda>x. x \<noteq> [] \<and> x \<noteq> ''.'') (py_split slash (py_join ''/'' names)) = names"
proof (cases "names = []")
  case True
  then show ?thesis by simp
next
  case False
  then have "py_split slash (py_join ''/'' names) = names"
    using assms by (intro py_split_join) (auto simp: clean_name_def)
  then show ?thesis using assms by (auto simp: clean_name_def filter_id_conv)
qed

lemma parse_path_clean:
  assumes "\<forall>n \<in> set names. clean_name n"
  shows "parse_path (''/'' @ py_join ''/'' names) = \<lparr>pp_root = ''/'', pp_tail = names\<rparr>"
  using py_join_clean_head [OF assms] py_split_slash_clean [OF assms]
  by (simp add: parse_path_def splitroot_def)

lemma pure_path_clean:
  "\<forall>n \<in> set names. clean_name n \<Longrightarrow> pure_path names = \<lparr>pp_root = ''/'', pp_tail = names\<rparr>"
  unfolding pure_path_def by (simp only: foldl_root_clean parse_path_clean)

lemma path_str_clean:
  "\<forall>n \<in> set names. clean_name n \<Longrightarrow> path_str (pure_path names) = ''/'' @ py_join ''/'' names"
  by (simp add: pure_path_clean path_str_def)

text \<open>Printing and parsing a path of clean names is the identity, so printed paths are unique.\<close>

lemma pp_tail_parse_str:
  "\<forall>n \<in> set names. clean_name n \<Longrightarrow> pp_tail (parse_path (path_str (pure_path names))) = names"
  by (simp only: path_str_clean parse_path_clean posix_path.select_convs)

lemma path_str_inj:
  assumes "\<forall>n \<in> set ns. clean_name n" "\<forall>n \<in> set ms. clean_name n"
    and "path_str (pure_path ns) = path_str (pure_path ms)"
  shows "ns = ms"
  using assms pp_tail_parse_str by metis

lemma posix_join_absolute: "startswith s ''/'' \<Longrightarrow> posix_join p s = s"
  by (simp add: posix_join_def)

lemma path_joinpath_absolute: "startswith s ''/'' \<Longrightarrow> path_joinpath p s = parse_path s"
  by (simp add: path_joinpath_def posix_join_absolute)

end
