(* ===== verification/Query_Changes.thy ===== *)
theory Query_Changes
  imports Takler_Errors Posix_Path
begin

text \<open>
  \<^verbatim>\<open>takler/server/query_changes.py\<close>: the bounded journal of change hints that every visible write
  of the tree reports to. Paths are byte strings (the source measures their UTF-8 encoding), and
  the monotonic clock is an integer count of microseconds passed in by the caller; the two
  callbacks \<open>on_mark\<close> and \<open>on_commit\<close>, which feed a separate store, do not act on this state.
\<close>

section \<open>The journal\<close>

definition MAX_CHANGE_BATCHES :: nat where "MAX_CHANGE_BATCHES = 1024"

definition MAX_CHANGES_PER_BATCH :: nat where "MAX_CHANGES_PER_BATCH = 2048"

definition MAX_RETAINED_CHANGES :: int where "MAX_RETAINED_CHANGES = 8192"

definition MAX_CHANGE_WINDOW_BYTES :: int where "MAX_CHANGE_WINDOW_BYTES = 32 * 1024 * 1024"

definition MAX_CHANGE_PATH_BYTES :: nat where "MAX_CHANGE_PATH_BYTES = 4096"

definition MAX_CHANGE_MICROSECONDS :: int where "MAX_CHANGE_MICROSECONDS = 120 * 1000000"

definition FIELD_GROUPS :: "string set" where
  "FIELD_GROUPS = {''summary'', ''parameters'', ''definition'', ''runtime'', ''artifacts'', ''service''}"

record query_change =
  qc_path :: string
  qc_groups :: "string set"
  qc_invalidate :: bool

record change_batch =
  cb_revision :: int
  cb_changes :: "query_change list"
  cb_created_at :: int
  cb_estimated_bytes :: int

record query_changes =
  qs_revision :: int
  qs_oldest_revision :: int
  qs_batches :: "change_batch list"
  qs_retained_changes :: int
  qs_retained_bytes :: int
  qs_depth :: nat
  qs_pending :: "query_change dict"

definition QueryChanges :: query_changes where
  "QueryChanges = \<lparr>qs_revision = 1, qs_oldest_revision = 1, qs_batches = [],
     qs_retained_changes = 0, qs_retained_bytes = 0, qs_depth = 0, qs_pending = []\<rparr>"

text \<open>\<open>_expire\<close>: drop from the left while a bound is exceeded or the head is too old.\<close>

function qc_expire :: "int \<Rightarrow> query_changes \<Rightarrow> query_changes" where
  "qc_expire now q =
     (case qs_batches q of
        [] \<Rightarrow> q
      | b # bs \<Rightarrow>
          if length (qs_batches q) > MAX_CHANGE_BATCHES
             \<or> qs_retained_changes q > MAX_RETAINED_CHANGES
             \<or> qs_retained_bytes q > MAX_CHANGE_WINDOW_BYTES
             \<or> cb_created_at b \<le> now - MAX_CHANGE_MICROSECONDS
          then qc_expire now (q\<lparr>qs_batches := bs,
                 qs_retained_changes := qs_retained_changes q - int (length (cb_changes b)),
                 qs_retained_bytes := qs_retained_bytes q - cb_estimated_bytes b,
                 qs_oldest_revision := cb_revision b\<rparr>)
          else q)"
  by pat_completeness auto
termination
  by (relation "measure (\<lambda>(now, q). length (qs_batches q))") auto

declare qc_expire.simps [simp del]

definition change_size :: "query_change \<Rightarrow> int" where
  "change_size c = int (length (qc_path c)) + 512"

definition qc_commit :: "int \<Rightarrow> query_changes \<Rightarrow> query_changes" where
  "qc_commit now q =
     (if qs_pending q = [] then q
      else let rev = qs_revision q + 1;
               changes = map snd (qs_pending q);
               size = sum_list (map change_size changes);
               batch = \<lparr>cb_revision = rev, cb_changes = changes, cb_created_at = now,
                        cb_estimated_bytes = size\<rparr> in
        qc_expire now (q\<lparr>qs_revision := rev, qs_batches := qs_batches q @ [batch],
          qs_retained_changes := qs_retained_changes q + int (length changes),
          qs_retained_bytes := qs_retained_bytes q + size,
          qs_pending := []\<rparr>))"

definition qc_begin :: "query_changes \<Rightarrow> query_changes" where
  "qc_begin q = q\<lparr>qs_depth := Suc (qs_depth q)\<rparr>"

definition qc_end :: "int \<Rightarrow> query_changes \<Rightarrow> exc + query_changes" where
  "qc_end now q =
     (if qs_depth q = 0 then Inl (PyError PyRuntimeError)
      else let q' = q\<lparr>qs_depth := qs_depth q - 1\<rparr> in
        Inr (if qs_depth q' = 0 then qc_commit now q' else q'))"

text \<open>The part of \<open>mark\<close> that merges a change into the pending dictionary.\<close>

definition qc_merge :: "string \<Rightarrow> string set \<Rightarrow> bool \<Rightarrow> query_change dict \<Rightarrow> query_change dict" where
  "qc_merge path groups invalidate pending =
     (if length pending \<ge> MAX_CHANGES_PER_BATCH \<and> dict_get pending path = None
      then [(''/'', \<lparr>qc_path = ''/'', qc_groups = {}, qc_invalidate = True\<rparr>)]
      else if (case dict_get pending ''/'' of Some c \<Rightarrow> qc_invalidate c | None \<Rightarrow> False) then pending
      else let old = dict_get pending path in
        dict_set path
          \<lparr>qc_path = path,
           qc_groups = groups \<union> (case old of Some c \<Rightarrow> qc_groups c | None \<Rightarrow> {}),
           qc_invalidate = (invalidate \<or> (case old of Some c \<Rightarrow> qc_invalidate c | None \<Rightarrow> False))\<rparr>
          pending)"

definition qc_mark :: "int \<Rightarrow> string \<Rightarrow> string set \<Rightarrow> bool \<Rightarrow> query_changes \<Rightarrow> exc + query_changes" where
  "qc_mark now path groups invalidate q =
     (if \<not> startswith path ''/'' \<or> (path \<noteq> ''/'' \<and> endswith path ''/'') then Inl (PyError PyValueError)
      else if groups = {} \<and> \<not> invalidate then Inl (PyError PyValueError)
      else if \<not> groups \<subseteq> FIELD_GROUPS then Inl (PyError PyValueError)
      else let (path, groups, invalidate) =
                 (if length path > MAX_CHANGE_PATH_BYTES then (''/'', {}, True)
                  else (path, groups, invalidate));
               q' = q\<lparr>qs_pending := qc_merge path groups invalidate (qs_pending q)\<rparr> in
        Inr (if qs_depth q' = 0 then qc_commit now q' else q'))"

definition qc_since :: "int \<Rightarrow> int \<Rightarrow> query_changes \<Rightarrow> change_batch list option \<times> query_changes" where
  "qc_since now revision q =
     (let q' = qc_expire now q in
      ((if revision < qs_oldest_revision q' \<or> revision > qs_revision q' then None
        else Some (filter (\<lambda>b. cb_revision b > revision) (qs_batches q'))), q'))"

section \<open>Well-formed journals\<close>

definition qc_ok :: "query_changes \<Rightarrow> bool" where
  "qc_ok q \<longleftrightarrow>
     qs_oldest_revision q \<le> qs_revision q
   \<and> map cb_revision (qs_batches q) = [qs_oldest_revision q + 1..qs_revision q]
   \<and> qs_retained_changes q = sum_list (map (\<lambda>b. int (length (cb_changes b))) (qs_batches q))
   \<and> qs_retained_bytes q = sum_list (map cb_estimated_bytes (qs_batches q))
   \<and> length (qs_pending q) \<le> MAX_CHANGES_PER_BATCH"

definition qc_bounded :: "int \<Rightarrow> query_changes \<Rightarrow> bool" where
  "qc_bounded now q \<longleftrightarrow> qs_batches q = [] \<or>
     (length (qs_batches q) \<le> MAX_CHANGE_BATCHES \<and> qs_retained_changes q \<le> MAX_RETAINED_CHANGES
      \<and> qs_retained_bytes q \<le> MAX_CHANGE_WINDOW_BYTES
      \<and> now - MAX_CHANGE_MICROSECONDS < cb_created_at (hd (qs_batches q)))"

lemma QueryChanges_ok: "qc_ok QueryChanges"
  by (simp add: qc_ok_def QueryChanges_def)

lemma qc_expire_ok: "qc_ok q \<Longrightarrow> qc_ok (qc_expire now q)"
proof (induction now q rule: qc_expire.induct)
  case (1 now q)
  show ?case
  proof (cases "qs_batches q")
    case Nil
    with 1 show ?thesis by (simp add: qc_expire.simps [of now q])
  next
    case (Cons b bs)
    let ?q' = "q\<lparr>qs_batches := bs,
        qs_retained_changes := qs_retained_changes q - int (length (cb_changes b)),
        qs_retained_bytes := qs_retained_bytes q - cb_estimated_bytes b,
        qs_oldest_revision := cb_revision b\<rparr>"
    have revs: "cb_revision b # map cb_revision bs = [qs_oldest_revision q + 1..qs_revision q]"
      using "1.prems" Cons by (simp add: qc_ok_def)
    then have "qs_oldest_revision q + 1 \<le> qs_revision q"
      by (cases "qs_oldest_revision q + 1 \<le> qs_revision q") (auto simp: upto.simps)
    with revs have "cb_revision b = qs_oldest_revision q + 1"
      "map cb_revision bs = [cb_revision b + 1..qs_revision q]" "cb_revision b \<le> qs_revision q"
      by (simp_all add: upto.simps [of "qs_oldest_revision q + 1"])
    then have "qc_ok ?q'" using "1.prems" Cons by (simp add: qc_ok_def)
    then show ?thesis
      using "1.IH" [OF Cons] "1.prems" Cons by (auto simp: qc_expire.simps [of now q])
  qed
qed

lemma qc_expire_bounded: "qc_bounded now (qc_expire now q)"
proof (induction now q rule: qc_expire.induct)
  case (1 now q)
  show ?case
  proof (cases "qs_batches q")
    case Nil
    then show ?thesis by (simp add: qc_expire.simps [of now q] qc_bounded_def)
  next
    case (Cons b bs)
    then show ?thesis
      using "1.IH" [OF Cons] by (auto simp: qc_expire.simps [of now q] qc_bounded_def)
  qed
qed

lemma qc_expire_frame:
  "qs_revision (qc_expire now q) = qs_revision q" "qs_depth (qc_expire now q) = qs_depth q"
  "qs_pending (qc_expire now q) = qs_pending q"
  by (induction now q rule: qc_expire.induct)
     (subst qc_expire.simps, simp split: list.splits)+

lemma upto_snoc: "i \<le> j + 1 \<Longrightarrow> [i..j + 1] = [i..j] @ [j + 1 :: int]"
  using upto_rec2 [of i "j + 1"] by simp

lemma qc_commit_ok:
  assumes "qc_ok q"
  shows "qc_ok (qc_commit now q)"
proof (cases "qs_pending q = []")
  case True
  with assms show ?thesis by (simp add: qc_commit_def)
next
  case False
  show ?thesis
    unfolding qc_commit_def Let_def using False assms
    by (simp, intro qc_expire_ok) (simp add: qc_ok_def upto_snoc)
qed

lemma length_dict_set:
  "length (dict_set k v d) = (if dict_get d k = None then Suc (length d) else length d)"
  by (induction d) auto

lemma qc_merge_length:
  "length pending \<le> MAX_CHANGES_PER_BATCH \<Longrightarrow>
   length (qc_merge path groups ivd pending) \<le> MAX_CHANGES_PER_BATCH"
  by (auto simp: qc_merge_def Let_def length_dict_set MAX_CHANGES_PER_BATCH_def)

lemma qc_mark_ok: "qc_ok q \<Longrightarrow> qc_mark now path groups ivd q = Inr q' \<Longrightarrow> qc_ok q'"
  using qc_merge_length qc_commit_ok
  by (auto simp: qc_mark_def Let_def split: if_splits)
     (simp_all add: qc_ok_def)

lemma qc_commit_depth: "qs_depth (qc_commit now q) = qs_depth q"
  by (simp add: qc_commit_def Let_def qc_expire_frame)

lemma qc_mark_depth: "qc_mark now path groups ivd q = Inr q' \<Longrightarrow> qs_depth q' = qs_depth q"
  by (auto simp: qc_mark_def Let_def qc_commit_depth split: if_splits)

lemma qc_begin_ok: "qc_ok q \<Longrightarrow> qc_ok (qc_begin q)"
  by (simp add: qc_begin_def qc_ok_def)

lemma qc_end_ok: "qc_ok q \<Longrightarrow> qc_end now q = Inr q' \<Longrightarrow> qc_ok q'"
  using qc_commit_ok [of "q\<lparr>qs_depth := qs_depth q - 1\<rparr>"]
  by (auto simp: qc_end_def Let_def qc_ok_def split: if_splits)

lemma filter_upto: "i \<le> r + 1 \<Longrightarrow> filter (\<lambda>x. r < x) [i..j] = [r + 1..j :: int]"
proof (induction "nat (j - i + 1)" arbitrary: j)
  case 0
  then show ?case by simp
next
  case (Suc n)
  then have "i \<le> j" by linarith
  then have ij: "[i..j] = [i..j - 1] @ [j]" by (rule upto_rec2)
  have IH: "filter (\<lambda>x. r < x) [i..j - 1] = [r + 1..j - 1]"
    using Suc.hyps(1) [of "j - 1"] Suc.hyps(2) Suc.prems by simp
  show ?case
  proof (cases "r < j")
    case True
    then have "[r + 1..j] = [r + 1..j - 1] @ [j]" by (intro upto_rec2) simp
    then show ?thesis using IH ij True by simp
  next
    case False
    then show ?thesis using IH ij by simp
  qed
qed

section \<open>What the journal promises\<close>


definition example_journal :: query_changes where
  "example_journal = \<lparr>qs_revision = 3, qs_oldest_revision = 1,
     qs_batches = [\<lparr>cb_revision = 2, cb_changes = [], cb_created_at = 10, cb_estimated_bytes = 0\<rparr>,
                   \<lparr>cb_revision = 3, cb_changes = [], cb_created_at = 20, cb_estimated_bytes = 0\<rparr>],
     qs_retained_changes = 0, qs_retained_bytes = 0, qs_depth = 0, qs_pending = []\<rparr>"


end
