(* ===== verification/Py_Text.thy ===== *)
theory Py_Text
  imports Posix_Path "HOL-Library.Sublist"
begin

text \<open>
  Methods of Python's \<open>str\<close> that the server uses on text it did not write itself: white space, line
  boundaries, printable characters, replacement of a substring and hexadecimal escapes. Characters are those of the Latin-1 range.
\<close>

section \<open>Classes of characters\<close>

definition char_code :: "char \<Rightarrow> nat" where
  "char_code c = of_char c"

definition is_upper :: "char \<Rightarrow> bool" where
  "is_upper c \<longleftrightarrow> (65 \<le> char_code c \<and> char_code c \<le> 90)
     \<or> (192 \<le> char_code c \<and> char_code c \<le> 222 \<and> char_code c \<noteq> 215)"

definition to_lower :: "char \<Rightarrow> char" where
  "to_lower c = (if is_upper c then char_of (char_code c + 32) else c)"

definition is_space :: "char \<Rightarrow> bool" where
  "is_space c \<longleftrightarrow> (9 \<le> char_code c \<and> char_code c \<le> 13) \<or> (28 \<le> char_code c \<and> char_code c \<le> 32)
     \<or> char_code c = 133 \<or> char_code c = 160"

text \<open>The boundaries of \<open>str.splitlines\<close>.\<close>

definition is_line_boundary :: "char \<Rightarrow> bool" where
  "is_line_boundary c \<longleftrightarrow> (10 \<le> char_code c \<and> char_code c \<le> 13) \<or> (28 \<le> char_code c \<and> char_code c \<le> 30)
     \<or> char_code c = 133"

definition is_printable :: "char \<Rightarrow> bool" where
  "is_printable c \<longleftrightarrow> (32 \<le> char_code c \<and> char_code c \<le> 126)
     \<or> (161 \<le> char_code c \<and> char_code c \<noteq> 173)"

lemma printable_no_boundary: "is_printable c \<Longrightarrow> \<not> is_line_boundary c"
  by (auto simp: is_printable_def is_line_boundary_def)

section \<open>Stripping and splitting\<close>

definition py_strip :: "string \<Rightarrow> string" where
  "py_strip s = rev (dropWhile is_space (rev (dropWhile is_space s)))"

definition is_blank :: "string option \<Rightarrow> bool" where
  "is_blank v \<longleftrightarrow> (case v of None \<Rightarrow> True | Some s \<Rightarrow> py_strip s = [])"

lemma dropWhile_all: "(\<forall>x \<in> set (dropWhile P s). P x) \<longleftrightarrow> list_all P s"
  by (induction s) auto

lemma py_strip_Nil_iff: "py_strip s = [] \<longleftrightarrow> list_all is_space s"
  by (simp add: py_strip_def dropWhile_all)

text \<open>A carriage return and the line feed after it are one boundary.\<close>

fun py_splitlines :: "string \<Rightarrow> string list" where
  "py_splitlines [] = []"
| "py_splitlines [c] = (if is_line_boundary c then [[]] else [[c]])"
| "py_splitlines (c # d # cs) =
     (if char_code c = 13 \<and> char_code d = 10 then [] # py_splitlines cs
      else if is_line_boundary c then [] # py_splitlines (d # cs)
      else (case py_splitlines (d # cs) of [] \<Rightarrow> [[c]] | l # ls \<Rightarrow> (c # l) # ls))"

lemma splitlines_clean: "l \<in> set (py_splitlines s) \<Longrightarrow> list_all (\<lambda>c. \<not> is_line_boundary c) l"
  by (induction s arbitrary: l rule: py_splitlines.induct) (auto split: if_splits list.splits)

lemma splitlines_one_line:
  assumes "list_all (\<lambda>c. \<not> is_line_boundary c) s" and "s \<noteq> []"
  shows "py_splitlines s = [s]"
  using assms by (induction s rule: py_splitlines.induct) (auto simp: is_line_boundary_def)

section \<open>Replacing a substring\<close>

text \<open>\<open>s.replace(old, new)\<close>, for an \<open>old\<close> that is not empty: the matches from left to right, not overlapping.\<close>

function py_replace :: "string \<Rightarrow> string \<Rightarrow> string \<Rightarrow> string" where
  "py_replace old new [] = []"
| "py_replace old new (c # cs) =
     (if old \<noteq> [] \<and> startswith (c # cs) old then new @ py_replace old new (drop (length old) (c # cs))
      else c # py_replace old new cs)"
  by pat_completeness auto
termination
  by (relation "measure (\<lambda>(old, new, s). length s)") auto

lemma startswith_prefix: "startswith s pre \<longleftrightarrow> prefix pre s"
  by (metis append_eq_conv_conj append_take_drop_id prefix_def startswith_def)

text \<open>Up to the first character of the replacement, the result is a copy of the text.\<close>

lemma prefix_py_replace:
  assumes "l \<notin> set t" and "prefix t (py_replace old (l # new) s)"
  shows "prefix t s"
  using assms
proof (induction old "l # new" s arbitrary: t rule: py_replace.induct)
  case (2 old c cs)
  then show ?case by (cases t) (auto split: if_splits)
qed simp

text \<open>
  A text that has no character in common with the two ends of the replacement, and does not lie within it,
  does not appear by replacing; and the text that is replaced is gone.
\<close>

lemma sublist_framed:
  assumes "l \<notin> set t" and "r \<notin> set t" and "\<not> sublist t mid" and "\<not> sublist t zs"
  shows "\<not> sublist t (l # mid @ r # zs)"
proof
  assume "sublist t (l # mid @ r # zs)"
  moreover have "t \<noteq> []" using assms(4) by auto
  then have "\<not> prefix t (l # xs)" for xs using assms(1) by (auto simp: prefix_Cons)
  ultimately have "sublist t (mid @ r # zs)" by (simp add: sublist_Cons_right)
  moreover have "\<not> sublist t (r # zs)"
    using assms(2,4) \<open>t \<noteq> []\<close> by (auto simp: sublist_Cons_right prefix_Cons)
  ultimately obtain t1 t2 where t: "t = t1 @ t2" "prefix t2 (r # zs)" "suffix t1 mid"
    using assms(3) by (auto simp: sublist_append)
  then have "t2 = []" using assms(2) by (auto simp: prefix_Cons)
  then show False using t assms(3) by (auto intro: suffix_imp_sublist)
qed

lemma py_replace_adds_nothing:
  assumes "l \<notin> set t" and "r \<notin> set t" and "\<not> sublist t mid" and "\<not> sublist t s"
  shows "\<not> sublist t (py_replace old (l # mid @ [r]) s)"
  using assms
proof (induction old "l # mid @ [r]" s rule: py_replace.induct)
  case (2 old c cs)
  have "\<not> sublist t (drop n (c # cs))" for n
    using "2.prems"(4) by (meson sublist_order.order_trans suffix_drop suffix_imp_sublist)
  moreover have "\<not> prefix t (c # py_replace old (l # mid @ [r]) cs)"
  proof
    assume a: "prefix t (c # py_replace old (l # mid @ [r]) cs)"
    obtain t' where "t = c # t'" "prefix t' (py_replace old (l # mid @ [r]) cs)"
      using a "2.prems"(4) by (cases t) auto
    then have "prefix t (c # cs)" using prefix_py_replace "2.prems"(1) by fastforce
    then show False using "2.prems"(4) by (auto intro: prefix_imp_sublist)
  qed
  moreover have "\<not> sublist t cs" using "2.prems"(4) by (auto simp: sublist_Cons_right)
  ultimately show ?case
    using "2.hyps" "2.prems"(1-3) sublist_framed [OF "2.prems"(1-3)]
    by (cases "old \<noteq> [] \<and> startswith (c # cs) old") (auto simp: sublist_Cons_right [of t c])
qed simp

lemma py_replace_removes:
  assumes "l \<notin> set old" and "r \<notin> set old" and "\<not> sublist old mid"
  shows "\<not> sublist old (py_replace old (l # mid @ [r]) s)"
  using assms
proof (induction old "l # mid @ [r]" s rule: py_replace.induct)
  case (1 old)
  then show ?case by auto
next
  case (2 old c cs)
  have "old \<noteq> []" using "2.prems"(3) by auto
  have "\<not> prefix old (c # py_replace old (l # mid @ [r]) cs)" if "\<not> startswith (c # cs) old"
  proof
    assume "prefix old (c # py_replace old (l # mid @ [r]) cs)"
    then obtain t' where "old = c # t'" "prefix t' (py_replace old (l # mid @ [r]) cs)"
      using \<open>old \<noteq> []\<close> by (cases old) auto
    then have "prefix old (c # cs)" using prefix_py_replace "2.prems"(1) by fastforce
    then show False using that by (simp add: startswith_prefix)
  qed
  then show ?case
    using 2 \<open>old \<noteq> []\<close> sublist_framed [OF "2.prems"]
    by (cases "startswith (c # cs) old") (auto simp: sublist_Cons_right [of old c])
qed

section \<open>Escapes\<close>

definition hex_digit :: "nat \<Rightarrow> char" where
  "hex_digit n = (if n < 10 then char_of (48 + n) else char_of (87 + n))"

definition hex2 :: "char \<Rightarrow> string" where
  "hex2 c = [hex_digit (char_code c div 16), hex_digit (char_code c mod 16)]"

lemma char_code_less: "char_code c < 256"
  by (simp add: char_code_def)

lemma char_code_of: "n < 256 \<Longrightarrow> char_code (char_of n) = n"
  by (simp add: char_code_def)

lemma char_of_code: "char_of (char_code c) = c"
  by (simp add: char_code_def)

lemma hex_digit_code: "n < 16 \<Longrightarrow> char_code (hex_digit n) = (if n < 10 then 48 + n else 87 + n)"
  by (simp add: hex_digit_def char_code_of)

lemma hex_digit_printable: "n < 16 \<Longrightarrow> is_printable (hex_digit n)"
  by (simp add: is_printable_def hex_digit_code)

lemma hex2_printable: "list_all is_printable (hex2 c)"
  using char_code_less [of c] by (auto simp: hex2_def intro!: hex_digit_printable)

end
