(* ===== verification/Py_Json.thy ===== *)
theory Py_Json
  imports Py_Text Py_Dates
begin

text \<open>
  \<open>json.dumps\<close> with \<open>ensure_ascii=False\<close> and the default separators, on the values the server writes, and
  \<open>json.loads\<close> on what it wrote. The encoding of a character is a parameter, since the audit trail escapes one
  character more than JSON asks for.
\<close>

section \<open>Decimal numbers\<close>

fun nat_digits :: "nat \<Rightarrow> string" where
  "nat_digits n = (if n < 10 then [digit_char (int n)] else nat_digits (n div 10) @ [digit_char (int (n mod 10))])"

declare nat_digits.simps [simp del]

definition digits_value :: "string \<Rightarrow> nat" where
  "digits_value ds = foldl (\<lambda>v d. 10 * v + nat (digit_value d)) 0 ds"

lemma nat_digits_props: "list_all is_digit (nat_digits n) \<and> nat_digits n \<noteq> [] \<and> digits_value (nat_digits n) = n"
proof (induction n rule: nat_digits.induct)
  case (1 n)
  show ?case
  proof (cases "n < 10")
    case True
    then show ?thesis by (simp add: nat_digits.simps [of n] digits_value_def digit_char_value)
  next
    case False
    then have "nat_digits n = nat_digits (n div 10) @ [digit_char (int (n mod 10))]"
      by (simp add: nat_digits.simps [of n])
    moreover have "is_digit (digit_char (int (n mod 10)))" "digit_value (digit_char (int (n mod 10))) = int (n mod 10)"
      by (simp_all add: digit_char_value)
    ultimately show ?thesis using 1 False by (simp add: digits_value_def)
  qed
qed

definition int_text :: "int \<Rightarrow> string" where
  "int_text k = (if k < 0 then CHR ''-'' # nat_digits (nat (- k)) else nat_digits (nat k))"

definition read_int :: "string \<Rightarrow> (int \<times> string) option" where
  "read_int s =
     (let neg = (s \<noteq> [] \<and> hd s = CHR ''-''); t = (if neg then tl s else s); ds = takeWhile is_digit t in
      if ds = [] then None
      else Some (if neg then - int (digits_value ds) else int (digits_value ds), dropWhile is_digit t))"

definition no_digit :: "string \<Rightarrow> bool" where
  "no_digit s \<longleftrightarrow> s = [] \<or> \<not> is_digit (hd s)"

lemma takeWhile_digits:
  assumes "no_digit rest"
  shows "takeWhile is_digit (nat_digits n @ rest) = nat_digits n" "dropWhile is_digit (nat_digits n @ rest) = rest"
proof -
  have "\<And>x. x \<in> set (nat_digits n) \<Longrightarrow> is_digit x" using nat_digits_props [of n] by (simp add: list_all_iff)
  moreover have "takeWhile is_digit rest = []" "dropWhile is_digit rest = rest"
    using assms by (cases rest; simp add: no_digit_def)+
  ultimately show "takeWhile is_digit (nat_digits n @ rest) = nat_digits n"
    "dropWhile is_digit (nat_digits n @ rest) = rest" by simp_all
qed

lemma hd_nat_digits: "is_digit (hd (nat_digits n))"
  using nat_digits_props [of n] by (cases "nat_digits n") auto

lemma read_int_text:
  assumes "no_digit rest"
  shows "read_int (int_text k @ rest) = Some (k, rest)"
proof (cases "k < 0")
  case True
  then show ?thesis using takeWhile_digits [OF assms] nat_digits_props
    by (simp add: read_int_def int_text_def)
next
  case False
  have "hd (nat_digits (nat k) @ rest) \<noteq> CHR ''-''"
    using hd_nat_digits [of "nat k"] nat_digits_props [of "nat k"] by (auto simp: is_digit_def)
  then show ?thesis using False takeWhile_digits [OF assms, of "nat k"] nat_digits_props [of "nat k"]
    by (simp add: read_int_def int_text_def)
qed

section \<open>String literals\<close>

definition json_char :: "char \<Rightarrow> string" where
  "json_char c =
     (let b = CHR 0x5C in
      if c = CHR 0x22 then [b, CHR 0x22] else if c = b then [b, b]
      else if c = CHR 0x0A then [b, CHR ''n''] else if c = CHR 0x0D then [b, CHR ''r'']
      else if c = CHR 0x09 then [b, CHR ''t''] else if c = CHR 0x0C then [b, CHR ''f'']
      else if c = CHR 0x08 then [b, CHR ''b'']
      else if char_code c < 32 then [b, CHR ''u'', CHR ''0'', CHR ''0''] @ hex2 c
      else [c])"

definition next_line_escape :: string where
  "next_line_escape = [CHR 0x5C, CHR ''u'', CHR ''0'', CHR ''0'', CHR ''8'', CHR ''5'']"

definition line_char :: "char \<Rightarrow> string" where
  "line_char c = (if c = CHR 0x85 then next_line_escape else json_char c)"

definition json_string :: "(char \<Rightarrow> string) \<Rightarrow> string \<Rightarrow> string" where
  "json_string enc s = [CHR 0x22] @ concat (map enc s) @ [CHR 0x22]"

text \<open>The reader of a literal, after its opening quote: the text, and what follows the closing quote.\<close>

definition unhex :: "char \<Rightarrow> nat" where
  "unhex c = (if char_code c < 58 then char_code c - 48 else char_code c - 87)"

definition escaped_char :: "char \<Rightarrow> char" where
  "escaped_char c =
     (if c = CHR ''n'' then CHR 0x0A else if c = CHR ''r'' then CHR 0x0D else if c = CHR ''t'' then CHR 0x09
      else if c = CHR ''f'' then CHR 0x0C else if c = CHR ''b'' then CHR 0x08 else c)"

function read_json_string :: "string \<Rightarrow> (string \<times> string) option" where
  "read_json_string [] = None"
| "read_json_string (c # cs) =
     (if c = CHR 0x22 then Some ([], cs)
      else if c = CHR 0x5C then
        (case cs of
           [] \<Rightarrow> None
         | d # ds \<Rightarrow>
             if d = CHR ''u'' then
               (if length ds < 4 then None
                else map_option (\<lambda>(s, rest). (char_of (16 * unhex (ds ! 2) + unhex (ds ! 3)) # s, rest))
                       (read_json_string (drop 4 ds)))
             else map_option (\<lambda>(s, rest). (escaped_char d # s, rest)) (read_json_string ds))
      else map_option (\<lambda>(s, rest). (c # s, rest)) (read_json_string cs))"
  by pat_completeness auto
termination
  by (relation "measure length") auto

lemma unhex_digit: "n < 16 \<Longrightarrow> unhex (hex_digit n) = n"
  by (auto simp: unhex_def hex_digit_code)

text \<open>What an encoding of characters has to promise to be read back.\<close>

definition readable :: "(char \<Rightarrow> string) \<Rightarrow> bool" where
  "readable enc \<longleftrightarrow> (\<forall>c cs. read_json_string (enc c @ cs) = map_option (\<lambda>(s, rest). (c # s, rest)) (read_json_string cs))"

lemma readable_json_char: "readable json_char"
  unfolding readable_def
proof (intro allI)
  fix c cs
  have "char_of (16 * unhex (hex_digit (char_code c div 16)) + unhex (hex_digit (char_code c mod 16))) = c"
    using char_code_less [of c] by (simp add: unhex_digit char_of_code)
  then show "read_json_string (json_char c @ cs) = map_option (\<lambda>(s, rest). (c # s, rest)) (read_json_string cs)"
    by (simp add: json_char_def Let_def hex2_def escaped_char_def)
qed

lemma readable_line_char: "readable line_char"
proof -
  have "unhex (CHR ''8'') = 8" "unhex (CHR ''5'') = 5" by (simp_all add: unhex_def char_code_def)
  moreover have "char_of (133 :: nat) = CHR 0x85" using char_of_code [of "CHR 0x85"] by (simp add: char_code_def)
  ultimately show ?thesis
    using readable_json_char by (simp add: readable_def line_char_def next_line_escape_def)
qed

lemma read_json_string_literal:
  assumes "readable enc"
  shows "read_json_string (tl (json_string enc s) @ rest) = Some (s, rest)"
proof -
  have "read_json_string (concat (map enc s) @ CHR 0x22 # rest) = Some (s, rest)"
    using assms by (induction s) (simp_all add: readable_def)
  then show ?thesis by (simp add: json_string_def)
qed

section \<open>Values\<close>

datatype json = JNull | JBool bool | JInt int | JStr string | JArr "json list" | JObj "(string \<times> json) list"

fun show_json :: "(char \<Rightarrow> string) \<Rightarrow> json \<Rightarrow> string" where
  "show_json enc JNull = ''null''"
| "show_json enc (JBool b) = (if b then ''true'' else ''false'')"
| "show_json enc (JInt k) = int_text k"
| "show_json enc (JStr s) = json_string enc s"
| "show_json enc (JArr js) = ''['' @ py_join '', '' (map (show_json enc) js) @ '']''"
| "show_json enc (JObj kvs) = ''{'' @ py_join '', '' (map (\<lambda>(k, j). json_string enc k @ '': '' @ show_json enc j) kvs) @ ''}''"

abbreviation json_dumps :: "json \<Rightarrow> string" where
  "json_dumps \<equiv> show_json json_char"

text \<open>The reader, with fuel; the number of constructors of the value is enough.\<close>

fun read_json :: "nat \<Rightarrow> string \<Rightarrow> (json \<times> string) option"
  and read_items :: "nat \<Rightarrow> string \<Rightarrow> (json list \<times> string) option"
  and read_members :: "nat \<Rightarrow> string \<Rightarrow> ((string \<times> json) list \<times> string) option" where
  "read_json 0 s = None"
| "read_json (Suc n) s =
     (if startswith s ''null'' then Some (JNull, drop 4 s)
      else if startswith s ''true'' then Some (JBool True, drop 4 s)
      else if startswith s ''false'' then Some (JBool False, drop 5 s)
      else if startswith s [CHR 0x22] then map_option (\<lambda>(t, r). (JStr t, r)) (read_json_string (drop 1 s))
      else if startswith s ''[]'' then Some (JArr [], drop 2 s)
      else if startswith s ''['' then map_option (\<lambda>(js, r). (JArr js, r)) (read_items n (drop 1 s))
      else if startswith s ''{}'' then Some (JObj [], drop 2 s)
      else if startswith s ''{'' then map_option (\<lambda>(kvs, r). (JObj kvs, r)) (read_members n (drop 1 s))
      else map_option (\<lambda>(k, r). (JInt k, r)) (read_int s))"
| "read_items 0 s = None"
| "read_items (Suc n) s =
     (case read_json n s of
        None \<Rightarrow> None
      | Some (j, r) \<Rightarrow>
          if startswith r '']'' then Some ([j], drop 1 r)
          else if startswith r '', '' then map_option (\<lambda>(js, r'). (j # js, r')) (read_items n (drop 2 r))
          else None)"
| "read_members 0 s = None"
| "read_members (Suc n) s =
     (if \<not> startswith s [CHR 0x22] then None
      else case read_json_string (drop 1 s) of
        None \<Rightarrow> None
      | Some (k, r0) \<Rightarrow>
          if \<not> startswith r0 '': '' then None
          else case read_json n (drop 2 r0) of
            None \<Rightarrow> None
          | Some (j, r) \<Rightarrow>
              if startswith r ''}'' then Some ([(k, j)], drop 1 r)
              else if startswith r '', '' then map_option (\<lambda>(kvs, r'). ((k, j) # kvs, r')) (read_members n (drop 2 r))
              else None)"

definition json_loads :: "string \<Rightarrow> json option" where
  "json_loads s = (case read_json (2 * length s + 2) s of Some (j, []) \<Rightarrow> Some j | _ \<Rightarrow> None)"

fun json_size :: "json \<Rightarrow> nat" where
  "json_size (JArr js) = 2 + sum_list (map (\<lambda>j. Suc (json_size j)) js)"
| "json_size (JObj kvs) = 2 + sum_list (map (\<lambda>(k, j). Suc (json_size j)) kvs)"
| "json_size _ = 1"

lemma json_string_Cons: "json_string enc s @ r = CHR 0x22 # tl (json_string enc s) @ r"
  by (simp add: json_string_def)

text \<open>The first character of an encoded value decides which branch reads it.\<close>

lemma int_text_start:
  obtains c cs where "int_text k = c # cs" and "c = CHR ''-'' \<or> is_digit c"
proof (cases "k < 0")
  case True
  then show ?thesis using that [of "CHR ''-''" "nat_digits (nat (- k))"] by (simp add: int_text_def)
next
  case False
  obtain c cs where "nat_digits (nat k) = c # cs" using nat_digits_props [of "nat k"] by (cases "nat_digits (nat k)") auto
  then show ?thesis using that [of c cs] hd_nat_digits [of "nat k"] False by (simp add: int_text_def)
qed

lemma read_json_int:
  assumes "no_digit rest"
  shows "read_json (Suc n) (int_text k @ rest) = Some (JInt k, rest)"
proof -
  obtain c cs where c: "int_text k = c # cs" "c = CHR ''-'' \<or> is_digit c" by (rule int_text_start)
  then have "c \<noteq> CHR ''n'' \<and> c \<noteq> CHR ''t'' \<and> c \<noteq> CHR ''f'' \<and> c \<noteq> CHR 0x22 \<and> c \<noteq> CHR ''['' \<and> c \<noteq> CHR ''{''"
    by (auto simp: is_digit_def)
  then show ?thesis using c(1) read_int_text [OF assms, of k] by simp
qed

lemma show_json_start:
  obtains c cs where "show_json enc j = c # cs" and "c \<noteq> CHR '']''" and "c \<noteq> CHR ''}''"
proof (cases j)
  case (JInt k)
  obtain c cs where c: "int_text k = c # cs" "c = CHR ''-'' \<or> is_digit c" by (rule int_text_start)
  then have "c \<noteq> CHR '']''" "c \<noteq> CHR ''}''" by (auto simp: is_digit_def)
  then show ?thesis using that c(1) JInt by simp
next
  case (JBool b)
  then show ?thesis using that by (cases b) auto
qed (use that in \<open>auto simp: json_string_def\<close>)

lemma py_join_Cons: "xs \<noteq> [] \<Longrightarrow> py_join sep (x # xs) = x @ sep @ py_join sep xs"
  by (cases xs) auto

text \<open>A list of items, each of which is read back, is read back.\<close>

lemma read_items_list:
  assumes "\<And>j m r. j \<in> set js \<Longrightarrow> json_size j \<le> m \<Longrightarrow> no_digit r \<Longrightarrow> read_json m (show_json enc j @ r) = Some (j, r)"
    and "js \<noteq> []" and "sum_list (map (\<lambda>j. Suc (json_size j)) js) \<le> n"
  shows "read_items n (py_join '', '' (map (show_json enc) js) @ '']'' @ rest) = Some (js, rest)"
  using assms
proof (induction js arbitrary: n)
  case (Cons j js)
  then obtain m where n: "n = Suc m" by (cases n) auto
  show ?case
  proof (cases "js = []")
    case True
    then show ?thesis using Cons.prems(3) Cons.prems(1) [of j m "'']'' @ rest"] n
      by (simp add: no_digit_def is_digit_def)
  next
    case False
    then have "read_items m (py_join '', '' (map (show_json enc) js) @ '']'' @ rest) = Some (js, rest)"
      using Cons.IH [of m] Cons.prems n by simp
    then show ?thesis using False n Cons.prems(3)
      Cons.prems(1) [of j m "'', '' @ py_join '', '' (map (show_json enc) js) @ '']'' @ rest"]
      by (simp add: py_join_Cons no_digit_def is_digit_def)
  qed
qed simp

lemma read_members_list:
  assumes "readable enc"
    and "\<And>k j m r. (k, j) \<in> set kvs \<Longrightarrow> json_size j \<le> m \<Longrightarrow> no_digit r \<Longrightarrow> read_json m (show_json enc j @ r) = Some (j, r)"
    and "kvs \<noteq> []" and "sum_list (map (\<lambda>(k, j). Suc (json_size j)) kvs) \<le> n"
  shows "read_members n (py_join '', '' (map (\<lambda>(k, j). json_string enc k @ '': '' @ show_json enc j) kvs) @ ''}'' @ rest)
    = Some (kvs, rest)"
  using assms(2-)
proof (induction kvs arbitrary: n)
  case (Cons kv kvs)
  obtain k j where kv: "kv = (k, j)" by (cases kv)
  from Cons.prems obtain m where n: "n = Suc m" by (cases n) (auto simp: kv)
  note key = json_string_Cons [of enc k] read_json_string_literal [OF assms(1), of k]
  show ?case
  proof (cases "kvs = []")
    case True
    then show ?thesis using Cons.prems(3) Cons.prems(1) [of k j m "''}'' @ rest"] n
      by (simp add: kv key no_digit_def is_digit_def)
  next
    case False
    let ?tail = "py_join '', '' (map (\<lambda>(k, j). json_string enc k @ '': '' @ show_json enc j) kvs) @ ''}'' @ rest"
    have "read_members m ?tail = Some (kvs, rest)"
    proof (rule Cons.IH)
      show "read_json i (show_json enc j' @ r) = Some (j', r)"
        if "(k', j') \<in> set kvs" "json_size j' \<le> i" "no_digit r" for k' j' i r
        using Cons.prems(1) [of k' j' i r] that by simp
    qed (use Cons.prems n False kv in auto)
    then show ?thesis using False n Cons.prems(3) Cons.prems(1) [of k j m "'', '' @ ?tail"]
      by (simp add: kv py_join_Cons key no_digit_def is_digit_def)
  qed
qed simp

lemma read_show_json:
  assumes "readable enc" and "json_size j \<le> n" and "no_digit rest"
  shows "read_json n (show_json enc j @ rest) = Some (j, rest)"
  using assms(2,3)
proof (induction j arbitrary: n rest)
  case (JArr js)
  then obtain m where n: "n = Suc m" by (cases n) auto
  show ?case
  proof (cases "js = []")
    case False
    have "read_items m (py_join '', '' (map (show_json enc) js) @ '']'' @ rest) = Some (js, rest)"
      using JArr n False by (intro read_items_list) auto
    moreover obtain j js' where js: "js = j # js'" using False by (cases js) auto
    obtain c cs where c: "show_json enc j = c # cs" "c \<noteq> CHR '']''" by (rule show_json_start)
    then have "\<exists>cs. py_join '', '' (map (show_json enc) js) = c # cs" using js by (cases js') simp_all
    then obtain cs where "py_join '', '' (map (show_json enc) js) = c # cs" by blast
    ultimately show ?thesis using n c(2) by simp
  qed (use n in simp)
next
  case (JObj kvs)
  then obtain m where n: "n = Suc m" by (cases n) auto
  show ?case
  proof (cases "kvs = []")
    case False
    have "read_members m (py_join '', '' (map (\<lambda>(k, j). json_string enc k @ '': '' @ show_json enc j) kvs) @ ''}'' @ rest)
        = Some (kvs, rest)"
      using JObj n False assms(1) by (intro read_members_list) auto
    moreover obtain cs where "py_join '', '' (map (\<lambda>(k, j). json_string enc k @ '': '' @ show_json enc j) kvs) = CHR 0x22 # cs"
      using False by (cases kvs; cases "tl kvs") (auto simp: json_string_def split: prod.splits)
    ultimately show ?thesis using n by simp
  qed (use n in simp)
next
  case (JInt k)
  then show ?case using read_json_int by (cases n) auto
next
  case (JStr s)
  then show ?case
    by (cases n) (simp_all add: json_string_Cons read_json_string_literal [OF assms(1)])
qed (auto simp: Suc_le_eq gr0_conv_Suc)

lemma length_py_join:
  "xs \<noteq> [] \<Longrightarrow> length (py_join sep xs) + length sep = sum_list (map length xs) + length sep * length xs"
  by (induction sep xs rule: py_join.induct) auto

lemma json_size_length: "json_size j \<le> 2 * length (show_json enc j)"
proof (induction j)
  case (JArr js)
  then have "sum_list (map (\<lambda>j. Suc (json_size j)) js) \<le> sum_list (map (\<lambda>j. Suc (2 * length (show_json enc j))) js)"
    by (intro sum_list_mono) auto
  also have "\<dots> = length js + 2 * sum_list (map (length \<circ> show_json enc) js)"
    by (induction js) auto
  finally show ?case using length_py_join [of "map (show_json enc) js" "'', ''"] by (cases js) auto
next
  case (JObj kvs)
  have "Suc (json_size j) \<le> 2 * length (json_string enc k @ '': '' @ show_json enc j)" if "(k, j) \<in> set kvs" for k j
    using JObj [OF that, of j] by simp
  then have "sum_list (map (\<lambda>(k, j). Suc (json_size j)) kvs)
      \<le> sum_list (map (\<lambda>(k, j). 2 * length (json_string enc k @ '': '' @ show_json enc j)) kvs)"
    by (intro sum_list_mono) auto
  also have "\<dots> = 2 * sum_list (map length (map (\<lambda>(k, j). json_string enc k @ '': '' @ show_json enc j) kvs))"
    by (induction kvs) auto
  finally show ?case
    using length_py_join [of "map (\<lambda>(k, j). json_string enc k @ '': '' @ show_json enc j) kvs" "'', ''"]
    by (cases kvs) auto
next
  case (JInt k)
  show ?case by (rule int_text_start [of k]) simp
qed (auto simp: json_string_def)

lemma json_loads_show:
  assumes "readable enc"
  shows "json_loads (show_json enc j) = Some j"
proof -
  have "read_json (2 * length (show_json enc j) + 2) (show_json enc j @ []) = Some (j, [])"
    using json_size_length [of j enc] by (intro read_show_json [OF assms]) (auto simp: no_digit_def)
  then show ?thesis by (simp add: json_loads_def)
qed

end
