(* ===== verification/Audit_Trail.thy ===== *)
theory Audit_Trail
  imports Py_Json
begin

text \<open>
  The audit trail (\<^verbatim>\<open>audit.py\<close>) and the credentials of a call (\<open>CallCredentials\<close> of \<^verbatim>\<open>auth.py\<close>): the
  records the server hands to its audit logger. Writing them to a file is I/O that never fails the
  caller; the model keeps the sequence of records. Characters are those of the Latin-1 range.
\<close>

section \<open>Credentials\<close>

record call_credentials =
  cr_job_password :: "string option"
  cr_secret :: "string option"
  cr_user :: "string option"
  cr_peer :: "string option"

definition AUDIT_UNKNOWN_USER :: string where "AUDIT_UNKNOWN_USER = ''unknown''"

definition UNKNOWN_PEER :: string where "UNKNOWN_PEER = ''unknown''"

text \<open>\<open>x if x else default\<close>: the empty string is false.\<close>

definition or_default :: "string \<Rightarrow> string option \<Rightarrow> string" where
  "or_default d x = (case x of None \<Rightarrow> d | Some s \<Rightarrow> if s = [] then d else s)"

definition audit_user :: "call_credentials \<Rightarrow> string" where
  "audit_user c = or_default AUDIT_UNKNOWN_USER (cr_user c)"

definition audit_peer :: "string option \<Rightarrow> string" where
  "audit_peer peer = or_default UNKNOWN_PEER peer"

section \<open>Records\<close>

text \<open>The outcome of one target of a batch command, which the record of the command carries.\<close>

datatype effect = EffNone | EffApplied | EffPartial | EffUnknown

record batch_item =
  bi_index :: nat
  bi_target :: string
  bi_flag :: int
  bi_message :: string
  bi_effect :: effect

record audit_record =
  au_timestamp :: string
  au_event :: string
  au_command :: string
  au_user :: string
  au_peer :: string
  au_target :: "string list"
  au_outcome :: string
  au_error_code :: int
  au_reason :: "string option"
  au_results :: "batch_item list option"

definition EVENT_CONTROL :: string where "EVENT_CONTROL = ''control''"

definition EVENT_DENIED :: string where "EVENT_DENIED = ''denied''"

definition EVENT_ZOMBIE :: string where "EVENT_ZOMBIE = ''zombie''"

definition OUTCOME_SUCCESS :: string where "OUTCOME_SUCCESS = ''success''"

definition OUTCOME_ERROR :: string where "OUTCOME_ERROR = ''error''"

definition OUTCOME_DENIED :: string where "OUTCOME_DENIED = ''denied''"

definition OUTCOME_ZOMBIE :: string where "OUTCOME_ZOMBIE = ''zombie''"

definition DENIED_ERROR_CODE :: int where "DENIED_ERROR_CODE = 43"

section \<open>The line of a record\<close>

text \<open>
  \<open>to_json_line\<close>: the fields that are not \<open>None\<close>, as one JSON object; then the boundary that JSON writes as
  it is gets its escape.
\<close>

definition effect_value :: "effect \<Rightarrow> string" where
  "effect_value e = (case e of EffNone \<Rightarrow> ''none'' | EffApplied \<Rightarrow> ''applied'' | EffPartial \<Rightarrow> ''partial''
     | EffUnknown \<Rightarrow> ''unknown'')"

definition item_json :: "batch_item \<Rightarrow> json" where
  "item_json it = JObj [(''index'', JInt (int (bi_index it))), (''target'', JStr (bi_target it)),
     (''flag'', JInt (bi_flag it)), (''message'', JStr (bi_message it)), (''effect'', JStr (effect_value (bi_effect it)))]"

definition optional_fields :: "string option \<Rightarrow> batch_item list option \<Rightarrow> (string \<times> json) list" where
  "optional_fields reason results =
     (case reason of None \<Rightarrow> [] | Some t \<Rightarrow> [(''reason'', JStr t)])
     @ (case results of None \<Rightarrow> [] | Some its \<Rightarrow> [(''results'', JArr (map item_json its))])"

definition record_json :: "audit_record \<Rightarrow> json" where
  "record_json r = JObj ([(''timestamp'', JStr (au_timestamp r)), (''event'', JStr (au_event r)),
     (''command'', JStr (au_command r)), (''user'', JStr (au_user r)), (''peer'', JStr (au_peer r)),
     (''target'', JArr (map JStr (au_target r))), (''outcome'', JStr (au_outcome r)),
     (''error_code'', JInt (au_error_code r))] @ optional_fields (au_reason r) (au_results r))"

definition to_json_line :: "audit_record \<Rightarrow> string" where
  "to_json_line r = py_replace [CHR 0x85] next_line_escape (json_dumps (record_json r))"

text \<open>Replacing one character is a map over the text, and so it can be done character by character.\<close>

primrec break_free :: "string \<Rightarrow> string" where
  "break_free [] = []"
| "break_free (c # cs) = (if c = CHR 0x85 then next_line_escape else [c]) @ break_free cs"

lemma break_free_replace: "py_replace [CHR 0x85] next_line_escape s = break_free s"
  by (induction s) (auto simp: startswith_def)

lemma break_free_append [simp]: "break_free (xs @ ys) = break_free xs @ break_free ys"
  by (induction xs) auto

lemma break_free_other: "CHR 0x85 \<notin> set xs \<Longrightarrow> break_free xs = xs"
  by (induction xs) auto

lemma break_free_json_char: "break_free (json_char c) = line_char c"
proof -
  have "list_all is_printable (hex2 c)" by (rule hex2_printable)
  moreover have "\<not> is_printable (CHR 0x85)" by (simp add: is_printable_def char_code_def)
  ultimately have "break_free (hex2 c) = hex2 c" by (intro break_free_other) (auto simp: list_all_iff)
  then show ?thesis
    by (cases "c = CHR 0x85") (simp_all add: line_char_def json_char_def Let_def char_code_def)
qed

lemma break_free_string: "break_free (json_string json_char s) = json_string line_char s"
proof -
  have "break_free (concat (map json_char s)) = concat (map line_char s)"
    by (induction s) (simp_all add: break_free_json_char)
  then show ?thesis by (simp add: json_string_def)
qed

lemma break_free_join: "break_free (py_join '', '' xs) = py_join '', '' (map break_free xs)"
proof (induction xs)
  case (Cons x xs)
  then show ?case by (cases xs) simp_all
qed simp

lemma digits_no_break: "CHR 0x85 \<notin> set (int_text k)"
proof -
  have "CHR 0x85 \<notin> set (nat_digits n)" for n
    using nat_digits_props [of n] by (auto simp: list_all_iff is_digit_def dest: bspec [of _ _ "CHR 0x85"])
  then show ?thesis by (simp add: int_text_def)
qed

lemma break_free_json: "break_free (json_dumps j) = show_json line_char j"
proof (induction j)
  case (JArr js)
  then show ?case by (simp add: break_free_join comp_def cong: map_cong)
next
  case (JObj kvs)
  then have "map (break_free \<circ> (\<lambda>(k, j). json_string json_char k @ '': '' @ json_dumps j)) kvs
      = map (\<lambda>(k, j). json_string line_char k @ '': '' @ show_json line_char j) kvs"
    by (auto simp: break_free_string)
  then show ?case by (simp add: break_free_join comp_def cong: map_cong)
next
  case (JInt k)
  then show ?case by (simp add: break_free_other digits_no_break)
qed (simp_all add: break_free_string)

text \<open>The lines have no boundary inside.\<close>

abbreviation one_line :: "string \<Rightarrow> bool" where
  "one_line \<equiv> list_all (\<lambda>c. \<not> is_line_boundary c)"

lemma boundary_chars: "is_line_boundary c \<Longrightarrow> char_code c < 32 \<or> c = CHR 0x85"
proof -
  have "char_code c = 133 \<Longrightarrow> c = CHR 0x85"
    using char_of_code [of c] char_of_code [of "CHR 0x85"] by (simp add: char_code_def)
  then show "is_line_boundary c \<Longrightarrow> char_code c < 32 \<or> c = CHR 0x85" by (auto simp: is_line_boundary_def)
qed

lemma boundary_ascii [simp]:
  "\<not> is_line_boundary (CHR ''n'')"
  "\<not> is_line_boundary (CHR ''r'')"
  "\<not> is_line_boundary (CHR ''t'')"
  "\<not> is_line_boundary (CHR ''f'')"
  "\<not> is_line_boundary (CHR ''b'')"
  "\<not> is_line_boundary (CHR ''u'')"
  "\<not> is_line_boundary (CHR ''0'')"
  "\<not> is_line_boundary (CHR ''8'')"
  "\<not> is_line_boundary (CHR ''5'')"
  "\<not> is_line_boundary (CHR ''['')"
  "\<not> is_line_boundary (CHR '']'')"
  "\<not> is_line_boundary (CHR ''{'')"
  "\<not> is_line_boundary (CHR ''}'')"
  "\<not> is_line_boundary (CHR '':'')"
  "\<not> is_line_boundary (CHR '','')"
  "\<not> is_line_boundary (CHR '' '')"
  "\<not> is_line_boundary (CHR ''e'')"
  "\<not> is_line_boundary (CHR ''a'')"
  "\<not> is_line_boundary (CHR ''l'')"
  "\<not> is_line_boundary (CHR ''s'')"
  "\<not> is_line_boundary (CHR ''-'')"
  "\<not> is_line_boundary (CHR 0x5C)" "\<not> is_line_boundary (CHR 0x22)"
  by (simp_all add: is_line_boundary_def char_code_def)

lemma boundary_digit: "is_digit d \<Longrightarrow> \<not> is_line_boundary d"
  by (auto simp: is_line_boundary_def char_code_def is_digit_def)

lemma line_char_one_line: "one_line (line_char c)"
proof -
  have "one_line (hex2 c)"
    using hex2_printable [of c] printable_no_boundary by (auto simp: list_all_iff)
  then show ?thesis
    using boundary_chars [of c]
    by (auto simp: line_char_def json_char_def Let_def next_line_escape_def)
qed

lemma one_line_string: "one_line (json_string line_char s)"
  using line_char_one_line by (auto simp: json_string_def list_all_iff)

lemma one_line_join: "(\<forall>x \<in> set xs. one_line x) \<Longrightarrow> one_line (py_join '', '' xs)"
proof (induction xs)
  case (Cons x xs)
  then show ?case by (cases xs) simp_all
qed simp

lemma one_line_int: "one_line (int_text k)"
  using nat_digits_props boundary_digit by (auto simp: int_text_def list_all_iff)

lemma one_line_json: "one_line (show_json line_char j)"
proof (induction j)
  case (JArr js)
  then show ?case by (auto intro!: one_line_join)
next
  case (JObj kvs)
  have "one_line (json_string line_char k @ '': '' @ show_json line_char j)" if "(k, j) \<in> set kvs" for k j
    using JObj [OF that, of j] one_line_string by simp
  then show ?case by (auto intro!: one_line_join)
qed (simp_all add: one_line_string one_line_int)

lemma to_json_line_eq: "to_json_line r = show_json line_char (record_json r)"
  by (simp add: to_json_line_def break_free_replace break_free_json)

section \<open>The short name of a method\<close>

definition METHOD_NAME_PREFIXES :: "string list" where
  "METHOD_NAME_PREFIXES = [''RunCommand'', ''RunRequest'', ''Query'']"

fun strip_prefixes :: "string list \<Rightarrow> string \<Rightarrow> string" where
  "strip_prefixes [] name = name"
| "strip_prefixes (pre # pres) name =
     (if startswith name pre \<and> length name > length pre then drop (length pre) name
      else strip_prefixes pres name)"

definition snake_case :: "string \<Rightarrow> string" where
  "snake_case name = concat (map (\<lambda>(i, c). (if is_upper c \<and> i > 0 then ''_'' else []) @ [to_lower c])
     (List.enumerate 0 name))"

definition audit_command_name :: "string \<Rightarrow> string" where
  "audit_command_name meth = snake_case (strip_prefixes METHOD_NAME_PREFIXES (last (py_split slash meth)))"

section \<open>Records are determined by their objects\<close>

lemma item_json_inj: "item_json x = item_json y \<Longrightarrow> x = y"
  by (cases "bi_effect x"; cases "bi_effect y") (simp_all add: item_json_def effect_value_def)

lemma optional_fields_inj: "optional_fields t its = optional_fields t' its' \<Longrightarrow> t = t' \<and> its = its'"
proof -
  have "inj item_json" using item_json_inj by (auto simp: inj_def)
  then show "optional_fields t its = optional_fields t' its' \<Longrightarrow> t = t' \<and> its = its'"
    by (cases t; cases its; cases t'; cases its') (simp_all add: optional_fields_def inj_map_eq_map)
qed

lemma record_json_inj: "record_json r = record_json r' \<Longrightarrow> r = r'"
proof -
  assume "record_json r = record_json r'"
  moreover have "inj JStr" by (simp add: inj_def)
  ultimately show "r = r'"
    by (intro audit_record.equality) (auto simp: record_json_def inj_map_eq_map dest: optional_fields_inj)
qed

section \<open>One record, one line\<close>


end
