(* ===== verification/Node_Tree.thy ===== *)
theory Node_Tree
  imports Attributes Query_Changes Takler_State Audit_Trail
begin

text \<open>
  The tree of nodes (\<^verbatim>\<open>takler/core/node.py\<close>, with the data of \<^verbatim>\<open>task_node.py\<close>,
  \<^verbatim>\<open>node_container.py\<close>, \<^verbatim>\<open>flow.py\<close> and \<^verbatim>\<open>bunch.py\<close>).

  The object graph is a store. Every tree that was ever built has an index, its identity; a node is
  the path of child indices that leads to it, leaf first, so that the parent of \<open>i # q\<close> is \<open>q\<close> and
  a root is \<open>[k]\<close>. The links between the nodes are the \<open>shape\<close> of the trees; the attributes of a
  node are looked up by its position. Running a flow writes attributes and never touches a shape.

  A mutator is a program over the whole \<open>world\<close>: the trees, the flows the bunch holds, the service
  state, the change journal and the readings of the environment (clocks, fresh identifiers).
\<close>

section \<open>Expressions as data\<close>

text \<open>
  The syntax tree of a trigger. A node path carries the two fields the source fills in later: the
  node the expression belongs to and the cached referenced node.
\<close>

record ast_node_path =
  np_node_path :: string
  np_parent_node :: "pos option"
  np_reference_node :: "pos option"

datatype ast =
    AstOpEq ast ast
  | AstOpGt ast ast
  | AstOpGe ast ast
  | AstOpLt ast ast
  | AstOpLe ast ast
  | AstOpAnd ast ast
  | AstOpOr ast ast
  | AstMathAdd ast ast
  | AstNodePath ast_node_path
  | AstVariablePath ast_node_path string
  | AstInteger int
  | AstNodeStatus node_status

record expression =
  ex_free :: bool
  ex_ast :: "ast option"
  ex_expression_str :: string

definition Expression :: "string \<Rightarrow> expression" where
  "Expression s = \<lparr>ex_free = False, ex_ast = None, ex_expression_str = s\<rparr>"

section \<open>The attributes of a node\<close>

datatype node_kind = KTask | KContainer | KFlow

text \<open>The fields of a task, with the values of its generated parameters.\<close>

record task_data =
  task_id :: "string option"
  aborted_reason :: "string option"
  submission_unknown_reason :: "string option"
  try_no :: int
  task_generation :: "string option"
  attempt_id :: "string option"
  submitted_at :: "string option"
  started_at :: "string option"
  ended_at :: "string option"
  job_path :: "string option"
  jobout_path :: "string option"
  orvix_info_path :: "string option"
  run_identity_prepared :: bool
  job_password :: "string option"
  gp_task :: pval
  gp_takler_name :: pval
  gp_takler_rid :: pval
  gp_takler_attempt_id :: pval
  gp_takler_try_no :: pval
  gp_takler_pass :: pval

definition new_task_data :: task_data where
  "new_task_data = \<lparr>task_id = None, aborted_reason = None, submission_unknown_reason = None,
     try_no = 0, task_generation = None, attempt_id = None, submitted_at = None, started_at = None,
     ended_at = None, job_path = None, jobout_path = None, orvix_info_path = None,
     run_identity_prepared = False, job_password = None, gp_task = PNone, gp_takler_name = PNone,
     gp_takler_rid = PNone, gp_takler_attempt_id = PNone, gp_takler_try_no = PNone,
     gp_takler_pass = PNone\<rparr>"

record flow_data =
  in_bunch :: bool
  flow_generation :: "string option"
  flow_calendar :: calendar
  begun :: bool
  calendar_nodes :: "pos list option"
  gp_date :: pval
  gp_time :: pval

definition new_flow_data :: flow_data where
  "new_flow_data = \<lparr>in_bunch = False, flow_generation = None, flow_calendar = Calendar,
     begun = False, calendar_nodes = None, gp_date = PNone, gp_time = PNone\<rparr>"

text \<open>
  One record for the classes \<open>Node\<close>, \<open>Task\<close>, \<open>NodeContainer\<close> and \<open>Flow\<close>: the kind says which
  class the object has, and the parts of the other classes are not read.
\<close>

record node_attrs =
  n_kind :: node_kind
  n_name :: string
  n_state :: node_state
  n_default_status :: node_status
  n_user_parameters :: "parameter dict"
  n_trigger :: "expression option"
  n_complete_trigger :: "expression option"
  n_is_complete_triggered :: bool
  n_events :: "event list"
  n_meters :: "meter list"
  n_limits :: "limit list"
  n_in_limits :: "in_limit list"
  n_repeat :: "repeat option"
  n_times :: "time_attr list"
  n_status_counts :: "(node_status \<Rightarrow> int) option"
  n_status_child_count :: nat
  n_task :: task_data
  n_flow :: flow_data

definition new_node :: "node_kind \<Rightarrow> string \<Rightarrow> node_attrs" where
  "new_node k name = \<lparr>n_kind = k, n_name = name, n_state = new_state, n_default_status = queued,
     n_user_parameters = [], n_trigger = None, n_complete_trigger = None,
     n_is_complete_triggered = False, n_events = [], n_meters = [], n_limits = [],
     n_in_limits = [], n_repeat = None, n_times = [], n_status_counts = None,
     n_status_child_count = 0, n_task = new_task_data, n_flow = new_flow_data\<rparr>"

section \<open>Service state\<close>

record server_state =
  ss_status :: server_status
  ss_status_reason :: "string option"
  ss_halt_causes :: "halt_cause list"

section \<open>The world\<close>

datatype shape = Shape (kids: "shape list")

record world =
  w_shapes :: "shape list"
  w_attrs :: "pos \<Rightarrow> node_attrs"
  w_flows :: "(string \<times> nat) list"
  w_bunch_parameters :: "parameter dict"
  w_host :: string
  w_port :: string
  w_server_state :: server_state
  w_service_stopping :: bool
  w_tracker :: "query_changes option"
  w_monotonic :: int
  w_utcnow :: string
  w_now :: datetime
  w_uuid :: "nat \<Rightarrow> string"
  w_uuid_next :: nat
  w_token :: "nat \<Rightarrow> string"
  w_token_next :: nat
  w_local_time :: string
  w_audit :: "audit_record list"

type_synonym 'a wprog = "(world, exc, 'a) prog"

fun nth_opt :: "'a list \<Rightarrow> nat \<Rightarrow> 'a option" where
  "nth_opt [] i = None"
| "nth_opt (x # xs) i = (case i of 0 \<Rightarrow> Some x | Suc j \<Rightarrow> nth_opt xs j)"

lemma nth_opt_conv: "nth_opt xs i = (if i < length xs then Some (xs ! i) else None)"
  by (induction xs i rule: nth_opt.induct) (auto split: nat.splits)

fun shape_at :: "shape list \<Rightarrow> pos \<Rightarrow> shape option" where
  "shape_at ss [] = None"
| "shape_at ss [k] = nth_opt ss k"
| "shape_at ss (i # j # p) =
     (case shape_at ss (j # p) of None \<Rightarrow> None | Some s \<Rightarrow> nth_opt (kids s) i)"

definition valid :: "world \<Rightarrow> pos \<Rightarrow> bool" where
  "valid w p \<longleftrightarrow> shape_at (w_shapes w) p \<noteq> None"

definition subtree :: "world \<Rightarrow> pos \<Rightarrow> shape" where
  "subtree w p = (case shape_at (w_shapes w) p of None \<Rightarrow> Shape [] | Some s \<Rightarrow> s)"

definition arity :: "world \<Rightarrow> pos \<Rightarrow> nat" where
  "arity w p = length (kids (subtree w p))"

text \<open>The children in order, as positions.\<close>

definition children :: "world \<Rightarrow> pos \<Rightarrow> pos list" where
  "children w p = map (\<lambda>i. i # p) [0..<arity w p]"

fun parent :: "pos \<Rightarrow> pos option" where
  "parent (i # j # p) = Some (j # p)"
| "parent _ = None"

text \<open>A node and its ancestors, in the order the loops \<open>while node is not None\<close> visit them.\<close>

fun ups :: "pos \<Rightarrow> pos list" where
  "ups [] = []"
| "ups (i # p) = (i # p) # ups p"

definition get_root :: "pos \<Rightarrow> pos" where
  "get_root p = [last p]"

abbreviation attr :: "world \<Rightarrow> pos \<Rightarrow> node_attrs" where
  "attr w p \<equiv> w_attrs w p"

abbreviation name_of :: "world \<Rightarrow> pos \<Rightarrow> string" where
  "name_of w p \<equiv> n_name (attr w p)"

abbreviation status_of :: "world \<Rightarrow> pos \<Rightarrow> node_status" where
  "status_of w p \<equiv> node_status (n_state (attr w p))"

abbreviation kind_of :: "world \<Rightarrow> pos \<Rightarrow> node_kind" where
  "kind_of w p \<equiv> n_kind (attr w p)"

abbreviation is_task :: "world \<Rightarrow> pos \<Rightarrow> bool" where
  "is_task w p \<equiv> kind_of w p = KTask"

definition upd :: "pos \<Rightarrow> (node_attrs \<Rightarrow> node_attrs) \<Rightarrow> world \<Rightarrow> world" where
  "upd p f w = w\<lparr>w_attrs := (w_attrs w)(p := f (w_attrs w p))\<rparr>"

definition updN :: "pos \<Rightarrow> (node_attrs \<Rightarrow> node_attrs) \<Rightarrow> unit wprog" where
  "updN p f = modify (upd p f)"

lemma attr_upd: "attr (upd p f w) q = (if q = p then f (attr w p) else attr w q)"
  by (simp add: upd_def)

lemma upd_frame [simp]:
  "w_shapes (upd p f w) = w_shapes w" "w_flows (upd p f w) = w_flows w"
  "w_server_state (upd p f w) = w_server_state w" "w_service_stopping (upd p f w) = w_service_stopping w"
  "w_tracker (upd p f w) = w_tracker w" "w_monotonic (upd p f w) = w_monotonic w"
  "w_utcnow (upd p f w) = w_utcnow w" "w_now (upd p f w) = w_now w"
  "w_uuid (upd p f w) = w_uuid w" "w_uuid_next (upd p f w) = w_uuid_next w"
  "w_token (upd p f w) = w_token w" "w_token_next (upd p f w) = w_token_next w"
  "w_bunch_parameters (upd p f w) = w_bunch_parameters w" "w_host (upd p f w) = w_host w"
  "w_port (upd p f w) = w_port w" "w_local_time (upd p f w) = w_local_time w" "w_audit (upd p f w) = w_audit w"
  by (simp_all add: upd_def)

lemma structure_cong:
  assumes "w_shapes w' = w_shapes w"
  shows "valid w' = valid w" "subtree w' = subtree w" "arity w' = arity w" "children w' = children w"
  by (simp_all add: fun_eq_iff valid_def subtree_def arity_def children_def assms)

lemma structure_upd [simp]:
  "valid (upd p f w) = valid w" "subtree (upd p f w) = subtree w"
  "arity (upd p f w) = arity w" "children (upd p f w) = children w"
  by (rule structure_cong, simp)+

lemma parent_Some: "parent p = Some q \<longleftrightarrow> (\<exists>i. p = i # q) \<and> q \<noteq> []"
  by (cases p rule: parent.cases) auto

lemma parent_Cons: "parent (i # q) = (if q = [] then None else Some q)"
  by (cases q) simp_all

lemma set_ups: "set (ups p) = {q. q \<noteq> [] \<and> (\<exists>r. p = r @ q)}"
proof (induction p)
  case Nil
  then show ?case by auto
next
  case (Cons i p)
  have "{q. q \<noteq> [] \<and> (\<exists>r. i # p = r @ q)} = insert (i # p) {q. q \<noteq> [] \<and> (\<exists>r. p = r @ q)}"
    by (auto simp: Cons_eq_append_conv)
  with Cons show ?case by simp
qed

lemma get_root_ups: "q \<in> set (ups p) \<Longrightarrow> get_root q = get_root p"
  by (auto simp: set_ups get_root_def)

lemma valid_parent: "valid w (i # q) \<Longrightarrow> q \<noteq> [] \<Longrightarrow> valid w q"
  by (cases q) (auto simp: valid_def split: option.splits)

lemma valid_child: "q \<noteq> [] \<Longrightarrow> valid w (i # q) \<longleftrightarrow> valid w q \<and> i < arity w q"
  by (cases q) (auto simp: valid_def arity_def subtree_def nth_opt_conv split: option.splits)

lemma valid_ups: "valid w p \<Longrightarrow> q \<in> set (ups p) \<Longrightarrow> valid w q"
proof (induction p)
  case Nil
  then show ?case by simp
next
  case (Cons i p)
  then show ?case using valid_parent [of w i p] by (cases p) auto
qed

section \<open>Traversals\<close>

lemma in_enumerate_size:
  "(i, s) \<in> set (List.enumerate n ss) \<Longrightarrow> size s < Suc (size_list size ss)"
  by (induction ss arbitrary: n) fastforce+

text \<open>\<open>walk\<close> of the builder: a node before its children, the children in order.\<close>

function walk :: "shape \<Rightarrow> pos \<Rightarrow> pos list" where
  "walk (Shape ss) p = p # concat (map (\<lambda>(i, s). walk s (i # p)) (List.enumerate 0 ss))"
  by pat_completeness auto
termination
  by (relation "measure (\<lambda>(s, p). size s)") (auto dest: in_enumerate_size)

text \<open>Induction over a subtree together with the position of its root.\<close>

lemma subtree_induct [case_names Shape]:
  assumes "\<And>ss p. (\<And>i t. (i, t) \<in> set (List.enumerate 0 ss) \<Longrightarrow> P t (i # p)) \<Longrightarrow> P (Shape ss) p"
  shows "P t p"
  by (induction t p rule: walk.induct) (auto intro: assms)

text \<open>
  \<open>pending = [...]; while pending: node = pending.pop(); ...; pending.extend(node.children)\<close>: the
  list is a stack whose top is its last entry. The traversal depends on the shape only, so the
  loops of the source are loops over this list. The stack is kept with its top first.
\<close>

definition kids_at :: "shape \<Rightarrow> pos \<Rightarrow> (shape \<times> pos) list" where
  "kids_at s p = map (\<lambda>(i, t). (t, i # p)) (List.enumerate 0 (kids s))"

lemma size_kids_at: "sum_list (map (\<lambda>(s, p). size s) (kids_at s p)) < size s"
proof -
  have "sum_list (map (\<lambda>(s, p). size s) (map (\<lambda>(i, t). (t, i # p)) (List.enumerate n ss)))
      \<le> size_list size ss" for n ss
    by (induction ss arbitrary: n) (auto simp: le_Suc_eq intro: le_trans)
  then show ?thesis by (cases s) (simp add: kids_at_def less_Suc_eq_le)
qed

function drain :: "(shape \<times> pos) list \<Rightarrow> pos list" where
  "drain [] = []"
| "drain ((s, p) # pending) = p # drain (rev (kids_at s p) @ pending)"
  by pat_completeness auto
termination
proof (relation "measure (\<lambda>st. sum_list (map (\<lambda>(s, p). size s) st))", goal_cases)
  case 1
  then show ?case by simp
next
  case (2 s p pending)
  have "sum_list (map (\<lambda>(s, p). size s) (rev (kids_at s p))) < size s"
    using size_kids_at [of s p] by (simp add: rev_map sum_list_rev flip: rev_map)
  then show ?case by simp
qed

text \<open>The two starting lists: \<open>list(node.children)\<close> and \<open>[node]\<close>.\<close>

definition pending_children :: "world \<Rightarrow> pos \<Rightarrow> pos list" where
  "pending_children w p = drain (rev (kids_at (subtree w p) p))"

definition pending_from :: "world \<Rightarrow> pos \<Rightarrow> pos list" where
  "pending_from w p = drain [(subtree w p, p)]"

lemma walk_kids: "walk s p = p # concat (map (\<lambda>(t, q). walk t q) (kids_at s p))"
proof (cases s)
  case (Shape ss)
  have "map (\<lambda>(i, t). walk t (i # p)) (List.enumerate 0 ss) =
      map (\<lambda>(t, q). walk t q) (map (\<lambda>(i, t). (t, i # p)) (List.enumerate 0 ss))"
    by (auto simp: comp_def split_beta)
  then show ?thesis by (simp add: Shape kids_at_def del: map_map)
qed

lemma set_drain: "set (drain st) = (\<Union>(s, p) \<in> set st. set (walk s p))"
proof (induction st rule: drain.induct)
  case (2 s p pending)
  then show ?case by (simp add: walk_kids [of s p]) blast
qed simp

lemma set_pending_from: "set (pending_from w p) = set (walk (subtree w p) p)"
  by (simp add: pending_from_def set_drain del: drain.simps)

lemma set_pending_children: "insert p (set (pending_children w p)) = set (walk (subtree w p) p)"
  by (subst walk_kids [of "subtree w p" p]) (auto simp: pending_children_def set_drain)

section \<open>Paths\<close>

text \<open>\<open>node_path\<close>: the names from the root down, joined by pathlib.\<close>

definition path_names :: "world \<Rightarrow> pos \<Rightarrow> string list" where
  "path_names w p = map (name_of w) (rev (ups p))"

definition node_path :: "world \<Rightarrow> pos \<Rightarrow> string" where
  "node_path w p = path_str (pure_path (path_names w p))"

definition is_leaf_node :: "world \<Rightarrow> pos \<Rightarrow> bool" where
  "is_leaf_node w p \<longleftrightarrow> arity w p = 0"

definition get_flow :: "world \<Rightarrow> pos \<Rightarrow> pos option" where
  "get_flow w p = (if kind_of w (get_root p) = KFlow then Some (get_root p) else None)"

text \<open>
  \<open>get_bunch() is not None\<close>: the search goes up until a flow answers with its own field; a root
  that is not a flow answers \<open>None\<close>.
\<close>

definition has_bunch :: "world \<Rightarrow> pos \<Rightarrow> bool" where
  "has_bunch w p = (case find (\<lambda>q. kind_of w q = KFlow) (ups p) of
      None \<Rightarrow> False
    | Some q \<Rightarrow> in_bunch (n_flow (attr w q)))"

definition find_flow :: "world \<Rightarrow> string \<Rightarrow> pos option" where
  "find_flow w name = map_option (\<lambda>k. [k]) (map_of (w_flows w) name)"

text \<open>
  \<open>notify_query_change\<close>: a node of a flow that was replaced reports nothing, and a tree outside the
  bunch has no tracker.
\<close>

definition mark :: "string \<Rightarrow> string set \<Rightarrow> bool \<Rightarrow> unit wprog" where
  "mark path groups invalidate = withState (\<lambda>w. case w_tracker w of
       None \<Rightarrow> ret ()
     | Some q \<Rightarrow> (case qc_mark (w_monotonic w) path groups invalidate q of
           Inl e \<Rightarrow> raise e
         | Inr q' \<Rightarrow> modify (\<lambda>w. w\<lparr>w_tracker := Some q'\<rparr>)))"

definition notify_query_change :: "pos \<Rightarrow> string set \<Rightarrow> bool \<Rightarrow> unit wprog" where
  "notify_query_change p groups invalidate = withState (\<lambda>w.
     let root = get_root p in
     if has_bunch w root \<and> find_flow w (name_of w root) \<noteq> Some root then ret ()
     else if has_bunch w root then mark (node_path w p) groups invalidate
     else ret ())"

abbreviation notify :: "pos \<Rightarrow> string list \<Rightarrow> unit wprog" where
  "notify p groups \<equiv> notify_query_change p (set groups) False"

text \<open>\<open>find_node\<close>: the search loop over the parts of the joined path.\<close>

definition find_child_index :: "world \<Rightarrow> pos \<Rightarrow> string \<Rightarrow> nat option" where
  "find_child_index w p name = find_index (\<lambda>q. name_of w q = name) (children w p)"

fun follow :: "world \<Rightarrow> pos \<Rightarrow> string list \<Rightarrow> pos option" where
  "follow w p [] = Some p"
| "follow w p (tok # toks) =
     (if tok = ''.'' then follow w p toks
      else if tok = ''..'' then (case parent p of None \<Rightarrow> None | Some q \<Rightarrow> follow w q toks)
      else (case find_child_index w p tok of None \<Rightarrow> None | Some i \<Rightarrow> follow w (i # p) toks))"

text \<open>\<open>parts[0]\<close> of an empty tuple raises \<open>IndexError\<close>: the path of the root directory.\<close>

definition find_node :: "world \<Rightarrow> pos \<Rightarrow> string \<Rightarrow> exc + pos option" where
  "find_node w p a_path =
     (let full = path_joinpath (path_parent (parse_path (node_path w p))) a_path;
          root = get_root p;
          parts = (if pp_root full = [] then tl (pp_tail full) else pp_tail full) in
      case parts of
        [] \<Rightarrow> Inl (PyError PyIndexError)
      | part # rest \<Rightarrow> Inr (if part \<noteq> name_of w root then None else follow w root rest))"

definition check_absolute_node_path :: "string \<Rightarrow> bool" where
  "check_absolute_node_path path \<longleftrightarrow> startswith path ''/'' \<and> path \<noteq> ''/''"

definition check_node_path :: "string \<Rightarrow> bool" where
  "check_node_path path =
     (if startswith path ''/'' then check_absolute_node_path path
      else if startswith path ''../'' then length path \<noteq> 3
      else if startswith path ''./'' then length path \<noteq> 2
      else False)"

text \<open>\<open>Bunch.find_node\<close>\<close>

definition bunch_find_node :: "world \<Rightarrow> string \<Rightarrow> exc + pos option" where
  "bunch_find_node w a_path =
     (if \<not> check_absolute_node_path a_path then Inl InvalidNodePathError
      else case find_flow w (py_split slash a_path ! 1) of
          None \<Rightarrow> Inr None
        | Some root \<Rightarrow> find_node w root a_path)"

section \<open>Names, and the round trip between nodes and paths\<close>

text \<open>
  Names as pathlib keeps them, and no two siblings of the same name. Positions that no node has
  carry some attributes too, and the condition asks a name of them that is not looked at.
\<close>

definition names_ok :: "world \<Rightarrow> bool" where
  "names_ok w \<longleftrightarrow> (\<forall>p. clean_name (name_of w p))"

definition siblings_ok :: "world \<Rightarrow> bool" where
  "siblings_ok w \<longleftrightarrow> (\<forall>i j p. valid w (i # p) \<longrightarrow> valid w (j # p) \<longrightarrow> p \<noteq> [] \<longrightarrow>
     name_of w (i # p) = name_of w (j # p) \<longrightarrow> i = j)"

lemma path_names_clean: "names_ok w \<Longrightarrow> \<forall>n \<in> set (path_names w p). clean_name n"
  by (auto simp: path_names_def names_ok_def)

lemma path_names_Cons: "path_names w (i # p) = path_names w p @ [name_of w (i # p)]"
  by (simp add: path_names_def)

lemma node_path_clean: "names_ok w \<Longrightarrow> node_path w p = ''/'' @ py_join ''/'' (path_names w p)"
  unfolding node_path_def by (rule path_str_clean) (rule path_names_clean)

lemma py_join_snoc_last:
  "clean_name n \<Longrightarrow> \<not> endswith (pre @ py_join ''/'' (ns @ [n])) ''/''"
proof (induction ns arbitrary: pre)
  case Nil
  then show ?case by (simp add: clean_not_slash)
next
  case (Cons m ms)
  then have "\<not> endswith ((pre @ m @ ''/'') @ py_join ''/'' (ms @ [n])) ''/''" by blast
  then show ?case by (cases "ms @ [n]") simp_all
qed

lemma node_path_markable:
  assumes "names_ok w"
  shows "startswith (node_path w p) ''/'' \<and> (node_path w p = ''/'' \<or> \<not> endswith (node_path w p) ''/'')"
proof (cases p)
  case Nil
  then show ?thesis using assms by (simp add: node_path_clean path_names_def)
next
  case (Cons i q)
  have "clean_name (name_of w (i # q))" using assms by (simp add: names_ok_def)
  from py_join_snoc_last [OF this, of "''/''" "path_names w q"] show ?thesis
    using assms Cons by (simp add: node_path_clean path_names_Cons)
qed

text \<open>With clean names a report never raises and changes the journal only.\<close>

lemma notify_outcome:
  assumes "names_ok w" and "groups \<subseteq> FIELD_GROUPS" and "groups \<noteq> {} \<or> ivd"
  shows "outcome (notify_query_change p groups ivd w) = Inr ()"
  using node_path_markable [OF assms(1), of p] assms(2,3)
  by (auto simp: notify_query_change_def mark_def qc_mark_def prog_defs Let_def split: option.splits)

text \<open>
  A report writes the journal only, and there it keeps the depth of the transaction and the shape of
  the journal.
\<close>

definition journalled :: "world \<Rightarrow> query_changes option \<Rightarrow> bool" where
  "journalled w t \<longleftrightarrow> map_option qs_depth t = map_option qs_depth (w_tracker w)
     \<and> (\<forall>q q'. w_tracker w = Some q \<longrightarrow> t = Some q' \<longrightarrow> qc_ok q \<longrightarrow> qc_ok q')"

lemma mark_journalled: "\<exists>t. journalled w t \<and> after (mark path g ivd w) = w\<lparr>w_tracker := t\<rparr>"
proof (cases "\<exists>q q'. w_tracker w = Some q \<and> qc_mark (w_monotonic w) path g ivd q = Inr q'")
  case True
  then obtain q q' where q: "w_tracker w = Some q" "qc_mark (w_monotonic w) path g ivd q = Inr q'" by blast
  then show ?thesis using qc_mark_depth [OF q(2)] qc_mark_ok [OF _ q(2)]
    by (intro exI [of _ "Some q'"]) (simp add: mark_def prog_defs journalled_def)
next
  case False
  then have "after (mark path g ivd w) = w" by (auto simp: mark_def prog_defs split: option.splits sum.splits)
  then show ?thesis by (intro exI [of _ "w_tracker w"]) (simp add: journalled_def)
qed

lemma notify_journalled: "\<exists>t. journalled w t \<and> after (notify_query_change p groups ivd w) = w\<lparr>w_tracker := t\<rparr>"
proof -
  have "journalled w (w_tracker w) \<and> w = w\<lparr>w_tracker := w_tracker w\<rparr>" by (simp add: journalled_def)
  moreover have "after (notify_query_change p groups ivd w) = w
      \<or> after (notify_query_change p groups ivd w) = after (mark (node_path w p) groups ivd w)"
    by (simp add: notify_query_change_def withState_def Let_def ret_def)
  ultimately show ?thesis using mark_journalled [of w "node_path w p" groups ivd] by metis
qed

lemma notify_after:
  "\<exists>t. after (notify_query_change p groups ivd w) = w\<lparr>w_tracker := t\<rparr>"
proof -
  have "\<exists>t. w = w\<lparr>w_tracker := t\<rparr>" by (rule exI [of _ "w_tracker w"]) simp
  then show ?thesis
    by (auto simp: notify_query_change_def mark_def prog_defs Let_def split: option.splits sum.splits)
qed

lemma children_nth: "i < arity w p \<Longrightarrow> children w p ! i = i # p"
  by (simp add: children_def)

lemma length_children [simp]: "length (children w p) = arity w p"
  by (simp add: children_def)

lemma find_child_index_SomeD:
  "find_child_index w p name = Some i \<Longrightarrow> i < arity w p \<and> name_of w (i # p) = name"
  by (auto simp: find_child_index_def children_nth dest!: find_index_SomeD)

lemma find_child_index_self:
  assumes "siblings_ok w" and "valid w (i # p)" and "p \<noteq> []"
  shows "find_child_index w p (name_of w (i # p)) = Some i"
  unfolding find_child_index_def
proof (rule find_index_SomeI)
  have i: "valid w p" "i < arity w p" using assms valid_child by auto
  then show "i < length (children w p)" "name_of w (children w p ! i) = name_of w (i # p)"
    by (simp_all add: children_nth)
  fix j assume "j < i"
  then have "valid w (j # p)" "children w p ! j = j # p"
    using i assms(3) valid_child [of p w j] by (simp_all add: children_nth)
  then show "name_of w (children w p ! j) \<noteq> name_of w (i # p)"
    using assms \<open>j < i\<close> unfolding siblings_ok_def by (metis nat_neq_iff)
qed

lemma follow_append: "follow w p (xs @ ys) = Option.bind (follow w p xs) (\<lambda>q. follow w q ys)"
  by (induction w p xs rule: follow.induct) (auto split: option.splits)

lemma follow_path:
  assumes "names_ok w" "siblings_ok w" and "valid w p"
  shows "follow w (get_root p) (tl (path_names w p)) = Some p"
  using assms(3)
proof (induction p)
  case Nil
  then show ?case by (simp add: valid_def)
next
  case (Cons i q)
  show ?case
  proof (cases "q = []")
    case True
    then show ?thesis by (simp add: path_names_def get_root_def)
  next
    case False
    then have q: "valid w q" using Cons.prems by (rule valid_parent [rotated])
    have cl: "clean_name (name_of w (i # q))" using assms(1) by (simp add: names_ok_def)
    have "path_names w q \<noteq> []" using False by (cases q) (simp_all add: path_names_def)
    then have "tl (path_names w (i # q)) = tl (path_names w q) @ [name_of w (i # q)]"
      by (simp add: path_names_Cons)
    moreover have "get_root (i # q) = get_root q" using False by (simp add: get_root_def)
    ultimately show ?thesis
      using Cons.IH [OF q] cl find_child_index_self [OF assms(2) Cons.prems False]
      by (simp add: follow_append clean_name_def)
  qed
qed

lemma path_names_hd:
  assumes "p \<noteq> []"
  shows "path_names w p = name_of w (get_root p) # tl (path_names w p)"
  using assms
proof (induction p)
  case (Cons i q)
  then show ?case by (cases "q = []") (auto simp: path_names_def get_root_def)
qed simp

lemma parse_node_path:
  "names_ok w \<Longrightarrow> parse_path (node_path w p) = \<lparr>pp_root = ''/'', pp_tail = path_names w p\<rparr>"
  using parse_path_clean [OF path_names_clean] node_path_clean by simp

lemma find_node_node_path:
  assumes "names_ok w" "siblings_ok w" "valid w p" "get_root p = get_root q"
  shows "find_node w q (node_path w p) = Inr (Some p)"
proof -
  have ne: "p \<noteq> []" using assms(3) by (auto simp: valid_def)
  obtain rest where names: "path_names w p = name_of w (get_root p) # rest"
    using path_names_hd [OF ne] by blast
  then have follow: "follow w (get_root p) rest = Some p"
    using follow_path [OF assms(1,2,3)] by simp
  have "path_joinpath x (node_path w p) = \<lparr>pp_root = ''/'', pp_tail = path_names w p\<rparr>" for x
    using node_path_markable [OF assms(1), of p] parse_node_path [OF assms(1), of p]
    by (simp add: path_joinpath_absolute)
  then show ?thesis
    using follow assms(4) names by (simp add: find_node_def Let_def)
qed

text \<open>The first component of a printed path is the name of the flow.\<close>

lemma split_node_path:
  assumes "names_ok w" and "p \<noteq> []"
  shows "py_split slash (node_path w p) ! 1 = name_of w (get_root p)"
proof -
  obtain rest where hd: "path_names w p = name_of w (get_root p) # rest"
    using path_names_hd [OF assms(2)] by blast
  have "py_split slash (node_path w p) = [] # path_names w p"
    using assms(1) hd path_names_clean [OF assms(1), of p]
    by (simp add: node_path_clean py_split_join clean_name_def)
  then show ?thesis using hd by simp
qed

definition attached :: "world \<Rightarrow> pos \<Rightarrow> bool" where
  "attached w p \<longleftrightarrow> valid w p \<and> find_flow w (name_of w (get_root p)) = Some (get_root p)"

lemma bunch_find_node_path:
  assumes "names_ok w" "siblings_ok w" "attached w p"
  shows "bunch_find_node w (node_path w p) = Inr (Some p)"
proof -
  have v: "valid w p" and f: "find_flow w (name_of w (get_root p)) = Some (get_root p)"
    using assms(3) by (auto simp: attached_def)
  then have ne: "p \<noteq> []" by (auto simp: valid_def)
  obtain rest where hd: "path_names w p = name_of w (get_root p) # rest"
    using path_names_hd [OF ne] by blast
  then have "node_path w p \<noteq> ''/''"
    using path_names_clean [OF assms(1), of p] assms(1)
    by (cases rest) (auto simp: node_path_clean clean_name_def)
  then have "check_absolute_node_path (node_path w p)"
    using node_path_markable [OF assms(1), of p] by (simp add: check_absolute_node_path_def)
  then show ?thesis
    using split_node_path [OF assms(1) ne] f find_node_node_path [OF assms(1,2) v, of "get_root p"]
    by (simp add: bunch_find_node_def get_root_def)
qed

lemma node_path_inj:
  assumes "names_ok w" "siblings_ok w" "valid w p" "valid w q" "get_root p = get_root q"
    and "node_path w p = node_path w q"
  shows "p = q"
proof -
  have "Inr (Some p) = find_node w q (node_path w p)"
    using find_node_node_path [OF assms(1,2,3,5)] by (rule sym)
  also have "\<dots> = find_node w q (node_path w q)" using assms(6) by (rule arg_cong)
  also have "\<dots> = Inr (Some q)" using assms(1,2,4) refl by (rule find_node_node_path)
  finally show ?thesis by simp
qed

text \<open>
  C14. A node's path is a name for it: for a node of a flow in the bunch, printing its path and looking the
  path up in the bunch gives back that very node, from any node of the same tree the path leads to it as
  well, and two nodes of the bunch never have the same path.
\<close>

theorem find_node_roundtrip:
  assumes "names_ok w" and "siblings_ok w" and "attached w p"
  shows "bunch_find_node w (node_path w p) = Inr (Some p)
    \<and> (\<forall>q. get_root q = get_root p \<longrightarrow> find_node w q (node_path w p) = Inr (Some p))
    \<and> (\<forall>q. attached w q \<longrightarrow> node_path w q = node_path w p \<longrightarrow> q = p)"
proof (intro conjI allI impI)
  show found: "bunch_find_node w (node_path w p) = Inr (Some p)"
    by (rule bunch_find_node_path [OF assms])
  show "find_node w q (node_path w p) = Inr (Some p)" if "get_root q = get_root p" for q
    using find_node_node_path [OF assms(1,2), of p q] assms(3) that by (simp add: attached_def)
  show "q = p" if "attached w q" "node_path w q = node_path w p" for q
    using bunch_find_node_path [OF assms(1,2) that(1)] that(2) found by simp
qed

end
