(* ===== verification/Node_Status.thy ===== *)
theory Node_Status
  imports Node_Tree
begin

text \<open>
  Status of nodes (\<^verbatim>\<open>node.py\<close>, \<^verbatim>\<open>node_container.py\<close>, \<^verbatim>\<open>task_node.py\<close>): reading it off the children,
  the per-container cache of status counts, and the writes that keep the cache in step. The frame
  locale \<open>world_frame\<close> lists the elementary writes of the whole program; what holds of each of them
  holds of every operation built from them.
\<close>

section \<open>Reading the status of a container\<close>

definition SIGNIFICANT :: "node_status list" where
  "SIGNIFICANT = [aborted, active, submitted, queued, complete]"

definition count_status :: "node_status list \<Rightarrow> node_status \<Rightarrow> int" where
  "count_status ss s = int (length (filter (\<lambda>t. t = s) ss))"

text \<open>\<open>for status in (...): if count[status] > 0: return status\<close>, else \<open>unknown\<close>.\<close>

definition compute_most_significant_status :: "node_status list \<Rightarrow> node_status" where
  "compute_most_significant_status ss =
     (case find (\<lambda>s. count_status ss s > 0) SIGNIFICANT of Some s \<Rightarrow> s | None \<Rightarrow> unknown)"

lemma count_status_pos: "count_status ss s > 0 \<longleftrightarrow> s \<in> set ss"
  by (auto simp: count_status_def filter_empty_conv)

lemma count_status_zero: "count_status ss s = 0 \<longleftrightarrow> s \<notin> set ss"
  by (auto simp: count_status_def filter_empty_conv)

text \<open>The most significant status is the greatest one.\<close>

lemma most_significant_Max: "ss \<noteq> [] \<Longrightarrow> compute_most_significant_status ss = Max (set ss)"
proof (rule Max_eqI [symmetric])
  assume ne: "ss \<noteq> []"
  show "finite (set ss)" by simp
  show "t \<le> compute_most_significant_status ss" if "t \<in> set ss" for t
    by (insert that, cases t) (auto simp: compute_most_significant_status_def SIGNIFICANT_def
        count_status_pos status_order_defs)
  show "compute_most_significant_status ss \<in> set ss"
  proof (cases "\<exists>s \<in> set SIGNIFICANT. s \<in> set ss")
    case True
    then show ?thesis
      by (auto simp: compute_most_significant_status_def SIGNIFICANT_def count_status_pos)
  next
    case False
    moreover obtain t where "t \<in> set ss" using ne by (cases ss) auto
    ultimately have "t = unknown" by (cases t) (auto simp: SIGNIFICANT_def)
    with \<open>t \<in> set ss\<close> False show ?thesis
      by (simp add: compute_most_significant_status_def SIGNIFICANT_def count_status_pos)
  qed
qed

text \<open>\<open>computed_status(immediate=False)\<close>: from the leaves.\<close>

function computed_status_deep :: "world \<Rightarrow> shape \<Rightarrow> pos \<Rightarrow> node_status" where
  "computed_status_deep w (Shape ss) p =
     (if is_task w p \<or> ss = [] then status_of w p
      else compute_most_significant_status
             (map (\<lambda>(i, s). computed_status_deep w s (i # p)) (List.enumerate 0 ss)))"
  by pat_completeness auto
termination
  by (relation "measure (\<lambda>(w, s, p). size s)") (auto dest: in_enumerate_size)

definition child_statuses :: "world \<Rightarrow> pos \<Rightarrow> node_status list" where
  "child_statuses w p = map (status_of w) (children w p)"

text \<open>The reference reading with \<open>immediate=True\<close>, without any cache.\<close>

definition plain_status :: "world \<Rightarrow> pos \<Rightarrow> node_status" where
  "plain_status w p =
     (if is_task w p \<or> arity w p = 0 then status_of w p
      else compute_most_significant_status (child_statuses w p))"

text \<open>
  \<open>computed_status(immediate=True)\<close>: a task answers its own status; a container counts its
  children once and afterwards trusts the counts.
\<close>

definition count_children :: "pos \<Rightarrow> world \<Rightarrow> world" where
  "count_children p w =
     (if n_status_counts (attr w p) = None \<or> n_status_child_count (attr w p) \<noteq> arity w p
      then upd p (\<lambda>a. a\<lparr>n_status_counts := Some (count_status (child_statuses w p)),
                        n_status_child_count := arity w p\<rparr>) w
      else w)"

definition significant_count :: "(node_status \<Rightarrow> int) \<Rightarrow> node_status" where
  "significant_count c = (case find (\<lambda>s. c s \<noteq> 0) SIGNIFICANT of Some s \<Rightarrow> s | None \<Rightarrow> unknown)"

definition computed_status :: "pos \<Rightarrow> node_status wprog" where
  "computed_status p = withState (\<lambda>w.
     if is_task w p \<or> arity w p = 0 then ret (status_of w p)
     else seqM (modify (count_children p))
            (gets (\<lambda>w. significant_count (the (n_status_counts (attr w p))))))"

section \<open>Writing a status\<close>

definition child_status_changed :: "node_status \<Rightarrow> node_status \<Rightarrow> node_attrs \<Rightarrow> node_attrs" where
  "child_status_changed old new a = a\<lparr>n_status_counts := map_option
     (\<lambda>c. let c' = c(old := c old - 1) in c'(new := c' new + 1)) (n_status_counts a)\<rparr>"

text \<open>The parent link of a node; a position no node has is nobody's child.\<close>

definition parent_of :: "world \<Rightarrow> pos \<Rightarrow> pos option" where
  "parent_of w p = (if valid w p then parent p else None)"

definition write_state :: "node_status \<Rightarrow> node_attrs \<Rightarrow> node_attrs" where
  "write_state s a = a\<lparr>n_state := (n_state a)\<lparr>node_status := s\<rparr>\<rparr>"

definition write_status :: "pos \<Rightarrow> node_status \<Rightarrow> world \<Rightarrow> world" where
  "write_status p s w =
     (let old = status_of w p; w1 = upd p (write_state s) w in
      case parent_of w p of
        None \<Rightarrow> w1
      | Some q \<Rightarrow> if is_task w q then w1 else upd q (child_status_changed old s) w1)"

definition Node_set_node_status_only :: "pos \<Rightarrow> node_status \<Rightarrow> unit wprog" where
  "Node_set_node_status_only p s = withState (\<lambda>w.
     if status_of w p = s then ret ()
     else seqM (modify (write_status p s)) (notify p [''summary'']))"

definition upd_task :: "(task_data \<Rightarrow> task_data) \<Rightarrow> node_attrs \<Rightarrow> node_attrs" where
  "upd_task f a = a\<lparr>n_task := f (n_task a)\<rparr>"

definition upd_flow :: "(flow_data \<Rightarrow> flow_data) \<Rightarrow> node_attrs \<Rightarrow> node_attrs" where
  "upd_flow f a = a\<lparr>n_flow := f (n_flow a)\<rparr>"

abbreviation unknown_reason :: "world \<Rightarrow> pos \<Rightarrow> string option" where
  "unknown_reason w p \<equiv> submission_unknown_reason (n_task (attr w p))"

definition Task_set_node_status_only :: "pos \<Rightarrow> node_status \<Rightarrow> unit wprog" where
  "Task_set_node_status_only p s = withState (\<lambda>w.
     seqM (whenM (\<not> in_flight s \<and> unknown_reason w p \<noteq> None)
             (seqM (updN p (upd_task (\<lambda>t. t\<lparr>submission_unknown_reason := None\<rparr>)))
                   (notify p [''summary'', ''runtime''])))
          (Node_set_node_status_only p s))"

text \<open>Dynamic dispatch: the method of the object's class.\<close>

definition set_node_status_only :: "pos \<Rightarrow> node_status \<Rightarrow> unit wprog" where
  "set_node_status_only p s = withState (\<lambda>w.
     if is_task w p then Task_set_node_status_only p s else Node_set_node_status_only p s)"

definition mark_submission_unknown :: "pos \<Rightarrow> string \<Rightarrow> unit wprog" where
  "mark_submission_unknown p reason = withState (\<lambda>w.
     let t = n_task (attr w p) in
     if status_of w p \<noteq> submitted \<or> attempt_id t = None \<or> attempt_id t = Some []
     then raise FlowStateError
     else whenM (submission_unknown_reason t = None)
            (seqM (updN p (upd_task (\<lambda>t. t\<lparr>submission_unknown_reason := Some reason\<rparr>)))
                  (notify p [''summary'', ''runtime''])))"

definition set_default_node_status :: "pos \<Rightarrow> node_status \<Rightarrow> unit wprog" where
  "set_default_node_status p s =
     (if s \<noteq> queued \<and> s \<noteq> complete then raise UnsupportedValueError
      else seqM (updN p (\<lambda>a. a\<lparr>n_default_status := s\<rparr>)) (notify p [''definition'', ''runtime'']))"

section \<open>Elementary writes and the world frame\<close>

text \<open>
  What the elementary writes other than status and limit writes leave alone. The reference an
  in-limit caches is not part of it.
\<close>

definition in_limit_key :: "in_limit \<Rightarrow> string \<times> int \<times> string option" where
  "in_limit_key il = (il_limit_name il, il_tokens il, il_node_path il)"

definition core :: "node_attrs \<Rightarrow> node_kind \<times> string \<times> node_status \<times> (node_status \<Rightarrow> int) option \<times> nat
    \<times> limit list \<times> (string \<times> int \<times> string option) list \<times> repeat option \<times> flow_data" where
  "core a = (n_kind a, n_name a, node_status (n_state a), n_status_counts a, n_status_child_count a,
     n_limits a, map in_limit_key (n_in_limits a), n_repeat a, n_flow a)"

definition benign :: "(node_attrs \<Rightarrow> node_attrs) \<Rightarrow> bool" where
  "benign f \<longleftrightarrow> (\<forall>a. core (f a) = core a)"

lemmas core_defs = benign_def core_def upd_task_def upd_flow_def

definition get_limit :: "world \<Rightarrow> lref \<Rightarrow> limit" where
  "get_limit w r = n_limits (attr w (fst r)) ! snd r"

definition upd_limit :: "lref \<Rightarrow> (limit \<Rightarrow> limit) \<Rightarrow> world \<Rightarrow> world" where
  "upd_limit r f w =
     upd (fst r) (\<lambda>a. a\<lparr>n_limits := (n_limits a)[snd r := f (n_limits a ! snd r)]\<rparr>) w"

text \<open>The tokens some in-limit of the world asks for.\<close>

definition tokens_of :: "world \<Rightarrow> int set" where
  "tokens_of w = {il_tokens il | il q. il \<in> set (n_in_limits (attr w q))}"

text \<open>Two levels: programs that only write what is not in the core, and all programs.\<close>

locale benign_frame = frame R for R :: "world \<Rightarrow> world \<Rightarrow> bool" +
  assumes R_tracker: "journalled w t \<Longrightarrow> R w (w\<lparr>w_tracker := t\<rparr>)"
    and R_benign: "benign f \<Longrightarrow> R w (upd p f w)"
begin

lemma obeys_notify [frame_intro]: "obeys R (notify_query_change p g i)"
  using notify_journalled [of _ p g i] R_tracker unfolding obeys_def by metis

lemma obeys_updN: "benign f \<Longrightarrow> obeys R (updN p f)"
  by (simp add: obeys_def updN_def prog_defs R_benign)

lemma after_notify: "R w w' \<Longrightarrow> R w (after (notify_query_change p g i w'))"
  using obeysD [OF obeys_notify] R_trans by blast

end

text \<open>All run-time programs.\<close>

locale world_frame = benign_frame R for R :: "world \<Rightarrow> world \<Rightarrow> bool" +
  assumes R_increment: "k \<in> tokens_of w \<Longrightarrow> R w (upd_limit r (limit_increment k path) w)"
    and R_decrement: "k \<in> tokens_of w \<Longrightarrow> R w (upd_limit r (limit_decrement k path) w)"
    and R_supply: "R w (w\<lparr>w_uuid_next := m\<rparr>)" "R w (w\<lparr>w_token_next := m\<rparr>)"
    and R_status: "R w (write_status p s w)"
    and R_counts: "arity w p \<noteq> 0 \<Longrightarrow> \<not> is_task w p \<Longrightarrow> R w (count_children p w)"
    and R_repeat: "R w (upd p (\<lambda>a. a\<lparr>n_repeat := rp\<rparr>) w)"
begin

lemma obeys_repeat [frame_intro]: "obeys R (updN p (\<lambda>a. a\<lparr>n_repeat := rp\<rparr>))"
  by (simp add: obeys_def updN_def prog_defs R_repeat)

lemma obeys_status [frame_intro]: "obeys R (modify (write_status p s))"
  by (simp add: obeys_def prog_defs R_status)

lemma obeys_computed_status [frame_intro]: "obeys R (computed_status p)"
  by (simp add: obeys_def computed_status_def prog_defs R_refl R_counts)

lemma obeys_set_node_status_only [frame_intro]: "obeys R (set_node_status_only p s)"
  unfolding set_node_status_only_def Task_set_node_status_only_def Node_set_node_status_only_def
  by (intro frame_intro obeys_updN) (simp add: core_defs)

lemma obeys_mark_submission_unknown [frame_intro]: "obeys R (mark_submission_unknown p reason)"
  unfolding mark_submission_unknown_def
  by (intro frame_intro obeys_updN) (simp add: core_defs)

lemma obeys_set_default_node_status [frame_intro]: "obeys R (set_default_node_status p s)"
  unfolding set_default_node_status_def
  by (intro frame_intro obeys_updN) (simp add: core_defs)

end

text \<open>The programs that write the data of a flow too.\<close>

locale flow_frame = world_frame R for R :: "world \<Rightarrow> world \<Rightarrow> bool" +
  assumes R_flow_data: "R w (upd p (upd_flow g) w)"

text \<open>Everything the benign programs leave alone.\<close>

definition core_view where
  "core_view w = (w_shapes w, (\<lambda>p. core (attr w p)), w_flows w, w_server_state w, w_service_stopping w)"

interpretation benign: benign_frame "same core_view"
proof (intro benign_frame.intro frame_same, unfold_locales, goal_cases)
  case (2 f w p)
  then show ?case by (auto simp: same_def core_view_def attr_upd benign_def)
qed (simp add: same_def core_view_def)

section \<open>The structure of the world\<close>

text \<open>What no run-time operation changes: the trees, the identity of the nodes and the bunch.\<close>

definition limit_key :: "limit \<Rightarrow> string \<times> int" where
  "limit_key l = (lm_name l, lm_limit l)"

definition skeleton :: "world \<Rightarrow> shape list \<times> (pos \<Rightarrow> node_kind \<times> string \<times> (string \<times> int) list
    \<times> (string \<times> int \<times> string option) list) \<times> (string \<times> nat) list \<times> server_state \<times> bool" where
  "skeleton w = (w_shapes w, (\<lambda>p. (kind_of w p, name_of w p, map limit_key (n_limits (attr w p)),
     map in_limit_key (n_in_limits (attr w p)))), w_flows w, w_server_state w, w_service_stopping w)"

lemma skeleton_upd:
  "(\<And>a. n_kind (f a) = n_kind a \<and> n_name (f a) = n_name a \<and> map limit_key (n_limits (f a)) = map limit_key (n_limits a)
      \<and> map in_limit_key (n_in_limits (f a)) = map in_limit_key (n_in_limits a)) \<Longrightarrow>
   skeleton (upd p f w) = skeleton w"
  by (auto simp: skeleton_def attr_upd)

text \<open>Paths and lookups read the skeleton only.\<close>

lemma skeletonD:
  assumes "skeleton w' = skeleton w"
  shows "w_shapes w' = w_shapes w" "kind_of w' p = kind_of w p" "name_of w' p = name_of w p"
    "w_flows w' = w_flows w" "w_server_state w' = w_server_state w" "w_service_stopping w' = w_service_stopping w"
    "length (n_limits (attr w' p)) = length (n_limits (attr w p))"
    "length (n_in_limits (attr w' p)) = length (n_in_limits (attr w p))"
  using assms by (simp_all add: skeleton_def fun_eq_iff) (blast dest: map_eq_imp_length_eq)+

lemma names_ok_skeleton:
  assumes sk: "skeleton w' = skeleton w"
  shows "names_ok w' = names_ok w"
  by (simp add: names_ok_def skeletonD(3) [OF sk])

lemma node_path_skeleton:
  assumes sk: "skeleton w' = skeleton w"
  shows "node_path w' = node_path w"
  by (simp add: fun_eq_iff node_path_def path_names_def skeletonD(3) [OF sk])

lemma find_child_index_skeleton:
  assumes sk: "skeleton w' = skeleton w"
  shows "find_child_index w' = find_child_index w"
  by (simp add: fun_eq_iff find_child_index_def skeletonD(3) [OF sk] structure_cong [OF skeletonD(1) [OF sk]])

lemma follow_skeleton:
  assumes sk: "skeleton w' = skeleton w"
  shows "follow w' p toks = follow w p toks"
  by (induction toks arbitrary: p) (simp_all add: find_child_index_skeleton [OF sk] split: option.splits)

lemma find_node_skeleton:
  assumes sk: "skeleton w' = skeleton w"
  shows "find_node w' = find_node w"
  by (simp add: fun_eq_iff find_node_def node_path_skeleton [OF sk] skeletonD(3) [OF sk] follow_skeleton [OF sk]
      Let_def split: list.splits)

lemma bunch_find_node_skeleton:
  assumes sk: "skeleton w' = skeleton w"
  shows "bunch_find_node w' = bunch_find_node w"
  by (simp add: fun_eq_iff bunch_find_node_def find_flow_def find_node_skeleton [OF sk] skeletonD(4) [OF sk]
      split: option.splits)


lemma limit_key_step [simp]:
  "limit_key (limit_increment k path l) = limit_key l" "limit_key (limit_decrement k path l) = limit_key l"
  by (simp_all add: limit_key_def)

lemma skeleton_upd_limit:
  assumes "\<And>l. limit_key (f l) = limit_key l"
  shows "skeleton (upd_limit r f w) = skeleton w"
  unfolding upd_limit_def
proof (rule skeleton_upd, intro conjI)
  fix a :: node_attrs
  show "map limit_key (n_limits (a\<lparr>n_limits := (n_limits a)[snd r := f (n_limits a ! snd r)]\<rparr>)) =
      map limit_key (n_limits a)"
    by (cases "snd r < length (n_limits a)")
       (auto simp: map_update assms list_update_same_conv list_update_beyond)
qed simp_all

interpretation skel: flow_frame "same skeleton"
proof (intro flow_frame.intro world_frame.intro benign_frame.intro frame_same, unfold_locales, goal_cases)
  case (2 f w p)
  then show ?case
    unfolding same_def by (intro skeleton_upd) (auto simp: core_defs)
next
  case (7 w p s)
  show ?case
    by (simp add: same_def write_status_def Let_def skeleton_upd write_state_def child_status_changed_def
        split: option.splits)
next
  case (8 w p)
  show ?case by (simp add: same_def count_children_def skeleton_upd)
next
  case (9 w p rp)
  show ?case by (simp add: same_def skeleton_upd)
next
  case (10 w p g)
  show ?case by (simp add: same_def skeleton_upd upd_flow_def)
qed (simp_all add: same_def skeleton_def [of "w_tracker_update f w" for f w]
    skeleton_def [of "w_uuid_next_update f w" for f w] skeleton_def [of "w_token_next_update f w" for f w]
    skeleton_def skeleton_upd_limit [unfolded skeleton_def])

section \<open>The status cache\<close>

text \<open>A cache that is in use counts the children exactly.\<close>

definition counts_ok :: "world \<Rightarrow> bool" where
  "counts_ok w \<longleftrightarrow> (\<forall>p c. n_status_counts (attr w p) = Some c \<longrightarrow> \<not> is_task w p \<longrightarrow>
     n_status_child_count (attr w p) = arity w p \<longrightarrow> c = count_status (child_statuses w p))"

lemma significant_count: "significant_count (count_status ss) = compute_most_significant_status ss"
proof -
  have "(count_status ss s \<noteq> 0) = (count_status ss s > 0)" for s
    by (simp add: count_status_zero count_status_pos)
  then show ?thesis by (simp add: significant_count_def compute_most_significant_status_def)
qed

lemma length_filter_upd:
  assumes "i < length xs"
  shows "int (length (filter P (xs[i := y]))) =
    int (length (filter P xs)) - (if P (xs ! i) then 1 else 0) + (if P y then 1 else 0)"
  using assms
proof (induction xs arbitrary: i)
  case Nil
  then show ?case by simp
next
  case (Cons x xs)
  show ?case
  proof (cases i)
    case 0
    then show ?thesis by simp
  next
    case (Suc j)
    then have "j < length xs" using Cons.prems by simp
    from Cons.IH [OF this] Suc show ?thesis by (simp split: if_splits)
  qed
qed

lemma count_status_upd:
  assumes "i < length ss" and "ss ! i = old"
  shows "count_status (ss[i := new]) =
    (let c' = (count_status ss)(old := count_status ss old - 1) in c'(new := c' new + 1))"
  using assms by (auto simp: fun_eq_iff count_status_def length_filter_upd Let_def)

lemma map_upt_point:
  assumes "\<And>j. j \<noteq> i \<Longrightarrow> g j = h j"
  shows "map g [0..<n] = (map h [0..<n])[i := g i]"
proof (rule nth_equalityI)
  fix k assume "k < length (map g [0..<n])"
  then show "map g [0..<n] ! k = (map h [0..<n])[i := g i] ! k"
    using assms by (cases "k = i") simp_all
qed simp

lemma child_statuses_upd:
  "child_statuses (upd p f w) q = (case p of [] \<Rightarrow> child_statuses w q | i # r \<Rightarrow>
      if r = q then (child_statuses w q)[i := node_status (n_state (f (attr w p)))]
      else child_statuses w q)"
proof (cases p)
  case Nil
  then show ?thesis by (auto simp: child_statuses_def children_def attr_upd)
next
  case (Cons i r)
  show ?thesis
  proof (cases "r = q")
    case True
    have "map (\<lambda>j. status_of (upd p f w) (j # q)) [0..<arity w q] =
        (map (\<lambda>j. status_of w (j # q)) [0..<arity w q])[i := status_of (upd p f w) (i # q)]"
      by (rule map_upt_point) (simp add: attr_upd Cons)
    then show ?thesis
      using Cons True by (simp add: child_statuses_def children_def attr_upd comp_def)
  next
    case False
    then show ?thesis using Cons by (simp add: child_statuses_def children_def attr_upd)
  qed
qed

lemma counts_ok_core:
  assumes "counts_ok w" and "\<And>a. n_kind (f a) = n_kind a" "\<And>a. n_status_counts (f a) = n_status_counts a"
    "\<And>a. n_status_child_count (f a) = n_status_child_count a"
    "\<And>a. node_status (n_state (f a)) = node_status (n_state a)"
  shows "counts_ok (upd p f w)"
proof -
  have "child_statuses (upd p f w) q = child_statuses w q" for q
    by (auto simp: child_statuses_def children_def attr_upd assms(5))
  then show ?thesis
    using assms(1-4) unfolding counts_ok_def by (simp add: attr_upd)
qed

lemma counts_ok_write_status:
  assumes ok: "counts_ok w"
  shows "counts_ok (write_status p s w)"
proof (cases "parent_of w p")
  case None
  then have none: "p = i # q \<Longrightarrow> \<not> (i < arity w q \<and> q \<noteq> [] \<and> valid w q)" for i q
    using valid_child [of q w i] by (cases q) (auto simp: parent_of_def split: if_splits)
  have dead: "arity w q = 0" if "\<not> valid w q" for q
    using that by (simp add: arity_def subtree_def valid_def)
  have "child_statuses (upd p (write_state s) w) q = child_statuses w q" for q
  proof (cases p)
    case (Cons i r)
    have "length (child_statuses w r) \<le> i"
      using none [OF Cons] dead [of r] by (auto simp: child_statuses_def valid_def)
    then show ?thesis by (auto simp: Cons child_statuses_upd list_update_beyond)
  qed (simp add: child_statuses_upd)
  then show ?thesis
    using ok None unfolding counts_ok_def write_status_def
    by (simp add: Let_def attr_upd write_state_def)
next
  case (Some q)
  then obtain i where p: "p = i # q" "q \<noteq> []" and v: "valid w p"
    by (auto simp: parent_of_def parent_Some split: if_splits)
  then have i: "i < arity w q" using valid_child by blast
  let ?w1 = "upd p (write_state s) w"
  have other: "child_statuses ?w1 r = child_statuses w r" if "r \<noteq> q" for r
    using that p by (auto simp: child_statuses_upd)
  have here: "child_statuses ?w1 q = (child_statuses w q)[i := s]"
    using p by (simp add: child_statuses_upd write_state_def)
  have old: "child_statuses w q ! i = status_of w p" "i < length (child_statuses w q)"
    using i p by (simp_all add: child_statuses_def children_nth)
  have sib: "child_statuses (upd q (child_status_changed old s) ?w1) r = child_statuses ?w1 r" for old r
    by (auto simp: child_statuses_def children_def attr_upd child_status_changed_def)
  show ?thesis
    unfolding counts_ok_def
  proof (intro allI impI)
    fix r c
    assume c: "n_status_counts (attr (write_status p s w) r) = Some c"
      and task: "\<not> is_task (write_status p s w) r"
      and cnt: "n_status_child_count (attr (write_status p s w) r) = arity (write_status p s w) r"
    have ws: "write_status p s w = (if is_task w q then ?w1
        else upd q (child_status_changed (status_of w p) s) ?w1)"
      by (simp add: write_status_def Some)
    have qp: "q \<noteq> p" using p by simp
    show "c = count_status (child_statuses (write_status p s w) r)"
    proof (cases "r = q")
      case True
      have "\<not> is_task w q" "n_status_child_count (attr w q) = arity w q"
        using task cnt qp True
        by (simp_all add: ws attr_upd child_status_changed_def split: if_splits)
      moreover from this True c qp obtain c0 where "n_status_counts (attr w q) = Some c0"
        "c = (let c' = c0(status_of w p := c0 (status_of w p) - 1) in c'(s := c' s + 1))"
        by (auto simp: ws attr_upd child_status_changed_def)
      moreover from calculation ok have "c0 = count_status (child_statuses w q)"
        by (simp add: counts_ok_def)
      ultimately show ?thesis
        using True by (simp add: ws sib here count_status_upd [OF old(2,1)])
    next
      case False
      then show ?thesis
        using c task cnt ok by (auto simp: ws attr_upd write_state_def sib other counts_ok_def split: if_splits)
    qed
  qed
qed

lemma counts_ok_count_children: "counts_ok w \<Longrightarrow> counts_ok (count_children p w)"
proof -
  have "child_statuses (upd p (\<lambda>a. a\<lparr>n_status_counts := c, n_status_child_count := k\<rparr>) w) q = child_statuses w q"
    for c k q
    by (auto simp: child_statuses_def children_def attr_upd)
  then show "counts_ok w \<Longrightarrow> counts_ok (count_children p w)"
    unfolding counts_ok_def count_children_def by (auto simp: attr_upd)
qed

lemma counts_ok_frame:
  "w_shapes w' = w_shapes w \<Longrightarrow> w_attrs w' = w_attrs w \<Longrightarrow> counts_ok w' = counts_ok w"
  by (simp add: counts_ok_def child_statuses_def structure_cong [of w' w])

interpretation cached: flow_frame "keeps_inv counts_ok"
proof (intro flow_frame.intro world_frame.intro benign_frame.intro frame_keeps_inv, unfold_locales, goal_cases)
  case (2 f w p)
  then show ?case
    unfolding keeps_inv_def by (intro impI counts_ok_core) (auto simp: benign_def core_def)
next
  case (3 k w r path)
  show ?case unfolding keeps_inv_def upd_limit_def by (intro impI counts_ok_core) simp_all
next
  case (4 k w r path)
  show ?case unfolding keeps_inv_def upd_limit_def by (intro impI counts_ok_core) simp_all
next
  case (7 w p s)
  show ?case unfolding keeps_inv_def using counts_ok_write_status by blast
next
  case (8 w p)
  show ?case unfolding keeps_inv_def using counts_ok_count_children by blast
next
  case (9 w p rp)
  show ?case unfolding keeps_inv_def by (intro impI counts_ok_core) simp_all
next
  case (10 w p g)
  show ?case unfolding keeps_inv_def by (intro impI counts_ok_core) (simp_all add: upd_flow_def)
qed (simp_all add: keeps_inv_def counts_ok_def child_statuses_def arity_def subtree_def children_def)

text \<open>With a truthful cache the cached reading is the plain one.\<close>

lemma computed_status_plain:
  assumes "counts_ok w"
  shows "outcome (computed_status p w) = Inr (plain_status w p)"
proof (cases "is_task w p \<or> arity w p = 0")
  case True
  then show ?thesis by (auto simp: computed_status_def plain_status_def prog_defs)
next
  case False
  have ok: "counts_ok (count_children p w)" using assms by (rule counts_ok_count_children)
  have "n_status_counts (attr (count_children p w) p) = Some (count_status (child_statuses w p))"
  proof (cases "n_status_counts (attr w p) = None \<or> n_status_child_count (attr w p) \<noteq> arity w p")
    case True
    then show ?thesis by (auto simp: count_children_def attr_upd)
  next
    case keep: False
    then show ?thesis using assms False by (auto simp: count_children_def counts_ok_def)
  qed
  with False show ?thesis
    by (auto simp: computed_status_def plain_status_def prog_defs significant_count)
qed

lemma computed_status_after:
  "after (computed_status p w) = (if is_task w p \<or> arity w p = 0 then w else count_children p w)"
  by (simp add: computed_status_def prog_defs)

lemma plain_status_Max:
  "\<not> is_task w p \<Longrightarrow> arity w p \<noteq> 0 \<Longrightarrow> plain_status w p = Max (status_of w ` set (children w p))"
  using most_significant_Max [of "child_statuses w p"]
  by (auto simp: plain_status_def child_statuses_def children_def image_image)

text \<open>
  Reading the status of a container through the counts it caches is reading the most significant
  status of its children, whenever the caches are exact, and the reading keeps them exact.
\<close>

lemma status_cache_exact:
  assumes "counts_ok w" and "\<not> is_task w p" and "arity w p \<noteq> 0" and "computed_status p w = (r, w')"
  shows "r = Inr (Max (status_of w ` set (children w p))) \<and> counts_ok w' \<and> skeleton w' = skeleton w"
proof -
  have "r = Inr (plain_status w p)" using computed_status_plain [OF assms(1), of p] assms(4) by simp
  moreover have "counts_ok w'"
    using obeys_keeps_invD [OF cached.obeys_computed_status assms(1), of p] assms(4) by simp
  moreover have "skeleton w' = skeleton w"
    using obeysD [OF skel.obeys_computed_status, of w p] assms(4) by (simp add: same_def)
  ultimately show ?thesis using plain_status_Max [OF assms(2,3)] by simp
qed

end
