(* ===== verification/Node_Limits.thy ===== *)
theory Node_Limits
  imports Node_Status
begin

text \<open>
  Limits across the tree: the in-limit manager of a node (\<^verbatim>\<open>limit.py\<close>) and the methods of \<open>Node\<close>
  that reserve and release tokens along the ancestry (\<^verbatim>\<open>node.py\<close>). A limit object is referenced by
  its owner's position and its index there.
\<close>

section \<open>Finding limits\<close>

definition find_limit :: "world \<Rightarrow> pos \<Rightarrow> string \<Rightarrow> lref option" where
  "find_limit w p name = map_option (Pair p) (find_index (\<lambda>l. lm_name l = name) (n_limits (attr w p)))"

fun first_some :: "('a \<Rightarrow> 'b option) \<Rightarrow> 'a list \<Rightarrow> 'b option" where
  "first_some f [] = None"
| "first_some f (x # xs) = (case f x of Some y \<Rightarrow> Some y | None \<Rightarrow> first_some f xs)"

definition find_limit_up :: "world \<Rightarrow> pos \<Rightarrow> string \<Rightarrow> lref option" where
  "find_limit_up w p name = first_some (\<lambda>q. find_limit w q name) (ups p)"

text \<open>\<open>add_limit\<close> and \<open>add_limit_object\<close>: a duplicate name raises.\<close>

definition add_limit_object :: "pos \<Rightarrow> limit \<Rightarrow> unit wprog" where
  "add_limit_object p l = withState (\<lambda>w.
     if find_limit w p (lm_name l) \<noteq> None then raise (PyError PyRuntimeError)
     else seqM (updN p (\<lambda>a. a\<lparr>n_limits := n_limits a @ [l]\<rparr>)) (notify p [''definition'', ''runtime'']))"

definition add_limit :: "pos \<Rightarrow> string \<Rightarrow> int \<Rightarrow> unit wprog" where
  "add_limit p name lim = add_limit_object p (Limit name lim)"

definition add_in_limit :: "pos \<Rightarrow> string \<Rightarrow> string option \<Rightarrow> int \<Rightarrow> unit wprog" where
  "add_in_limit p limit_name path tokens = withState (\<lambda>w.
     let il = InLimit limit_name path tokens in
     if has_in_limit (n_in_limits (attr w p)) il then raise (PyError PyRuntimeError)
     else seqM (updN p (\<lambda>a. a\<lparr>n_in_limits := n_in_limits a @ [il]\<rparr>)) (notify p [''definition'']))"

section \<open>Resolving references\<close>

abbreviation item_at :: "world \<Rightarrow> pos \<Rightarrow> nat \<Rightarrow> in_limit option" where
  "item_at w p i \<equiv> nth_opt (n_in_limits (attr w p)) i"

definition reference_node :: "world \<Rightarrow> pos \<Rightarrow> string \<Rightarrow> exc + pos option" where
  "reference_node w p path =
     (if startswith path ''/'' \<and> has_bunch w p then bunch_find_node w path
      else if path = ''/'' then Inr None
      else find_node w p path)"

definition lookup_in_limit :: "world \<Rightarrow> pos \<Rightarrow> in_limit \<Rightarrow> exc + lref option" where
  "lookup_in_limit w p il =
     (case il_node_path il of
        None \<Rightarrow> Inr (find_limit_up w p (il_limit_name il))
      | Some path \<Rightarrow> (case reference_node w p path of
            Inl e \<Rightarrow> Inl e
          | Inr None \<Rightarrow> Inr None
          | Inr (Some q) \<Rightarrow> Inr (find_limit w q (il_limit_name il))))"

definition set_limit :: "nat \<Rightarrow> lref \<Rightarrow> node_attrs \<Rightarrow> node_attrs" where
  "set_limit i r a = (case nth_opt (n_in_limits a) i of
      None \<Rightarrow> a
    | Some il \<Rightarrow> a\<lparr>n_in_limits := (n_in_limits a)[i := il\<lparr>il_limit := Some r\<rparr>]\<rparr>)"

definition resolve_in_limit :: "pos \<Rightarrow> nat \<Rightarrow> unit wprog" where
  "resolve_in_limit p i = withState (\<lambda>w. case item_at w p i of
      None \<Rightarrow> ret ()
    | Some il \<Rightarrow>
        if il_limit il \<noteq> None then ret ()
        else (case lookup_in_limit w p il of
            Inl e \<Rightarrow> raise e
          | Inr None \<Rightarrow> ret ()
          | Inr (Some r) \<Rightarrow> updN p (set_limit i r)))"

definition resolve_in_limit_references :: "pos \<Rightarrow> unit wprog" where
  "resolve_in_limit_references p =
     withState (\<lambda>w. forM [0..<length (n_in_limits (attr w p))] (resolve_in_limit p))"

text \<open>A diagnostic: path of the node, name of the limit, and where it was looked for.\<close>

type_synonym diagnostic = "string \<times> string \<times> string option"

definition missing_references :: "world \<Rightarrow> pos \<Rightarrow> diagnostic list" where
  "missing_references w p =
     map (\<lambda>il. (node_path w p, il_limit_name il, il_node_path il))
       (filter (\<lambda>il. il_limit il = None) (n_in_limits (attr w p)))"

definition validate_references :: "pos \<Rightarrow> diagnostic list wprog" where
  "validate_references p =
     seqM (resolve_in_limit_references p) (gets (\<lambda>w. missing_references w p))"

definition unresolved_limits_up :: "pos \<Rightarrow> diagnostic list wprog" where
  "unresolved_limits_up p = collectM (ups p) validate_references"

text \<open>\<open>validate_limit_references\<close>: a node, then its children in order.\<close>

definition validate_limit_references :: "pos \<Rightarrow> diagnostic list wprog" where
  "validate_limit_references p =
     withState (\<lambda>w. collectM (walk (subtree w p) p) validate_references)"

definition manager_in_limit :: "pos \<Rightarrow> bool wprog" where
  "manager_in_limit p = withState (\<lambda>w.
     if n_in_limits (attr w p) = [] then ret True
     else seqM (resolve_in_limit_references p)
       (gets (\<lambda>w. list_all (\<lambda>il. case il_limit il of
           None \<Rightarrow> False | Some r \<Rightarrow> limit_in_limit (get_limit w r) (il_tokens il))
         (n_in_limits (attr w p)))))"

section \<open>Reserving and releasing\<close>

definition Limit_increment :: "lref \<Rightarrow> int \<Rightarrow> string \<Rightarrow> unit wprog" where
  "Limit_increment r tokens path = withState (\<lambda>w.
     if path \<in> lm_node_paths (get_limit w r) then ret ()
     else seqM (modify (upd_limit r (limit_increment tokens path))) (notify (fst r) [''runtime'']))"

definition Limit_decrement :: "lref \<Rightarrow> int \<Rightarrow> string \<Rightarrow> unit wprog" where
  "Limit_decrement r tokens path = withState (\<lambda>w.
     if path \<notin> lm_node_paths (get_limit w r) then ret ()
     else seqM (modify (upd_limit r (limit_decrement tokens path))) (notify (fst r) [''runtime'']))"

definition Limit_reset :: "lref \<Rightarrow> unit wprog" where
  "Limit_reset r = withState (\<lambda>w.
     seqM (modify (upd_limit r limit_reset))
       (whenM (lm_value (get_limit w r) \<noteq> 0) (notify (fst r) [''runtime''])))"

text \<open>
  \<open>limit_set.add\<close>: a Python set of limits compares them by name and total, so an equal limit of
  another node keeps a new one out; membership is tested by identity.
\<close>

definition limit_set_add :: "world \<Rightarrow> lref \<Rightarrow> lref list \<Rightarrow> lref list" where
  "limit_set_add w r ls =
     (if \<exists>r' \<in> set ls. limit_key (get_limit w r') = limit_key (get_limit w r) then ls else r # ls)"

text \<open>One round of the manager's loop; the change is the increment or the decrement.\<close>

definition manager_step ::
    "(lref \<Rightarrow> int \<Rightarrow> string \<Rightarrow> unit wprog) \<Rightarrow> pos \<Rightarrow> string \<Rightarrow> nat \<Rightarrow> lref list \<Rightarrow> lref list wprog" where
  "manager_step change p path i ls = withState (\<lambda>w. case item_at w p i of
      None \<Rightarrow> ret ls
    | Some il \<Rightarrow> (case il_limit il of
          None \<Rightarrow> ret ls
        | Some r \<Rightarrow>
            if r \<in> set ls then ret ls
            else seqM (change r (il_tokens il) path) (ret (limit_set_add w r ls))))"

definition manager_increment :: "string \<Rightarrow> pos \<Rightarrow> lref list \<Rightarrow> lref list wprog" where
  "manager_increment path p ls = withState (\<lambda>w.
     if n_in_limits (attr w p) = [] then ret ls
     else bindM (validate_references p) (\<lambda>errs.
       if errs \<noteq> [] then ret ls
       else foldM [0..<length (n_in_limits (attr w p))] (manager_step Limit_increment p path) ls))"

definition manager_decrement :: "string \<Rightarrow> pos \<Rightarrow> lref list \<Rightarrow> lref list wprog" where
  "manager_decrement path p ls = withState (\<lambda>w.
     if n_in_limits (attr w p) = [] then ret ls
     else seqM (resolve_in_limit_references p)
       (foldM [0..<length (n_in_limits (attr w p))] (manager_step Limit_decrement p path) ls))"

definition increment_in_limit :: "pos \<Rightarrow> unit wprog" where
  "increment_in_limit p = bindM (unresolved_limits_up p) (\<lambda>errs.
     if errs \<noteq> [] then ret ()
     else withState (\<lambda>w. seqM (foldM (ups p) (manager_increment (node_path w p)) []) (ret ())))"

definition decrement_in_limit :: "pos \<Rightarrow> unit wprog" where
  "decrement_in_limit p = withState (\<lambda>w.
     seqM (foldM (ups p) (manager_decrement (node_path w p)) []) (ret ()))"

text \<open>\<open>check_in_limit_up\<close>: the nearest in-limit of each distinct limit has to fit.\<close>

fun capacity_left :: "world \<Rightarrow> string \<Rightarrow> lref list \<Rightarrow> in_limit list \<Rightarrow> bool" where
  "capacity_left w path seen [] = True"
| "capacity_left w path seen (il # ils) =
     (case il_limit il of
        None \<Rightarrow> False
      | Some r \<Rightarrow>
          if r \<in> set seen then capacity_left w path seen ils
          else let l = get_limit w r;
                   additional = (if path \<in> lm_node_paths l then 0 else il_tokens il) in
            if lm_value l + additional > lm_limit l then False
            else capacity_left w path (r # seen) ils)"

definition items_up :: "world \<Rightarrow> pos \<Rightarrow> in_limit list" where
  "items_up w p = concat (map (\<lambda>q. n_in_limits (attr w q)) (ups p))"

definition check_in_limit_up :: "pos \<Rightarrow> bool wprog" where
  "check_in_limit_up p = bindM (unresolved_limits_up p) (\<lambda>errs.
     if errs \<noteq> [] then ret False
     else gets (\<lambda>w. capacity_left w (node_path w p) [] (items_up w p)))"

text \<open>\<open>Task.update_limits\<close>\<close>

definition update_limits :: "pos \<Rightarrow> unit wprog" where
  "update_limits p = withState (\<lambda>w.
     if in_flight (status_of w p) then increment_in_limit p else decrement_in_limit p)"

section \<open>Deleting an in-limit\<close>

text \<open>\<open>effective_tokens\<close>: the tokens of the nearest in-limit for the given limit, one excluded.\<close>

fun effective_items :: "lref \<Rightarrow> (pos \<times> nat) list \<Rightarrow> int option wprog" where
  "effective_items r [] = ret None"
| "effective_items r ((q, i) # rest) = withState (\<lambda>w. case item_at w q i of
      None \<Rightarrow> effective_items r rest
    | Some il \<Rightarrow>
        seqM (whenM (il_limit il = None) (resolve_in_limit q i)) (withState (\<lambda>w.
          case item_at w q i of
            None \<Rightarrow> effective_items r rest
          | Some il \<Rightarrow> if il_limit il = Some r then ret (Some (il_tokens il)) else effective_items r rest)))"

definition item_refs :: "world \<Rightarrow> pos \<Rightarrow> (pos \<times> nat) list" where
  "item_refs w p = concat (map (\<lambda>q. map (Pair q) [0..<length (n_in_limits (attr w q))]) (ups p))"

definition effective_tokens :: "pos \<Rightarrow> lref \<Rightarrow> (pos \<times> nat) option \<Rightarrow> int option wprog" where
  "effective_tokens p r exclude = withState (\<lambda>w.
     effective_items r (filter (\<lambda>x. Some x \<noteq> exclude) (item_refs w p)))"

definition pop_in_limit :: "nat \<Rightarrow> node_attrs \<Rightarrow> node_attrs" where
  "pop_in_limit i a = a\<lparr>n_in_limits := take i (n_in_limits a) @ drop (Suc i) (n_in_limits a)\<rparr>"

definition delete_in_limit :: "pos \<Rightarrow> string \<Rightarrow> bool wprog" where
  "delete_in_limit p name = withState (\<lambda>w.
     case find_index (\<lambda>il. il_limit_name il = name) (n_in_limits (attr w p)) of
       None \<Rightarrow> ret False
     | Some index \<Rightarrow>
         let tasks = filter (is_task w) (pending_children w p);
             descendant_paths = node_path w ` set tasks in
         if list_ex (\<lambda>q. in_flight (status_of w q)) tasks then raise FlowStateError
         else seqM (resolve_in_limit p index) (withState (\<lambda>w.
           case Option.bind (item_at w p index) il_limit of
             None \<Rightarrow> seqM (updN p (pop_in_limit index)) (ret True)
           | Some r \<Rightarrow>
               let path = node_path w p in
               if descendant_paths \<inter> lm_node_paths (get_limit w r) \<noteq> {} then raise FlowStateError
               else if path \<notin> lm_node_paths (get_limit w r)
               then seqM (updN p (pop_in_limit index)) (ret True)
               else bindM (effective_tokens p r None) (\<lambda>old. case old of
                   None \<Rightarrow> raise FlowStateError
                 | Some old_tokens \<Rightarrow> withState (\<lambda>w.
                     if lm_value (get_limit w r) < old_tokens then raise FlowStateError
                     else bindM (effective_tokens p r (Some (p, index))) (\<lambda>new. withState (\<lambda>w.
                       if (case new of None \<Rightarrow> False
                           | Some k \<Rightarrow> lm_value (get_limit w r) - old_tokens + k > lm_limit (get_limit w r))
                       then raise FlowStateError
                       else seqM (updN p (pop_in_limit index))
                         (seqM (whenM (old \<noteq> new)
                            (seqM (Limit_decrement r old_tokens path)
                               (case new of None \<Rightarrow> ret () | Some k \<Rightarrow> Limit_increment r k path)))
                          (ret True)))))))))"

section \<open>Limit operations are in the frame\<close>

lemma first_some_SomeD: "first_some f xs = Some y \<Longrightarrow> \<exists>x \<in> set xs. f x = Some y"
  by (induction xs) (auto split: option.splits)

lemma benign_set_limit: "benign (set_limit i r)"
  by (auto simp: benign_def core_def set_limit_def nth_opt_conv map_update in_limit_key_def
      list_update_same_conv split: option.splits if_splits intro!: nth_equalityI)

lemma tokens_ofI: "item_at w p i = Some il \<Longrightarrow> il_tokens il \<in> tokens_of w"
  by (auto simp: tokens_of_def nth_opt_conv split: if_splits intro!: exI [of _ p] exI nth_mem)

text \<open>
  Programs that resolve references write nothing but the cached reference; programs that reserve
  and release write the limits as well.
\<close>

locale refs_frame = frame R for R :: "world \<Rightarrow> world \<Rightarrow> bool" +
  assumes R_note: "journalled w t \<Longrightarrow> R w (w\<lparr>w_tracker := t\<rparr>)"
    and R_set_limit: "R w (upd p (set_limit i r) w)"
begin

lemma obeys_resolve_in_limit [frame_intro]: "obeys R (resolve_in_limit p i)"
  unfolding resolve_in_limit_def updN_def
  by (intro frame_intro) (simp add: obeys_def modify_def R_set_limit)

lemma obeys_validate_references [frame_intro]: "obeys R (validate_references p)"
  unfolding validate_references_def resolve_in_limit_references_def by (intro frame_intro)

lemma obeys_unresolved_limits_up [frame_intro]: "obeys R (unresolved_limits_up p)"
  unfolding unresolved_limits_up_def by (intro frame_intro)

lemma obeys_resolve_references [frame_intro]: "obeys R (resolve_in_limit_references p)"
  unfolding resolve_in_limit_references_def by (intro frame_intro)

lemma obeys_check_in_limit_up [frame_intro]: "obeys R (check_in_limit_up p)"
  unfolding check_in_limit_up_def by (intro frame_intro)

lemma obeys_validate_limit_references [frame_intro]: "obeys R (validate_limit_references p)"
  unfolding validate_limit_references_def by (intro frame_intro)

end

sublocale benign_frame \<subseteq> refs_frame
  by unfold_locales (erule R_tracker, rule R_benign, rule benign_set_limit)

locale limit_frame = refs_frame R for R :: "world \<Rightarrow> world \<Rightarrow> bool" +
  assumes R_reserve: "k \<in> tokens_of w \<Longrightarrow> R w (upd_limit r (limit_increment k path) w)"
    and R_release: "k \<in> tokens_of w \<Longrightarrow> R w (upd_limit r (limit_decrement k path) w)"
begin

lemma after_note: "R w w' \<Longrightarrow> R w (after (notify_query_change p g i w'))"
  using notify_journalled [of w' p g i] R_note R_trans by metis

lemma R_Limit_increment: "k \<in> tokens_of w \<Longrightarrow> R w (after (Limit_increment r k path w))"
  by (auto simp: Limit_increment_def prog_defs R_refl intro: after_note R_reserve)

lemma R_Limit_decrement: "k \<in> tokens_of w \<Longrightarrow> R w (after (Limit_decrement r k path w))"
  by (auto simp: Limit_decrement_def prog_defs R_refl intro: after_note R_release)

lemma obeys_manager_step:
  assumes "\<And>w k r. k \<in> tokens_of w \<Longrightarrow> R w (after (change r k path w))"
  shows "obeys R (manager_step change p path i ls)"
  unfolding obeys_def
proof
  fix w
  show "R w (after (manager_step change p path i ls w))"
  proof (cases "item_at w p i")
    case None
    then show ?thesis by (simp add: manager_step_def prog_defs R_refl)
  next
    case (Some il)
    show ?thesis
      using assms [OF tokens_ofI [OF Some]] Some
      by (auto simp: manager_step_def prog_defs R_refl split: option.splits prod.splits sum.splits)
         (metis snd_conv)+
  qed
qed

lemma obeys_manager_increment [frame_intro]: "obeys R (manager_increment path p ls)"
  unfolding manager_increment_def by (intro frame_intro obeys_manager_step R_Limit_increment)

lemma obeys_manager_decrement [frame_intro]: "obeys R (manager_decrement path p ls)"
  unfolding manager_decrement_def by (intro frame_intro obeys_manager_step R_Limit_decrement)

lemma obeys_increment_in_limit [frame_intro]: "obeys R (increment_in_limit p)"
  unfolding increment_in_limit_def by (intro frame_intro)

lemma obeys_decrement_in_limit [frame_intro]: "obeys R (decrement_in_limit p)"
  unfolding decrement_in_limit_def by (intro frame_intro)

lemma obeys_update_limits [frame_intro]: "obeys R (update_limits p)"
  unfolding update_limits_def by (intro frame_intro)

end

sublocale world_frame \<subseteq> limit_frame
  by unfold_locales (rule R_increment, assumption, rule R_decrement, assumption)

end
