(* ===== verification/Limit_Capacity.thy ===== *)
theory Limit_Capacity
  imports Node_Limits
begin

text \<open>
  What the limits promise across the tree: counts never go negative, a task that passed the
  capacity check can reserve without exceeding any limit, and a reservation is the effect of one
  increment per distinct limit, with the tokens of the nearest in-limit.
\<close>

section \<open>Counts stay non-negative\<close>

definition limits_nonneg :: "world \<Rightarrow> bool" where
  "limits_nonneg w \<longleftrightarrow> (\<forall>k \<in> tokens_of w. 0 \<le> k) \<and> (\<forall>p. \<forall>l \<in> set (n_limits (attr w p)). 0 \<le> lm_value l)"

lemma tokens_of_keys: "tokens_of w = {fst (snd k) | k q. k \<in> set (map in_limit_key (n_in_limits (attr w q)))}"
  by (force simp: tokens_of_def in_limit_key_def)

lemma tokens_of_upd:
  "(\<And>a. map in_limit_key (n_in_limits (f a)) = map in_limit_key (n_in_limits a)) \<Longrightarrow>
   tokens_of (upd p f w) = tokens_of w"
  by (simp add: tokens_of_keys attr_upd del: set_map) (metis (no_types, lifting))

lemma limits_nonneg_upd:
  assumes "limits_nonneg w"
    and "\<And>a. map in_limit_key (n_in_limits (f a)) = map in_limit_key (n_in_limits a)"
    and "\<forall>l \<in> set (n_limits (f (attr w p))). 0 \<le> lm_value l"
  shows "limits_nonneg (upd p f w)"
  using assms(1,3) unfolding limits_nonneg_def tokens_of_upd [OF assms(2)] by (simp add: attr_upd)

lemma limits_nonneg_same:
  assumes "\<And>a. n_limits (f a) = n_limits a" "\<And>a. map in_limit_key (n_in_limits (f a)) = map in_limit_key (n_in_limits a)"
    and "limits_nonneg w"
  shows "limits_nonneg (upd p f w)"
  by (rule limits_nonneg_upd [OF assms(3,2)]) (use assms(1,3) in \<open>simp add: limits_nonneg_def\<close>)

lemma limits_nonneg_upd_limit:
  assumes "limits_nonneg w" and "\<And>l. 0 \<le> lm_value l \<Longrightarrow> 0 \<le> lm_value (f l)"
  shows "limits_nonneg (upd_limit r f w)"
  unfolding upd_limit_def
proof (rule limits_nonneg_upd [OF assms(1)])
  let ?ls = "n_limits (attr w (fst r))"
  have nn: "\<forall>l \<in> set ?ls. 0 \<le> lm_value l" using assms(1) by (simp add: limits_nonneg_def)
  have "\<forall>l \<in> set (?ls[snd r := f (?ls ! snd r)]). 0 \<le> lm_value l"
  proof (cases "snd r < length ?ls")
    case True
    then have "0 \<le> lm_value (f (?ls ! snd r))" using nn assms(2) by simp
    then show ?thesis using nn set_update_subset_insert [of ?ls "snd r"] by blast
  next
    case False
    then show ?thesis using nn by (simp add: list_update_beyond)
  qed
  then show "\<forall>l \<in> set (n_limits ((attr w (fst r))\<lparr>n_limits := ?ls[snd r := f (?ls ! snd r)]\<rparr>)). 0 \<le> lm_value l"
    by simp
qed simp

interpretation nonneg: flow_frame "keeps_inv limits_nonneg"
proof (intro flow_frame.intro world_frame.intro benign_frame.intro frame_keeps_inv, unfold_locales, goal_cases)
  case (2 f w p)
  then have "n_limits (f a) = n_limits a" "map in_limit_key (n_in_limits (f a)) = map in_limit_key (n_in_limits a)" for a
    by (auto simp: benign_def core_def)
  then show ?case
    unfolding keeps_inv_def by (intro impI limits_nonneg_upd) (simp_all add: limits_nonneg_def)
next
  case (7 w p s)
  have "limits_nonneg (upd q (child_status_changed old s) w')" if "limits_nonneg w'" for q old w'
    by (rule limits_nonneg_same [OF _ _ that]) (simp_all add: child_status_changed_def)
  moreover have "limits_nonneg (upd p (write_state s) w)" if "limits_nonneg w"
    by (rule limits_nonneg_same [OF _ _ that]) (simp_all add: write_state_def)
  ultimately show ?case
    by (simp add: keeps_inv_def write_status_def Let_def split: option.splits)
next
  case (10 w p g)
  have "limits_nonneg (upd p (upd_flow g) w)" if "limits_nonneg w"
    by (rule limits_nonneg_same [OF _ _ that]) (simp_all add: upd_flow_def)
  then show ?case by (simp add: keeps_inv_def)
next
  case (9 w p rp)
  have "limits_nonneg (upd p (\<lambda>a. a\<lparr>n_repeat := rp\<rparr>) w)" if "limits_nonneg w"
    by (rule limits_nonneg_same [OF _ _ that]) simp_all
  then show ?case by (simp add: keeps_inv_def)
next
  case (8 w p)
  have "limits_nonneg (upd p (\<lambda>a. a\<lparr>n_status_counts := c, n_status_child_count := k\<rparr>) w)" if "limits_nonneg w" for c k
    by (rule limits_nonneg_same [OF _ _ that]) simp_all
  then show ?case by (simp add: keeps_inv_def count_children_def)
next
  case (3 k w r path)
  show ?case
    unfolding keeps_inv_def
  proof
    assume nn: "limits_nonneg w"
    with 3 have "0 \<le> k" by (simp add: limits_nonneg_def)
    with nn show "limits_nonneg (upd_limit r (limit_increment k path) w)"
      by (intro limits_nonneg_upd_limit) (simp_all add: limit_increment_def)
  qed
next
  case (4 k w r path)
  show ?case
    unfolding keeps_inv_def
    by (auto intro!: limits_nonneg_upd_limit limit_decrement_nonneg)
qed (simp_all add: keeps_inv_def limits_nonneg_def tokens_of_def)

section \<open>References are resolved once\<close>

text \<open>A resolved reference is never taken back, and points at a limit that exists.\<close>

definition refs_kept :: "world \<Rightarrow> world \<Rightarrow> bool" where
  "refs_kept w w' \<longleftrightarrow> (\<forall>q i il r. item_at w q i = Some il \<longrightarrow> il_limit il = Some r \<longrightarrow>
     item_at w' q i = Some il) \<and> (\<forall>q. length (n_in_limits (attr w' q)) = length (n_in_limits (attr w q)))"

interpretation refs: frame refs_kept
  by unfold_locales (auto simp: refs_kept_def)

lemma set_limit_nth:
  "nth_opt (n_in_limits (set_limit i r a)) j =
     (if j = i then map_option (\<lambda>il. il\<lparr>il_limit := Some r\<rparr>) (nth_opt (n_in_limits a) i)
      else nth_opt (n_in_limits a) j)"
  by (auto simp: set_limit_def nth_opt_conv split: option.splits)

lemma length_set_limit: "length (n_in_limits (set_limit i r a)) = length (n_in_limits a)"
  by (simp add: set_limit_def split: option.splits)

lemma refs_kept_resolve: "obeys refs_kept (resolve_in_limit p i)"
  unfolding obeys_def
proof
  fix w
  show "refs_kept w (after (resolve_in_limit p i w))"
  proof (cases "\<exists>il. item_at w p i = Some il \<and> il_limit il = None")
    case True
    then obtain il where il: "item_at w p i = Some il" "il_limit il = None" by blast
    then have "refs_kept w (upd p (set_limit i r) w)" for r
      by (auto simp: refs_kept_def attr_upd set_limit_nth length_set_limit)
    then show ?thesis
      using il by (auto simp: resolve_in_limit_def updN_def prog_defs refs.R_refl
          split: option.splits sum.splits)
  next
    case False
    then show ?thesis
      by (auto simp: resolve_in_limit_def prog_defs refs.R_refl split: option.splits)
  qed
qed

lemma refs_kept_validate: "obeys refs_kept (validate_references p)"
  unfolding validate_references_def resolve_in_limit_references_def
  by (intro refs.obeys_seqM refs.obeys_withState refs.obeys_forM refs_kept_resolve refs.obeys_gets)

definition resolved_at :: "world \<Rightarrow> pos \<Rightarrow> bool" where
  "resolved_at w q \<longleftrightarrow> (\<forall>il \<in> set (n_in_limits (attr w q)). il_limit il \<noteq> None)"

lemma resolved_at_kept:
  assumes "resolved_at w q" and "refs_kept w w'"
  shows "n_in_limits (attr w' q) = n_in_limits (attr w q)"
proof (rule nth_equalityI)
  show len: "length (n_in_limits (attr w' q)) = length (n_in_limits (attr w q))"
    using assms(2) by (simp add: refs_kept_def)
  fix i assume "i < length (n_in_limits (attr w' q))"
  then have i: "item_at w q i = Some (n_in_limits (attr w q) ! i)" "i < length (n_in_limits (attr w q))"
    using len by (simp_all add: nth_opt_conv)
  then obtain r where "il_limit (n_in_limits (attr w q) ! i) = Some r"
    using assms(1) nth_mem by (fastforce simp: resolved_at_def)
  then have "item_at w' q i = Some (n_in_limits (attr w q) ! i)"
    using assms(2) i by (auto simp: refs_kept_def)
  then show "n_in_limits (attr w' q) ! i = n_in_limits (attr w q) ! i"
    by (simp add: nth_opt_conv split: if_splits)
qed

lemma missing_none: "missing_references w q = [] \<longleftrightarrow> resolved_at w q"
  by (auto simp: missing_references_def resolved_at_def filter_empty_conv)

lemma resolve_resolved: "resolved_at w p \<Longrightarrow> resolve_in_limit p i w = (Inr (), w)"
  by (auto simp: resolve_in_limit_def prog_defs resolved_at_def nth_opt_conv)

lemma resolve_references_resolved:
  assumes "resolved_at w p"
  shows "resolve_in_limit_references p w = (Inr (), w)"
proof -
  have "forM is (resolve_in_limit p) w = (Inr (), w)" for "is"
    by (induction "is") (simp_all add: prog_defs resolve_resolved [OF assms])
  then show ?thesis by (simp add: resolve_in_limit_references_def prog_defs)
qed

lemma validate_resolved: "resolved_at w p \<Longrightarrow> validate_references p w = (Inr [], w)"
  by (simp add: validate_references_def prog_defs resolve_references_resolved missing_none)

lemma collect_validate_resolved:
  "\<forall>q \<in> set qs. resolved_at w q \<Longrightarrow> collectM qs validate_references w = (Inr [], w)"
  by (induction qs) (simp_all add: prog_defs validate_resolved)

lemma collect_validate_empty:
  "collectM qs validate_references w = (Inr [], w') \<Longrightarrow> (\<forall>q \<in> set qs. resolved_at w' q) \<and> refs_kept w w'"
proof (induction qs arbitrary: w)
  case Nil
  then show ?case by (simp add: prog_defs refs.R_refl)
next
  case (Cons q qs)
  then obtain w1 where v: "validate_references q w = (Inr [], w1)"
    and rest: "collectM qs validate_references w1 = (Inr [], w')"
    by (auto simp: prog_defs split: prod.splits sum.splits)
  have k1: "refs_kept w w1" using obeysD [OF refs_kept_validate, of w q] v by simp
  have IH: "\<forall>q \<in> set qs. resolved_at w' q" "refs_kept w1 w'" using Cons.IH [OF rest] by auto
  have "resolved_at w1 q"
    using v by (auto simp: validate_references_def prog_defs missing_none split: prod.splits sum.splits)
  then have "resolved_at w' q"
    using resolved_at_kept [of w1 q w'] IH(2) by (simp add: resolved_at_def)
  then show ?case using IH refs.R_trans [OF k1 IH(2)] by simp
qed

lemma unresolved_empty:
  "unresolved_limits_up p w = (Inr [], w') \<Longrightarrow> \<forall>q \<in> set (ups p). resolved_at w' q"
  using collect_validate_empty by (auto simp: unresolved_limits_up_def)

section \<open>The effect of a reservation\<close>

definition first_tokens :: "in_limit list \<Rightarrow> lref \<Rightarrow> int option" where
  "first_tokens ils r = map_option il_tokens (find (\<lambda>il. il_limit il = Some r) ils)"

definition reserved :: "string \<Rightarrow> in_limit list \<Rightarrow> lref \<Rightarrow> limit \<Rightarrow> limit" where
  "reserved path ils r l = (case first_tokens ils r of None \<Rightarrow> l | Some k \<Rightarrow> limit_increment k path l)"

definition refs_ok :: "world \<Rightarrow> bool" where
  "refs_ok w \<longleftrightarrow> (\<forall>q. \<forall>il \<in> set (n_in_limits (attr w q)). \<forall>r. il_limit il = Some r \<longrightarrow>
     snd r < length (n_limits (attr w (fst r))))"

lemma refs_okD:
  "refs_ok w \<Longrightarrow> item_at w q i = Some il \<Longrightarrow> il_limit il = Some r \<Longrightarrow>
   snd r < length (n_limits (attr w (fst r)))"
  unfolding refs_ok_def by (metis nth_mem nth_opt_conv option.distinct(1) option.inject)

lemma find_append: "find P (xs @ ys) = (case find P xs of Some x \<Rightarrow> Some x | None \<Rightarrow> find P ys)"
  by (induction xs) auto

lemma first_tokens_append:
  "first_tokens (xs @ ys) r = (case first_tokens xs r of Some k \<Rightarrow> Some k | None \<Rightarrow> first_tokens ys r)"
  by (simp add: first_tokens_def find_append split: option.splits)

lemma get_limit_upd_limit:
  "snd r < length (n_limits (attr w (fst r))) \<Longrightarrow>
   get_limit (upd_limit r f w) r' = (if r' = r then f (get_limit w r) else get_limit w r')"
  by (cases r; cases r') (auto simp: get_limit_def upd_limit_def attr_upd)

lemma upd_limit_frame [simp]:
  "n_in_limits (attr (upd_limit r f w) q) = n_in_limits (attr w q)" "name_of (upd_limit r f w) q = name_of w q"
  "length (n_limits (attr (upd_limit r f w) q)) = length (n_limits (attr w q))"
  by (simp_all add: upd_limit_def attr_upd)

text \<open>The state after a prefix of the in-limits has been processed.\<close>

definition half_reserved :: "world \<Rightarrow> string \<Rightarrow> in_limit list \<Rightarrow> lref list \<Rightarrow> world \<Rightarrow> bool" where
  "half_reserved w path done ls w' \<longleftrightarrow>
     (\<forall>q. n_in_limits (attr w' q) = n_in_limits (attr w q) \<and> name_of w' q = name_of w q
        \<and> length (n_limits (attr w' q)) = length (n_limits (attr w q)))
   \<and> (\<forall>r. get_limit w' r = reserved path done r (get_limit w r))
   \<and> (\<forall>r \<in> set ls. first_tokens done r \<noteq> None)"

lemma half_reserved_tracker: "half_reserved w path ils ls (w'\<lparr>w_tracker := t\<rparr>) = half_reserved w path ils ls w'"
  by (simp add: half_reserved_def get_limit_def)

lemma limit_increment_in: "path \<in> lm_node_paths l \<Longrightarrow> limit_increment k path l = l"
  by (simp add: limit_increment_def)

lemma limit_increment_paths [simp]: "path \<in> lm_node_paths (limit_increment k path l)"
  by (simp add: limit_increment_def)

lemma first_tokens_single: "first_tokens [il] r = (if il_limit il = Some r then Some (il_tokens il) else None)"
  by (simp add: first_tokens_def)

lemma half_reserved_step:
  assumes names: "names_ok w" and refs: "refs_ok w"
    and h: "half_reserved w path done ls w'" and it: "item_at w q i = Some il" and res: "il_limit il \<noteq> None"
  shows "\<exists>ls' w''. manager_step Limit_increment q path i ls w' = (Inr ls', w'')
    \<and> half_reserved w path (done @ [il]) ls' w''"
proof -
  from res obtain r where r: "il_limit il = Some r" by blast
  have it': "item_at w' q i = Some il" using h it by (simp add: half_reserved_def)
  have names': "names_ok w'" using names h by (simp add: names_ok_def half_reserved_def)
  have rng: "snd r < length (n_limits (attr w' (fst r)))"
    using refs_okD [OF refs it r] h by (simp add: half_reserved_def)
  have get: "get_limit w' r' = reserved path done r' (get_limit w r')" for r'
    using h unfolding half_reserved_def by blast
  show ?thesis
  proof (cases "r \<in> set ls")
    case True
    then have "first_tokens done r \<noteq> None" using h by (simp add: half_reserved_def)
    then have "half_reserved w path (done @ [il]) ls w'"
      using h r by (auto simp: half_reserved_def reserved_def first_tokens_append first_tokens_single
          split: option.splits)
    moreover have "manager_step Limit_increment q path i ls w' = (Inr ls, w')"
      using it' r True by (simp add: manager_step_def prog_defs)
    ultimately show ?thesis by blast
  next
    case False
    let ?ls' = "limit_set_add w' r ls"
    have sub: "\<forall>r' \<in> set ?ls'. first_tokens (done @ [il]) r' \<noteq> None"
      using h r by (auto simp: limit_set_add_def half_reserved_def first_tokens_append first_tokens_single
          split: option.splits if_splits)
    show ?thesis
    proof (cases "path \<in> lm_node_paths (get_limit w' r)")
      case True
      then have "half_reserved w path (done @ [il]) ?ls' w'"
        using h r sub get [of r]
        by (auto simp: half_reserved_def reserved_def first_tokens_append first_tokens_single
            limit_increment_in split: option.splits)
      moreover have "manager_step Limit_increment q path i ls w' = (Inr ?ls', w')"
        using it' r False True by (simp add: manager_step_def Limit_increment_def prog_defs)
      ultimately show ?thesis by blast
    next
      case fresh: False
      then have none: "first_tokens done r = None"
        using get [of r] by (auto simp: reserved_def split: option.splits)
      let ?w1 = "upd_limit r (limit_increment (il_tokens il) path) w'"
      have n1: "names_ok ?w1" using names' by (simp add: names_ok_def upd_limit_def attr_upd)
      obtain t where nf: "notify (fst r) [''runtime''] ?w1 = (Inr (), ?w1\<lparr>w_tracker := t\<rparr>)"
        using notify_outcome [OF n1, of "{''runtime''}" False "fst r"]
          notify_after [of "fst r" "{''runtime''}" False ?w1]
        by (auto simp: FIELD_GROUPS_def prod_eq_iff)
      have "half_reserved w path (done @ [il]) ?ls' ?w1"
        unfolding half_reserved_def
      proof (intro conjI allI)
        fix r'
        show "get_limit ?w1 r' = reserved path (done @ [il]) r' (get_limit w r')"
          using get [of r'] none r
          by (cases "r' = r") (auto simp: get_limit_upd_limit [OF rng] reserved_def first_tokens_append
              first_tokens_single split: option.splits)
      qed (use h sub in \<open>auto simp: half_reserved_def\<close>)
      moreover have "manager_step Limit_increment q path i ls w' = (Inr ?ls', ?w1\<lparr>w_tracker := t\<rparr>)"
        using it' r False fresh nf by (simp add: manager_step_def Limit_increment_def prog_defs)
      ultimately show ?thesis using half_reserved_tracker by blast
    qed
  qed
qed

lemma half_reserved_items:
  assumes names: "names_ok w" and refs: "refs_ok w" and res: "resolved_at w q"
    and h: "half_reserved w path done ls w'" and k: "k \<le> length (n_in_limits (attr w q))"
  shows "\<exists>ls' w''. foldM [0..<k] (manager_step Limit_increment q path) ls w' = (Inr ls', w'')
    \<and> half_reserved w path (done @ take k (n_in_limits (attr w q))) ls' w''"
  using k
proof (induction k)
  case 0
  then show ?case using h by (simp add: prog_defs)
next
  case (Suc k)
  let ?il = "n_in_limits (attr w q) ! k"
  from Suc obtain ls1 w1 where fold: "foldM [0..<k] (manager_step Limit_increment q path) ls w' = (Inr ls1, w1)"
    and h1: "half_reserved w path (done @ take k (n_in_limits (attr w q))) ls1 w1" by auto
  have "item_at w q k = Some ?il" "il_limit ?il \<noteq> None"
    using Suc.prems res by (simp_all add: nth_opt_conv resolved_at_def)
  from half_reserved_step [OF names refs h1 this] Suc.prems fold show ?case
    by (auto simp: foldM_append bindM_def ret_def take_Suc_conv_app_nth)
qed

lemma half_reserved_resolved:
  assumes "half_reserved w path done ls w'"
  shows "resolved_at w' q = resolved_at w q"
  using assms by (simp add: half_reserved_def resolved_at_def)

lemma half_reserved_manager:
  assumes names: "names_ok w" and refs: "refs_ok w" and res: "resolved_at w q"
    and h: "half_reserved w path done ls w'"
  shows "\<exists>ls' w''. manager_increment path q ls w' = (Inr ls', w'')
    \<and> half_reserved w path (done @ n_in_limits (attr w q)) ls' w''"
proof -
  have same: "n_in_limits (attr w' q) = n_in_limits (attr w q)" using h by (simp add: half_reserved_def)
  have "validate_references q w' = (Inr [], w')"
    using half_reserved_resolved [OF h] res by (simp add: validate_resolved)
  with half_reserved_items [OF names refs res h order_refl] h same show ?thesis
    by (auto simp: manager_increment_def prog_defs)
qed

lemma half_reserved_ups:
  assumes names: "names_ok w" and refs: "refs_ok w"
  shows "\<forall>q \<in> set qs. resolved_at w q \<Longrightarrow> half_reserved w path done ls w' \<Longrightarrow>
    \<exists>ls' w''. foldM qs (manager_increment path) ls w' = (Inr ls', w'')
    \<and> half_reserved w path (done @ concat (map (\<lambda>q. n_in_limits (attr w q)) qs)) ls' w''"
proof (induction qs arbitrary: "done" ls w')
  case Nil
  then show ?case by (simp add: prog_defs)
next
  case (Cons q qs)
  obtain ls1 w1 where "manager_increment path q ls w' = (Inr ls1, w1)"
    and "half_reserved w path (done @ n_in_limits (attr w q)) ls1 w1"
    using half_reserved_manager [OF names refs _ Cons.prems(2), of q] Cons.prems(1) by auto
  with Cons.IH [OF _ this(2)] Cons.prems(1) show ?case by (auto simp: bindM_def)
qed

text \<open>
  When the references of the ancestry are resolved, reserving succeeds; it increments each limit
  some in-limit refers to once, by the tokens of the nearest such in-limit, and no other limit.
\<close>

lemma increment_in_limit_effect:
  assumes names: "names_ok w" and refs: "refs_ok w" and res: "\<forall>q \<in> set (ups p). resolved_at w q"
  shows "\<exists>w'. increment_in_limit p w = (Inr (), w')
    \<and> (\<forall>r. get_limit w' r = reserved (node_path w p) (items_up w p) r (get_limit w r))
    \<and> (\<forall>q. length (n_limits (attr w' q)) = length (n_limits (attr w q))
         \<and> n_in_limits (attr w' q) = n_in_limits (attr w q))"
proof -
  have "half_reserved w (node_path w p) [] [] w"
    by (simp add: half_reserved_def reserved_def first_tokens_def)
  from half_reserved_ups [OF names refs res this]
  obtain ls w' where "foldM (ups p) (manager_increment (node_path w p)) [] w = (Inr ls, w')"
    and "half_reserved w (node_path w p) (items_up w p) ls w'"
    by (auto simp: items_up_def)
  moreover have "unresolved_limits_up p w = (Inr [], w)"
    unfolding unresolved_limits_up_def using res by (rule collect_validate_resolved)
  ultimately show ?thesis
    by (auto simp: increment_in_limit_def prog_defs half_reserved_def)
qed

section \<open>Capacity\<close>

lemma capacity_left_first:
  "capacity_left w path seen ils \<Longrightarrow> r \<notin> set seen \<Longrightarrow> first_tokens ils r = Some k \<Longrightarrow>
   path \<in> lm_node_paths (get_limit w r) \<and> lm_value (get_limit w r) \<le> lm_limit (get_limit w r)
   \<or> lm_value (get_limit w r) + k \<le> lm_limit (get_limit w r)"
proof (induction w path seen ils rule: capacity_left.induct)
  case (1 w path seen)
  then show ?case by (simp add: first_tokens_def)
next
  case (2 w path seen il ils)
  show ?case
  proof (cases "il_limit il = Some r")
    case True
    with 2 show ?thesis by (auto simp: first_tokens_def Let_def split: if_splits)
  next
    case False
    then have ft: "first_tokens ils r = Some k" using "2.prems"(3) by (simp add: first_tokens_def)
    from "2.prems"(1) obtain r' where r': "il_limit il = Some r'" by (auto split: option.splits)
    show ?thesis
      using "2.IH"(1) [OF r'] "2.IH"(2) [OF r'] "2.prems" False ft r'
      by (auto simp: Let_def split: if_splits)
  qed
qed

definition limits_ok :: "world \<Rightarrow> bool" where
  "limits_ok w \<longleftrightarrow> (\<forall>q. \<forall>l \<in> set (n_limits (attr w q)). limit_ok l)"

lemma limits_ok_get: "limits_ok w \<longleftrightarrow> (\<forall>r. snd r < length (n_limits (attr w (fst r))) \<longrightarrow> limit_ok (get_limit w r))"
  by (simp add: limits_ok_def get_limit_def all_set_conv_all_nth split_paired_All)

lemma limits_ok_getD: "limits_ok w \<Longrightarrow> snd r < length (n_limits (attr w (fst r))) \<Longrightarrow> limit_ok (get_limit w r)"
  unfolding limits_ok_get by blast

lemma first_tokens_in:
  assumes "first_tokens (items_up w p) r = Some k"
  shows "k \<in> tokens_of w"
proof -
  obtain il where "find (\<lambda>il. il_limit il = Some r) (items_up w p) = Some il" "k = il_tokens il"
    using assms by (auto simp: first_tokens_def)
  then have "il \<in> set (items_up w p)" by (auto simp: find_Some_iff dest: nth_mem)
  with \<open>k = il_tokens il\<close> show ?thesis by (auto simp: items_up_def tokens_of_def)
qed

lemma capacity_reserve_ok:
  assumes names: "names_ok w" and refs: "refs_ok w" and res: "\<forall>q \<in> set (ups p). resolved_at w q"
    and ok: "limits_ok w" and tok: "\<forall>k \<in> tokens_of w. 0 \<le> k"
    and cap: "capacity_left w (node_path w p) [] (items_up w p)"
  shows "limits_ok (after (increment_in_limit p w))"
proof -
  let ?path = "node_path w p"
  obtain w' where w': "increment_in_limit p w = (Inr (), w')"
    and eff: "\<And>r. get_limit w' r = reserved ?path (items_up w p) r (get_limit w r)"
    and len: "\<And>q. length (n_limits (attr w' q)) = length (n_limits (attr w q))"
    using increment_in_limit_effect [OF names refs res] by auto
  have "limit_ok (get_limit w' r)" if r: "snd r < length (n_limits (attr w' (fst r)))" for r
  proof -
    have l: "limit_ok (get_limit w r)" using limits_ok_getD [OF ok] r len by simp
    show ?thesis
    proof (cases "first_tokens (items_up w p) r")
      case None
      then show ?thesis using l by (simp add: eff reserved_def)
    next
      case (Some k)
      then have "0 \<le> k"
        using tok first_tokens_in by blast
      moreover have "?path \<in> lm_node_paths (get_limit w r) \<or> lm_value (get_limit w r) + k \<le> lm_limit (get_limit w r)"
        using capacity_left_first [OF cap _ Some] by auto
      ultimately show ?thesis using l Some by (simp add: eff reserved_def limit_increment_ok)
    qed
  qed
  then have "limits_ok w'" unfolding limits_ok_get by blast
  then show ?thesis using w' by simp
qed

end
