(* ===== verification/Node_Parameters.thy ===== *)
theory Node_Parameters
  imports Node_Status
begin

text \<open>
  Parameters of nodes (\<^verbatim>\<open>node.py\<close>, the generated parameters of \<^verbatim>\<open>task_node.py\<close> and \<^verbatim>\<open>flow.py\<close>, and
  the ones of the bunch in \<^verbatim>\<open>bunch.py\<close>): lookup by name along the ancestry, and the dictionary of
  everything a node can see.
\<close>

section \<open>Generated parameters\<close>

definition task_generated_parameters :: "task_data \<Rightarrow> parameter dict" where
  "task_generated_parameters t =
     map (\<lambda>(n, v). (n, Parameter n v))
       [(''TASK'', gp_task t), (''TAKLER_NAME'', gp_takler_name t), (''TAKLER_RID'', gp_takler_rid t),
        (''TAKLER_ATTEMPT_ID'', gp_takler_attempt_id t), (''TAKLER_TRY_NO'', gp_takler_try_no t),
        (''TAKLER_PASS'', gp_takler_pass t)]"

definition task_find_generated :: "task_data \<Rightarrow> string \<Rightarrow> parameter option" where
  "task_find_generated t name =
     (if name = ''TASK'' then Some (Parameter ''TASK'' (gp_task t))
      else if name = ''TAKLER_NAME'' then Some (Parameter ''TAKLER_NAME'' (gp_takler_name t))
      else if name = ''TAKLER_RID'' then Some (Parameter ''TAKLER_RID'' (gp_takler_rid t))
      else if name = ''TAKLER_ATTEMPT_ID'' then Some (Parameter ''TAKLER_ATTEMPT_ID'' (gp_takler_attempt_id t))
      else if name = ''TAKLER_TRY_NO'' then Some (Parameter ''TAKLER_TRY_NO'' (gp_takler_try_no t))
      else if name = ''TAKLER_PASS'' then Some (Parameter ''TAKLER_PASS'' (gp_takler_pass t))
      else None)"

definition flow_generated_parameters :: "flow_data \<Rightarrow> parameter dict" where
  "flow_generated_parameters f =
     [(''DATE'', Parameter ''DATE'' (gp_date f)), (''TIME'', Parameter ''TIME'' (gp_time f))]"

definition flow_find_generated :: "flow_data \<Rightarrow> string \<Rightarrow> parameter option" where
  "flow_find_generated f name =
     (if name = ''DATE'' then Some (Parameter ''DATE'' (gp_date f))
      else if name = ''TIME'' then Some (Parameter ''TIME'' (gp_time f))
      else None)"

text \<open>\<open>generated_parameters_only\<close>: those of the repeat, then those of the class on top.\<close>

definition repeat_parameters :: "node_attrs \<Rightarrow> exc + parameter dict" where
  "repeat_parameters a = (case n_repeat a of
      None \<Rightarrow> Inr []
    | Some rp \<Rightarrow> (case Repeat_generated_parameters rp of
        Inl e \<Rightarrow> Inl e | Inr d \<Rightarrow> Inr (dict_update [] d)))"

definition class_parameters :: "node_attrs \<Rightarrow> parameter dict" where
  "class_parameters a = (case n_kind a of
      KTask \<Rightarrow> task_generated_parameters (n_task a)
    | KFlow \<Rightarrow> flow_generated_parameters (n_flow a)
    | KContainer \<Rightarrow> [])"

definition generated_parameters_only :: "world \<Rightarrow> pos \<Rightarrow> exc + parameter dict" where
  "generated_parameters_only w p = (case repeat_parameters (attr w p) of
      Inl e \<Rightarrow> Inl e
    | Inr d \<Rightarrow> Inr (dict_update d (class_parameters (attr w p))))"

definition Node_find_generated_parameter :: "world \<Rightarrow> pos \<Rightarrow> string \<Rightarrow> exc + parameter option" where
  "Node_find_generated_parameter w p name = (case generated_parameters_only w p of
      Inl e \<Rightarrow> Inl e | Inr d \<Rightarrow> Inr (dict_get d name))"

definition find_generated_parameter :: "world \<Rightarrow> pos \<Rightarrow> string \<Rightarrow> exc + parameter option" where
  "find_generated_parameter w p name =
     (case (case kind_of w p of
              KTask \<Rightarrow> task_find_generated (n_task (attr w p)) name
            | KFlow \<Rightarrow> flow_find_generated (n_flow (attr w p)) name
            | KContainer \<Rightarrow> None) of
        Some prm \<Rightarrow> Inr (Some prm)
      | None \<Rightarrow> Node_find_generated_parameter w p name)"

section \<open>Looking up a parameter\<close>

definition find_user_parameter :: "world \<Rightarrow> pos \<Rightarrow> string \<Rightarrow> parameter option" where
  "find_user_parameter w p name = dict_get (n_user_parameters (attr w p)) name"

definition find_parameter :: "world \<Rightarrow> pos \<Rightarrow> string \<Rightarrow> exc + parameter option" where
  "find_parameter w p name = (case find_user_parameter w p name of
      Some prm \<Rightarrow> Inr (Some prm)
    | None \<Rightarrow> find_generated_parameter w p name)"

text \<open>\<open>ServerConfig.generated_parameters\<close> and the lookup on the bunch.\<close>

definition server_parameters :: "world \<Rightarrow> parameter dict" where
  "server_parameters w =
     [(''TAKLER_HOST'', Parameter ''TAKLER_HOST'' (PStr (w_host w))),
      (''TAKLER_PORT'', Parameter ''TAKLER_PORT'' (PStr (w_port w))),
      (''TAKLER_HOME'', Parameter ''TAKLER_HOME'' (PStr ''.''))]"

definition bunch_find_parameter :: "world \<Rightarrow> string \<Rightarrow> parameter option" where
  "bunch_find_parameter w name = (case dict_get (w_bunch_parameters w) name of
      Some prm \<Rightarrow> Some prm
    | None \<Rightarrow> dict_get (server_parameters w) name)"

definition bunch_parameters_only :: "world \<Rightarrow> parameter dict" where
  "bunch_parameters_only w = dict_fill (w_bunch_parameters w) (server_parameters w)"

fun find_parameter_up :: "world \<Rightarrow> pos list \<Rightarrow> string \<Rightarrow> exc + parameter option" where
  "find_parameter_up w [] name = Inr None"
| "find_parameter_up w (q # qs) name = (case find_parameter w q name of
      Inl e \<Rightarrow> Inl e
    | Inr (Some prm) \<Rightarrow> Inr (Some prm)
    | Inr None \<Rightarrow> find_parameter_up w qs name)"

definition Node_find_parent_parameter :: "world \<Rightarrow> pos \<Rightarrow> string \<Rightarrow> exc + parameter option" where
  "Node_find_parent_parameter w p name = (case find_parameter_up w (ups p) name of
      Inl e \<Rightarrow> Inl e
    | Inr (Some prm) \<Rightarrow> Inr (Some prm)
    | Inr None \<Rightarrow> Inr (if has_bunch w p then bunch_find_parameter w name else None))"

text \<open>The override of \<open>Flow\<close> asks the bunch once more.\<close>

definition find_parent_parameter :: "world \<Rightarrow> pos \<Rightarrow> string \<Rightarrow> exc + parameter option" where
  "find_parent_parameter w p name = (case Node_find_parent_parameter w p name of
      Inl e \<Rightarrow> Inl e
    | Inr (Some prm) \<Rightarrow> Inr (Some prm)
    | Inr None \<Rightarrow> Inr (if kind_of w p = KFlow \<and> in_bunch (n_flow (attr w p))
                       then bunch_find_parameter w name else None))"

section \<open>Everything a node can see\<close>

definition parameters_only :: "world \<Rightarrow> pos \<Rightarrow> exc + parameter dict" where
  "parameters_only w p = (case generated_parameters_only w p of
      Inl e \<Rightarrow> Inl e
    | Inr d \<Rightarrow> Inr (dict_fill (n_user_parameters (attr w p)) d))"

fun fill_up :: "world \<Rightarrow> pos list \<Rightarrow> parameter dict \<Rightarrow> exc + parameter dict" where
  "fill_up w [] params = Inr params"
| "fill_up w (q # qs) params = (case parameters_only w q of
      Inl e \<Rightarrow> Inl e | Inr d \<Rightarrow> fill_up w qs (dict_fill params d))"

definition parameters :: "world \<Rightarrow> pos \<Rightarrow> exc + parameter dict" where
  "parameters w p = (case parameters_only w p of
      Inl e \<Rightarrow> Inl e
    | Inr d \<Rightarrow> (case fill_up w (tl (ups p)) d of
        Inl e \<Rightarrow> Inl e
      | Inr params \<Rightarrow> Inr (if has_bunch w p then dict_fill params (bunch_parameters_only w) else params)))"

text \<open>\<open>add_parameter\<close> on a name and a value, and on a dictionary of them.\<close>

definition add_parameter :: "pos \<Rightarrow> string \<Rightarrow> pval \<Rightarrow> unit wprog" where
  "add_parameter p name value =
     (if value = PNone then raise (PyError PyTypeError)
      else seqM (updN p (\<lambda>a. a\<lparr>n_user_parameters := dict_set name (Parameter name value) (n_user_parameters a)\<rparr>))
             (notify_query_change p {''parameters''} True))"

definition add_parameters :: "pos \<Rightarrow> (string \<times> pval) list \<Rightarrow> unit wprog" where
  "add_parameters p items = forM items (\<lambda>(name, value).
     seqM (updN p (\<lambda>a. a\<lparr>n_user_parameters := dict_set name (Parameter name value) (n_user_parameters a)\<rparr>))
       (notify_query_change p {''parameters''} True))"

section \<open>The lookup and the dictionary agree\<close>

text \<open>A Python dictionary has each key once.\<close>

definition dicts_ok :: "world \<Rightarrow> bool" where
  "dicts_ok w \<longleftrightarrow> distinct (map fst (w_bunch_parameters w))
     \<and> (\<forall>p. distinct (map fst (n_user_parameters (attr w p))))"

lemma class_parameters_distinct: "distinct (map fst (class_parameters a))"
  by (cases "n_kind a") (simp_all add: class_parameters_def task_generated_parameters_def
      flow_generated_parameters_def)

lemma server_parameters_distinct: "distinct (map fst (server_parameters w))"
  by (simp add: server_parameters_def)

lemma generated_distinct:
  "generated_parameters_only w p = Inr d \<Longrightarrow> distinct (map fst d)"
  by (auto simp: generated_parameters_only_def repeat_parameters_def split: sum.splits option.splits
      intro!: distinct_dict_update)

lemma parameters_only_distinct:
  "dicts_ok w \<Longrightarrow> parameters_only w p = Inr d \<Longrightarrow> distinct (map fst d)"
  by (auto simp: parameters_only_def dicts_ok_def split: sum.splits intro!: distinct_dict_fill)

lemma bunch_parameters_lookup:
  "dict_get (bunch_parameters_only w) name = bunch_find_parameter w name"
  by (simp add: bunch_parameters_only_def bunch_find_parameter_def
      dict_get_fill [OF server_parameters_distinct])

lemma task_find_generated_lookup:
  "task_find_generated t name = dict_get (task_generated_parameters t) name"
  by (simp add: task_find_generated_def task_generated_parameters_def)

lemma flow_find_generated_lookup:
  "flow_find_generated f name = dict_get (flow_generated_parameters f) name"
  by (simp add: flow_find_generated_def flow_generated_parameters_def)

lemma find_generated_lookup:
  assumes "generated_parameters_only w p = Inr d"
  shows "find_generated_parameter w p name = Inr (dict_get d name)"
proof -
  from assms obtain d0 where d: "d = dict_update d0 (class_parameters (attr w p))"
    by (auto simp: generated_parameters_only_def split: sum.splits)
  have look: "dict_get d name = (case dict_get (class_parameters (attr w p)) name of
      Some v \<Rightarrow> Some v | None \<Rightarrow> dict_get d0 name)"
    unfolding d by (rule dict_get_update) (rule class_parameters_distinct)
  have "(case kind_of w p of KTask \<Rightarrow> task_find_generated (n_task (attr w p)) name
      | KFlow \<Rightarrow> flow_find_generated (n_flow (attr w p)) name | KContainer \<Rightarrow> None)
      = dict_get (class_parameters (attr w p)) name"
    by (simp add: class_parameters_def task_find_generated_lookup flow_find_generated_lookup
        split: node_kind.splits)
  then show ?thesis
    using look assms by (auto simp: find_generated_parameter_def Node_find_generated_parameter_def
        split: option.splits)
qed

lemma find_parameter_lookup:
  assumes "parameters_only w p = Inr d"
  shows "find_parameter w p name = Inr (dict_get d name)"
proof -
  from assms obtain g where g: "generated_parameters_only w p = Inr g"
    and d: "d = dict_fill (n_user_parameters (attr w p)) g"
    by (auto simp: parameters_only_def split: sum.splits)
  have "dict_get d name = (case dict_get (n_user_parameters (attr w p)) name of
      Some v \<Rightarrow> Some v | None \<Rightarrow> dict_get g name)"
    unfolding d by (rule dict_get_fill) (rule generated_distinct [OF g])
  then show ?thesis
    by (simp add: find_parameter_def find_user_parameter_def find_generated_lookup [OF g]
        split: option.splits)
qed

lemma fill_up_lookup:
  assumes "dicts_ok w" and "fill_up w qs params = Inr d"
  shows "find_parameter_up w qs name = Inr x \<Longrightarrow>
    dict_get d name = (case dict_get params name of Some v \<Rightarrow> Some v | None \<Rightarrow> x)"
    and "\<exists>y. find_parameter_up w qs name = Inr y"
  using assms(2)
proof (induction qs arbitrary: params x)
  case Nil
  {
    case 1
    then show ?case by (auto split: option.splits)
  next
    case 2
    then show ?case by simp
  }
next
  case (Cons q qs)
  {
    case 1
    then obtain e where e: "parameters_only w q = Inr e" and rest: "fill_up w qs (dict_fill params e) = Inr d"
      by (auto split: sum.splits)
    have fp: "find_parameter w q name = Inr (dict_get e name)" by (rule find_parameter_lookup [OF e])
    have fill: "dict_get (dict_fill params e) name =
        (case dict_get params name of Some v \<Rightarrow> Some v | None \<Rightarrow> dict_get e name)"
      by (rule dict_get_fill) (rule parameters_only_distinct [OF assms(1) e])
    obtain y where y: "find_parameter_up w qs name = Inr y" using Cons.IH(2) [OF rest] by blast
    from Cons.IH(1) [OF y rest] 1(1) fp fill y show ?case
      by (auto split: option.splits)
  next
    case 2
    then obtain e where e: "parameters_only w q = Inr e" and rest: "fill_up w qs (dict_fill params e) = Inr d"
      by (auto split: sum.splits)
    show ?case
      using find_parameter_lookup [OF e, of name] Cons.IH(2) [OF rest] by (auto split: option.splits)
  }
qed

text \<open>
  The two ways to read a parameter agree: what the search up the tree finds for a name is what the
  dictionary of all parameters visible at the node holds for it, with the same precedence of user over
  generated parameters, of a node over its ancestors and of the flow over the bunch.
\<close>

lemma parameters_agree:
  assumes ok: "dicts_ok w" and p: "p \<noteq> []" and all: "parameters w p = Inr d"
  shows "find_parent_parameter w p name = Inr (dict_get d name)"
proof -
  obtain qs where ups: "ups p = p # qs" using p by (cases p) auto
  from all ups obtain d0 d1 where d0: "parameters_only w p = Inr d0" and d1: "fill_up w qs d0 = Inr d1"
    and d: "d = (if has_bunch w p then dict_fill d1 (bunch_parameters_only w) else d1)"
    by (auto simp: parameters_def split: sum.splits if_splits)
  have fp: "find_parameter w p name = Inr (dict_get d0 name)" by (rule find_parameter_lookup [OF d0])
  obtain x where x: "find_parameter_up w qs name = Inr x" using fill_up_lookup(2) [OF ok d1] by blast
  have l1: "dict_get d1 name = (case dict_get d0 name of Some v \<Rightarrow> Some v | None \<Rightarrow> x)"
    using fill_up_lookup(1) [OF ok d1 x] .
  have bd: "distinct (map fst (bunch_parameters_only w))"
    using ok by (simp add: bunch_parameters_only_def dicts_ok_def distinct_dict_fill)
  have dict: "dict_get d name = (case dict_get d1 name of Some v \<Rightarrow> Some v
      | None \<Rightarrow> if has_bunch w p then bunch_find_parameter w name else None)"
    by (simp add: d dict_get_fill [OF bd] bunch_parameters_lookup split: option.splits)
  have flow: "kind_of w p = KFlow \<and> in_bunch (n_flow (attr w p)) \<Longrightarrow> has_bunch w p"
    by (simp add: has_bunch_def ups)
  have "Node_find_parent_parameter w p name = Inr (dict_get d name)"
    using fp x l1 by (auto simp: Node_find_parent_parameter_def ups dict split: option.splits)
  then show ?thesis
    using flow by (auto simp: find_parent_parameter_def dict split: option.splits)
qed

end
