(* ===== verification/Triggers.thy ===== *)
theory Triggers
  imports Node_Parameters
begin

text \<open>
  Events, meters and trigger expressions of nodes (\<^verbatim>\<open>node.py\<close>, \<^verbatim>\<open>expression.py\<close>,
  \<^verbatim>\<open>expression_ast.py\<close>). The parser is built by the third-party package lark from a grammar and is
  a parameter \<open>parse\<close> of the operations that call it. Evaluating an expression fills the
  caches of its node paths, so the evaluators return the syntax tree they leave behind.
\<close>

section \<open>Events and meters\<close>

definition find_event :: "world \<Rightarrow> pos \<Rightarrow> string \<Rightarrow> nat option" where
  "find_event w p name = find_index (\<lambda>e. ev_name e = name) (n_events (attr w p))"

definition find_meter :: "world \<Rightarrow> pos \<Rightarrow> string \<Rightarrow> nat option" where
  "find_meter w p name = find_index (\<lambda>m. mt_name m = name) (n_meters (attr w p))"

definition put_event :: "nat \<Rightarrow> event \<Rightarrow> node_attrs \<Rightarrow> node_attrs" where
  "put_event i e a = a\<lparr>n_events := (n_events a)[i := e]\<rparr>"

definition put_meter :: "nat \<Rightarrow> meter \<Rightarrow> node_attrs \<Rightarrow> node_attrs" where
  "put_meter i m a = a\<lparr>n_meters := (n_meters a)[i := m]\<rparr>"

definition add_event :: "pos \<Rightarrow> string \<Rightarrow> bool \<Rightarrow> bool \<Rightarrow> unit wprog" where
  "add_event p name initial check = withState (\<lambda>w.
     if check \<and> find_event w p name \<noteq> None then raise (PyError PyRuntimeError)
     else seqM (updN p (\<lambda>a. a\<lparr>n_events := n_events a @ [Event name initial]\<rparr>))
            (notify p [''definition'', ''runtime'']))"

definition add_meter :: "pos \<Rightarrow> string \<Rightarrow> int \<Rightarrow> int \<Rightarrow> unit wprog" where
  "add_meter p name lo hi =
     seqM (updN p (\<lambda>a. a\<lparr>n_meters := n_meters a @ [Meter name lo hi]\<rparr>)) (notify p [''definition'', ''runtime''])"

definition write_event :: "pos \<Rightarrow> string \<Rightarrow> (event \<Rightarrow> event) \<Rightarrow> bool wprog" where
  "write_event p name f = withState (\<lambda>w. case find_event w p name of
      None \<Rightarrow> ret False
    | Some i \<Rightarrow>
        let e = n_events (attr w p) ! i; e' = f e in
        seqM (updN p (put_event i e'))
          (seqM (whenM (ev_value e' \<noteq> ev_value e) (notify p [''runtime''])) (ret True)))"

definition set_event :: "pos \<Rightarrow> string \<Rightarrow> bool \<Rightarrow> bool wprog" where
  "set_event p name v = write_event p name (event_set_value v)"

definition reset_event :: "pos \<Rightarrow> string \<Rightarrow> bool wprog" where
  "reset_event p name = write_event p name event_reset"

definition write_meter :: "pos \<Rightarrow> string \<Rightarrow> (meter \<Rightarrow> exc + meter) \<Rightarrow> bool wprog" where
  "write_meter p name f = withState (\<lambda>w. case find_meter w p name of
      None \<Rightarrow> ret False
    | Some i \<Rightarrow>
        let m = n_meters (attr w p) ! i in
        (case f m of
           Inl e \<Rightarrow> raise e
         | Inr m' \<Rightarrow> seqM (updN p (put_meter i m'))
             (seqM (whenM (mt_value m' \<noteq> mt_value m) (notify p [''runtime''])) (ret True))))"

definition set_meter :: "pos \<Rightarrow> string \<Rightarrow> int \<Rightarrow> bool wprog" where
  "set_meter p name v = write_meter p name (meter_set_value v)"

definition reset_meter :: "pos \<Rightarrow> string \<Rightarrow> bool wprog" where
  "reset_meter p name = write_meter p name meter_reset"

datatype variable = VarEvent nat | VarMeter nat | VarParameter parameter

definition find_variable :: "world \<Rightarrow> pos \<Rightarrow> string \<Rightarrow> exc + variable option" where
  "find_variable w p name =
     (case find_event w p name of
        Some i \<Rightarrow> Inr (Some (VarEvent i))
      | None \<Rightarrow> (case find_meter w p name of
          Some i \<Rightarrow> Inr (Some (VarMeter i))
        | None \<Rightarrow> (case find_parameter w p name of
            Inl e \<Rightarrow> Inl e
          | Inr None \<Rightarrow> Inr None
          | Inr (Some prm) \<Rightarrow> Inr (Some (VarParameter prm)))))"

section \<open>Values\<close>

datatype pyval = VStatus node_status | VVal pval

fun pynum :: "pyval \<Rightarrow> int option" where
  "pynum (VVal (PInt i)) = Some i"
| "pynum (VVal (PBool b)) = Some (if b then 1 else 0)"
| "pynum _ = None"

text \<open>\<open>==\<close> is defined on everything; a boolean is an integer.\<close>

definition py_eq :: "pyval \<Rightarrow> pyval \<Rightarrow> bool" where
  "py_eq x y = (case (pynum x, pynum y) of (Some i, Some j) \<Rightarrow> i = j | _ \<Rightarrow> x = y)"

text \<open>The order needs two numbers, two strings or two statuses.\<close>

definition py_lt :: "pyval \<Rightarrow> pyval \<Rightarrow> exc + bool" where
  "py_lt x y = (case (pynum x, pynum y) of
      (Some i, Some j) \<Rightarrow> Inr (i < j)
    | _ \<Rightarrow> (case (x, y) of
        (VVal (PStr s), VVal (PStr t)) \<Rightarrow> Inr (s < t)
      | (VStatus s, VStatus t) \<Rightarrow> Inr (s < t)
      | _ \<Rightarrow> Inl (PyError PyTypeError)))"

definition py_le :: "pyval \<Rightarrow> pyval \<Rightarrow> exc + bool" where
  "py_le x y = (case py_lt x y of Inl e \<Rightarrow> Inl e | Inr b \<Rightarrow> Inr (b \<or> py_eq x y))"

definition py_add :: "pyval \<Rightarrow> pyval \<Rightarrow> exc + pyval" where
  "py_add x y = (case (pynum x, pynum y) of
      (Some i, Some j) \<Rightarrow> Inr (VVal (PInt (i + j)))
    | _ \<Rightarrow> (case (x, y) of
        (VVal (PStr s), VVal (PStr t)) \<Rightarrow> Inr (VVal (PStr (s @ t)))
      | _ \<Rightarrow> Inl (PyError PyTypeError)))"

section \<open>Syntax trees\<close>

text \<open>\<open>AstNodePath.get_reference_node\<close>: look once, then keep the answer.\<close>

definition get_reference_node :: "world \<Rightarrow> ast_node_path \<Rightarrow> (exc + pos option) \<times> ast_node_path" where
  "get_reference_node w np =
     (case np_reference_node np of
        Some q \<Rightarrow> (Inr (Some q), np)
      | None \<Rightarrow> (case np_parent_node np of
          None \<Rightarrow> (Inr None, np)
        | Some p \<Rightarrow> (case find_node w p (np_node_path np) of
            Inl e \<Rightarrow> (Inl e, np)
          | Inr q \<Rightarrow> (Inr q, np\<lparr>np_reference_node := q\<rparr>))))"

definition get_variable :: "world \<Rightarrow> ast_node_path \<Rightarrow> string \<Rightarrow> (exc + variable option) \<times> ast_node_path" where
  "get_variable w np name =
     (case get_reference_node w np of
        (Inl e, np') \<Rightarrow> (Inl e, np')
      | (Inr None, np') \<Rightarrow> (Inl (PyError PyAttributeError), np')
      | (Inr (Some q), np') \<Rightarrow> (find_variable w q name, np'))"

definition node_path_value :: "world \<Rightarrow> pos option \<Rightarrow> pyval" where
  "node_path_value w ref = (case ref of None \<Rightarrow> VStatus unknown | Some q \<Rightarrow> VStatus (status_of w q))"

definition variable_value :: "world \<Rightarrow> pos \<Rightarrow> variable option \<Rightarrow> pyval" where
  "variable_value w q v = (case v of
      None \<Rightarrow> VVal PNone
    | Some (VarEvent i) \<Rightarrow> VVal (PInt (if ev_value (n_events (attr w q) ! i) then 1 else 0))
    | Some (VarMeter i) \<Rightarrow> VVal (PInt (mt_value (n_meters (attr w q) ! i)))
    | Some (VarParameter prm) \<Rightarrow> VVal (pa_value prm))"

definition variable_path_value :: "world \<Rightarrow> ast_node_path \<Rightarrow> string \<Rightarrow> (exc + pyval) \<times> ast_node_path" where
  "variable_path_value w np name =
     (case get_variable w np name of
        (Inl e, np') \<Rightarrow> (Inl e, np')
      | (Inr v, np') \<Rightarrow> (Inr (variable_value w (the (np_reference_node np')) v), np'))"

text \<open>Both operands, left first; an error of the left one leaves the right one alone.\<close>

definition eval2 :: "(ast \<Rightarrow> ast \<Rightarrow> ast) \<Rightarrow> ('x \<Rightarrow> 'x \<Rightarrow> exc + 'y) \<Rightarrow> (exc + 'x) \<times> ast \<Rightarrow> ast
    \<Rightarrow> (exc + 'x) \<times> ast \<Rightarrow> (exc + 'y) \<times> ast" where
  "eval2 mk f xl r xr =
     (case xl of
        (Inl e, l') \<Rightarrow> (Inl e, mk l' r)
      | (Inr x, l') \<Rightarrow> (case xr of
          (Inl e, r') \<Rightarrow> (Inl e, mk l' r')
        | (Inr y, r') \<Rightarrow> (f x y, mk l' r')))"

fun ast_value :: "world \<Rightarrow> ast \<Rightarrow> (exc + pyval) \<times> ast" where
  "ast_value w (AstMathAdd l r) = eval2 AstMathAdd py_add (ast_value w l) r (ast_value w r)"
| "ast_value w (AstNodePath np) =
     (case get_reference_node w np of
        (Inl e, np') \<Rightarrow> (Inl e, AstNodePath np')
      | (Inr q, np') \<Rightarrow> (Inr (node_path_value w q), AstNodePath np'))"
| "ast_value w (AstVariablePath np name) =
     (case variable_path_value w np name of (v, np') \<Rightarrow> (v, AstVariablePath np' name))"
| "ast_value w (AstInteger n) = (Inr (VVal (PInt n)), AstInteger n)"
| "ast_value w (AstNodeStatus s) = (Inr (VStatus s), AstNodeStatus s)"
| "ast_value w a = (Inl (PyError PyNotImplementedError), a)"

definition short_circuit :: "(ast \<Rightarrow> ast \<Rightarrow> ast) \<Rightarrow> bool \<Rightarrow> (exc + bool) \<times> ast \<Rightarrow> ast
    \<Rightarrow> (exc + bool) \<times> ast \<Rightarrow> (exc + bool) \<times> ast" where
  "short_circuit mk stop xl r xr =
     (case xl of
        (Inl e, l') \<Rightarrow> (Inl e, mk l' r)
      | (Inr x, l') \<Rightarrow> if x = stop then (Inr x, mk l' r) else (fst xr, mk l' (snd xr)))"

fun ast_evaluate :: "world \<Rightarrow> ast \<Rightarrow> (exc + bool) \<times> ast" where
  "ast_evaluate w (AstOpEq l r) = eval2 AstOpEq (\<lambda>x y. Inr (py_eq x y)) (ast_value w l) r (ast_value w r)"
| "ast_evaluate w (AstOpGt l r) = eval2 AstOpGt (\<lambda>x y. py_lt y x) (ast_value w l) r (ast_value w r)"
| "ast_evaluate w (AstOpGe l r) = eval2 AstOpGe (\<lambda>x y. py_le y x) (ast_value w l) r (ast_value w r)"
| "ast_evaluate w (AstOpLt l r) = eval2 AstOpLt py_lt (ast_value w l) r (ast_value w r)"
| "ast_evaluate w (AstOpLe l r) = eval2 AstOpLe py_le (ast_value w l) r (ast_value w r)"
| "ast_evaluate w (AstOpAnd l r) = short_circuit AstOpAnd False (ast_evaluate w l) r (ast_evaluate w r)"
| "ast_evaluate w (AstOpOr l r) = short_circuit AstOpOr True (ast_evaluate w l) r (ast_evaluate w r)"
| "ast_evaluate w a = (Inl (PyError PyNotImplementedError), a)"

text \<open>\<open>set_parent_node\<close>: binds every path of the tree, left to right, and stops at the first failure.\<close>

definition bind2 :: "(ast \<Rightarrow> ast \<Rightarrow> ast) \<Rightarrow> exc option \<times> ast \<Rightarrow> ast \<Rightarrow> exc option \<times> ast \<Rightarrow> exc option \<times> ast" where
  "bind2 mk xl r xr =
     (case xl of
        (Some e, l') \<Rightarrow> (Some e, mk l' r)
      | (None, l') \<Rightarrow> (fst xr, mk l' (snd xr)))"

definition bind_node_path :: "world \<Rightarrow> pos \<Rightarrow> ast_node_path \<Rightarrow> exc option \<times> ast_node_path" where
  "bind_node_path w p np =
     (case get_reference_node w (np\<lparr>np_parent_node := Some p\<rparr>) of
        (Inl e, np') \<Rightarrow> (Some e, np')
      | (Inr None, np') \<Rightarrow> (Some NodeNotFoundError, np')
      | (Inr (Some q), np') \<Rightarrow> (None, np'))"

definition bind_variable_path :: "world \<Rightarrow> pos \<Rightarrow> ast_node_path \<Rightarrow> string \<Rightarrow> exc option \<times> ast_node_path" where
  "bind_variable_path w p np name =
     (case bind_node_path w p np of
        (Some e, np') \<Rightarrow> (Some e, np')
      | (None, np') \<Rightarrow> (case get_variable w np' name of
          (Inl e, np'') \<Rightarrow> (Some e, np'')
        | (Inr None, np'') \<Rightarrow> (Some ExpressionSyntaxError, np'')
        | (Inr (Some v), np'') \<Rightarrow> (None, np'')))"

fun set_parent_node :: "world \<Rightarrow> pos \<Rightarrow> ast \<Rightarrow> exc option \<times> ast" where
  "set_parent_node w p (AstOpEq l r) = bind2 AstOpEq (set_parent_node w p l) r (set_parent_node w p r)"
| "set_parent_node w p (AstOpGt l r) = bind2 AstOpGt (set_parent_node w p l) r (set_parent_node w p r)"
| "set_parent_node w p (AstOpGe l r) = bind2 AstOpGe (set_parent_node w p l) r (set_parent_node w p r)"
| "set_parent_node w p (AstOpLt l r) = bind2 AstOpLt (set_parent_node w p l) r (set_parent_node w p r)"
| "set_parent_node w p (AstOpLe l r) = bind2 AstOpLe (set_parent_node w p l) r (set_parent_node w p r)"
| "set_parent_node w p (AstOpAnd l r) = bind2 AstOpAnd (set_parent_node w p l) r (set_parent_node w p r)"
| "set_parent_node w p (AstOpOr l r) = bind2 AstOpOr (set_parent_node w p l) r (set_parent_node w p r)"
| "set_parent_node w p (AstMathAdd l r) = bind2 AstMathAdd (set_parent_node w p l) r (set_parent_node w p r)"
| "set_parent_node w p (AstNodePath np) =
     (case bind_node_path w p np of (e, np') \<Rightarrow> (e, AstNodePath np'))"
| "set_parent_node w p (AstVariablePath np name) =
     (case bind_variable_path w p np name of (e, np') \<Rightarrow> (e, AstVariablePath np' name))"
| "set_parent_node w p (AstInteger n) = (None, AstInteger n)"
| "set_parent_node w p (AstNodeStatus s) = (None, AstNodeStatus s)"

section \<open>Expressions\<close>

type_synonym parser = "string \<Rightarrow> exc + ast"

definition expression_set_free :: "expression \<Rightarrow> expression" where
  "expression_set_free ex = ex\<lparr>ex_free := True\<rparr>"

definition expression_clear_free :: "expression \<Rightarrow> expression" where
  "expression_clear_free ex = ex\<lparr>ex_free := False\<rparr>"

definition expression_reset :: "expression \<Rightarrow> expression" where
  "expression_reset ex = expression_clear_free ex"

text \<open>
  \<open>create_ast\<close>: the parsed tree is stored before its paths are bound, so a failing binding leaves
  the half-bound tree in the expression.
\<close>

definition create_ast :: "parser \<Rightarrow> world \<Rightarrow> pos \<Rightarrow> expression \<Rightarrow> exc option \<times> expression" where
  "create_ast parse w p ex =
     (case parse (ex_expression_str ex) of
        Inl e \<Rightarrow> (Some e, ex)
      | Inr a \<Rightarrow> (case set_parent_node w p a of (e, a') \<Rightarrow> (e, ex\<lparr>ex_ast := Some a'\<rparr>)))"

definition expression_evaluate :: "world \<Rightarrow> expression \<Rightarrow> (exc + bool) \<times> expression" where
  "expression_evaluate w ex =
     (if ex_free ex then (Inr True, ex)
      else case ex_ast ex of
        None \<Rightarrow> (Inl (PyError PyAttributeError), ex)
      | Some a \<Rightarrow> (case ast_evaluate w a of (r, a') \<Rightarrow> (r, ex\<lparr>ex_ast := Some a'\<rparr>)))"

text \<open>The body the two \<open>evaluate\<close> methods of a node share.\<close>

definition eval_expression :: "parser \<Rightarrow> world \<Rightarrow> pos \<Rightarrow> expression \<Rightarrow> (exc + bool) \<times> expression" where
  "eval_expression parse w p ex =
     (if ex_ast ex \<noteq> None then expression_evaluate w ex
      else case create_ast parse w p ex of
        (Some e, ex') \<Rightarrow> (Inl e, ex')
      | (None, ex') \<Rightarrow> expression_evaluate w ex')"

definition put_trigger :: "expression \<Rightarrow> node_attrs \<Rightarrow> node_attrs" where
  "put_trigger ex a = a\<lparr>n_trigger := Some ex\<rparr>"

definition put_complete_trigger :: "expression \<Rightarrow> node_attrs \<Rightarrow> node_attrs" where
  "put_complete_trigger ex a = a\<lparr>n_complete_trigger := Some ex\<rparr>"

definition evaluate_trigger :: "parser \<Rightarrow> pos \<Rightarrow> bool wprog" where
  "evaluate_trigger parse p = withState (\<lambda>w. case n_trigger (attr w p) of
      None \<Rightarrow> ret True
    | Some ex \<Rightarrow> (case eval_expression parse w p ex of (r, ex') \<Rightarrow>
        seqM (updN p (put_trigger ex')) (liftE (\<lambda>_. r))))"

definition evaluate_complete_trigger :: "parser \<Rightarrow> pos \<Rightarrow> bool wprog" where
  "evaluate_complete_trigger parse p = withState (\<lambda>w. case n_complete_trigger (attr w p) of
      None \<Rightarrow> ret False
    | Some ex \<Rightarrow> (case eval_expression parse w p ex of (r, ex') \<Rightarrow>
        seqM (updN p (put_complete_trigger ex')) (liftE (\<lambda>_. r))))"

text \<open>\<open>add_trigger\<close>: with \<open>parse\<close> set the expression is bound first, and a failure assigns nothing.\<close>

definition add_expression :: "parser \<Rightarrow> (expression \<Rightarrow> node_attrs \<Rightarrow> node_attrs) \<Rightarrow> pos \<Rightarrow> expression \<Rightarrow> bool \<Rightarrow> unit wprog" where
  "add_expression parse put p ex now = withState (\<lambda>w.
     case (if now then create_ast parse w p ex else (None, ex)) of
       (Some e, _) \<Rightarrow> raise e
     | (None, ex') \<Rightarrow> seqM (updN p (put ex')) (notify p [''definition'']))"

definition add_trigger :: "parser \<Rightarrow> pos \<Rightarrow> string \<Rightarrow> bool \<Rightarrow> unit wprog" where
  "add_trigger parse p s now = add_expression parse put_trigger p (Expression s) now"

definition add_complete_trigger :: "parser \<Rightarrow> pos \<Rightarrow> string \<Rightarrow> bool \<Rightarrow> unit wprog" where
  "add_complete_trigger parse p s now = add_expression parse put_complete_trigger p (Expression s) now"

lemmas put_defs = put_event_def put_meter_def put_trigger_def put_complete_trigger_def

context benign_frame
begin

lemma obeys_event [frame_intro]: "obeys R (write_event p name f)"
  unfolding write_event_def
  by (intro frame_intro obeys_updN) (simp add: core_defs put_defs)

lemma obeys_meter [frame_intro]: "obeys R (write_meter p name g)"
  unfolding write_meter_def
  by (intro frame_intro obeys_updN) (simp add: core_defs put_defs)

lemma obeys_evaluate_trigger [frame_intro]: "obeys R (evaluate_trigger parse p)"
  unfolding evaluate_trigger_def
  by (intro frame_intro obeys_updN) (simp add: core_defs put_defs)

lemma obeys_evaluate_complete_trigger [frame_intro]: "obeys R (evaluate_complete_trigger parse p)"
  unfolding evaluate_complete_trigger_def
  by (intro frame_intro obeys_updN) (simp add: core_defs put_defs)

end

section \<open>Caching does not show\<close>

text \<open>The reference semantics: every path is looked up each time it is needed.\<close>

fun sem_value :: "world \<Rightarrow> pos \<Rightarrow> ast \<Rightarrow> exc + pyval" where
  "sem_value w p (AstMathAdd l r) =
     (case sem_value w p l of Inl e \<Rightarrow> Inl e | Inr x \<Rightarrow>
       (case sem_value w p r of Inl e \<Rightarrow> Inl e | Inr y \<Rightarrow> py_add x y))"
| "sem_value w p (AstNodePath np) =
     (case find_node w p (np_node_path np) of Inl e \<Rightarrow> Inl e | Inr q \<Rightarrow> Inr (node_path_value w q))"
| "sem_value w p (AstVariablePath np name) =
     (case find_node w p (np_node_path np) of
        Inl e \<Rightarrow> Inl e
      | Inr None \<Rightarrow> Inl (PyError PyAttributeError)
      | Inr (Some q) \<Rightarrow> (case find_variable w q name of
          Inl e \<Rightarrow> Inl e | Inr v \<Rightarrow> Inr (variable_value w q v)))"
| "sem_value w p (AstInteger n) = Inr (VVal (PInt n))"
| "sem_value w p (AstNodeStatus s) = Inr (VStatus s)"
| "sem_value w p a = Inl (PyError PyNotImplementedError)"

definition sem_compare :: "(pyval \<Rightarrow> pyval \<Rightarrow> exc + bool) \<Rightarrow> exc + pyval \<Rightarrow> exc + pyval \<Rightarrow> exc + bool" where
  "sem_compare f x y = (case x of Inl e \<Rightarrow> Inl e | Inr u \<Rightarrow> (case y of Inl e \<Rightarrow> Inl e | Inr v \<Rightarrow> f u v))"

fun sem_evaluate :: "world \<Rightarrow> pos \<Rightarrow> ast \<Rightarrow> exc + bool" where
  "sem_evaluate w p (AstOpEq l r) = sem_compare (\<lambda>x y. Inr (py_eq x y)) (sem_value w p l) (sem_value w p r)"
| "sem_evaluate w p (AstOpGt l r) = sem_compare (\<lambda>x y. py_lt y x) (sem_value w p l) (sem_value w p r)"
| "sem_evaluate w p (AstOpGe l r) = sem_compare (\<lambda>x y. py_le y x) (sem_value w p l) (sem_value w p r)"
| "sem_evaluate w p (AstOpLt l r) = sem_compare py_lt (sem_value w p l) (sem_value w p r)"
| "sem_evaluate w p (AstOpLe l r) = sem_compare py_le (sem_value w p l) (sem_value w p r)"
| "sem_evaluate w p (AstOpAnd l r) =
     (case sem_evaluate w p l of Inl e \<Rightarrow> Inl e | Inr False \<Rightarrow> Inr False | Inr True \<Rightarrow> sem_evaluate w p r)"
| "sem_evaluate w p (AstOpOr l r) =
     (case sem_evaluate w p l of Inl e \<Rightarrow> Inl e | Inr True \<Rightarrow> Inr True | Inr False \<Rightarrow> sem_evaluate w p r)"
| "sem_evaluate w p a = Inl (PyError PyNotImplementedError)"

text \<open>A tree as the parser returns it, and a tree all of whose paths are bound.\<close>

fun ast_paths :: "ast \<Rightarrow> ast_node_path list" where
  "ast_paths (AstOpEq l r) = ast_paths l @ ast_paths r"
| "ast_paths (AstOpGt l r) = ast_paths l @ ast_paths r"
| "ast_paths (AstOpGe l r) = ast_paths l @ ast_paths r"
| "ast_paths (AstOpLt l r) = ast_paths l @ ast_paths r"
| "ast_paths (AstOpLe l r) = ast_paths l @ ast_paths r"
| "ast_paths (AstOpAnd l r) = ast_paths l @ ast_paths r"
| "ast_paths (AstOpOr l r) = ast_paths l @ ast_paths r"
| "ast_paths (AstMathAdd l r) = ast_paths l @ ast_paths r"
| "ast_paths (AstNodePath np) = [np]"
| "ast_paths (AstVariablePath np name) = [np]"
| "ast_paths (AstInteger n) = []"
| "ast_paths (AstNodeStatus s) = []"

definition unbound :: "ast \<Rightarrow> bool" where
  "unbound a \<longleftrightarrow> list_all (\<lambda>np. np_reference_node np = None) (ast_paths a)"

definition np_bound :: "world \<Rightarrow> pos \<Rightarrow> ast_node_path \<Rightarrow> bool" where
  "np_bound w p np \<longleftrightarrow> np_reference_node np \<noteq> None \<and> find_node w p (np_node_path np) = Inr (np_reference_node np)"

definition bound :: "world \<Rightarrow> pos \<Rightarrow> ast \<Rightarrow> bool" where
  "bound w p a \<longleftrightarrow> list_all (np_bound w p) (ast_paths a)"

lemma get_reference_bound: "np_bound w p np \<Longrightarrow> get_reference_node w' np = (Inr (np_reference_node np), np)"
  by (auto simp: np_bound_def get_reference_node_def split: option.splits)

lemma ast_value_bound: "bound w p a \<Longrightarrow> ast_value w a = (sem_value w p a, a)"
proof (induction w p a rule: sem_value.induct)
  case (2 w p np)
  then have b: "np_bound w p np" by (simp add: bound_def)
  then have "find_node w p (np_node_path np) = Inr (np_reference_node np)" by (simp add: np_bound_def)
  then show ?case by (simp add: get_reference_bound [OF b])
next
  case (3 w p np name)
  then have b: "np_bound w p np" by (simp add: bound_def)
  then have "find_node w p (np_node_path np) = Inr (np_reference_node np)" by (simp add: np_bound_def)
  then show ?case
    by (auto simp: variable_path_value_def get_variable_def get_reference_bound [OF b]
        split: option.splits sum.splits)
qed (auto simp: bound_def eval2_def split: sum.splits)

lemma ast_evaluate_bound: "bound w p a \<Longrightarrow> ast_evaluate w a = (sem_evaluate w p a, a)"
proof (induction w p a rule: sem_evaluate.induct)
  case (6 w p l r)
  then show ?case by (auto simp: bound_def short_circuit_def split: sum.splits bool.splits)
next
  case (7 w p l r)
  then show ?case by (auto simp: bound_def short_circuit_def split: sum.splits bool.splits)
qed (auto simp: bound_def eval2_def sem_compare_def ast_value_bound [unfolded bound_def] split: sum.splits)

lemma bound_skeleton: "skeleton w' = skeleton w \<Longrightarrow> bound w' p a = bound w p a"
  by (simp add: bound_def np_bound_def [abs_def] find_node_skeleton [of w' w])

text \<open>Binding keeps the text of the paths, and what they mean.\<close>

fun ast_forget :: "ast \<Rightarrow> ast" where
  "ast_forget (AstOpEq l r) = AstOpEq (ast_forget l) (ast_forget r)"
| "ast_forget (AstOpGt l r) = AstOpGt (ast_forget l) (ast_forget r)"
| "ast_forget (AstOpGe l r) = AstOpGe (ast_forget l) (ast_forget r)"
| "ast_forget (AstOpLt l r) = AstOpLt (ast_forget l) (ast_forget r)"
| "ast_forget (AstOpLe l r) = AstOpLe (ast_forget l) (ast_forget r)"
| "ast_forget (AstOpAnd l r) = AstOpAnd (ast_forget l) (ast_forget r)"
| "ast_forget (AstOpOr l r) = AstOpOr (ast_forget l) (ast_forget r)"
| "ast_forget (AstMathAdd l r) = AstMathAdd (ast_forget l) (ast_forget r)"
| "ast_forget (AstNodePath np) = AstNodePath (np\<lparr>np_parent_node := None, np_reference_node := None\<rparr>)"
| "ast_forget (AstVariablePath np name) =
     AstVariablePath (np\<lparr>np_parent_node := None, np_reference_node := None\<rparr>) name"
| "ast_forget (AstInteger n) = AstInteger n"
| "ast_forget (AstNodeStatus s) = AstNodeStatus s"

lemma sem_value_forget: "sem_value w p (ast_forget a) = sem_value w p a"
  by (induction a) (simp_all split: sum.splits)

lemma sem_evaluate_forget: "sem_evaluate w p (ast_forget a) = sem_evaluate w p a"
  by (induction a) (simp_all add: sem_value_forget split: sum.splits bool.splits)

lemma bind_node_path_ok:
  "bind_node_path w p np = (None, np') \<Longrightarrow> np_reference_node np = None \<Longrightarrow>
   np_bound w p np' \<and> np'\<lparr>np_parent_node := None, np_reference_node := None\<rparr>
     = np\<lparr>np_parent_node := None, np_reference_node := None\<rparr>"
  by (auto simp: bind_node_path_def get_reference_node_def np_bound_def split: option.splits sum.splits)

lemma bind_variable_path_ok:
  assumes "bind_variable_path w p np name = (None, np')" and "np_reference_node np = None"
  shows "np_bound w p np' \<and> np'\<lparr>np_parent_node := None, np_reference_node := None\<rparr>
     = np\<lparr>np_parent_node := None, np_reference_node := None\<rparr>"
proof -
  obtain np1 where np1: "bind_node_path w p np = (None, np1)"
    using assms(1) by (auto simp: bind_variable_path_def split: prod.splits option.splits)
  from bind_node_path_ok [OF this assms(2)] have b: "np_bound w p np1" by simp
  have "np' = np1"
    using assms(1) np1 by (auto simp: bind_variable_path_def get_variable_def get_reference_bound [OF b]
        split: option.splits sum.splits prod.splits)
  with bind_node_path_ok [OF np1 assms(2)] show ?thesis by simp
qed

lemma bind2_None:
  "bind2 mk xl r xr = (None, a') \<Longrightarrow> \<exists>l' r'. xl = (None, l') \<and> xr = (None, r') \<and> a' = mk l' r'"
  by (cases xl; cases xr) (auto simp: bind2_def split: option.splits)

lemma set_parent_node_bound:
  "set_parent_node w p a = (None, a') \<Longrightarrow> unbound a \<Longrightarrow> bound w p a' \<and> ast_forget a' = ast_forget a"
proof (induction w p a arbitrary: a' rule: set_parent_node.induct)
  case (9 w p np)
  then show ?case using bind_node_path_ok by (auto simp: unbound_def bound_def split: prod.splits)
next
  case (10 w p np name)
  then show ?case using bind_variable_path_ok by (auto simp: unbound_def bound_def split: prod.splits)
qed (auto dest!: bind2_None simp: unbound_def bound_def)

text \<open>
  C15. Caching is transparent: once an expression has been bound, evaluating it in any later state of the
  same trees gives what the reference semantics gives there, which looks every path up anew, and leaves
  the expression as it is.
\<close>

theorem bound_trigger_semantics:
  assumes parse: "parse (ex_expression_str ex) = Inr a" and "unbound a"
    and create: "create_ast parse w p ex = (None, ex')" and skel: "skeleton w' = skeleton w" and "\<not> ex_free ex"
  shows "eval_expression parse w' p ex' = (sem_evaluate w' p a, ex')"
proof -
  obtain a' where a': "set_parent_node w p a = (None, a')" "ex' = ex\<lparr>ex_ast := Some a'\<rparr>"
    using create parse by (auto simp: create_ast_def split: prod.splits)
  from set_parent_node_bound [OF a'(1) assms(2)]
  have b: "bound w' p a'" and f: "ast_forget a' = ast_forget a" by (simp_all add: bound_skeleton [OF skel])
  have "sem_evaluate w' p a' = sem_evaluate w' p a" using f sem_evaluate_forget by metis
  with ast_evaluate_bound [OF b] a'(2) assms(5) show ?thesis
    by (simp add: eval_expression_def expression_evaluate_def)
qed


section \<open>Setting and reading a variable\<close>

lemma find_index_update:
  assumes "find_index P xs = Some i" and "\<And>x. P x \<Longrightarrow> P (f x)" 
  shows "find_index P (xs[i := f (xs ! i)]) = Some i"
  using assms
proof (induction xs arbitrary: i)
  case (Cons x xs)
  then show ?case by (cases i) (auto split: if_splits)
qed simp

text \<open>
  A meter that was set reads back: when the report of a value is taken, the value lies between the bounds
  of the meter and every later reading of the variable gives that value; a value outside the bounds
  raises and changes nothing, and so does nothing at all a name that no meter of the node has.
\<close>

lemma set_meter_reads_back:
  assumes "set_meter p name v w = (r, w')" and "find_event w p name = None"
  shows "(r = Inr True \<longrightarrow> (\<exists>i. find_variable w' p name = Inr (Some (VarMeter i))
          \<and> variable_value w' p (Some (VarMeter i)) = VVal (PInt v)
          \<and> mt_min_value (n_meters (attr w' p) ! i) \<le> v \<and> v \<le> mt_max_value (n_meters (attr w' p) ! i)))
    \<and> (r = Inr False \<longrightarrow> find_meter w p name = None \<and> w' = w)
    \<and> (\<forall>i. find_meter w p name = Some i \<longrightarrow> meter_is_invalid (n_meters (attr w p) ! i) v
          \<longrightarrow> r = Inl (PyError PyValueError) \<and> w' = w)"
proof (cases "find_meter w p name")
  case None
  then show ?thesis using assms(1) by (auto simp: set_meter_def write_meter_def prog_defs)
next
  case (Some i)
  let ?m = "n_meters (attr w p) ! i"
  show ?thesis
  proof (cases "meter_is_invalid ?m v")
    case True
    then show ?thesis
      using assms(1) Some by (auto simp: set_meter_def write_meter_def meter_set_value_def prog_defs Let_def)
  next
    case False
    let ?w = "upd p (put_meter i (?m\<lparr>mt_value := v\<rparr>)) w"
    have i: "i < length (n_meters (attr w p))" using Some by (auto simp: find_meter_def dest: find_index_SomeD)
    obtain t where t: "after (notify p [''runtime''] ?w) = ?w\<lparr>w_tracker := t\<rparr>" using notify_after by blast
    have attr: "attr w' p = put_meter i (?m\<lparr>mt_value := v\<rparr>) (attr w p)" if "r = Inr b" for b
    proof -
      have "w' = ?w \<or> w' = ?w\<lparr>w_tracker := t\<rparr>"
        using assms(1) Some False t that
        by (auto simp: set_meter_def write_meter_def meter_set_value_def withState_def updN_def Let_def seqM_def bindM_def
            modify_def whenM_def ret_def split: prod.splits sum.splits if_splits)
      then show ?thesis by (auto simp: attr_upd)
    qed
    have "r \<noteq> Inr False"
      using assms(1) Some False
      by (auto simp: set_meter_def write_meter_def meter_set_value_def withState_def updN_def Let_def seqM_def bindM_def
          modify_def whenM_def ret_def split: prod.splits sum.splits if_splits)
    moreover have "\<exists>i. find_variable w' p name = Inr (Some (VarMeter i))
          \<and> variable_value w' p (Some (VarMeter i)) = VVal (PInt v)
          \<and> mt_min_value (n_meters (attr w' p) ! i) \<le> v \<and> v \<le> mt_max_value (n_meters (attr w' p) ! i)" if "r = Inr True"
    proof (intro exI [of _ i] conjI)
      have "find_index (\<lambda>m. mt_name m = name) ((n_meters (attr w p))[i := ?m\<lparr>mt_value := v\<rparr>]) = Some i"
        using find_index_update [OF Some [unfolded find_meter_def], of "\<lambda>m. m\<lparr>mt_value := v\<rparr>"] by simp
      then show "find_variable w' p name = Inr (Some (VarMeter i))"
        using assms(2) by (simp add: find_variable_def find_event_def find_meter_def attr [OF that] put_meter_def)
    qed (use i False in \<open>simp_all add: variable_value_def attr [OF that] put_meter_def meter_is_invalid_def\<close>)
    ultimately show ?thesis using Some False by simp
  qed
qed

end
