(* ===== verification/Requeue.thy ===== *)
theory Requeue
  imports Limit_Capacity Triggers
begin

text \<open>
  Requeue (\<^verbatim>\<open>node.py\<close>, \<^verbatim>\<open>task_node.py\<close>, \<^verbatim>\<open>node_container.py\<close>): resetting a node and everything below
  it for another run, the status sink, and the small operator actions suspend, resume and
  free-dependencies.
\<close>

section \<open>A node by itself\<close>

fun reset_meters :: "meter list \<Rightarrow> exc option \<times> meter list" where
  "reset_meters [] = (None, [])"
| "reset_meters (m # ms) = (case meter_reset m of
      Inl e \<Rightarrow> (Some e, m # ms)
    | Inr m' \<Rightarrow> (case reset_meters ms of (e, ms') \<Rightarrow> (e, m' # ms')))"

definition requeue_changed :: "node_attrs \<Rightarrow> bool \<Rightarrow> bool" where
  "requeue_changed a reset_repeat \<longleftrightarrow>
     list_ex (\<lambda>e. ev_value e \<noteq> ev_initial_value e) (n_events a)
   \<or> list_ex (\<lambda>m. mt_value m \<noteq> mt_min_value m) (n_meters a)
   \<or> n_is_complete_triggered a
   \<or> list_ex ta_free (n_times a)
   \<or> (case n_trigger a of None \<Rightarrow> False | Some ex \<Rightarrow> ex_free ex)
   \<or> (reset_repeat \<and> (case n_repeat a of None \<Rightarrow> False | Some rp \<Rightarrow>
        (case rp_r rp of None \<Rightarrow> False | Some r \<Rightarrow> repeat_value r \<noteq> repeat_start r)))"

text \<open>The resets in the order of the source; resetting the meters may raise half way.\<close>

definition reset_latches :: "node_attrs \<Rightarrow> node_attrs" where
  "reset_latches a = a\<lparr>n_is_complete_triggered := False, n_times := map time_reset (n_times a),
     n_events := map event_reset (n_events a)\<rparr>"

definition reset_node_meters :: "pos \<Rightarrow> unit wprog" where
  "reset_node_meters p = withState (\<lambda>w. case reset_meters (n_meters (attr w p)) of (e, ms) \<Rightarrow>
     seqM (updN p (\<lambda>a. a\<lparr>n_meters := ms\<rparr>)) (case e of None \<Rightarrow> ret () | Some e \<Rightarrow> raise e))"

definition reset_node_repeat :: "pos \<Rightarrow> unit wprog" where
  "reset_node_repeat p = withState (\<lambda>w. case n_repeat (attr w p) of
      None \<Rightarrow> ret ()
    | Some rp \<Rightarrow> (case Repeat_reset rp of
        Inl e \<Rightarrow> raise e
      | Inr rp' \<Rightarrow> updN p (\<lambda>a. a\<lparr>n_repeat := Some rp'\<rparr>)))"

definition reset_trigger :: "node_attrs \<Rightarrow> node_attrs" where
  "reset_trigger a = a\<lparr>n_trigger := map_option expression_reset (n_trigger a)\<rparr>"

definition Node_requeue :: "pos \<Rightarrow> bool \<Rightarrow> unit wprog" where
  "Node_requeue p reset_repeat = withState (\<lambda>w.
     let changed = requeue_changed (attr w p) reset_repeat in
     seqM (set_node_status_only p (n_default_status (attr w p)))
     (seqM (updN p reset_latches)
     (seqM (reset_node_meters p)
     (seqM (whenM reset_repeat (reset_node_repeat p))
     (seqM (updN p reset_trigger)
       (whenM changed (notify p [''runtime''])))))))"

section \<open>Tasks\<close>

definition attempt_fields :: "task_data \<Rightarrow> string option list" where
  "attempt_fields t = [attempt_id t, task_id t, aborted_reason t, submission_unknown_reason t,
     submitted_at t, started_at t, ended_at t, job_path t, jobout_path t, orvix_info_path t,
     job_password t]"

definition clear_attempt :: "task_data \<Rightarrow> task_data" where
  "clear_attempt t = t\<lparr>task_id := None, aborted_reason := None, submission_unknown_reason := None,
     job_password := None, attempt_id := None, submitted_at := None, started_at := None,
     ended_at := None, job_path := None, jobout_path := None, orvix_info_path := None,
     gp_takler_rid := PNone, gp_takler_attempt_id := PNone, gp_takler_pass := PNone\<rparr>"

definition clear_current_attempt :: "pos \<Rightarrow> unit wprog" where
  "clear_current_attempt p = withState (\<lambda>w.
     seqM (whenM (list_ex (\<lambda>f. f \<noteq> None) (attempt_fields (n_task (attr w p))))
             (notify p [''summary'', ''runtime'', ''artifacts'']))
          (updN p (upd_task clear_attempt)))"

definition Task_requeue :: "pos \<Rightarrow> bool \<Rightarrow> unit wprog" where
  "Task_requeue p reset_repeat = withState (\<lambda>w.
     if unknown_reason w p \<noteq> None then raise FlowStateError
     else seqM (whenM (try_no (n_task (attr w p)) \<noteq> 0) (notify p [''runtime'']))
       (seqM (updN p (upd_task (\<lambda>t. t\<lparr>try_no := 0\<rparr>)))
       (seqM (clear_current_attempt p)
       (seqM (Node_requeue p reset_repeat)
         (update_limits p)))))"

section \<open>Containers\<close>

lemma forM_cong [fundef_cong]:
  "xs = ys \<Longrightarrow> (\<And>x. x \<in> set ys \<Longrightarrow> f x = g x) \<Longrightarrow> forM xs f = forM ys g"
  by (induction ys arbitrary: xs) auto

text \<open>\<open>sink_status_change_only\<close>: a task keeps it to itself, a container passes it on.\<close>

function sink_only :: "node_status \<Rightarrow> shape \<Rightarrow> pos \<Rightarrow> unit wprog" where
  "sink_only s (Shape ss) p = withState (\<lambda>w.
     if is_task w p then set_node_status_only p s
     else seqM (set_node_status_only p s)
            (forM (List.enumerate 0 ss) (\<lambda>(i, t). sink_only s t (i # p))))"
  by pat_completeness auto
termination
  by (relation "measure (\<lambda>(s, t, p). size t)") (auto dest: in_enumerate_size)

text \<open>The check \<open>NodeContainer.requeue\<close> makes before it writes anything.\<close>

definition has_unknown :: "world \<Rightarrow> pos list \<Rightarrow> bool" where
  "has_unknown w ps \<longleftrightarrow> list_ex (\<lambda>q. is_task w q \<and> unknown_reason w q \<noteq> None) ps"

function requeue :: "bool \<Rightarrow> shape \<Rightarrow> pos \<Rightarrow> unit wprog" where
  "requeue reset_repeat (Shape ss) p = withState (\<lambda>w.
     if is_task w p then Task_requeue p reset_repeat
     else if has_unknown w (drain (rev (kids_at (Shape ss) p))) then raise FlowStateError
     else seqM (Node_requeue p reset_repeat)
       (seqM (forM (List.enumerate 0 ss) (\<lambda>(i, t). requeue reset_repeat t (i # p)))
         (withState (\<lambda>w. whenM (n_default_status (attr w p) = complete)
           (sink_only complete (Shape ss) p)))))"
  by pat_completeness auto
termination
  by (relation "measure (\<lambda>(r, t, p). size t)") (auto dest: in_enumerate_size)

definition requeue_node :: "pos \<Rightarrow> bool \<Rightarrow> unit wprog" where
  "requeue_node p reset_repeat = withState (\<lambda>w. requeue reset_repeat (subtree w p) p)"

declare sink_only.simps [simp del] requeue.simps [simp del]

section \<open>Operator actions on one node\<close>

definition write_suspended :: "bool \<Rightarrow> node_attrs \<Rightarrow> node_attrs" where
  "write_suspended b a = a\<lparr>n_state := (n_state a)\<lparr>suspended := b\<rparr>\<rparr>"

definition suspend :: "pos \<Rightarrow> unit wprog" where
  "suspend p = withState (\<lambda>w. whenM (\<not> suspended (n_state (attr w p)))
     (seqM (updN p (write_suspended True)) (notify p [''summary''])))"

definition resume :: "pos \<Rightarrow> unit wprog" where
  "resume p = withState (\<lambda>w. whenM (suspended (n_state (attr w p)))
     (seqM (updN p (write_suspended False)) (notify p [''summary''])))"

definition free_flags :: "node_attrs \<Rightarrow> bool list \<times> bool" where
  "free_flags a = (map ta_free (n_times a), case n_trigger a of None \<Rightarrow> False | Some ex \<Rightarrow> ex_free ex)"

definition free_attrs :: "bool \<Rightarrow> bool \<Rightarrow> node_attrs \<Rightarrow> node_attrs" where
  "free_attrs free_time free_trigger a = a\<lparr>
     n_times := (if free_time then map time_set_free (n_times a) else n_times a),
     n_trigger := (if free_trigger then map_option expression_set_free (n_trigger a) else n_trigger a)\<rparr>"

definition free_dependencies :: "pos \<Rightarrow> string option \<Rightarrow> unit wprog" where
  "free_dependencies p dep_type =
     (let d = (case dep_type of None \<Rightarrow> ''all'' | Some d \<Rightarrow> d) in
      if d \<noteq> ''all'' \<and> d \<noteq> ''time'' \<and> d \<noteq> ''trigger'' then raise UnsupportedValueError
      else withState (\<lambda>w.
        let before = free_flags (attr w p) in
        seqM (updN p (free_attrs (d = ''all'' \<or> d = ''time'') (d = ''all'' \<or> d = ''trigger'')))
          (withState (\<lambda>w. whenM (before \<noteq> free_flags (attr w p)) (notify p [''runtime''])))))"

section \<open>Frames\<close>

lemmas requeue_attr_defs = reset_latches_def reset_trigger_def write_suspended_def free_attrs_def

context benign_frame
begin

lemma obeys_clear_current_attempt [frame_intro]: "obeys R (clear_current_attempt p)"
  unfolding clear_current_attempt_def by (intro frame_intro obeys_updN) (simp add: core_defs)

lemma obeys_suspend [frame_intro]: "obeys R (suspend p)"
  unfolding suspend_def by (intro frame_intro obeys_updN) (simp add: core_defs requeue_attr_defs)

lemma obeys_resume [frame_intro]: "obeys R (resume p)"
  unfolding resume_def by (intro frame_intro obeys_updN) (simp add: core_defs requeue_attr_defs)

lemma obeys_free_dependencies [frame_intro]: "obeys R (free_dependencies p d)"
  unfolding free_dependencies_def Let_def
  by (intro frame_intro obeys_updN) (simp add: core_defs requeue_attr_defs)

lemma obeys_reset_node [frame_intro]:
  "obeys R (reset_node_meters p)"
  "obeys R (updN p reset_latches)" "obeys R (updN p reset_trigger)"
  unfolding reset_node_meters_def
  by (intro frame_intro obeys_updN, simp add: core_defs requeue_attr_defs)+

end

context world_frame
begin

lemma obeys_reset_node_repeat [frame_intro]: "obeys R (reset_node_repeat p)"
  unfolding reset_node_repeat_def by (intro frame_intro)

lemma obeys_Node_requeue [frame_intro]: "obeys R (Node_requeue p r)"
  unfolding Node_requeue_def Let_def by (intro frame_intro)

lemma obeys_Task_requeue [frame_intro]: "obeys R (Task_requeue p r)"
  unfolding Task_requeue_def by (intro frame_intro obeys_updN) (simp add: core_defs)

lemma obeys_sink_only [frame_intro]: "obeys R (sink_only s t p)"
proof (induction t p rule: subtree_induct)
  case (Shape ss p)
  have "obeys R (forM (List.enumerate 0 ss) (\<lambda>(i, t). sink_only s t (i # p)))"
    by (rule obeys_forM) (use Shape in auto)
  then show ?case
    unfolding sink_only.simps by (intro obeys_withState obeys_if obeys_seqM obeys_set_node_status_only)
qed

lemma obeys_requeue [frame_intro]: "obeys R (requeue r t p)"
proof (induction t p rule: subtree_induct)
  case (Shape ss p)
  have "obeys R (forM (List.enumerate 0 ss) (\<lambda>(i, t). requeue r t (i # p)))"
    by (rule obeys_forM) (use Shape in auto)
  then show ?case
    unfolding requeue.simps
    by (intro obeys_withState obeys_if obeys_seqM obeys_raise obeys_whenM obeys_Node_requeue
        obeys_Task_requeue obeys_sink_only)
qed

lemma obeys_requeue_node [frame_intro]: "obeys R (requeue_node p r)"
  unfolding requeue_node_def by (intro frame_intro)

end

end
