(* ===== verification/Propagation.thy ===== *)
theory Propagation
  imports Requeue
begin

text \<open>
  Status changes travel up the tree (\<open>swim\<close>) and down (\<open>sink\<close>): \<^verbatim>\<open>node.py\<close>, \<^verbatim>\<open>task_node.py\<close>,
  \<^verbatim>\<open>node_container.py\<close>. On the way up a node that becomes complete advances its repeat, which
  requeues its subtree and starts again from its children.
\<close>

section \<open>Swimming up\<close>

text \<open>The part of \<open>swim_status_change\<close> that advances the repeat; the answer says whether it fired.\<close>

definition advance_repeat :: "pos \<Rightarrow> bool wprog" where
  "advance_repeat p = withState (\<lambda>w. case n_repeat (attr w p) of
      None \<Rightarrow> ret False
    | Some rp \<Rightarrow> (case Repeat_increment rp of
        Inl e \<Rightarrow> raise e
      | Inr (again, rp') \<Rightarrow>
          seqM (updN p (\<lambda>a. a\<lparr>n_repeat := Some rp'\<rparr>))
            (if again then seqM (notify p [''runtime'']) (seqM (requeue_node p False) (ret True))
             else ret False)))"

definition adopt_status :: "pos \<Rightarrow> node_status \<Rightarrow> unit wprog" where
  "adopt_status p s = withState (\<lambda>w. whenM (s \<noteq> status_of w p) (set_node_status_only p s))"

function swim_status_change :: "pos \<Rightarrow> unit wprog"
  and swim_status_change_only :: "pos \<Rightarrow> unit wprog" where
  "swim_status_change p =
     bindM (computed_status p) (\<lambda>s.
     bindM (if s = complete then seqM (adopt_status p s) (advance_repeat p) else ret False) (\<lambda>fired.
     if fired then swim_status_change_only p
     else seqM (adopt_status p s)
       (case parent p of None \<Rightarrow> ret () | Some q \<Rightarrow> swim_status_change q)))"
| "swim_status_change_only p = withState (\<lambda>w.
     if is_task w p then (case parent p of None \<Rightarrow> ret () | Some q \<Rightarrow> swim_status_change_only q)
     else bindM (computed_status p) (\<lambda>s.
       seqM (adopt_status p s)
         (case parent p of None \<Rightarrow> ret () | Some q \<Rightarrow> swim_status_change q)))"
  by pat_completeness auto
termination
  by (relation "measure (case_sum (\<lambda>p. 2 * length p + 1) (\<lambda>p. 2 * length p))")
     (auto simp: parent_Some)

declare swim_status_change.simps [simp del] swim_status_change_only.simps [simp del]

text \<open>\<open>handle_status_change\<close> of a task and of a container.\<close>

definition handle_status_change :: "pos \<Rightarrow> unit wprog" where
  "handle_status_change p = withState (\<lambda>w.
     if is_task w p then seqM (update_limits p) (swim_status_change p) else swim_status_change p)"

definition set_node_status :: "pos \<Rightarrow> node_status \<Rightarrow> unit wprog" where
  "set_node_status p s = withState (\<lambda>w.
     if status_of w p = s then ret ()
     else seqM (set_node_status_only p s) (handle_status_change p))"

section \<open>Sinking down\<close>

definition sink_status_change :: "pos \<Rightarrow> node_status \<Rightarrow> unit wprog" where
  "sink_status_change p s = withState (\<lambda>w.
     if is_task w p then set_node_status p s
     else seqM (sink_only s (subtree w p) p)
       (seqM (forM (pending_children w p) (\<lambda>q. withState (\<lambda>w. whenM (is_task w q) (update_limits q))))
         (handle_status_change p)))"

context world_frame
begin

lemma obeys_advance_repeat [frame_intro]: "obeys R (advance_repeat p)"
  unfolding advance_repeat_def by (intro frame_intro)

lemma obeys_adopt_status [frame_intro]: "obeys R (adopt_status p s)"
  unfolding adopt_status_def by (intro frame_intro)

lemma obeys_swim_step:
  assumes up: "obeys R (case parent p of None \<Rightarrow> ret () | Some q \<Rightarrow> swim_status_change q)"
    and up_only: "obeys R (case parent p of None \<Rightarrow> ret () | Some q \<Rightarrow> swim_status_change_only q)"
  shows "obeys R (swim_status_change p) \<and> obeys R (swim_status_change_only p)"
proof -
  have only: "obeys R (swim_status_change_only p)"
    unfolding swim_status_change_only.simps [of p]
    by (intro obeys_withState obeys_if obeys_bindM obeys_seqM obeys_computed_status obeys_adopt_status up up_only)
  then show ?thesis
    unfolding swim_status_change.simps [of p]
    by (intro conjI obeys_bindM obeys_if obeys_seqM obeys_computed_status obeys_adopt_status
        obeys_advance_repeat obeys_ret up)
qed

lemma obeys_swim [frame_intro]:
  "obeys R (swim_status_change p)" "obeys R (swim_status_change_only p)"
proof -
  have "obeys R (swim_status_change p) \<and> obeys R (swim_status_change_only p)"
    by (induction p; rule obeys_swim_step) (auto simp: parent_Cons obeys_ret)
  then show "obeys R (swim_status_change p)" "obeys R (swim_status_change_only p)" by auto
qed

lemma obeys_handle_status_change [frame_intro]: "obeys R (handle_status_change p)"
  unfolding handle_status_change_def by (intro frame_intro)

lemma obeys_set_node_status [frame_intro]: "obeys R (set_node_status p s)"
  unfolding set_node_status_def by (intro frame_intro)

lemma obeys_sink_status_change [frame_intro]: "obeys R (sink_status_change p s)"
  unfolding sink_status_change_def by (intro frame_intro)

end

section \<open>The status of a tree is consistent\<close>

definition consistent_at :: "world \<Rightarrow> pos \<Rightarrow> bool" where
  "consistent_at w q \<longleftrightarrow> (valid w q \<longrightarrow> status_of w q = plain_status w q)"

definition consistent_but :: "world \<Rightarrow> pos set \<Rightarrow> bool" where
  "consistent_but w A \<longleftrightarrow> (\<forall>q. q \<notin> A \<longrightarrow> consistent_at w q)"

text \<open>What a status write leaves alone in every node.\<close>

definition quiet_part :: "node_attrs \<Rightarrow> repeat option \<times> limit list \<times> in_limit list" where
  "quiet_part a = (n_repeat a, n_limits a, n_in_limits a)"

text \<open>The effect of \<open>set_node_status_only\<close> on what the rest of the program reads.\<close>

definition status_step :: "pos \<Rightarrow> node_status \<Rightarrow> world \<Rightarrow> world \<Rightarrow> bool" where
  "status_step p s w w' \<longleftrightarrow> (\<forall>q. status_of w' q = (if q = p then s else status_of w q))
     \<and> (\<forall>q. quiet_part (attr w' q) = quiet_part (attr w q)) \<and> skeleton w' = skeleton w"

lemma skeleton_obeys: "obeys (same skeleton) m \<Longrightarrow> skeleton (after (m w)) = skeleton w"
  by (simp add: obeys_def same_def)

lemma status_write_status: "status_of (write_status p s w) q = (if q = p then s else status_of w q)"
  by (auto simp: write_status_def Let_def attr_upd write_state_def child_status_changed_def
      parent_of_def parent_Some split: option.splits if_splits)

lemma quiet_write_status: "quiet_part (attr (write_status p s w) q) = quiet_part (attr w q)"
  by (auto simp: quiet_part_def write_status_def Let_def attr_upd write_state_def child_status_changed_def split: option.splits)

lemma wp_notify:
  assumes "names_ok w" and "groups \<subseteq> FIELD_GROUPS" and "groups \<noteq> {}"
    and "\<And>t. Q (Inr ()) (w\<lparr>w_tracker := t\<rparr>)"
  shows "wp (notify_query_change p groups i) Q w"
proof -
  obtain t where "after (notify_query_change p groups i w) = w\<lparr>w_tracker := t\<rparr>"
    using notify_after by blast
  moreover have "outcome (notify_query_change p groups i w) = Inr ()"
    using notify_outcome [OF assms(1,2)] assms(3) by simp
  ultimately show ?thesis using assms(4) by (simp add: wp_def)
qed

lemma names_ok_tracker [simp]: "names_ok (w\<lparr>w_tracker := t\<rparr>) = names_ok w"
  by (simp add: names_ok_def)

lemma names_ok_upd: "(\<And>a. n_name (f a) = n_name a) \<Longrightarrow> names_ok (upd p f w) = names_ok w"
  unfolding names_ok_def attr_upd by metis

lemma wp_Node_set_status:
  assumes "names_ok w"
  shows "wp (Node_set_node_status_only p s) (\<lambda>r w'. r = Inr () \<and>
     (\<forall>q. status_of w' q = (if q = p then s else status_of w q))
     \<and> (\<forall>q. quiet_part (attr w' q) = quiet_part (attr w q))) w"
proof -
  have "skeleton (write_status p s w) = skeleton w"
    using skel.R_status [of w p s] by (simp add: same_def)
  then have "names_ok (write_status p s w)" using assms names_ok_skeleton by blast
  then show ?thesis
    by (auto simp: Node_set_node_status_only_def status_write_status quiet_write_status FIELD_GROUPS_def
        intro!: wp_notify)
qed

lemma set_node_status_only_step:
  assumes "names_ok w"
  shows "outcome (set_node_status_only p s w) = Inr ()"
    and "status_step p s w (after (set_node_status_only p s w))"
proof -
  have "wp (set_node_status_only p s) (\<lambda>r w'. r = Inr () \<and>
     (\<forall>q. status_of w' q = (if q = p then s else status_of w q))
     \<and> (\<forall>q. quiet_part (attr w' q) = quiet_part (attr w q))) w"
  proof (cases "is_task w p \<and> \<not> in_flight s \<and> unknown_reason w p \<noteq> None")
    case False
    then show ?thesis
      using wp_Node_set_status [OF assms]
      by (auto simp: set_node_status_only_def Task_set_node_status_only_def)
  next
    case True
    let ?w1 = "upd p (upd_task (\<lambda>t. t\<lparr>submission_unknown_reason := None\<rparr>)) w"
    have n1: "names_ok ?w1" using assms by (simp add: names_ok_upd upd_task_def)
    have same: "status_of ?w1 q = status_of w q" "quiet_part (attr ?w1 q) = quiet_part (attr w q)" for q
      by (simp_all add: attr_upd upd_task_def quiet_part_def)
    let ?Q = "\<lambda>r w'. r = Inr () \<and> (\<forall>q. status_of w' q = (if q = p then s else status_of w q))
        \<and> (\<forall>q. quiet_part (attr w' q) = quiet_part (attr w q))"
    have "wp (Node_set_node_status_only p s) ?Q (?w1\<lparr>w_tracker := t\<rparr>)" for t
      by (rule wp_mono [OF wp_Node_set_status]) (use n1 same in auto)
    then have "wp (seqM (notify p [''summary'', ''runtime'']) (Node_set_node_status_only p s)) ?Q ?w1"
      unfolding wp_seqM by (intro wp_notify n1) (simp_all add: FIELD_GROUPS_def)
    then show ?thesis
      using True by (simp add: set_node_status_only_def Task_set_node_status_only_def updN_def
          del: if_split)
  qed
  moreover have "skeleton (after (set_node_status_only p s w)) = skeleton w"
    by (intro skeleton_obeys skel.obeys_set_node_status_only)
  ultimately show "outcome (set_node_status_only p s w) = Inr ()"
    "status_step p s w (after (set_node_status_only p s w))"
    by (auto simp: wp_def status_step_def)
qed

lemma status_stepD:
  assumes "status_step p s w w'"
  shows "status_of w' q = (if q = p then s else status_of w q)" "n_repeat (attr w' q) = n_repeat (attr w q)"
    "n_limits (attr w' q) = n_limits (attr w q)" "n_in_limits (attr w' q) = n_in_limits (attr w q)"
    "skeleton w' = skeleton w"
  using assms by (auto simp: status_step_def quiet_part_def)

lemma status_step_same: "status_step p (status_of w p) w w"
  by (simp add: status_step_def)

lemma status_step_trans: "status_step p s w w1 \<Longrightarrow> status_step p s w1 w2 \<Longrightarrow> status_step p s w w2"
  by (simp add: status_step_def)

lemma adopt_status_step:
  assumes "names_ok w"
  shows "outcome (adopt_status p s w) = Inr ()" "status_step p s w (after (adopt_status p s w))"
  using set_node_status_only_step [OF assms, of p s] status_step_same [of p w]
  by (auto simp: adopt_status_def prog_defs)

lemma computed_status_step:
  assumes "counts_ok w"
  shows "\<exists>w'. computed_status p w = (Inr (plain_status w p), w') \<and> counts_ok w'
    \<and> status_step q (status_of w q) w w'"
proof -
  let ?w' = "after (computed_status p w)"
  have "computed_status p w = (Inr (plain_status w p), ?w')"
    using computed_status_plain [OF assms, of p] by (simp add: prod_eq_iff)
  moreover have "counts_ok ?w'"
    using assms by (rule obeys_keeps_invD [OF cached.obeys_computed_status])
  moreover have "skeleton ?w' = skeleton w" by (intro skeleton_obeys skel.obeys_computed_status)
  moreover have "status_of ?w' r = status_of w r" "quiet_part (attr ?w' r) = quiet_part (attr w r)" for r
    by (auto simp: computed_status_after count_children_def attr_upd quiet_part_def)
  ultimately show ?thesis unfolding status_step_def by metis
qed

lemma plain_status_step:
  assumes st: "status_step p s w w'" and child: "\<And>i. p \<noteq> i # r"
  shows "plain_status w' r = (if r = p \<and> (is_task w p \<or> arity w p = 0) then s else plain_status w r)"
proof -
  have sk: "skeleton w' = skeleton w" using st by (simp add: status_step_def)
  have ar: "arity w' r = arity w r" "children w' r = children w r"
    using structure_cong [OF skeletonD(1) [OF sk]] by simp_all
  have "child_statuses w' r = child_statuses w r"
    unfolding child_statuses_def ar using st child by (auto simp: status_step_def children_def)
  then show ?thesis
    using st by (auto simp: plain_status_def ar skeletonD(2) [OF sk] status_step_def)
qed

lemma consistent_step:
  assumes "consistent_but w (set (ups (i # q)))" and st: "status_step (i # q) (plain_status w (i # q)) w w'"
  shows "consistent_but w' (set (ups q))"
  unfolding consistent_but_def consistent_at_def
proof (intro allI impI)
  fix r assume r: "r \<notin> set (ups q)" and v: "valid w' r"
  have sk: "skeleton w' = skeleton w" using st by (simp add: status_step_def)
  have vw: "valid w r" using v structure_cong(1) [OF skeletonD(1) [OF sk]] by simp
  have "r \<noteq> []" using vw by (auto simp: valid_def)
  have child: "i # q \<noteq> j # r" for j
    using r \<open>r \<noteq> []\<close> by (cases q) auto
  show "status_of w' r = plain_status w' r"
  proof (cases "r = i # q")
    case True
    then show ?thesis using plain_status_step [OF st child] st by (auto simp: status_step_def plain_status_def)
  next
    case False
    then have "consistent_at w r" using assms(1) r by (simp add: consistent_but_def)
    then show ?thesis
      using plain_status_step [OF st child] st vw False by (simp add: consistent_at_def status_step_def)
  qed
qed

text \<open>
  No repeat advances on the way up: either there is none, or the node at the bottom is past
  complete, and then so is every node above it.
\<close>

definition no_advance :: "world \<Rightarrow> pos \<Rightarrow> bool" where
  "no_advance w p \<longleftrightarrow> (\<forall>q \<in> set (ups p). n_repeat (attr w q) = None) \<or> complete < plain_status w p"

lemma swim_level:
  assumes names: "names_ok w" and counts: "counts_ok w"
    and rep: "n_repeat (attr w p) = None \<or> plain_status w p \<noteq> complete"
  shows "\<exists>w'. swim_status_change p w = (case parent p of None \<Rightarrow> (Inr (), w') | Some q \<Rightarrow> swim_status_change q w')
    \<and> status_step p (plain_status w p) w w' \<and> counts_ok w'"
proof -
  define s where "s = plain_status w p"
  obtain w1 where w1: "computed_status p w = (Inr s, w1)" "counts_ok w1" "status_step p (status_of w p) w w1"
    unfolding s_def using computed_status_step [OF counts] by blast
  have n1: "names_ok w1" using names names_ok_skeleton [OF status_stepD(5) [OF w1(3)]] by simp
  obtain w2 where a1: "adopt_status p s w1 = (Inr (), w2)" "status_step p s w1 w2"
    using adopt_status_step [OF n1, of p s] by (cases "adopt_status p s w1") auto
  have st2: "status_step p s w w2" using w1(3) a1(2) by (simp add: status_step_def)
  have c2: "counts_ok w2"
    using obeys_keeps_invD [OF cached.obeys_adopt_status w1(2), of p s] a1(1) by simp
  have adv: "advance_repeat p w2 = (Inr False, w2)" if "s = complete"
    using that rep status_stepD(2) [OF st2] by (simp add: s_def advance_repeat_def prog_defs)
  have again: "adopt_status p s w2 = (Inr (), w2)"
    using status_stepD(1) [OF st2, of p] by (simp add: adopt_status_def prog_defs)
  have "bindM (if s = complete then seqM (adopt_status p s) (advance_repeat p) else ret False) k w1
      = k False (if s = complete then w2 else w1)" for k :: "bool \<Rightarrow> unit wprog"
    using a1(1) adv by (cases "s = complete") (simp_all add: bindM_def seqM_def)
  then have "swim_status_change p w = (case parent p of None \<Rightarrow> (Inr (), w2) | Some q \<Rightarrow> swim_status_change q w2)"
    unfolding swim_status_change.simps [of p] bindM_def [of "computed_status p"] w1(1)
    using a1(1) again by (cases "s = complete"; cases "parent p") (auto simp: seqM_def bindM_def ret_def)
  then show ?thesis using st2 c2 unfolding s_def by blast
qed

lemma plain_status_child:
  assumes "valid w (i # q)" "q \<noteq> []" "\<not> is_task w q"
  shows "status_of w (i # q) \<le> plain_status w q"
proof -
  have i: "i < arity w q" using assms valid_child by blast
  then have "plain_status w q = Max (status_of w ` set (children w q))"
    using assms(3) by (intro plain_status_Max) auto
  moreover have "i # q \<in> set (children w q)" using i by (simp add: children_def)
  ultimately show ?thesis by simp
qed

text \<open>Only tasks are leaves of the model's trees: a node with children is a container.\<close>

definition tasks_are_leaves :: "world \<Rightarrow> bool" where
  "tasks_are_leaves w \<longleftrightarrow> (\<forall>i q. valid w (i # q) \<longrightarrow> q \<noteq> [] \<longrightarrow> \<not> is_task w q)"

lemma no_advance_up:
  assumes "no_advance w (i # q)" and st: "status_step (i # q) (plain_status w (i # q)) w w'"
    and "valid w (i # q)" "q \<noteq> []" "tasks_are_leaves w"
  shows "no_advance w' q"
proof (cases "\<forall>r \<in> set (ups (i # q)). n_repeat (attr w r) = None")
  case True
  then show ?thesis using status_stepD(2) [OF st] by (simp add: no_advance_def)
next
  case False
  then have "complete < status_of w' (i # q)"
    using assms(1) status_stepD(1) [OF st, of "i # q"] by (auto simp: no_advance_def)
  moreover have "valid w' (i # q)" "\<not> is_task w' q"
    using assms(3,4,5) structure_cong(1) [OF skeletonD(1) [OF status_stepD(5) [OF st]]]
      skeletonD(2) [OF status_stepD(5) [OF st]] by (auto simp: tasks_are_leaves_def)
  ultimately show ?thesis
    using plain_status_child [of w' i q] assms(4) by (auto simp: no_advance_def intro: less_le_trans)
qed

lemma swim_quiet:
  assumes "valid w p" "names_ok w" "counts_ok w" "no_advance w p" "tasks_are_leaves w"
  shows "\<exists>w'. swim_status_change p w = (Inr (), w') \<and> counts_ok w' \<and> skeleton w' = skeleton w
    \<and> (\<forall>q. quiet_part (attr w' q) = quiet_part (attr w q))
    \<and> (\<forall>q. q \<notin> set (ups p) \<longrightarrow> status_of w' q = status_of w q)
    \<and> (is_task w p \<longrightarrow> status_of w' p = status_of w p)
    \<and> (consistent_but w (set (ups p)) \<longrightarrow> consistent_but w' {})"
  using assms
proof (induction p arbitrary: w)
  case Nil
  then show ?case by (simp add: valid_def)
next
  case (Cons i q)
  have rep: "n_repeat (attr w (i # q)) = None \<or> plain_status w (i # q) \<noteq> complete"
    using Cons.prems(4) by (auto simp: no_advance_def)
  obtain w1 where w1: "swim_status_change (i # q) w
      = (case parent (i # q) of None \<Rightarrow> (Inr (), w1) | Some q \<Rightarrow> swim_status_change q w1)"
    and st: "status_step (i # q) (plain_status w (i # q)) w w1" and c1: "counts_ok w1"
    using swim_level [OF Cons.prems(2,3) rep] by blast
  note sk = status_stepD(5) [OF st]
  have cons: "consistent_but w (set (ups (i # q))) \<Longrightarrow> consistent_but w1 (set (ups q))"
    using consistent_step st by blast
  have task: "is_task w (i # q) \<Longrightarrow> status_of w1 (i # q) = status_of w (i # q)"
    using status_stepD(1) [OF st, of "i # q"] by (simp add: plain_status_def)
  have quiet: "quiet_part (attr w1 r) = quiet_part (attr w r)" for r
    using st by (simp add: status_step_def)
  have other: "status_of w1 r = status_of w r" if "r \<notin> set (ups (i # q))" for r
    using status_stepD(1) [OF st] that by auto
  show ?case
  proof (cases "q = []")
    case True
    then show ?thesis using w1 c1 sk cons task quiet other by (auto simp: parent_Cons)
  next
    case False
    have v1: "valid w1 q"
      using valid_parent [OF Cons.prems(1) False] structure_cong(1) [OF skeletonD(1) [OF sk]] by simp
    have n1: "names_ok w1" using names_ok_skeleton [OF sk] Cons.prems(2) by simp
    have l1: "tasks_are_leaves w1"
      using Cons.prems(5) structure_cong(1) [OF skeletonD(1) [OF sk]] skeletonD(2) [OF sk]
      by (simp add: tasks_are_leaves_def)
    have self: "i # q \<notin> set (ups q)" by (auto simp: set_ups)
    from Cons.IH [OF v1 n1 c1 no_advance_up [OF Cons.prems(4) st Cons.prems(1) False Cons.prems(5)] l1]
    obtain w' where "swim_status_change q w1 = (Inr (), w')" "counts_ok w'" "skeleton w' = skeleton w1"
      "\<forall>r. quiet_part (attr w' r) = quiet_part (attr w1 r)"
      "\<forall>r. r \<notin> set (ups q) \<longrightarrow> status_of w' r = status_of w1 r"
      "consistent_but w1 (set (ups q)) \<longrightarrow> consistent_but w' {}" by blast
    then show ?thesis using w1 False sk cons task quiet other self by (auto simp: parent_Cons)
  qed
qed

section \<open>Status changes of a task\<close>

text \<open>Reserving and releasing tokens leaves statuses, repeats and the skeleton alone.\<close>

definition calm_view where
  "calm_view w = (skeleton w, \<lambda>q. (status_of w q, n_repeat (attr w q), n_status_counts (attr w q),
     n_status_child_count (attr w q)))"

interpretation calm: limit_frame "same calm_view"
proof (intro limit_frame.intro refs_frame.intro frame_same, unfold_locales, goal_cases)
  case (2 w p i r)
  have "core (set_limit i r a) = core a" for a using benign_set_limit by (simp add: benign_def)
  moreover have "skeleton (upd p (set_limit i r) w) = skeleton w"
    using skel.R_set_limit [of w p i r] by (simp add: same_def)
  ultimately show ?case by (auto simp: same_def calm_view_def attr_upd core_def)
next
  case (3 k w r path)
  have "skeleton (upd_limit r (limit_increment k path) w) = skeleton w" by (rule skeleton_upd_limit) simp
  then show ?case by (auto simp: same_def calm_view_def upd_limit_def attr_upd)
next
  case (4 k w r path)
  have "skeleton (upd_limit r (limit_decrement k path) w) = skeleton w" by (rule skeleton_upd_limit) simp
  then show ?case by (auto simp: same_def calm_view_def upd_limit_def attr_upd)
qed (simp add: same_def calm_view_def skeleton_def)

lemma calm_step:
  assumes "calm_view w' = calm_view w"
  shows "status_of w' q = status_of w q" "n_repeat (attr w' q) = n_repeat (attr w q)"
    "skeleton w' = skeleton w" "counts_ok w' = counts_ok w" "plain_status w' q = plain_status w q"
    "consistent_but w' A = consistent_but w A"
proof -
  show sk: "skeleton w' = skeleton w" using assms by (simp add: calm_view_def)
  note shp = structure_cong [OF skeletonD(1) [OF sk]]
  have st: "status_of w' q = status_of w q" "n_repeat (attr w' q) = n_repeat (attr w q)"
    "n_status_counts (attr w' q) = n_status_counts (attr w q)"
    "n_status_child_count (attr w' q) = n_status_child_count (attr w q)" for q
    using assms by (auto simp: calm_view_def fun_eq_iff)
  then show "status_of w' q = status_of w q" "n_repeat (attr w' q) = n_repeat (attr w q)" by auto
  show "counts_ok w' = counts_ok w"
    by (simp add: counts_ok_def child_statuses_def st shp skeletonD(2) [OF sk])
  have pl: "plain_status w' q = plain_status w q" for q
    by (simp add: plain_status_def child_statuses_def st shp skeletonD(2) [OF sk])
  then show "plain_status w' q = plain_status w q" .
  show "consistent_but w' A = consistent_but w A"
    by (simp add: consistent_but_def consistent_at_def pl st shp)
qed

lemma consistent_but_write:
  assumes "consistent_but w {}" and st: "status_step p s w w'"
  shows "consistent_but w' (set (ups p))"
  unfolding consistent_but_def consistent_at_def
proof (intro allI impI)
  fix r assume r: "r \<notin> set (ups p)" and v: "valid w' r"
  have vw: "valid w r" using v structure_cong(1) [OF skeletonD(1) [OF status_stepD(5) [OF st]]] by simp
  have ne: "r \<noteq> []" using vw by (auto simp: valid_def)
  have rp: "r \<noteq> p" using r ne by (cases p) auto
  have child: "p \<noteq> j # r" for j using r ne by (cases r) auto
  have "plain_status w' r = plain_status w r" using plain_status_step [OF st child] rp by simp
  moreover have "status_of w' r = status_of w r" using status_stepD(1) [OF st] rp by simp
  moreover have "status_of w r = plain_status w r"
    using assms(1) vw by (simp add: consistent_but_def consistent_at_def)
  ultimately show "status_of w' r = plain_status w' r" by simp
qed

text \<open>What \<open>handle_status_change\<close> of a task needs, and what it restores.\<close>

definition settled_but :: "world \<Rightarrow> pos \<Rightarrow> bool" where
  "settled_but w p \<longleftrightarrow> names_ok w \<and> counts_ok w \<and> tasks_are_leaves w \<and> valid w p \<and> is_task w p
     \<and> consistent_but w (set (ups p))
     \<and> ((\<forall>q \<in> set (ups p). n_repeat (attr w q) = None) \<or> complete < status_of w p)"

definition restored :: "pos \<Rightarrow> world \<Rightarrow> world \<Rightarrow> bool" where
  "restored p w w' \<longleftrightarrow> consistent_but w' {} \<and> counts_ok w' \<and> skeleton w' = skeleton w \<and> status_of w' p = status_of w p
     \<and> (\<forall>q. n_repeat (attr w' q) = n_repeat (attr w q)) \<and> (\<forall>q. q \<notin> set (ups p) \<longrightarrow> status_of w' q = status_of w q)"

lemma tasks_are_leaves_skeleton:
  assumes sk: "skeleton w' = skeleton w"
  shows "tasks_are_leaves w' = tasks_are_leaves w"
  by (simp add: tasks_are_leaves_def structure_cong [OF skeletonD(1) [OF sk]] skeletonD(2) [OF sk])

lemma settled_but_calm:
  assumes "settled_but w p" and "calm_view w' = calm_view w"
  shows "settled_but w' p"
proof -
  note cs = calm_step [OF assms(2)]
  show ?thesis
    using assms(1) unfolding settled_but_def
    by (simp add: cs names_ok_skeleton [OF cs(3)] tasks_are_leaves_skeleton [OF cs(3)]
        structure_cong [OF skeletonD(1) [OF cs(3)]] skeletonD(2) [OF cs(3)])
qed

lemma swim_restores:
  assumes "settled_but w p" and "swim_status_change p w = (Inr (), w')"
  shows "restored p w w'"
proof -
  have adv: "no_advance w p" using assms(1) by (auto simp: settled_but_def no_advance_def plain_status_def)
  have "\<exists>w1. swim_status_change p w = (Inr (), w1) \<and> counts_ok w1 \<and> skeleton w1 = skeleton w
    \<and> (\<forall>q. quiet_part (attr w1 q) = quiet_part (attr w q))
    \<and> (\<forall>q. q \<notin> set (ups p) \<longrightarrow> status_of w1 q = status_of w q)
    \<and> (is_task w p \<longrightarrow> status_of w1 p = status_of w p)
    \<and> (consistent_but w (set (ups p)) \<longrightarrow> consistent_but w1 {})"
    using assms(1) adv unfolding settled_but_def by (intro swim_quiet) auto
  then show ?thesis using assms unfolding settled_but_def restored_def by (auto simp: quiet_part_def)
qed

lemma handle_status_change_restores:
  assumes "settled_but w p" and "handle_status_change p w = (Inr (), w')"
  shows "restored p w w'"
proof -
  have "is_task w p" using assms(1) by (simp add: settled_but_def)
  then obtain w2 where w2: "update_limits p w = (Inr (), w2)" and sw: "swim_status_change p w2 = (Inr (), w')"
    using assms(2) by (auto simp: handle_status_change_def prog_defs split: prod.splits sum.splits)
  have calm: "calm_view w2 = calm_view w"
    using obeysD [OF calm.obeys_update_limits, of w p] w2 by (simp add: same_def)
  note cs = calm_step [OF calm]
  from swim_restores [OF settled_but_calm [OF assms(1) calm] sw] show ?thesis
    by (simp add: restored_def cs)
qed

lemma settled_but_write:
  assumes "names_ok w" "counts_ok w" "consistent_but w {}" "tasks_are_leaves w" "valid w p" "is_task w p"
    and "(\<forall>q \<in> set (ups p). n_repeat (attr w q) = None) \<or> complete < s"
    and w1: "set_node_status_only p s w = (Inr (), w1)" and st: "status_step p s w w1"
  shows "settled_but w1 p"
proof -
  note sk = status_stepD(5) [OF st]
  have "counts_ok w1"
    using obeys_keeps_invD [OF cached.obeys_set_node_status_only assms(2), of p s] w1 by simp
  moreover have "consistent_but w1 (set (ups p))" by (rule consistent_but_write [OF assms(3) st])
  ultimately show ?thesis
    using assms(1,4-7) status_stepD(1,2) [OF st]
    by (simp add: settled_but_def names_ok_skeleton [OF sk] tasks_are_leaves_skeleton [OF sk]
        structure_cong [OF skeletonD(1) [OF sk]] skeletonD(2) [OF sk])
qed

lemma set_node_status_restores:
  assumes "names_ok w" "counts_ok w" "consistent_but w {}" "tasks_are_leaves w" "valid w p" "is_task w p"
    and "(\<forall>q \<in> set (ups p). n_repeat (attr w q) = None) \<or> complete < s"
    and "set_node_status p s w = (Inr (), w')"
  shows "consistent_but w' {}" "counts_ok w'" "skeleton w' = skeleton w" "status_of w' p = s"
    "n_repeat (attr w' r) = n_repeat (attr w r)" "q \<notin> set (ups p) \<Longrightarrow> status_of w' q = status_of w q"
proof -
  have "consistent_but w' {} \<and> counts_ok w' \<and> skeleton w' = skeleton w \<and> status_of w' p = s
    \<and> (\<forall>r. n_repeat (attr w' r) = n_repeat (attr w r)) \<and> (\<forall>q. q \<notin> set (ups p) \<longrightarrow> status_of w' q = status_of w q)"
  proof (cases "status_of w p = s")
    case True
    then have "w' = w" using assms(8) by (simp add: set_node_status_def prog_defs)
    then show ?thesis using assms(2,3) True by simp
  next
    case False
    obtain w1 where w1: "set_node_status_only p s w = (Inr (), w1)" and st: "status_step p s w w1"
      using set_node_status_only_step [OF assms(1), of p s] by (cases "set_node_status_only p s w") auto
    have "handle_status_change p w1 = (Inr (), w')"
      using assms(8) False w1 by (simp add: set_node_status_def prog_defs)
    from handle_status_change_restores [OF settled_but_write [OF assms(1-7) w1 st] this]
    have r: "restored p w1 w'" .
    have "p \<in> set (ups p)" using assms(5) by (cases p) (auto simp: valid_def)
    with r show ?thesis using status_stepD [OF st] by (auto simp: restored_def)
  qed
  then show "consistent_but w' {}" "counts_ok w'" "skeleton w' = skeleton w" "status_of w' p = s"
    "n_repeat (attr w' r) = n_repeat (attr w r)" "q \<notin> set (ups p) \<Longrightarrow> status_of w' q = status_of w q" by blast+
qed


end
