(* ===== verification/Task_Run.thy ===== *)
theory Task_Run
  imports Propagation
begin

text \<open>
  The life of a task (\<^verbatim>\<open>task_node.py\<close>): a run allocates a new attempt, calls the hooks of the task's
  class and reports the submission; the job later reports init, complete or abort. The hooks are
  parameters, because subclasses override them; the ones of the base class and of the inline
  decorator are definitions. Task classes with coroutine hooks are refused before they reach this
  code and are not modelled.
\<close>

section \<open>Identity of an attempt\<close>

definition fresh_uuid :: "string wprog" where
  "fresh_uuid = withState (\<lambda>w. seqM (modify (\<lambda>w. w\<lparr>w_uuid_next := Suc (w_uuid_next w)\<rparr>))
     (ret (w_uuid w (w_uuid_next w))))"

definition fresh_token :: "string wprog" where
  "fresh_token = withState (\<lambda>w. seqM (modify (\<lambda>w. w\<lparr>w_token_next := Suc (w_token_next w)\<rparr>))
     (ret (w_token w (w_token_next w))))"

text \<open>\<open>ensure_definition_generation\<close> of the flow at \<open>root\<close>, for a new subtree or for all of it.\<close>

definition ensure_definition_generation :: "pos \<Rightarrow> pos option \<Rightarrow> unit wprog" where
  "ensure_definition_generation root sub =
     seqM (withState (\<lambda>w. whenM (flow_generation (n_flow (attr w root)) = None)
       (bindM fresh_uuid (\<lambda>u.
          seqM (updN root (upd_flow (\<lambda>f. f\<lparr>flow_generation := Some u\<rparr>))) (notify root [''runtime''])))))
     (withState (\<lambda>w. forM (case sub of Some q \<Rightarrow> pending_from w q | None \<Rightarrow> pending_children w root)
       (\<lambda>q. withState (\<lambda>w.
          whenM (is_task w q \<and> (sub \<noteq> None \<or> task_generation (n_task (attr w q)) = None))
            (seqM (updN q (upd_task (\<lambda>t. t\<lparr>task_generation := flow_generation (n_flow (attr w root))\<rparr>)))
               (whenM (sub = None) (notify q [''runtime''])))))))"

text \<open>\<open>update_generated_parameters\<close> of a task: its own values, then the repeat's are read.\<close>

definition pval_of :: "string option \<Rightarrow> pval" where
  "pval_of s = (case s of None \<Rightarrow> PNone | Some x \<Rightarrow> PStr x)"

definition task_update_parameters :: "string \<Rightarrow> string \<Rightarrow> task_data \<Rightarrow> task_data" where
  "task_update_parameters name path t = t\<lparr>gp_task := PStr name, gp_takler_name := PStr path,
     gp_takler_rid := pval_of (task_id t), gp_takler_attempt_id := pval_of (attempt_id t),
     gp_takler_try_no := PInt (try_no t), gp_takler_pass := pval_of (job_password t)\<rparr>"

definition check_repeat_parameters :: "pos \<Rightarrow> unit wprog" where
  "check_repeat_parameters p = withState (\<lambda>w. case repeat_parameters (attr w p) of
      Inl e \<Rightarrow> raise e | Inr _ \<Rightarrow> ret ())"

definition Task_update_generated_parameters :: "pos \<Rightarrow> unit wprog" where
  "Task_update_generated_parameters p =
     seqM (withState (\<lambda>w. updN p (upd_task (task_update_parameters (name_of w p) (node_path w p)))))
       (check_repeat_parameters p)"

definition new_attempt :: "string \<Rightarrow> task_data \<Rightarrow> task_data" where
  "new_attempt u t = t\<lparr>try_no := try_no t + 1, attempt_id := Some u, task_id := None,
     aborted_reason := None, submission_unknown_reason := None, submitted_at := None,
     started_at := None, ended_at := None\<rparr>"

definition set_generation :: "pos \<Rightarrow> unit wprog" where
  "set_generation p = withState (\<lambda>w. case get_flow w p of
      Some root \<Rightarrow>
        seqM (whenM (flow_generation (n_flow (attr w root)) = None) (ensure_definition_generation root None))
          (withState (\<lambda>w. updN p (upd_task (\<lambda>t. t\<lparr>task_generation := flow_generation (n_flow (attr w root))\<rparr>))))
    | None \<Rightarrow> whenM (task_generation (n_task (attr w p)) = None)
        (bindM fresh_uuid (\<lambda>u. updN p (upd_task (\<lambda>t. t\<lparr>task_generation := Some u\<rparr>)))))"

definition increment_try_no :: "pos \<Rightarrow> unit wprog" where
  "increment_try_no p =
     seqM (set_generation p)
     (bindM fresh_uuid (\<lambda>u.
     seqM (updN p (upd_task (new_attempt u)))
     (seqM (notify p [''summary'', ''runtime'', ''artifacts''])
     (bindM fresh_token (\<lambda>tok.
     seqM (updN p (upd_task (\<lambda>t. t\<lparr>job_path := None, jobout_path := None, orvix_info_path := None,
                                   job_password := Some tok\<rparr>)))
       (Task_update_generated_parameters p))))))"

section \<open>Running\<close>

text \<open>\<open>Bunch.require_running\<close>, asked by a task that is in a bunch.\<close>

definition bunch_require_running :: "unit wprog" where
  "bunch_require_running = withState (\<lambda>w.
     if ss_status (w_server_state w) \<noteq> running then raise FlowStateError
     else if w_service_stopping w then raise FlowStateError
     else ret ())"

definition require_running :: "pos \<Rightarrow> unit wprog" where
  "require_running p = withState (\<lambda>w. whenM (has_bunch w p) bunch_require_running)"

definition before_run :: "pos \<Rightarrow> unit wprog" where
  "before_run p = seqM (require_running p)
     (withState (\<lambda>w. whenM (\<not> run_identity_prepared (n_task (attr w p))) (increment_try_no p)))"

definition Task_do_run :: "pos \<Rightarrow> bool wprog" where
  "Task_do_run p = ret True"

definition after_run :: "pos \<Rightarrow> unit wprog" where
  "after_run p = withState (\<lambda>w.
     seqM (updN p (upd_task (\<lambda>t. t\<lparr>submitted_at := Some (w_utcnow w)\<rparr>)))
     (seqM (set_node_status p submitted)
       (handle_status_change p)))"

definition require_limit_capacity :: "pos \<Rightarrow> unit wprog" where
  "require_limit_capacity p =
     bindM (unresolved_limits_up p) (\<lambda>missing.
       if missing \<noteq> [] then raise FlowStateError
       else bindM (check_in_limit_up p) (\<lambda>ok. if ok then ret () else raise FlowStateError))"

text \<open>The thirteen fields a failed start puts back.\<close>

definition restore_fields :: "task_data \<Rightarrow> task_data \<Rightarrow> task_data" where
  "restore_fields prior t = t\<lparr>try_no := try_no prior, task_generation := task_generation prior,
     attempt_id := attempt_id prior, task_id := task_id prior, aborted_reason := aborted_reason prior,
     submission_unknown_reason := submission_unknown_reason prior, job_password := job_password prior,
     submitted_at := submitted_at prior, started_at := started_at prior, ended_at := ended_at prior,
     job_path := job_path prior, jobout_path := jobout_path prior, orvix_info_path := orvix_info_path prior\<rparr>"

definition restore_prior_attempt :: "task_data \<Rightarrow> pos \<Rightarrow> unit wprog" where
  "restore_prior_attempt prior p =
     seqM (updN p (upd_task (restore_fields prior))) (Task_update_generated_parameters p)"

definition set_prepared :: "bool \<Rightarrow> task_data \<Rightarrow> task_data" where
  "set_prepared b t = t\<lparr>run_identity_prepared := b\<rparr>"

text \<open>The three overridable hooks.\<close>

record run_hooks =
  hook_before_run :: "pos \<Rightarrow> unit wprog"
  hook_do_run :: "pos \<Rightarrow> bool wprog"
  hook_after_run :: "pos \<Rightarrow> unit wprog"

definition Task_hooks :: run_hooks where
  "Task_hooks = \<lparr>hook_before_run = before_run, hook_do_run = Task_do_run, hook_after_run = after_run\<rparr>"

definition prepare_run :: "run_hooks \<Rightarrow> task_data \<Rightarrow> pos \<Rightarrow> unit wprog" where
  "prepare_run hooks prior p =
     finallyM
       (onError (seqM (hook_before_run hooks p) (seqM (require_running p) (require_limit_capacity p)))
          (\<lambda>e. whenM (e = FlowStateError \<or> e = UnsupportedValueError) (restore_prior_attempt prior p)))
       (upd p (upd_task (set_prepared False)))"

definition submit_run :: "run_hooks \<Rightarrow> task_data \<Rightarrow> pos \<Rightarrow> bool wprog" where
  "submit_run hooks prior p =
     onError (bindM (hook_do_run hooks p) (\<lambda>ok.
         if \<not> ok then ret False else seqM (hook_after_run hooks p) (ret True)))
       (\<lambda>e. whenM (e = UnsupportedValueError) (restore_prior_attempt prior p))"

definition run :: "run_hooks \<Rightarrow> pos \<Rightarrow> bool wprog" where
  "run hooks p =
     seqM (require_running p) (withState (\<lambda>w.
     if unknown_reason w p \<noteq> None then raise FlowStateError
     else seqM (require_limit_capacity p) (withState (\<lambda>w.
       let prior = n_task (attr w p) in
       seqM (increment_try_no p)
       (seqM (notify p [''summary'', ''runtime'', ''artifacts''])
       (seqM (updN p (upd_task (set_prepared True)))
       (seqM (prepare_run hooks prior p)
         (submit_run hooks prior p))))))))"

section \<open>Reports of the job\<close>

definition task_init :: "pos \<Rightarrow> string \<Rightarrow> unit wprog" where
  "task_init p tid =
     seqM (updN p (upd_task (\<lambda>t. t\<lparr>submission_unknown_reason := None, task_id := Some tid\<rparr>)))
     (seqM (notify p [''runtime'', ''artifacts''])
     (withState (\<lambda>w.
     seqM (whenM (attempt_id (n_task (attr w p)) \<noteq> None \<and> started_at (n_task (attr w p)) = None)
             (updN p (upd_task (\<lambda>t. t\<lparr>started_at := Some (w_utcnow w)\<rparr>))))
     (seqM (set_node_status p active)
       (handle_status_change p)))))"

definition stamp_end :: "pos \<Rightarrow> unit wprog" where
  "stamp_end p = withState (\<lambda>w. whenM (attempt_id (n_task (attr w p)) \<noteq> None)
     (updN p (upd_task (\<lambda>t. t\<lparr>ended_at := Some (w_utcnow w)\<rparr>))))"

definition task_complete :: "pos \<Rightarrow> unit wprog" where
  "task_complete p =
     seqM (updN p (upd_task (\<lambda>t. t\<lparr>submission_unknown_reason := None\<rparr>)))
     (seqM (notify p [''runtime''])
     (seqM (stamp_end p)
     (seqM (set_node_status p complete)
       (handle_status_change p))))"

definition task_abort :: "pos \<Rightarrow> string \<Rightarrow> unit wprog" where
  "task_abort p reason =
     seqM (updN p (upd_task (\<lambda>t. t\<lparr>submission_unknown_reason := None\<rparr>)))
     (seqM (notify p [''runtime''])
     (seqM (stamp_end p)
     (seqM (set_node_status p aborted)
     (seqM (updN p (upd_task (\<lambda>t. t\<lparr>aborted_reason := Some reason\<rparr>)))
       (handle_status_change p)))))"

text \<open>The hooks of the decorator \<open>task\<close>: the body runs inside the server between init and complete.\<close>

definition inline_hooks :: "(pos \<Rightarrow> unit wprog) \<Rightarrow> run_hooks" where
  "inline_hooks body = \<lparr>hook_before_run = before_run,
     hook_do_run = (\<lambda>p. seqM (require_running p) (seqM (after_run p) (seqM (task_init p [])
        (seqM (body p) (seqM (task_complete p) (ret True)))))),
     hook_after_run = (\<lambda>p. ret ())\<rparr>"

section \<open>Frames\<close>

lemmas task_attr_defs = new_attempt_def restore_fields_def set_prepared_def task_update_parameters_def

text \<open>The programs that write the run-time data of tasks and flows, and nothing else.\<close>

locale task_frame = frame R for R :: "world \<Rightarrow> world \<Rightarrow> bool" +
  assumes R_journal: "journalled w t \<Longrightarrow> R w (w\<lparr>w_tracker := t\<rparr>)"
    and R_fresh: "R w (w\<lparr>w_uuid_next := m\<rparr>)" "R w (w\<lparr>w_token_next := m\<rparr>)"
    and R_task: "R w (upd p (upd_task f) w)"
    and R_flow: "R w (upd p (upd_flow g) w)"
begin

lemma obeys_report [frame_intro]: "obeys R (notify_query_change p g i)"
  using notify_journalled [of _ p g i] R_journal unfolding obeys_def by metis

lemma obeys_supply [frame_intro]: "obeys R fresh_uuid" "obeys R fresh_token"
  by (simp_all add: obeys_def fresh_uuid_def fresh_token_def prog_defs R_fresh)

lemma obeys_upd_task [frame_intro]: "obeys R (updN p (upd_task f))"
  by (simp add: obeys_def updN_def prog_defs R_task)

lemma obeys_upd_flow [frame_intro]: "obeys R (updN p (upd_flow f))"
  by (simp add: obeys_def updN_def prog_defs R_flow)

lemma obeys_ensure_definition_generation [frame_intro]: "obeys R (ensure_definition_generation p sub)"
  unfolding ensure_definition_generation_def by (intro frame_intro)

lemma obeys_update_generated [frame_intro]: "obeys R (Task_update_generated_parameters p)"
  unfolding Task_update_generated_parameters_def check_repeat_parameters_def by (intro frame_intro)

lemma obeys_increment_try_no [frame_intro]: "obeys R (increment_try_no p)"
  unfolding increment_try_no_def set_generation_def by (intro frame_intro)

lemma obeys_require_running [frame_intro]: "obeys R bunch_require_running" "obeys R (require_running p)"
  unfolding bunch_require_running_def require_running_def by (intro frame_intro)+

lemma obeys_before_run [frame_intro]: "obeys R (before_run p)"
  unfolding before_run_def by (intro frame_intro)

lemma obeys_restore_prior_attempt [frame_intro]: "obeys R (restore_prior_attempt prior p)"
  unfolding restore_prior_attempt_def by (intro frame_intro)

end

sublocale flow_frame \<subseteq> task_frame
proof unfold_locales
  show "R w (w\<lparr>w_tracker := t\<rparr>)" if "journalled w t" for w t by (rule R_tracker [OF that])
  show "R w (w\<lparr>w_uuid_next := m\<rparr>)" "R w (w\<lparr>w_token_next := m\<rparr>)" for w m by (rule R_supply)+
  show "R w (upd p (upd_task f) w)" for w p f by (rule R_benign) (simp add: core_defs)
  show "R w (upd p (upd_flow g) w)" for w p g by (rule R_flow_data)
qed

context flow_frame
begin

lemma obeys_run_steps [frame_intro]:
  "obeys R (after_run p)" "obeys R (require_limit_capacity p)"
  unfolding after_run_def require_limit_capacity_def
  by (intro frame_intro)+

lemma obeys_run:
  assumes "\<And>q. obeys R (hook_before_run hooks q)" "\<And>q. obeys R (hook_do_run hooks q)"
    "\<And>q. obeys R (hook_after_run hooks q)"
  shows "obeys R (run hooks p)"
proof -
  have "R w (upd p (upd_task (set_prepared False)) w)" for w
    by (rule R_benign) (simp add: core_defs)
  then show ?thesis
    unfolding run_def prepare_run_def submit_run_def Let_def by (intro frame_intro assms)
qed

lemma obeys_reports [frame_intro]:
  "obeys R (task_init p t)" "obeys R (task_complete p)" "obeys R (task_abort p reason)"
  unfolding task_init_def task_complete_def task_abort_def stamp_end_def by (intro frame_intro)+

lemma obeys_Task_hooks: "obeys R (run Task_hooks p)"
  by (rule obeys_run) (simp_all add: Task_hooks_def Task_do_run_def obeys_run_steps obeys_before_run obeys_ret)

lemma obeys_inline_hooks: "(\<And>q. obeys R (body q)) \<Longrightarrow> obeys R (run (inline_hooks body) p)"
  by (rule obeys_run) (auto simp: inline_hooks_def intro!: frame_intro)

end

end
