(* ===== verification/Zombie.thy ===== *)
theory Zombie
  imports Task_Run
begin

text \<open>
  Zombie detection (\<^verbatim>\<open>zombie.py\<close>): whether a report of a job belongs to the run instance the server
  records, and what the configured policy does about one that does not. The credentials of the call,
  which the server publishes in a context variable, are an argument. Log lines are not modelled; the
  audit records are.
\<close>

section \<open>Vocabulary\<close>

datatype child_action = PROCEED | SKIP

datatype zombie_condition = Z1 | Z2 | Z3

datatype auth_mode = AUTH_ENABLED | AUTH_DISABLED

datatype zombie_policy = FAIL | FOB | ADOPT

record zombie_detector =
  zd_auth_mode :: auth_mode
  zd_zombie_policy :: zombie_policy
  zd_audit_logger :: bool

definition CHILD_COMMAND_INIT :: string where "CHILD_COMMAND_INIT = ''init''"

section \<open>Detection\<close>

text \<open>Two absent or empty secrets never match.\<close>

definition constant_time_equal :: "string option \<Rightarrow> string option \<Rightarrow> bool" where
  "constant_time_equal l r = (case (l, r) of
      (Some x, Some y) \<Rightarrow> x \<noteq> [] \<and> y \<noteq> [] \<and> x = y
    | _ \<Rightarrow> False)"

definition hits_z1 :: "world \<Rightarrow> pos \<Rightarrow> call_credentials \<Rightarrow> bool" where
  "hits_z1 w p cr \<longleftrightarrow> \<not> constant_time_equal (cr_job_password cr) (job_password (n_task (attr w p)))"

definition hits_z2 :: "world \<Rightarrow> pos \<Rightarrow> bool" where
  "hits_z2 w p \<longleftrightarrow> status_of w p \<notin> {submitted, active}"

definition hits_z3 :: "world \<Rightarrow> pos \<Rightarrow> string \<Rightarrow> string option \<Rightarrow> bool" where
  "hits_z3 w p command tid \<longleftrightarrow>
     (if command \<noteq> CHILD_COMMAND_INIT then False
      else if status_of w p \<noteq> active then False
      else or_default [] tid \<noteq> or_default [] (task_id (n_task (attr w p))))"

definition detect_zombie_condition :: "world \<Rightarrow> pos \<Rightarrow> string \<Rightarrow> string option \<Rightarrow> auth_mode \<Rightarrow> call_credentials
    \<Rightarrow> zombie_condition option" where
  "detect_zombie_condition w p command tid mode cr =
     (if mode = AUTH_ENABLED \<and> hits_z1 w p cr then Some Z1
      else if hits_z2 w p then Some Z2
      else if hits_z3 w p command tid then Some Z3
      else None)"

section \<open>Disposition\<close>

definition condition_value :: "zombie_condition \<Rightarrow> string" where
  "condition_value z = (case z of Z1 \<Rightarrow> ''Z1'' | Z2 \<Rightarrow> ''Z2'' | Z3 \<Rightarrow> ''Z3'')"

definition policy_value :: "zombie_policy \<Rightarrow> string" where
  "policy_value p = (case p of FAIL \<Rightarrow> ''fail'' | FOB \<Rightarrow> ''fob'' | ADOPT \<Rightarrow> ''adopt'')"

definition status_name :: "node_status \<Rightarrow> string" where
  "status_name s = (case s of unknown \<Rightarrow> ''unknown'' | complete \<Rightarrow> ''complete'' | queued \<Rightarrow> ''queued''
     | submitted \<Rightarrow> ''submitted'' | active \<Rightarrow> ''active'' | aborted \<Rightarrow> ''aborted'')"

definition describe_zombie :: "world \<Rightarrow> pos \<Rightarrow> string \<Rightarrow> zombie_condition \<Rightarrow> zombie_policy \<Rightarrow> string" where
  "describe_zombie w p command z policy =
     ''zombie '' @ command @ '' on '' @ node_path w p @ '': hit '' @ condition_value z @ '', status is ''
     @ status_name (status_of w p) @ '', applying policy '' @ policy_value policy"

text \<open>\<open>str.strip()\<close> is empty when every character is white space.\<close>

definition carries_password :: "call_credentials \<Rightarrow> bool" where
  "carries_password cr \<longleftrightarrow> (case cr_job_password cr of
      None \<Rightarrow> False | Some s \<Rightarrow> s \<noteq> [] \<and> \<not> list_all is_space s)"

definition dispose_zombie :: "pos \<Rightarrow> zombie_policy \<Rightarrow> call_credentials \<Rightarrow> child_action wprog" where
  "dispose_zombie p policy cr = (case policy of
      FAIL \<Rightarrow> raise ZombieError
    | FOB \<Rightarrow> ret SKIP
    | ADOPT \<Rightarrow> seqM (whenM (carries_password cr)
                     (updN p (upd_task (\<lambda>t. t\<lparr>job_password := cr_job_password cr\<rparr>))))
                (ret PROCEED))"

definition record_audit :: "zombie_detector \<Rightarrow> string \<Rightarrow> string list \<Rightarrow> call_credentials \<Rightarrow> int \<Rightarrow> unit wprog" where
  "record_audit d command target cr code = whenM (zd_audit_logger d)
     (modify (\<lambda>w. w\<lparr>w_audit := w_audit w @ [\<lparr>au_timestamp = w_local_time w, au_event = EVENT_ZOMBIE,
        au_command = command, au_user = audit_user cr, au_peer = audit_peer (cr_peer cr), au_target = target,
        au_outcome = OUTCOME_ZOMBIE, au_error_code = code, au_reason = None, au_results = None\<rparr>]\<rparr>))"

definition detect :: "zombie_detector \<Rightarrow> world \<Rightarrow> pos \<Rightarrow> string \<Rightarrow> string option \<Rightarrow> call_credentials
    \<Rightarrow> zombie_condition option" where
  "detect d w p command tid cr = detect_zombie_condition w p command tid (zd_auth_mode d) cr"

definition guard :: "zombie_detector \<Rightarrow> pos \<Rightarrow> string \<Rightarrow> string option \<Rightarrow> call_credentials \<Rightarrow> child_action wprog" where
  "guard d p command tid cr = withState (\<lambda>w. case detect d w p command tid cr of
      None \<Rightarrow> ret PROCEED
    | Some z \<Rightarrow>
        let target = [node_path w p] in
        bindM (onError (dispose_zombie p (zd_zombie_policy d) cr)
                 (\<lambda>e. whenM (e = ZombieError) (record_audit d command target cr (error_code_for_exception e))))
          (\<lambda>action. seqM (record_audit d command target cr SUCCESS) (ret action)))"

section \<open>What the guard promises\<close>

text \<open>A report of the current run instance, in words.\<close>

definition legitimate :: "zombie_detector \<Rightarrow> world \<Rightarrow> pos \<Rightarrow> string \<Rightarrow> string option \<Rightarrow> call_credentials \<Rightarrow> bool" where
  "legitimate d w p command tid cr \<longleftrightarrow>
     (zd_auth_mode d = AUTH_ENABLED \<longrightarrow>
        (\<exists>pw. pw \<noteq> [] \<and> cr_job_password cr = Some pw \<and> job_password (n_task (attr w p)) = Some pw))
   \<and> in_flight (status_of w p)
   \<and> (command = ''init'' \<and> status_of w p = active \<longrightarrow> or_default [] tid = or_default [] (task_id (n_task (attr w p))))"

lemma detect_None_iff: "detect d w p command tid cr = None \<longleftrightarrow> legitimate d w p command tid cr"
proof -
  have "\<not> hits_z1 w p cr \<longleftrightarrow>
      (\<exists>pw. pw \<noteq> [] \<and> cr_job_password cr = Some pw \<and> job_password (n_task (attr w p)) = Some pw)"
    by (auto simp: hits_z1_def constant_time_equal_def split: option.splits)
  moreover have "\<not> hits_z2 w p \<longleftrightarrow> in_flight (status_of w p)"
    by (auto simp: hits_z2_def in_flight_def)
  moreover have "hits_z3 w p command tid \<longleftrightarrow> command = ''init'' \<and> status_of w p = active
      \<and> or_default [] tid \<noteq> or_default [] (task_id (n_task (attr w p)))"
    by (auto simp: hits_z3_def CHILD_COMMAND_INIT_def)
  ultimately show ?thesis
    by (auto simp: detect_def detect_zombie_condition_def legitimate_def split: if_splits)
qed

definition zombie_entry :: "zombie_detector \<Rightarrow> world \<Rightarrow> pos \<Rightarrow> string \<Rightarrow> call_credentials \<Rightarrow> int \<Rightarrow> audit_record list" where
  "zombie_entry d w p command cr code = (if zd_audit_logger d then
     [\<lparr>au_timestamp = w_local_time w, au_event = EVENT_ZOMBIE, au_command = command, au_user = audit_user cr,
       au_peer = audit_peer (cr_peer cr), au_target = [node_path w p], au_outcome = OUTCOME_ZOMBIE,
       au_error_code = code, au_reason = None, au_results = None\<rparr>] else [])"

lemma record_audit_eq:
  "record_audit d command target cr code w = (Inr (), w\<lparr>w_audit := w_audit w @ (if zd_audit_logger d then
     [\<lparr>au_timestamp = w_local_time w, au_event = EVENT_ZOMBIE, au_command = command, au_user = audit_user cr,
       au_peer = audit_peer (cr_peer cr), au_target = target, au_outcome = OUTCOME_ZOMBIE,
       au_error_code = code, au_reason = None, au_results = None\<rparr>] else [])\<rparr>)"
  by (simp add: record_audit_def prog_defs)

lemma guard_cases:
  "guard d p command tid cr w =
     (if legitimate d w p command tid cr then (Inr PROCEED, w)
      else case zd_zombie_policy d of
        FAIL \<Rightarrow> (Inl ZombieError, w\<lparr>w_audit := w_audit w @ zombie_entry d w p command cr 31\<rparr>)
      | FOB \<Rightarrow> (Inr SKIP, w\<lparr>w_audit := w_audit w @ zombie_entry d w p command cr 0\<rparr>)
      | ADOPT \<Rightarrow> (Inr PROCEED, (if carries_password cr
            then upd p (upd_task (\<lambda>t. t\<lparr>job_password := cr_job_password cr\<rparr>)) w else w)
          \<lparr>w_audit := w_audit w @ zombie_entry d w p command cr 0\<rparr>))"
proof (cases "detect d w p command tid cr")
  case None
  then show ?thesis using detect_None_iff [of d w p command tid cr] by (simp add: guard_def prog_defs)
next
  case (Some z)
  then have "\<not> legitimate d w p command tid cr" using detect_None_iff [of d w p command tid cr] by simp
  with Some show ?thesis
    by (cases "zd_zombie_policy d")
      (simp_all add: guard_def dispose_zombie_def zombie_entry_def record_audit_eq onError_def Let_def withState_def
        seqM_def bindM_def ret_def raise_def whenM_def updN_def modify_def error_code_for_exception_def SUCCESS_def)
qed

lemma guard_writes:
  assumes "guard d p command tid cr w = (r, w')"
  shows "r = Inr PROCEED \<or> (\<exists>a. w' = w\<lparr>w_audit := a\<rparr>)"
proof (cases "legitimate d w p command tid cr")
  case False
  then show ?thesis using assms by (cases "zd_zombie_policy d") (auto simp: guard_cases)
qed (use assms in \<open>simp add: guard_cases\<close>)

text \<open>
  C9. The zombie guard lets exactly the reports of the current run instance through, and leaves no
  trace of them. For every other report there is exactly one audit record when auditing is on; fail raises and fob skips without any write to a node, and
  adopt writes nothing but the presented, non-blank password of the reporting task.
\<close>

theorem guard_disposition:
  "guard d p command tid cr w =
     (if legitimate d w p command tid cr then (Inr PROCEED, w)
      else case zd_zombie_policy d of
        FAIL \<Rightarrow> (Inl ZombieError, w\<lparr>w_audit := w_audit w @ zombie_entry d w p command cr 31\<rparr>)
      | FOB \<Rightarrow> (Inr SKIP, w\<lparr>w_audit := w_audit w @ zombie_entry d w p command cr 0\<rparr>)
      | ADOPT \<Rightarrow> (Inr PROCEED, (if carries_password cr
            then upd p (upd_task (\<lambda>t. t\<lparr>job_password := cr_job_password cr\<rparr>)) w else w)
          \<lparr>w_audit := w_audit w @ zombie_entry d w p command cr 0\<rparr>))"
  by (rule guard_cases)

text \<open>No password reaches the description of a zombie.\<close>

lemma describe_zombie_secret:
  "describe_zombie (upd q (upd_task (\<lambda>t. t\<lparr>job_password := x\<rparr>)) w) p command z policy = describe_zombie w p command z policy"
proof -
  have "node_path (upd q (upd_task (\<lambda>t. t\<lparr>job_password := x\<rparr>)) w) p = node_path w p"
    using node_path_skeleton [OF skeleton_upd] by (simp add: upd_task_def)
  then show ?thesis by (simp add: describe_zombie_def attr_upd upd_task_def)
qed

end
