(* ===== verification/Child_Commands.thy ===== *)
theory Child_Commands
  imports Zombie Triggers
begin

text \<open>
  The reports of running jobs as the scheduler executes them (\<^verbatim>\<open>scheduler.py\<close>, child commands): the
  attempt guard, the ownership guard of events and meters, the zombie guard and the operation.
  A command is the record of its DTO in \<^verbatim>\<open>protocol/commands.py\<close>. The zombie detector of the scheduler
  is optional, and the credentials of the call are an argument.
\<close>

section \<open>Commands\<close>

record child_command =
  cc_node_path :: string
  cc_attempt_id :: string

record init_command = child_command +
  ic_task_id :: string

record abort_command = child_command +
  ac_reason :: string

record event_command = child_command +
  ec_event_name :: string
  ec_source_task_path :: string

record meter_command = child_command +
  mc_meter_name :: string
  mc_meter_value :: int
  mc_source_task_path :: string

section \<open>Guards\<close>

definition find_node_or_raise :: "string \<Rightarrow> pos wprog" where
  "find_node_or_raise path = bindM (liftE (\<lambda>w. bunch_find_node w path)) (\<lambda>r.
     case r of None \<Rightarrow> raise NodeNotFoundError | Some p \<Rightarrow> ret p)"

definition find_task_or_raise :: "string \<Rightarrow> pos wprog" where
  "find_task_or_raise path = bindM (find_node_or_raise path) (\<lambda>p. withState (\<lambda>w.
     if is_task w p then ret p else raise NodeTypeError))"

text \<open>
  \<open>str(UUID(attempt_id)) == attempt_id\<close>: the canonical text of a UUID is thirty-two lower-case
  hexadecimal digits in groups of 8, 4, 4, 4 and 12, and \<open>UUID\<close> accepts each such text.
\<close>

definition hex_digit :: "char \<Rightarrow> bool" where
  "hex_digit c \<longleftrightarrow> (48 \<le> char_code c \<and> char_code c \<le> 57) \<or> (97 \<le> char_code c \<and> char_code c \<le> 102)"

definition canonical_uuid :: "string \<Rightarrow> bool" where
  "canonical_uuid s \<longleftrightarrow> map length (py_split (CHR ''-'') s) = [8, 4, 4, 4, 12]
     \<and> list_all (\<lambda>c. c = CHR ''-'' \<or> hex_digit c) s"

definition validate_attempt_id :: "string \<Rightarrow> unit wprog" where
  "validate_attempt_id aid =
     (if aid = [] then raise AttemptMismatchError
      else if canonical_uuid aid then ret () else raise InvalidRequestError)"

definition guard_attempt :: "pos \<Rightarrow> string \<Rightarrow> unit wprog" where
  "guard_attempt p aid =
     seqM (validate_attempt_id aid)
     (bindM (liftE (\<lambda>w. bunch_find_node w (node_path w p))) (\<lambda>found. withState (\<lambda>w.
       if found \<noteq> Some p \<or> attempt_id (n_task (attr w p)) \<noteq> Some aid
          \<or> status_of w p \<notin> {submitted, active}
       then raise AttemptMismatchError else ret ())))"

definition guard_child_target :: "string \<Rightarrow> string \<Rightarrow> pos \<Rightarrow> pos wprog" where
  "guard_child_target source_path aid target =
     (if source_path = [] then raise InvalidRequestError
      else bindM (liftE (\<lambda>w. bunch_find_node w source_path)) (\<lambda>found. withState (\<lambda>w.
        case found of
          None \<Rightarrow> raise InvalidRequestError
        | Some source \<Rightarrow>
            if \<not> is_task w source then raise InvalidRequestError
            else if get_flow w source = None \<or> get_flow w source \<noteq> get_flow w target
            then raise InvalidRequestError
            else seqM (guard_attempt source aid) (ret source))))"

definition guard_child_command :: "zombie_detector option \<Rightarrow> pos \<Rightarrow> string \<Rightarrow> string option \<Rightarrow> call_credentials
    \<Rightarrow> child_action wprog" where
  "guard_child_command zd p command tid cr = (case zd of
      None \<Rightarrow> ret PROCEED | Some d \<Rightarrow> guard d p command tid cr)"

section \<open>The five commands\<close>

definition run_command_init :: "zombie_detector option \<Rightarrow> call_credentials \<Rightarrow> init_command \<Rightarrow> unit wprog" where
  "run_command_init zd cr c =
     seqM (validate_attempt_id (cc_attempt_id c))
     (bindM (find_task_or_raise (cc_node_path c)) (\<lambda>p.
     seqM (guard_attempt p (cc_attempt_id c))
     (withState (\<lambda>w.
       if status_of w p = active then
         (if task_id (n_task (attr w p)) \<noteq> Some (ic_task_id c) then raise ZombieError
          else case zd of
            None \<Rightarrow> ret ()
          | Some d \<Rightarrow> if detect d w p ''init'' (Some (ic_task_id c)) cr \<noteq> None then raise ZombieError
                       else ret ())
       else bindM (guard_child_command zd p ''init'' (Some (ic_task_id c)) cr) (\<lambda>action.
         if action = SKIP then ret () else task_init p (ic_task_id c))))))"

text \<open>The shape the reports complete and abort share.\<close>

definition report_command :: "zombie_detector option \<Rightarrow> call_credentials \<Rightarrow> string \<Rightarrow> string \<Rightarrow> string
    \<Rightarrow> (pos \<Rightarrow> unit wprog) \<Rightarrow> unit wprog" where
  "report_command zd cr name path aid act =
     seqM (validate_attempt_id aid)
     (bindM (find_task_or_raise path) (\<lambda>p.
     seqM (guard_attempt p aid)
     (bindM (guard_child_command zd p name None cr) (\<lambda>action.
       if action = SKIP then ret () else act p))))"

definition run_command_complete :: "zombie_detector option \<Rightarrow> call_credentials \<Rightarrow> child_command \<Rightarrow> unit wprog" where
  "run_command_complete zd cr c =
     report_command zd cr ''complete'' (cc_node_path c) (cc_attempt_id c) task_complete"

definition run_command_abort :: "zombie_detector option \<Rightarrow> call_credentials \<Rightarrow> abort_command \<Rightarrow> unit wprog" where
  "run_command_abort zd cr c =
     report_command zd cr ''abort'' (cc_node_path c) (cc_attempt_id c) (\<lambda>p. task_abort p (ac_reason c))"

text \<open>Events and meters: the answer of the setter is dropped, also when there is no such attribute.\<close>

definition owned_command :: "zombie_detector option \<Rightarrow> call_credentials \<Rightarrow> string \<Rightarrow> string \<Rightarrow> string \<Rightarrow> string
    \<Rightarrow> (pos \<Rightarrow> bool wprog) \<Rightarrow> unit wprog" where
  "owned_command zd cr name path aid source_path act =
     seqM (validate_attempt_id aid)
     (bindM (find_node_or_raise path) (\<lambda>p.
     bindM (guard_child_target source_path aid p) (\<lambda>source.
     bindM (guard_child_command zd source name None cr) (\<lambda>action.
       if action = SKIP then ret () else bindM (act p) (\<lambda>_. ret ())))))"

definition run_command_event :: "zombie_detector option \<Rightarrow> call_credentials \<Rightarrow> event_command \<Rightarrow> unit wprog" where
  "run_command_event zd cr c =
     owned_command zd cr ''event'' (cc_node_path c) (cc_attempt_id c) (ec_source_task_path c)
       (\<lambda>p. set_event p (ec_event_name c) True)"

definition run_command_meter :: "zombie_detector option \<Rightarrow> call_credentials \<Rightarrow> meter_command \<Rightarrow> unit wprog" where
  "run_command_meter zd cr c =
     owned_command zd cr ''meter'' (cc_node_path c) (cc_attempt_id c) (mc_source_task_path c)
       (\<lambda>p. set_meter p (mc_meter_name c) (mc_meter_value c))"

section \<open>The guards read only\<close>

definition nodes_view where
  "nodes_view w = (w_shapes w, w_attrs w, w_flows w, w_server_state w, w_service_stopping w, w_tracker w)"

lemma find_node_or_raise_same: "after (find_node_or_raise path w) = w"
  by (simp add: find_node_or_raise_def prog_defs split: sum.splits option.splits)

lemma find_task_or_raise_same: "after (find_task_or_raise path w) = w"
  by (simp add: find_task_or_raise_def find_node_or_raise_def prog_defs split: sum.splits option.splits)

lemma find_task_or_raise_Inr:
  "find_task_or_raise path w = (Inr p, w') \<Longrightarrow> w' = w \<and> is_task w p \<and> bunch_find_node w path = Inr (Some p)"
  by (auto simp: find_task_or_raise_def find_node_or_raise_def prog_defs split: sum.splits option.splits if_splits)

lemma validate_attempt_id_same: "after (validate_attempt_id aid w) = w"
  by (simp add: validate_attempt_id_def prog_defs)

text \<open>A live attempt: the node is the one its path leads to, and the report names its attempt.\<close>

definition live_attempt :: "world \<Rightarrow> pos \<Rightarrow> string \<Rightarrow> bool" where
  "live_attempt w p aid \<longleftrightarrow> bunch_find_node w (node_path w p) = Inr (Some p)
     \<and> attempt_id (n_task (attr w p)) = Some aid \<and> in_flight (status_of w p)"

lemma guard_attempt_same: "after (guard_attempt p aid w) = w"
  by (simp add: guard_attempt_def validate_attempt_id_def prog_defs split: sum.splits)

lemma guard_attempt_Inr:
  "outcome (guard_attempt p aid w) = Inr () \<longleftrightarrow> canonical_uuid aid \<and> live_attempt w p aid"
proof -
  have "canonical_uuid aid \<Longrightarrow> aid \<noteq> []" by (auto simp: canonical_uuid_def)
  then show ?thesis
    by (auto simp: guard_attempt_def validate_attempt_id_def live_attempt_def in_flight_def prog_defs
        split: sum.splits)
qed

lemma guard_child_target_same: "after (guard_child_target sp aid p w) = w"
proof -
  have "after (seqM (guard_attempt q aid) (ret q) w) = w" for q
    using guard_attempt_same [of q aid w] by (auto simp: seqM_def bindM_def ret_def split: prod.splits sum.splits)
  then show ?thesis
    by (simp add: guard_child_target_def raise_def bindM_def liftE_def withState_def split: sum.splits option.splits)
qed

lemma guard_child_target_Inr:
  assumes "guard_child_target sp aid p w = (Inr q, w')"
  shows "w' = w" "bunch_find_node w sp = Inr (Some q)" "is_task w q" "get_flow w q \<noteq> None"
    "get_flow w q = get_flow w p" "live_attempt w q aid"
proof -
  obtain fq where "outcome (guard_attempt q aid w) = Inr () \<and> bunch_find_node w sp = Inr (Some q) \<and> is_task w q
      \<and> get_flow w q = Some fq \<and> get_flow w p = Some fq"
    using assms by (auto simp: guard_child_target_def raise_def bindM_def liftE_def withState_def seqM_def ret_def
        split: sum.splits option.splits if_splits prod.splits) (metis fst_conv)+
  then show "bunch_find_node w sp = Inr (Some q)" "is_task w q" "get_flow w q \<noteq> None"
    "get_flow w q = get_flow w p" "live_attempt w q aid" by (auto simp: guard_attempt_Inr)
  show "w' = w" using guard_child_target_same [of sp aid p w] assms by simp
qed

lemma guard_child_command_view:
  assumes "guard_child_command zd p name tid cr w = (r, w')"
  shows "r = Inr PROCEED \<or> (\<exists>a. w' = w\<lparr>w_audit := a\<rparr>)"
proof (cases zd)
  case None
  then show ?thesis using assms by (simp add: guard_child_command_def ret_def)
next
  case (Some d)
  then show ?thesis using assms guard_writes [of d p name tid cr w r w'] by (simp add: guard_child_command_def)
qed

end
