(* ===== verification/Requeue_Effect.thy ===== *)
theory Requeue_Effect
  imports Propagation
begin

text \<open>
  What a requeue does to every node of the subtree, and that it leaves all other nodes alone (but
  for the limits the subtree's tasks release and the status counts of its parent).
\<close>

section \<open>Writing inside a set of nodes only\<close>

text \<open>Everything of a node that neither the limits nor the status cache own.\<close>

definition local_part :: "node_attrs \<Rightarrow> node_attrs" where
  "local_part a = a\<lparr>n_limits := [], n_in_limits := [], n_status_counts := None, n_status_child_count := 0\<rparr>"

definition outside :: "pos set \<Rightarrow> world \<Rightarrow> world \<Rightarrow> bool" where
  "outside A w w' \<longleftrightarrow> (\<forall>q. q \<notin> A \<longrightarrow> local_part (attr w' q) = local_part (attr w q))"

lemma local_set_limit: "local_part (set_limit i r a) = local_part a"
  by (simp add: local_part_def set_limit_def split: option.splits)

lemma outside_upd: "q \<in> A \<or> (\<forall>a. local_part (f a) = local_part a) \<Longrightarrow> outside A w (upd q f w)"
  by (auto simp: outside_def attr_upd)

interpretation out: limit_frame "outside A" for A
proof unfold_locales
  show "outside A w w" for w by (simp add: outside_def)
  show "outside A w u" if "outside A w v" "outside A v u" for w v u using that by (simp add: outside_def)
  show "outside A w (w\<lparr>w_tracker := t\<rparr>)" for w t by (simp add: outside_def)
  show "outside A w (upd p (set_limit i r) w)" for w p i r
    by (rule outside_upd) (simp add: local_set_limit)
  show "outside A w (upd_limit r (limit_increment k path) w)" for w k r path
    unfolding upd_limit_def by (rule outside_upd) (simp add: local_part_def)
  show "outside A w (upd_limit r (limit_decrement k path) w)" for w k r path
    unfolding upd_limit_def by (rule outside_upd) (simp add: local_part_def)
qed

lemma outside_notify: "obeys (outside A) (notify_query_change p g i)"
  using notify_journalled [of _ p g i] out.R_note unfolding obeys_def by metis

lemma outside_updN: "q \<in> A \<Longrightarrow> obeys (outside A) (updN q f)"
  by (simp add: obeys_def updN_def prog_defs outside_upd)

lemma outside_write_status: "q \<in> A \<Longrightarrow> outside A w (write_status q s w)"
proof -
  assume q: "q \<in> A"
  have csc: "local_part (child_status_changed o' s a) = local_part a" for o' a
    by (simp add: local_part_def child_status_changed_def)
  have "outside A w' (upd r (child_status_changed o' s) w')" for w' r o'
    by (rule outside_upd) (simp add: csc)
  moreover have "outside A w (upd q (write_state s) w)" using q by (simp add: outside_upd)
  ultimately show "outside A w (write_status q s w)"
    using out.R_trans by (auto simp: write_status_def Let_def split: option.splits)
qed

lemmas outside_base = out.obeys_ret out.obeys_raise out.obeys_withState out.obeys_bindM out.obeys_seqM
  out.obeys_whenM out.obeys_if out.obeys_option out.obeys_sum out.obeys_prod outside_notify outside_updN

lemma outside_status_only: "q \<in> A \<Longrightarrow> obeys (outside A) (set_node_status_only q s)"
proof -
  assume q: "q \<in> A"
  have "obeys (outside A) (modify (write_status q s))"
    using outside_write_status [OF q] by (simp add: obeys_def prog_defs)
  then show ?thesis
    unfolding set_node_status_only_def Task_set_node_status_only_def Node_set_node_status_only_def
    by (intro outside_base q)
qed

lemma outside_Node_requeue: "q \<in> A \<Longrightarrow> obeys (outside A) (Node_requeue q r)"
  unfolding Node_requeue_def reset_node_meters_def reset_node_repeat_def Let_def
  by (intro outside_base outside_status_only) auto

lemma outside_Task_requeue: "q \<in> A \<Longrightarrow> obeys (outside A) (Task_requeue q r)"
  unfolding Task_requeue_def clear_current_attempt_def
  by (intro outside_base outside_Node_requeue out.obeys_update_limits) auto

lemma walk_Shape: "set (walk (Shape ss) p) = insert p (\<Union>(i, t) \<in> set (List.enumerate 0 ss). set (walk t (i # p)))"
  by auto

declare walk.simps [simp del]

lemma outside_sink_only: "set (walk t p) \<subseteq> A \<Longrightarrow> obeys (outside A) (sink_only s t p)"
proof (induction t p rule: subtree_induct)
  case (Shape ss p)
  have p: "p \<in> A" using Shape.prems by (simp add: walk_Shape)
  have "obeys (outside A) (forM (List.enumerate 0 ss) (\<lambda>(i, t). sink_only s t (i # p)))"
    by (rule out.obeys_forM) (use Shape in \<open>auto simp: walk_Shape\<close>)
  then show ?case unfolding sink_only.simps by (intro outside_base outside_status_only p)
qed

lemma outside_requeue: "set (walk t p) \<subseteq> A \<Longrightarrow> obeys (outside A) (requeue r t p)"
proof (induction t p rule: subtree_induct)
  case (Shape ss p)
  have p: "p \<in> A" using Shape.prems by (simp add: walk_Shape)
  have "obeys (outside A) (forM (List.enumerate 0 ss) (\<lambda>(i, t). requeue r t (i # p)))"
    by (rule out.obeys_forM) (use Shape in \<open>auto simp: walk_Shape\<close>)
  then show ?case
    unfolding requeue.simps
    by (intro outside_base outside_Node_requeue outside_Task_requeue outside_sink_only p Shape.prems)
qed

section \<open>The effect on one node\<close>

text \<open>A node as a requeue leaves it, apart from its status.\<close>

definition fresh_node :: "node_attrs \<Rightarrow> bool" where
  "fresh_node a \<longleftrightarrow> \<not> n_is_complete_triggered a
     \<and> (\<forall>e \<in> set (n_events a). ev_value e = ev_initial_value e)
     \<and> (\<forall>m \<in> set (n_meters a). mt_value m = mt_min_value m)
     \<and> (\<forall>t \<in> set (n_times a). \<not> ta_free t)
     \<and> (case n_trigger a of None \<Rightarrow> True | Some ex \<Rightarrow> \<not> ex_free ex)"

definition no_attempt :: "task_data \<Rightarrow> bool" where
  "no_attempt t \<longleftrightarrow> try_no t = 0 \<and> (\<forall>f \<in> set (attempt_fields t). f = None)"

text \<open>What a status write may change of the local part: the status and the unknown-submission note.\<close>

definition settled :: "node_attrs \<Rightarrow> bool" where
  "settled a \<longleftrightarrow> fresh_node a \<and> (n_kind a = KTask \<longrightarrow> no_attempt (n_task a))"

lemma local_partD:
  assumes "local_part a = local_part b"
  shows "n_state a = n_state b" "n_default_status a = n_default_status b" "n_kind a = n_kind b"
    "fresh_node a = fresh_node b" "n_task a = n_task b" "settled a = settled b"
    "n_repeat a = n_repeat b"
proof -
  have fields: "n_is_complete_triggered a = n_is_complete_triggered b" "n_events a = n_events b"
    "n_meters a = n_meters b" "n_times a = n_times b" "n_trigger a = n_trigger b"
    "n_state a = n_state b" "n_default_status a = n_default_status b" "n_kind a = n_kind b"
    "n_task a = n_task b" "n_repeat a = n_repeat b"
    using assms by (cases a; cases b; simp add: local_part_def)+
  then show "n_state a = n_state b" "n_default_status a = n_default_status b" "n_kind a = n_kind b"
    "fresh_node a = fresh_node b" "n_task a = n_task b" "settled a = settled b" "n_repeat a = n_repeat b"
    by (simp_all add: fresh_node_def settled_def)
qed

text \<open>A status write on a node, seen from that node.\<close>

definition status_only :: "node_status \<Rightarrow> node_attrs \<Rightarrow> node_attrs \<Rightarrow> bool" where
  "status_only s a b \<longleftrightarrow> (\<exists>u. local_part b = local_part (write_state s
     (a\<lparr>n_task := (n_task a)\<lparr>submission_unknown_reason := u\<rparr>\<rparr>)) \<and> (u = None \<or> u = submission_unknown_reason (n_task a)))"

lemma status_only_settled: "status_only s a b \<Longrightarrow> settled a \<Longrightarrow> settled b \<and> node_status (n_state b) = s
    \<and> n_default_status b = n_default_status a \<and> n_kind b = n_kind a"
proof -
  assume "status_only s a b" and a: "settled a"
  then obtain u where lp: "local_part b = local_part (write_state s
      (a\<lparr>n_task := (n_task a)\<lparr>submission_unknown_reason := u\<rparr>\<rparr>))"
    and u: "u = None \<or> u = submission_unknown_reason (n_task a)" unfolding status_only_def by blast
  note d = local_partD [OF lp]
  have "no_attempt (n_task a) \<Longrightarrow> no_attempt ((n_task a)\<lparr>submission_unknown_reason := u\<rparr>)"
    using u by (auto simp: no_attempt_def attempt_fields_def)
  with a d show ?thesis by (auto simp: settled_def fresh_node_def write_state_def)
qed

lemma attr_notify: "attr (after (notify_query_change p g i w)) q = attr w q"
  using notify_after [of p g i w] by auto

lemma local_write_status: "local_part (attr (write_status p s w) p) = local_part (write_state s (attr w p))"
  by (auto simp: write_status_def Let_def attr_upd parent_of_def parent_Some local_part_def
      child_status_changed_def split: option.splits)

lemma Node_set_status_local:
  "local_part (attr (after (Node_set_node_status_only p s w)) p) = local_part (write_state s (attr w p))"
proof -
  have "write_state s (attr w p) = attr w p" if "status_of w p = s"
    using that by (cases "attr w p") (auto simp: write_state_def)
  then show ?thesis
    by (auto simp: Node_set_node_status_only_def prog_defs attr_notify local_write_status)
qed

lemma set_node_status_only_local:
  assumes "names_ok w"
  shows "status_only s (attr w p) (attr (after (set_node_status_only p s w)) p)"
proof (cases "is_task w p \<and> \<not> in_flight s \<and> unknown_reason w p \<noteq> None")
  case False
  then have "after (set_node_status_only p s w) = after (Node_set_node_status_only p s w)"
    by (auto simp: set_node_status_only_def Task_set_node_status_only_def prog_defs)
  moreover have "local_part (write_state s ((attr w p)\<lparr>n_task := (n_task (attr w p))\<lparr>submission_unknown_reason := unknown_reason w p\<rparr>\<rparr>))
      = local_part (write_state s (attr w p))" by simp
  ultimately show ?thesis
    unfolding status_only_def using Node_set_status_local [of p s w] by metis
next
  case True
  let ?w1 = "upd p (upd_task (\<lambda>t. t\<lparr>submission_unknown_reason := None\<rparr>)) w"
  have n1: "names_ok ?w1" using assms by (simp add: names_ok_upd upd_task_def)
  obtain t where nf: "notify p [''summary'', ''runtime''] ?w1 = (Inr (), ?w1\<lparr>w_tracker := t\<rparr>)"
    using notify_outcome [OF n1, of "{''summary'', ''runtime''}" False p]
      notify_after [of p "{''summary'', ''runtime''}" False ?w1]
    by (auto simp: FIELD_GROUPS_def prod_eq_iff)
  have "after (set_node_status_only p s w) = after (Node_set_node_status_only p s (?w1\<lparr>w_tracker := t\<rparr>))"
    using True nf by (simp add: set_node_status_only_def Task_set_node_status_only_def updN_def prog_defs)
  then show ?thesis
    unfolding status_only_def
    by (intro exI [of _ None]) (simp add: Node_set_status_local attr_upd upd_task_def)
qed

lemma reset_meters_ok: "reset_meters ms = (None, ms') \<Longrightarrow> \<forall>m \<in> set ms'. mt_value m = mt_min_value m"
  by (induction ms arbitrary: ms')
     (auto simp: meter_reset_def meter_set_value_def split: sum.splits prod.splits if_splits)

text \<open>The parts of a node requeue after its status write, as functions of the attributes.\<close>

definition requeued_attrs :: "node_attrs \<Rightarrow> node_attrs \<Rightarrow> bool" where
  "requeued_attrs a b \<longleftrightarrow> fresh_node b \<and> n_state b = n_state a \<and> n_task b = n_task a
     \<and> n_default_status b = n_default_status a \<and> n_kind b = n_kind a"

lemma Node_requeue_resets:
  assumes "Node_requeue p r w = (Inr (), w')"
  shows "requeued_attrs (attr (after (set_node_status_only p (n_default_status (attr w p)) w)) p) (attr w' p)"
proof -
  from assms obtain w1 w2 w3 w4 where w1: "w1 = after (set_node_status_only p (n_default_status (attr w p)) w)"
    and w2: "reset_node_meters p (upd p reset_latches w1) = (Inr (), w2)"
    and w3: "whenM r (reset_node_repeat p) w2 = (Inr (), w3)"
    and w4: "w4 = upd p reset_trigger w3" and w': "attr w' p = attr w4 p"
    by (auto simp: Node_requeue_def withState_def Let_def updN_def modify_def whenM_def ret_def
        elim!: seqM_InrE split: if_splits) (metis attr_notify snd_conv)+
  obtain ms where ms: "\<forall>m \<in> set ms. mt_value m = mt_min_value m"
    and a2: "attr w2 p = (reset_latches (attr w1 p))\<lparr>n_meters := ms\<rparr>"
  proof (cases "reset_meters (n_meters (reset_latches (attr w1 p)))")
    case (Pair e ms)
    with w2 have "e = None" "attr w2 p = (reset_latches (attr w1 p))\<lparr>n_meters := ms\<rparr>"
      by (auto simp: reset_node_meters_def prog_defs updN_def attr_upd split: option.splits)
    then show ?thesis using that reset_meters_ok Pair by blast
  qed
  obtain rp where a3: "attr w3 p = (attr w2 p)\<lparr>n_repeat := rp\<rparr>"
  proof -
    have "\<exists>rp. attr w2 p = (attr w2 p)\<lparr>n_repeat := rp\<rparr>" by (rule exI [of _ "n_repeat (attr w2 p)"]) simp
    then have "\<exists>rp. attr w3 p = (attr w2 p)\<lparr>n_repeat := rp\<rparr>"
      using w3 by (auto simp: reset_node_repeat_def prog_defs updN_def attr_upd
          split: if_splits option.splits sum.splits)
    then show ?thesis using that by blast
  qed
  have "attr w' p = reset_trigger ((reset_latches (attr w1 p))\<lparr>n_meters := ms, n_repeat := rp\<rparr>)"
    using w' w4 a2 a3 by (simp add: attr_upd)
  then show ?thesis
    using ms by (auto simp: requeued_attrs_def fresh_node_def reset_latches_def reset_trigger_def w1
        time_reset_def time_clear_free_def event_reset_def event_set_value_def expression_reset_def
        expression_clear_free_def split: option.splits)
qed

lemma Node_requeue_effect:
  assumes "names_ok w" and "Node_requeue p r w = (Inr (), w')"
    and task: "is_task w p \<longrightarrow> no_attempt (n_task (attr w p))"
  shows "settled (attr w' p) \<and> status_of w' p = n_default_status (attr w p)
    \<and> n_default_status (attr w' p) = n_default_status (attr w p) \<and> kind_of w' p = kind_of w p"
proof -
  let ?w1 = "after (set_node_status_only p (n_default_status (attr w p)) w)"
  obtain u where lp: "local_part (attr ?w1 p) = local_part (write_state (n_default_status (attr w p))
      ((attr w p)\<lparr>n_task := (n_task (attr w p))\<lparr>submission_unknown_reason := u\<rparr>\<rparr>))"
    and u: "u = None \<or> u = unknown_reason w p"
    using set_node_status_only_local [OF assms(1)] unfolding status_only_def by blast
  note d = local_partD [OF lp]
  note q = Node_requeue_resets [OF assms(2)]
  have "no_attempt (n_task (attr w p)) \<Longrightarrow> no_attempt ((n_task (attr w p))\<lparr>submission_unknown_reason := u\<rparr>)"
    using u by (auto simp: no_attempt_def attempt_fields_def)
  then show ?thesis
    using q d task by (auto simp: requeued_attrs_def settled_def write_state_def)
qed

lemma when_notify_attr: "whenM b (notify_query_change p g i) w = (Inr (), w') \<Longrightarrow> attr w' q = attr w q"
  using attr_notify [of p g i w q] by (auto simp: whenM_def ret_def split: if_splits)

lemma clear_current_attempt_attr:
  assumes "clear_current_attempt p w = (Inr (), w')"
  shows "attr w' q = (if q = p then upd_task clear_attempt (attr w p) else attr w q)"
proof -
  from assms obtain s1 where "whenM (list_ex (\<lambda>f. f \<noteq> None) (attempt_fields (n_task (attr w p))))
      (notify p [''summary'', ''runtime'', ''artifacts'']) w = (Inr (), s1)"
    and "w' = upd p (upd_task clear_attempt) s1"
    by (auto simp: clear_current_attempt_def withState_def updN_def modify_def elim!: seqM_InrE)
  then show ?thesis using when_notify_attr [of _ p _ False w s1] by (auto simp: attr_upd)
qed

lemma Task_requeue_effect:
  assumes "names_ok w" and "is_task w p" and "Task_requeue p r w = (Inr (), w')"
  shows "settled (attr w' p) \<and> status_of w' p = n_default_status (attr w p)
    \<and> n_default_status (attr w' p) = n_default_status (attr w p) \<and> kind_of w' p = kind_of w p"
proof -
  let ?a = "upd_task clear_attempt (upd_task (\<lambda>t. t\<lparr>try_no := 0\<rparr>) (attr w p))"
  from assms(3) obtain w1 w2 where nr: "Node_requeue p r w1 = (Inr (), w2)"
    and ul: "update_limits p w2 = (Inr (), w')" and a1: "attr w1 p = ?a" and n1: "\<And>q. name_of w1 q = name_of w q"
  proof -
    from assms(3) obtain x1 x3 x4 where
      x1: "whenM (try_no (n_task (attr w p)) \<noteq> 0) (notify p [''runtime'']) w = (Inr (), x1)"
      and x3: "clear_current_attempt p (upd p (upd_task (\<lambda>t. t\<lparr>try_no := 0\<rparr>)) x1) = (Inr (), x3)"
      and x4: "Node_requeue p r x3 = (Inr (), x4)" "update_limits p x4 = (Inr (), w')"
      by (auto simp: Task_requeue_def withState_def updN_def modify_def raise_def elim!: seqM_InrE split: if_splits)
    note a = clear_current_attempt_attr [OF x3] when_notify_attr [OF x1]
    show ?thesis
    proof (rule that [OF x4])
      show "attr x3 p = ?a" using a by (simp add: attr_upd)
      show "name_of x3 q = name_of w q" for q using a by (simp add: attr_upd upd_task_def)
    qed
  qed
  have names1: "names_ok w1" using assms(1) n1 by (simp add: names_ok_def)
  have na: "no_attempt (n_task (attr w1 p))"
    by (simp add: a1 upd_task_def clear_attempt_def no_attempt_def attempt_fields_def)
  have eff: "settled (attr w2 p) \<and> status_of w2 p = n_default_status (attr w p)
    \<and> n_default_status (attr w2 p) = n_default_status (attr w p) \<and> kind_of w2 p = kind_of w p"
    using Node_requeue_effect [OF names1 nr] na by (simp add: a1 upd_task_def)
  have "outside {} w2 w'" using obeysD [OF out.obeys_update_limits, of "{}" w2 p] ul by simp
  then have "local_part (attr w' p) = local_part (attr w2 p)" by (simp add: outside_def)
  from local_partD [OF this] eff show ?thesis by simp
qed

section \<open>The effect on a subtree\<close>

lemma walk_suffix: "q \<in> set (walk t p) \<Longrightarrow> \<exists>r. q = r @ p"
proof (induction t p rule: subtree_induct)
  case (Shape ss p)
  then consider "q = p" | i t where "(i, t) \<in> set (List.enumerate 0 ss)" "q \<in> set (walk t (i # p))"
    by (auto simp: walk_Shape)
  then show ?case
  proof cases
    case 1
    then show ?thesis by simp
  next
    case 2
    then obtain r where "q = r @ i # p" using Shape.IH by blast
    then show ?thesis by (intro exI [of _ "r @ [i]"]) simp
  qed
qed

lemma walk_child_disjoint:
  assumes "q \<in> set (walk t (i # p))" and "q \<in> set (walk t' (j # p))"
  shows "i = j"
proof -
  obtain r r' where "q = r @ i # p" "q = r' @ j # p" using assms walk_suffix by blast
  then have "rev q = rev p @ i # rev r" "rev q = rev p @ j # rev r'" by simp_all
  then show ?thesis by simp
qed

lemma walk_child_not_parent: "q \<in> set (walk t (i # p)) \<Longrightarrow> q \<noteq> p"
  using walk_suffix [of q t "i # p"] by auto

text \<open>Some container between \<open>q\<close> and the root of the requeued subtree completes by default.\<close>

definition sunk :: "world \<Rightarrow> pos set \<Rightarrow> pos \<Rightarrow> bool" where
  "sunk w A q \<longleftrightarrow> (\<exists>r \<in> set (ups q) \<inter> A. \<not> is_task w r \<and> n_default_status (attr w r) = complete)"

definition requeue_target :: "world \<Rightarrow> pos set \<Rightarrow> pos \<Rightarrow> node_status" where
  "requeue_target w A q = (if sunk w A q then complete else n_default_status (attr w q))"

definition tree_settled :: "world \<Rightarrow> world \<Rightarrow> pos set \<Rightarrow> pos \<Rightarrow> bool" where
  "tree_settled w w' A q \<longleftrightarrow> settled (attr w' q) \<and> status_of w' q = requeue_target w A q
     \<and> n_default_status (attr w' q) = n_default_status (attr w q) \<and> kind_of w' q = kind_of w q"

text \<open>Tasks have no children, so that requeue and sink reach every node of the subtree.\<close>

function leafy :: "world \<Rightarrow> shape \<Rightarrow> pos \<Rightarrow> bool" where
  "leafy w (Shape ss) p \<longleftrightarrow> (is_task w p \<longrightarrow> ss = [])
     \<and> (\<forall>x \<in> set (List.enumerate 0 ss). leafy w (snd x) (fst x # p))"
  by pat_completeness auto
termination
  by (relation "measure (\<lambda>(w, t, p). size t)") (auto dest: in_enumerate_size)

declare leafy.simps [simp del]

lemma leafy_skeleton: "skeleton w' = skeleton w \<Longrightarrow> leafy w' t p = leafy w t p"
proof (induction t p rule: subtree_induct)
  case (Shape ss p)
  then have "\<forall>x \<in> set (List.enumerate 0 ss). leafy w' (snd x) (fst x # p) = leafy w (snd x) (fst x # p)"
    by auto
  then show ?case using skeletonD(2) [OF Shape.prems] by (simp add: leafy.simps)
qed

lemma tree_settled_cong:
  assumes "\<And>q. q \<in> A \<Longrightarrow> local_part (attr x q) = local_part (attr w q)" and "q \<in> A"
  shows "tree_settled x w' A q = tree_settled w w' A q"
proof -
  have "n_default_status (attr x r) = n_default_status (attr w r)" "kind_of x r = kind_of w r" if "r \<in> A" for r
    using local_partD [OF assms(1) [OF that]] by auto
  then show ?thesis using assms(2) by (auto simp: tree_settled_def requeue_target_def sunk_def)
qed

lemma tree_settled_local:
  "local_part (attr w'' q) = local_part (attr w' q) \<Longrightarrow> tree_settled w w' A q \<Longrightarrow> tree_settled w w'' A q"
  using local_partD [of "attr w'' q" "attr w' q"] by (simp add: tree_settled_def)

lemma loop_settles:
  assumes IH: "\<And>i t x x'. (i, t) \<in> set xs \<Longrightarrow> names_ok x \<Longrightarrow> leafy x t (i # p) \<Longrightarrow>
      requeue r t (i # p) x = (Inr (), x') \<Longrightarrow> \<forall>q \<in> set (walk t (i # p)). tree_settled x x' (set (walk t (i # p))) q"
    and dist: "distinct (map fst xs)"
    and start: "\<And>i t q. (i, t) \<in> set xs \<Longrightarrow> q \<in> set (walk t (i # p)) \<Longrightarrow> local_part (attr x q) = local_part (attr w q)"
    and names: "names_ok x" and leaf: "\<And>i t. (i, t) \<in> set xs \<Longrightarrow> leafy x t (i # p)"
    and run: "forM xs (\<lambda>(i, t). requeue r t (i # p)) x = (Inr (), x')"
  shows "\<forall>(i, t) \<in> set xs. \<forall>q \<in> set (walk t (i # p)). tree_settled w x' (set (walk t (i # p))) q"
  using assms
proof (induction xs arbitrary: x)
  case Nil
  then show ?case by simp
next
  case (Cons it xs)
  obtain i t where it: "it = (i, t)" by (cases it)
  let ?A = "set (walk t (i # p))"
  from Cons.prems(6) it obtain x1 where r1: "requeue r t (i # p) x = (Inr (), x1)"
    and rest: "forM xs (\<lambda>(i, t). requeue r t (i # p)) x1 = (Inr (), x')"
    by (auto elim!: seqM_InrE)
  have sk: "skeleton x1 = skeleton x" using skeleton_obeys [OF skel.obeys_requeue, of r t "i # p" x] r1 by simp
  have out1: "outside ?A x x1" using outside_requeue [OF subset_refl, of t "i # p" r] r1 by (auto dest: obeysD [where s = x])
  have set1: "\<forall>q \<in> ?A. tree_settled w x1 ?A q"
  proof
    fix q assume q: "q \<in> ?A"
    have "tree_settled x x1 ?A q" using Cons.prems(1) [of i t x x1] Cons.prems(4,5) it r1 q by simp
    moreover have "tree_settled x x1 ?A q = tree_settled w x1 ?A q"
      by (rule tree_settled_cong) (use Cons.prems(3) it q in auto)
    ultimately show "tree_settled w x1 ?A q" by simp
  qed
  have other: "q \<notin> ?A" if "(j, s) \<in> set xs" "q \<in> set (walk s (j # p))" for j s q
    using walk_child_disjoint [OF that(2)] Cons.prems(2) it that(1) by force
  have tail: "\<forall>(i, t) \<in> set xs. \<forall>q \<in> set (walk t (i # p)). tree_settled w x' (set (walk t (i # p))) q"
  proof (rule Cons.IH [OF _ _ _ _ _ rest])
    show "names_ok x1" using names_ok_skeleton [OF sk] Cons.prems(4) by simp
    show "leafy x1 t' (j # p)" if "(j, t') \<in> set xs" for j t'
      using leafy_skeleton [OF sk] Cons.prems(5) that by simp
    show "local_part (attr x1 q) = local_part (attr w q)" if "(j, s) \<in> set xs" "q \<in> set (walk s (j # p))" for j s q
      using out1 other [OF that] Cons.prems(3) [of j s q] that by (simp add: outside_def)
    show "distinct (map fst xs)" using Cons.prems(2) by simp
    show "\<forall>q \<in> set (walk t' (j # p)). tree_settled y y' (set (walk t' (j # p))) q"
      if "(j, t') \<in> set xs" "names_ok y" "leafy y t' (j # p)" "requeue r t' (j # p) y = (Inr (), y')" for j t' y y'
      using Cons.prems(1) [of j t' y y'] that by simp
  qed
  have "outside (\<Union>(j, s) \<in> set xs. set (walk s (j # p))) x1 x'"
  proof -
    have "obeys (outside (\<Union>(j, s) \<in> set xs. set (walk s (j # p)))) (forM xs (\<lambda>(i, t). requeue r t (i # p)))"
      by (rule out.obeys_forM) (auto intro!: outside_requeue)
    from obeysD [OF this, of x1] rest show ?thesis by simp
  qed
  moreover have "q \<notin> (\<Union>(j, s) \<in> set xs. set (walk s (j # p)))" if "q \<in> ?A" for q using other that by auto
  ultimately have "\<forall>q \<in> ?A. tree_settled w x' ?A q"
    using set1 tree_settled_local by (simp add: outside_def)
  with tail it show ?case by simp
qed

text \<open>Sinking a status: every node of the subtree gets it, and stays settled.\<close>

definition sunk_to :: "node_status \<Rightarrow> world \<Rightarrow> world \<Rightarrow> pos \<Rightarrow> bool" where
  "sunk_to s w w' q \<longleftrightarrow> settled (attr w' q) \<and> status_of w' q = s
     \<and> n_default_status (attr w' q) = n_default_status (attr w q) \<and> kind_of w' q = kind_of w q"

lemma sunk_to_cong:
  assumes "local_part (attr x q) = local_part (attr w q)" and "local_part (attr x'' q) = local_part (attr x' q)"
  shows "sunk_to s x x' q \<Longrightarrow> sunk_to s w x'' q"
  using local_partD [OF assms(1)] local_partD [OF assms(2)] by (simp add: sunk_to_def)

lemma sink_one:
  assumes "names_ok w" and "settled (attr w p)" and "set_node_status_only p s w = (Inr (), w')"
  shows "sunk_to s w w' p"
  using status_only_settled [OF set_node_status_only_local [OF assms(1), of s p] assms(2)] assms(3)
  by (simp add: sunk_to_def)

lemma sink_loop:
  assumes IH: "\<And>i t x x'. (i, t) \<in> set xs \<Longrightarrow> names_ok x \<Longrightarrow> leafy x t (i # p) \<Longrightarrow>
      \<forall>q \<in> set (walk t (i # p)). settled (attr x q) \<Longrightarrow> sink_only s t (i # p) x = (Inr (), x') \<Longrightarrow>
      \<forall>q \<in> set (walk t (i # p)). sunk_to s x x' q"
    and dist: "distinct (map fst xs)"
    and start: "\<And>i t q. (i, t) \<in> set xs \<Longrightarrow> q \<in> set (walk t (i # p)) \<Longrightarrow>
        settled (attr x q) \<and> local_part (attr x q) = local_part (attr w q)"
    and names: "names_ok x" and leaf: "\<And>i t. (i, t) \<in> set xs \<Longrightarrow> leafy x t (i # p)"
    and run: "forM xs (\<lambda>(i, t). sink_only s t (i # p)) x = (Inr (), x')"
  shows "\<forall>(i, t) \<in> set xs. \<forall>q \<in> set (walk t (i # p)). sunk_to s w x' q"
  using assms
proof (induction xs arbitrary: x)
  case Nil
  then show ?case by simp
next
  case (Cons it xs)
  obtain i t where it: "it = (i, t)" by (cases it)
  let ?A = "set (walk t (i # p))" and ?B = "\<Union>(j, s) \<in> set xs. set (walk s (j # p))"
  from Cons.prems(6) it obtain x1 where r1: "sink_only s t (i # p) x = (Inr (), x1)"
    and rest: "forM xs (\<lambda>(i, t). sink_only s t (i # p)) x1 = (Inr (), x')"
    by (auto elim!: seqM_InrE)
  have sk: "skeleton x1 = skeleton x" using skeleton_obeys [OF skel.obeys_sink_only, of s t "i # p" x] r1 by simp
  have out1: "outside ?A x x1" using outside_sink_only [OF subset_refl, of t "i # p" s] r1 by (auto dest: obeysD [where s = x])
  have set1: "\<forall>q \<in> ?A. sunk_to s x x1 q"
  proof (rule Cons.prems(1) [OF _ Cons.prems(4) _ _ r1])
    show "(i, t) \<in> set (it # xs)" using it by simp
    show "leafy x t (i # p)" "\<forall>q \<in> ?A. settled (attr x q)" using Cons.prems(3,5) it by auto
  qed
  have other: "q \<notin> ?A" if "(j, u) \<in> set xs" "q \<in> set (walk u (j # p))" for j u q
    using walk_child_disjoint [OF that(2)] Cons.prems(2) it that(1) by force
  have keep: "local_part (attr x1 q) = local_part (attr x q)" if "(j, u) \<in> set xs" "q \<in> set (walk u (j # p))" for j u q
    using out1 other [OF that] by (simp add: outside_def)
  have tail: "\<forall>(i, t) \<in> set xs. \<forall>q \<in> set (walk t (i # p)). sunk_to s w x' q"
  proof (rule Cons.IH [OF _ _ _ _ _ rest])
    show "names_ok x1" using names_ok_skeleton [OF sk] Cons.prems(4) by simp
    show "leafy x1 t' (j # p)" if "(j, t') \<in> set xs" for j t'
      using leafy_skeleton [OF sk] Cons.prems(5) that by simp
    show "settled (attr x1 q) \<and> local_part (attr x1 q) = local_part (attr w q)"
      if "(j, u) \<in> set xs" "q \<in> set (walk u (j # p))" for j u q
      using keep [OF that] local_partD(6) [OF keep [OF that]] Cons.prems(3) [of j u q] that by simp
    show "distinct (map fst xs)" using Cons.prems(2) by simp
    show "\<forall>q \<in> set (walk t' (j # p)). sunk_to s y y' q"
      if "(j, t') \<in> set xs" "names_ok y" "leafy y t' (j # p)" "\<forall>q \<in> set (walk t' (j # p)). settled (attr y q)"
        "sink_only s t' (j # p) y = (Inr (), y')" for j t' y y'
      using Cons.prems(1) [of j t' y y'] that by simp
  qed
  have "obeys (outside ?B) (forM xs (\<lambda>(i, t). sink_only s t (i # p)))"
    by (rule out.obeys_forM) (auto intro!: outside_sink_only)
  from obeysD [OF this, of x1] rest have out2: "outside ?B x1 x'" by simp
  have "\<forall>q \<in> ?A. sunk_to s w x' q"
  proof
    fix q assume q: "q \<in> ?A"
    have "q \<notin> ?B" using other q by auto
    then have "local_part (attr x' q) = local_part (attr x1 q)" using out2 by (simp add: outside_def)
    then show "sunk_to s w x' q"
      using sunk_to_cong [of x q w x' x1 s] set1 Cons.prems(3) [of i t q] it q by simp
  qed
  with tail it show ?case by simp
qed

lemma enumerate_distinct: "distinct (map fst (List.enumerate n ss))"
  by (simp add: enumerate_eq_zip)

lemma sink_settles:
  "names_ok w \<Longrightarrow> leafy w t p \<Longrightarrow> \<forall>q \<in> set (walk t p). settled (attr w q) \<Longrightarrow> sink_only s t p w = (Inr (), w') \<Longrightarrow>
   \<forall>q \<in> set (walk t p). sunk_to s w w' q"
proof (induction t p arbitrary: w w' rule: subtree_induct)
  case (Shape ss p)
  have sp: "settled (attr w p)" using Shape.prems(3) by (simp add: walk_Shape)
  show ?case
  proof (cases "is_task w p")
    case True
    then have "ss = []" using Shape.prems(2) by (simp add: leafy.simps)
    then show ?thesis
      using True Shape.prems(4) sink_one [OF Shape.prems(1) sp] by (simp add: walk_Shape sink_only.simps withState_def)
  next
    case False
    let ?K = "\<Union>(i, t) \<in> set (List.enumerate 0 ss). set (walk t (i # p))"
    from Shape.prems(4) False obtain w1 where w1: "set_node_status_only p s w = (Inr (), w1)"
      and loop: "forM (List.enumerate 0 ss) (\<lambda>(i, t). sink_only s t (i # p)) w1 = (Inr (), w')"
      by (auto simp: sink_only.simps withState_def elim!: seqM_InrE)
    have sk: "skeleton w1 = skeleton w"
      using skeleton_obeys [OF skel.obeys_set_node_status_only, of p s w] w1 by simp
    have out: "outside {p} w w1" using obeysD [OF outside_status_only [of p "{p}" s], of w] w1 by simp
    have keep: "local_part (attr w1 q) = local_part (attr w q)" if "q \<in> set (walk t (i # p))" for i t q
      using out walk_child_not_parent [OF that] by (simp add: outside_def)
    have kids: "\<forall>(i, t) \<in> set (List.enumerate 0 ss). \<forall>q \<in> set (walk t (i # p)). sunk_to s w w' q"
    proof (rule sink_loop [OF _ enumerate_distinct _ _ _ loop])
      show "names_ok w1" using names_ok_skeleton [OF sk] Shape.prems(1) by simp
      show "leafy w1 t (i # p)" if "(i, t) \<in> set (List.enumerate 0 ss)" for i t
        using leafy_skeleton [OF sk] Shape.prems(2) that by (force simp: leafy.simps [of w ss])
      show "settled (attr w1 q) \<and> local_part (attr w1 q) = local_part (attr w q)"
        if "(i, t) \<in> set (List.enumerate 0 ss)" "q \<in> set (walk t (i # p))" for i t q
        using keep [OF that(2)] local_partD(6) [OF keep [OF that(2)]] Shape.prems(3) that by (force simp: walk_Shape)
    qed (use Shape.IH in blast)
    have "obeys (outside ?K) (forM (List.enumerate 0 ss) (\<lambda>(i, t). sink_only s t (i # p)))"
      by (rule out.obeys_forM) (auto intro!: outside_sink_only)
    from obeysD [OF this, of w1] loop have "outside ?K w1 w'" by simp
    moreover have "p \<notin> ?K" using walk_child_not_parent by blast
    ultimately have "local_part (attr w' p) = local_part (attr w1 p)" by (simp add: outside_def)
    then have "sunk_to s w w' p" using sunk_to_cong [OF refl] sink_one [OF Shape.prems(1) sp w1] by blast
    with kids show ?thesis by (auto simp: walk_Shape)
  qed
qed

lemma sunk_child:
  assumes it: "(i, t) \<in> set (List.enumerate 0 ss)" and q: "q \<in> set (walk t (i # p))" and p: "\<not> is_task w p" and ne: "p \<noteq> []"
  shows "sunk w (set (walk (Shape ss) p)) q \<longleftrightarrow> n_default_status (attr w p) = complete \<or> sunk w (set (walk t (i # p))) q"
proof -
  obtain u where u: "q = u @ i # p" using walk_suffix [OF q] by blast
  then have pin: "p \<in> set (ups q)" using ne by (auto simp: set_ups intro: exI [of _ "u @ [i]"])
  have mine: "r = p \<or> r \<in> set (walk t (i # p))" if r: "r \<in> set (ups q)" "r \<in> set (walk (Shape ss) p)" for r
  proof (rule ccontr)
    assume no: "\<not> (r = p \<or> r \<in> set (walk t (i # p)))"
    then obtain j t' where j: "(j, t') \<in> set (List.enumerate 0 ss)" "r \<in> set (walk t' (j # p))"
      using r(2) by (auto simp: walk_Shape)
    obtain v v' where "q = v @ r" "r = v' @ j # p" using r(1) walk_suffix [OF j(2)] by (auto simp: set_ups)
    with u have "rev p @ i # rev u = rev p @ j # rev v' @ rev v" by (metis rev_append append_assoc rev.simps(2) append_Cons append_Nil)
    then have "i = j" by simp
    then have "t' = t" using it j(1) by (auto simp: in_set_enumerate_eq prod_eq_iff)
    then show False using no j(2) \<open>i = j\<close> by simp
  qed
  have sub: "set (walk t (i # p)) \<subseteq> set (walk (Shape ss) p)" using it by (auto simp: walk_Shape)
  have top: "p \<in> set (walk (Shape ss) p)" by (simp add: walk_Shape)
  show ?thesis unfolding sunk_def using pin mine sub top p by blast
qed

text \<open>The last step of a container's requeue: nothing, or the sink of its default status complete.\<close>

lemma container_sink:
  assumes names: "names_ok w2" and leaf: "leafy w2 (Shape ss) p" and ne: "p \<noteq> []" and task: "\<not> is_task w p"
    and top: "settled (attr w2 p)" "status_of w2 p = n_default_status (attr w p)"
      "n_default_status (attr w2 p) = n_default_status (attr w p)" "kind_of w2 p = kind_of w p"
    and kids: "\<And>i t q. (i, t) \<in> set (List.enumerate 0 ss) \<Longrightarrow> q \<in> set (walk t (i # p)) \<Longrightarrow>
        tree_settled w w2 (set (walk t (i # p))) q"
    and sink: "whenM (n_default_status (attr w2 p) = complete) (sink_only complete (Shape ss) p) w2 = (Inr (), w')"
    and q: "q \<in> set (walk (Shape ss) p)"
  shows "tree_settled w w' (set (walk (Shape ss) p)) q"
proof -
  let ?W = "set (walk (Shape ss) p)"
  have psunk: "sunk w ?W p \<longleftrightarrow> n_default_status (attr w p) = complete"
  proof -
    have "r = p" if "r \<in> set (ups p)" "r \<in> ?W" for r
      using that walk_suffix by (force simp: set_ups)
    moreover have "p \<in> set (ups p)" using ne by (cases p) auto
    ultimately show ?thesis unfolding sunk_def using task by (auto simp: walk_Shape)
  qed
  have w2: "settled (attr w2 r) \<and> n_default_status (attr w2 r) = n_default_status (attr w r) \<and> kind_of w2 r = kind_of w r
      \<and> (n_default_status (attr w p) = complete \<longrightarrow> sunk w ?W r)
      \<and> (n_default_status (attr w p) \<noteq> complete \<longrightarrow> tree_settled w w2 ?W r)" if r: "r \<in> ?W" for r
  proof (cases "r = p")
    case True
    then show ?thesis using top psunk by (simp add: tree_settled_def requeue_target_def)
  next
    case False
    then obtain i t where it: "(i, t) \<in> set (List.enumerate 0 ss)" "r \<in> set (walk t (i # p))"
      using r by (auto simp: walk_Shape)
    from kids [OF it] sunk_child [OF it task ne] show ?thesis by (simp add: tree_settled_def requeue_target_def)
  qed
  show ?thesis
  proof (cases "n_default_status (attr w p) = complete")
    case True
    then have "\<forall>r \<in> ?W. sunk_to complete w2 w' r"
      using sink top(3) w2 by (intro sink_settles [OF names leaf]) (auto simp: whenM_def)
    then show ?thesis using q w2 [OF q] True by (simp add: sunk_to_def tree_settled_def requeue_target_def)
  next
    case False
    then show ?thesis using w2 [OF q] sink top(3) by (simp add: whenM_def ret_def)
  qed
qed

text \<open>What a successful requeue of a subtree leaves behind, node by node.\<close>

lemma requeue_settles:
  "names_ok w \<Longrightarrow> leafy w t p \<Longrightarrow> p \<noteq> [] \<Longrightarrow> requeue r t p w = (Inr (), w') \<Longrightarrow>
   \<forall>q \<in> set (walk t p). tree_settled w w' (set (walk t p)) q"
proof (induction t p arbitrary: w w' rule: subtree_induct)
  case (Shape ss p)
  let ?W = "set (walk (Shape ss) p)"
  show ?case
  proof (cases "is_task w p")
    case True
    then have ss: "ss = []" using Shape.prems(2) by (simp add: leafy.simps)
    then have w: "?W = {p}" by (simp add: walk_Shape)
    have "\<not> sunk w {p} p" using True by (simp add: sunk_def)
    then show ?thesis
      using Task_requeue_effect [OF Shape.prems(1) True] Shape.prems(4) True w
      by (simp add: tree_settled_def requeue_target_def requeue.simps withState_def)
  next
    case False
    let ?K = "\<Union>(i, t) \<in> set (List.enumerate 0 ss). set (walk t (i # p))"
    let ?loop = "forM (List.enumerate 0 ss) (\<lambda>(i, t). requeue r t (i # p))"
    from Shape.prems(4) False obtain w1 w2 where w1: "Node_requeue p r w = (Inr (), w1)"
      and loop: "?loop w1 = (Inr (), w2)"
      and sink: "whenM (n_default_status (attr w2 p) = complete) (sink_only complete (Shape ss) p) w2 = (Inr (), w')"
      by (auto simp: requeue.simps withState_def raise_def elim!: seqM_InrE split: if_splits)
    have sk1: "skeleton w1 = skeleton w"
      using skeleton_obeys [OF skel.obeys_Node_requeue, of p r w] w1 by simp
    have eff: "settled (attr w1 p) \<and> status_of w1 p = n_default_status (attr w p)
        \<and> n_default_status (attr w1 p) = n_default_status (attr w p) \<and> kind_of w1 p = kind_of w p"
      using Node_requeue_effect [OF Shape.prems(1) w1] False by simp
    have out: "outside {p} w w1" using obeysD [OF outside_Node_requeue [of p "{p}" r], of w] w1 by simp
    have keep: "local_part (attr w1 q) = local_part (attr w q)" if "q \<in> set (walk t (i # p))" for i t q
      using out walk_child_not_parent [OF that] by (simp add: outside_def)
    have kids: "\<forall>(i, t) \<in> set (List.enumerate 0 ss). \<forall>q \<in> set (walk t (i # p)).
        tree_settled w w2 (set (walk t (i # p))) q"
    proof (rule loop_settles [OF _ enumerate_distinct _ _ _ loop])
      show "names_ok w1" using names_ok_skeleton [OF sk1] Shape.prems(1) by simp
      show "leafy w1 t (i # p)" if "(i, t) \<in> set (List.enumerate 0 ss)" for i t
        using leafy_skeleton [OF sk1] Shape.prems(2) that by (force simp: leafy.simps [of w ss])
      show "\<forall>q \<in> set (walk t (i # p)). tree_settled x x' (set (walk t (i # p))) q"
        if "(i, t) \<in> set (List.enumerate 0 ss)" "names_ok x" "leafy x t (i # p)" "requeue r t (i # p) x = (Inr (), x')"
        for i t x x' using Shape.IH [OF that(1,2,3) _ that(4)] by simp
    qed (rule keep)
    have "obeys (outside ?K) ?loop" by (rule out.obeys_forM) (auto intro!: outside_requeue)
    from obeysD [OF this, of w1] loop have "outside ?K w1 w2" by simp
    moreover have "p \<notin> ?K" using walk_child_not_parent by blast
    ultimately have lp: "local_part (attr w2 p) = local_part (attr w1 p)" by (simp add: outside_def)
    have top: "settled (attr w2 p)" "status_of w2 p = n_default_status (attr w p)"
      "n_default_status (attr w2 p) = n_default_status (attr w p)" "kind_of w2 p = kind_of w p"
      using local_partD [OF lp] eff by auto
    have sk2: "skeleton w2 = skeleton w"
    proof -
      have "obeys (same skeleton) ?loop" by (rule skel.obeys_forM) (auto intro: skel.obeys_requeue)
      from skeleton_obeys [OF this, of w1] loop sk1 show ?thesis by simp
    qed
    have "names_ok w2" "leafy w2 (Shape ss) p"
      using names_ok_skeleton [OF sk2] leafy_skeleton [OF sk2] Shape.prems(1,2) by auto
    from container_sink [OF this Shape.prems(3) False top _ sink] kids show ?thesis by fastforce
  qed
qed

section \<open>What requeue promises\<close>

lemma leafy_shape:
  assumes leaves: "tasks_are_leaves w"
  shows "shape_at (w_shapes w) p = Some t \<Longrightarrow> p \<noteq> [] \<Longrightarrow> leafy w t p"
proof (induction t p rule: subtree_induct)
  case (Shape ss p)
  have kid: "shape_at (w_shapes w) (i # p) = Some t" if "(i, t) \<in> set (List.enumerate 0 ss)" for i t
    using that Shape.prems by (cases p) (auto simp: in_set_enumerate_eq nth_opt_conv)
  have "ss = []" if "is_task w p"
  proof (rule ccontr)
    assume "ss \<noteq> []"
    then have "(0, ss ! 0) \<in> set (List.enumerate 0 ss)" by (simp add: in_set_enumerate_eq)
    then have "valid w (0 # p)" using kid by (auto simp: valid_def)
    with leaves Shape.prems(2) that show False by (auto simp: tasks_are_leaves_def)
  qed
  moreover have "leafy w (snd x) (fst x # p)" if "x \<in> set (List.enumerate 0 ss)" for x
    using Shape.IH [of "fst x" "snd x"] kid [of "fst x" "snd x"] that by simp
  ultimately show ?case by (simp add: leafy.simps)
qed

lemma leafy_subtree: "tasks_are_leaves w \<Longrightarrow> valid w p \<Longrightarrow> leafy w (subtree w p) p"
  by (rule leafy_shape) (auto simp: valid_def subtree_def split: option.splits)

lemma requeue_node_settled:
  assumes "names_ok w" and "tasks_are_leaves w" and "valid w p" and "requeue_node p r w = (Inr (), w')"
    and "q \<in> set (walk (subtree w p) p)"
  shows "settled (attr w' q)" "status_of w' q = requeue_target w (set (walk (subtree w p) p)) q"
proof -
  have ne: "p \<noteq> []" using assms(3) by (auto simp: valid_def)
  have run: "requeue r (subtree w p) p w = (Inr (), w')"
    using assms(4) by (simp add: requeue_node_def withState_def)
  have "tree_settled w w' (set (walk (subtree w p) p)) q"
    using requeue_settles [OF assms(1) leafy_subtree [OF assms(2,3)] ne run] assms(5) by blast
  then show "settled (attr w' q)" "status_of w' q = requeue_target w (set (walk (subtree w p) p)) q"
    by (simp_all add: tree_settled_def)
qed

lemma requeue_node_outside:
  assumes "requeue_node p r w = (Inr (), w')" and "q \<notin> set (walk (subtree w p) p)"
  shows "local_part (attr w' q) = local_part (attr w q)"
proof -
  have "requeue r (subtree w p) p w = (Inr (), w')"
    using assms(1) by (simp add: requeue_node_def withState_def)
  then have "outside (set (walk (subtree w p) p)) w w'"
    using outside_requeue [OF subset_refl, of "subtree w p" p r] by (auto dest: obeysD [where s = w])
  then show ?thesis using assms(2) by (simp add: outside_def)
qed

text \<open>
  C5. A requeue that returns has reset every node of the subtree: its latches, events, meters, time
  attributes and trigger are as at the start, its tasks carry no attempt, no password and no try
  count, and its status is the default one, or complete below a container that completes by
  default. No other node's own data changes.
\<close>

theorem requeue_resets:
  assumes "names_ok w" and "tasks_are_leaves w" and "valid w p" and "requeue_node p r w = (Inr (), w')"
  shows "\<forall>q. if q \<in> set (walk (subtree w p) p)
      then settled (attr w' q) \<and> status_of w' q = requeue_target w (set (walk (subtree w p) p)) q
      else local_part (attr w' q) = local_part (attr w q)"
  using requeue_node_settled [OF assms] requeue_node_outside [OF assms(4)] by simp

text \<open>
  C6. A requeue is refused, with nothing changed at all, when some task of the subtree has a submission
  whose outcome is unknown.
\<close>

theorem requeue_refuses_unknown:
  assumes "tasks_are_leaves w" and "valid w p" and "q \<in> set (walk (subtree w p) p)"
    and "is_task w q" and "unknown_reason w q \<noteq> None"
  shows "requeue_node p r w = (Inl FlowStateError, w)"
proof -
  obtain ss where ss: "subtree w p = Shape ss" by (cases "subtree w p")
  show ?thesis
  proof (cases "is_task w p")
    case True
    then have "ss = []" using leafy_subtree [OF assms(1,2)] ss by (simp add: leafy.simps)
    then have "q = p" using assms(3) ss by (simp add: walk_Shape)
    then show ?thesis
      using True assms(5) ss by (auto simp: requeue_node_def requeue.simps Task_requeue_def prog_defs)
  next
    case False
    then have "q \<noteq> p" using assms(4) by auto
    then have "q \<in> set (drain (rev (kids_at (Shape ss) p)))"
      using assms(3) set_pending_children [of p w] ss by (auto simp: pending_children_def)
    then have "has_unknown w (drain (rev (kids_at (Shape ss) p)))"
      using assms(4,5) by (auto simp: has_unknown_def list_ex_iff)
    then show ?thesis using False ss by (simp add: requeue_node_def requeue.simps prog_defs)
  qed
qed

end
