(* ===== verification/Flow_Ops.thy ===== *)
theory Flow_Ops
  imports Requeue_Effect Task_Run
begin

text \<open>
  Flows (\<^verbatim>\<open>flow.py\<close>): the calendar and its propagation to the time attributes, with the cached list of
  nodes that have any, and the begin of a flow. The flows are of the class \<open>Flow\<close> itself; for a
  subclass \<open>update_calendar\<close> takes the plain traversal \<open>calendar_changed\<close>, which is modelled as well.
\<close>

section \<open>Time attributes follow the calendar\<close>

fun change_times :: "calendar \<Rightarrow> time_attr list \<Rightarrow> exc option \<times> time_attr list" where
  "change_times cal [] = (None, [])"
| "change_times cal (t # ts) = (case time_calendar_changed cal t of
      Inl e \<Rightarrow> (Some e, t # ts)
    | Inr t' \<Rightarrow> (case change_times cal ts of (e, ts') \<Rightarrow> (e, t' # ts')))"

definition Node_calendar_changed :: "pos \<Rightarrow> calendar \<Rightarrow> unit wprog" where
  "Node_calendar_changed p cal = withState (\<lambda>w.
     case change_times cal (n_times (attr w p)) of (e, ts) \<Rightarrow>
       seqM (updN p (\<lambda>a. a\<lparr>n_times := ts\<rparr>))
         (case e of
            Some e \<Rightarrow> raise e
          | None \<Rightarrow> whenM (map ta_free (n_times (attr w p)) \<noteq> map ta_free ts) (notify p [''runtime''])))"

function calendar_changed :: "calendar \<Rightarrow> shape \<Rightarrow> pos \<Rightarrow> unit wprog" where
  "calendar_changed cal (Shape ss) p = withState (\<lambda>w.
     if is_task w p then Node_calendar_changed p cal
     else seqM (Node_calendar_changed p cal)
       (forM (List.enumerate 0 ss) (\<lambda>(i, t). calendar_changed cal t (i # p))))"
  by pat_completeness auto
termination
  by (relation "measure (\<lambda>(c, t, p). size t)") (auto dest: in_enumerate_size)

declare calendar_changed.simps [simp del]

section \<open>The calendar of a flow\<close>

definition flow_strftime_date :: "datetime \<Rightarrow> string" where
  "flow_strftime_date t = fmt4 (dt_year t) @ ''-'' @ fmt2 (dt_month t) @ ''-'' @ fmt2 (dt_day t)"

definition flow_strftime_time :: "datetime \<Rightarrow> string" where
  "flow_strftime_time t = fmt2 (dt_hour t) @ '':'' @ fmt2 (dt_minute t)"

definition Flow_update_generated_parameters :: "pos \<Rightarrow> unit wprog" where
  "Flow_update_generated_parameters root = withState (\<lambda>w.
     case cal_flow_time (flow_calendar (n_flow (attr w root))) of
       None \<Rightarrow> raise (PyError PyAttributeError)
     | Some t \<Rightarrow> seqM (updN root (upd_flow (\<lambda>f. f\<lparr>gp_date := PStr (flow_strftime_date t),
                                              gp_time := PStr (flow_strftime_time t)\<rparr>)))
         (check_repeat_parameters root))"

definition set_calendar :: "calendar \<Rightarrow> flow_data \<Rightarrow> flow_data" where
  "set_calendar c f = f\<lparr>flow_calendar := c\<rparr>"

definition requeue_calendar :: "pos \<Rightarrow> unit wprog" where
  "requeue_calendar root = withState (\<lambda>w.
     let before = flow_calendar (n_flow (attr w root));
         c = calendar_begin (w_now w) (w_now w) before in
     seqM (updN root (upd_flow (set_calendar c))) (whenM (c \<noteq> before) (notify root [''runtime''])))"

text \<open>The list of nodes with time attributes, in the order the loop collects them.\<close>

definition timed_nodes :: "world \<Rightarrow> pos \<Rightarrow> pos list" where
  "timed_nodes w root = filter (\<lambda>q. n_times (attr w q) \<noteq> []) (pending_from w root)"

definition fill_calendar_nodes :: "pos \<Rightarrow> unit wprog" where
  "fill_calendar_nodes root = withState (\<lambda>w. whenM (calendar_nodes (n_flow (attr w root)) = None)
     (updN root (upd_flow (\<lambda>f. f\<lparr>calendar_nodes := Some (timed_nodes w root)\<rparr>))))"

definition visit_calendar_nodes :: "pos \<Rightarrow> unit wprog" where
  "visit_calendar_nodes root = withState (\<lambda>w.
     forM (case calendar_nodes (n_flow (attr w root)) of None \<Rightarrow> [] | Some ns \<Rightarrow> ns)
       (\<lambda>q. withState (\<lambda>w. Node_calendar_changed q (flow_calendar (n_flow (attr w root))))))"

definition update_calendar :: "pos \<Rightarrow> datetime \<Rightarrow> unit wprog" where
  "update_calendar root time = withState (\<lambda>w.
     let previous = flow_calendar (n_flow (attr w root)) in
     case calendar_update time previous of (e, c) \<Rightarrow>
       seqM (updN root (upd_flow (set_calendar c)))
         (case e of
            Some e \<Rightarrow> raise e
          | None \<Rightarrow>
              seqM (whenM (c \<noteq> previous) (notify root [''runtime'']))
              (seqM (Flow_update_generated_parameters root)
              (seqM (fill_calendar_nodes root)
                (visit_calendar_nodes root)))))"

section \<open>Begin\<close>

definition flow_begin :: "pos \<Rightarrow> bool \<Rightarrow> unit wprog" where
  "flow_begin root force = withState (\<lambda>w.
     if begun (n_flow (attr w root)) \<and> \<not> force then raise FlowStateError
     else if has_unknown w (walk (subtree w root) root) then raise FlowStateError
     else seqM (requeue_calendar root)
       (seqM (requeue_node root True)
       (seqM (updN root (upd_flow (\<lambda>f. f\<lparr>begun := True\<rparr>)))
         (notify root [''runtime'']))))"

section \<open>Frames\<close>

lemma benign_times: "benign (\<lambda>a. a\<lparr>n_times := ts\<rparr>)"
  by (simp add: core_defs)

context benign_frame
begin

lemma obeys_Node_calendar_changed [frame_intro]: "obeys R (Node_calendar_changed p cal)"
  unfolding Node_calendar_changed_def by (intro frame_intro obeys_updN benign_times)

lemma obeys_calendar_changed [frame_intro]: "obeys R (calendar_changed cal t p)"
proof (induction t p rule: subtree_induct)
  case (Shape ss p)
  have "obeys R (forM (List.enumerate 0 ss) (\<lambda>(i, t). calendar_changed cal t (i # p)))"
    by (rule obeys_forM) (use Shape in auto)
  then show ?case
    unfolding calendar_changed.simps by (intro obeys_withState obeys_if obeys_seqM obeys_Node_calendar_changed)
qed

end

context flow_frame
begin

lemma obeys_update_calendar [frame_intro]: "obeys R (update_calendar root t)"
  unfolding update_calendar_def Flow_update_generated_parameters_def check_repeat_parameters_def
    fill_calendar_nodes_def visit_calendar_nodes_def Let_def
  by (intro frame_intro)

lemma obeys_requeue_calendar [frame_intro]: "obeys R (requeue_calendar root)"
  unfolding requeue_calendar_def Let_def by (intro frame_intro)

lemma obeys_flow_begin [frame_intro]: "obeys R (flow_begin root force)"
  unfolding flow_begin_def by (intro frame_intro)

end

section \<open>The data of a flow\<close>

definition flow_view :: "world \<Rightarrow> pos \<Rightarrow> flow_data" where
  "flow_view w = (\<lambda>q. n_flow (attr w q))"

lemma flow_view_upd: "(\<And>a. n_flow (f a) = n_flow a) \<Longrightarrow> flow_view (upd p f w) = flow_view w"
  by (simp add: flow_view_def fun_eq_iff attr_upd)

text \<open>Requeues and status changes never touch it.\<close>

interpretation fdata: world_frame "same flow_view"
proof (intro world_frame.intro benign_frame.intro frame_same, unfold_locales, goal_cases)
  case (2 f w p)
  then show ?case unfolding same_def by (intro flow_view_upd) (simp add: benign_def core_def)
next
  case (7 w p s)
  show ?case
    by (simp add: same_def write_status_def Let_def flow_view_upd write_state_def child_status_changed_def
        split: option.splits)
qed (simp_all add: same_def flow_view_upd upd_limit_def count_children_def, simp_all add: flow_view_def)

lemma flow_view_obeys: "obeys (same flow_view) m \<Longrightarrow> n_flow (attr (after (m w)) q) = n_flow (attr w q)"
  by (simp add: obeys_def same_def flow_view_def fun_eq_iff)

section \<open>What begin promises\<close>

lemma requeue_calendar_effect:
  assumes "requeue_calendar root w = (Inr (), w')"
  shows "n_flow (attr w' root) = set_calendar (calendar_begin (w_now w) (w_now w) (flow_calendar (n_flow (attr w root)))) (n_flow (attr w root))"
    and "skeleton w' = skeleton w" and "\<And>q. n_default_status (attr w' q) = n_default_status (attr w q)"
proof -
  let ?c = "calendar_begin (w_now w) (w_now w) (flow_calendar (n_flow (attr w root)))"
  have "attr w' q = attr (upd root (upd_flow (set_calendar ?c)) w) q" for q
    using assms by (auto simp: requeue_calendar_def withState_def Let_def updN_def modify_def
        elim!: seqM_InrE dest!: when_notify_attr [of _ root _ False _ _ q])
  then show "n_flow (attr w' root) = set_calendar ?c (n_flow (attr w root))"
    "n_default_status (attr w' q) = n_default_status (attr w q)" for q
    by (auto simp: attr_upd upd_flow_def)
  show "skeleton w' = skeleton w"
    using skeleton_obeys [OF skel.obeys_requeue_calendar, of root w] assms by simp
qed

text \<open>
  C10. A flow that begins is marked begun, its calendar runs from now with logical time in step with
  real time, and every node of it is reset. A flow that has begun is refused without force, and so
  is one with a submission of unknown outcome, and then nothing at all has changed.
\<close>

theorem flow_begin_starts:
  assumes "names_ok w" and "tasks_are_leaves w" and "valid w root" and "flow_begin root force w = (r, w')"
  shows "(r = Inr () \<longrightarrow> begun (n_flow (attr w' root)) \<and> calendar_ok (flow_calendar (n_flow (attr w' root)))
      \<and> cal_flow_time (flow_calendar (n_flow (attr w' root))) = Some (w_now w)
      \<and> (\<forall>q \<in> set (walk (subtree w root) root). settled (attr w' q)
            \<and> status_of w' q = requeue_target w (set (walk (subtree w root) root)) q))
    \<and> ((begun (n_flow (attr w root)) \<and> \<not> force) \<or> has_unknown w (walk (subtree w root) root)
         \<longrightarrow> r = Inl FlowStateError \<and> w' = w)"
proof (intro conjI impI)
  assume "(begun (n_flow (attr w root)) \<and> \<not> force) \<or> has_unknown w (walk (subtree w root) root)"
  then have "flow_begin root force w = (Inl FlowStateError, w)"
    by (auto simp: flow_begin_def prog_defs)
  with assms(4) show "r = Inl FlowStateError" "w' = w" by auto
next
  assume r: "r = Inr ()"
  with assms(4) obtain w1 w2 where w1: "requeue_calendar root w = (Inr (), w1)"
    and w2: "requeue_node root True w1 = (Inr (), w2)"
    and w': "\<And>q. attr w' q = attr (upd root (upd_flow (\<lambda>f. f\<lparr>begun := True\<rparr>)) w2) q"
    by (auto simp: flow_begin_def withState_def updN_def modify_def raise_def elim!: seqM_InrE
        split: if_splits) (metis attr_notify snd_conv)+
  note c = requeue_calendar_effect [OF w1]
  note shp = structure_cong [OF skeletonD(1) [OF c(2)]]
  have n1: "names_ok w1" "tasks_are_leaves w1" "valid w1 root"
    using assms(1-3) names_ok_skeleton [OF c(2)] shp skeletonD(2) [OF c(2)] by (auto simp: tasks_are_leaves_def)
  have reset: "settled (attr w2 q) \<and> status_of w2 q = requeue_target w1 (set (walk (subtree w root) root)) q"
    if "q \<in> set (walk (subtree w root) root)" for q using requeue_node_settled [OF n1 w2] that shp(2) by metis
  have tgt: "requeue_target w1 A q = requeue_target w A q" for A q
    by (simp only: requeue_target_def sunk_def c(3) skeletonD(2) [OF c(2)])
  have f2: "n_flow (attr w2 root) = n_flow (attr w1 root)"
    using flow_view_obeys [OF fdata.obeys_requeue_node, of root True w1 root] w2 by simp
  show "begun (n_flow (attr w' root))" by (simp add: w' attr_upd upd_flow_def)
  have cal: "flow_calendar (n_flow (attr w' root)) = calendar_begin (w_now w) (w_now w) (flow_calendar (n_flow (attr w root)))"
    by (simp add: w' attr_upd upd_flow_def f2 c(1) set_calendar_def)
  then show "calendar_ok (flow_calendar (n_flow (attr w' root)))" by (simp add: calendar_begin_ok)
  show "cal_flow_time (flow_calendar (n_flow (attr w' root))) = Some (w_now w)"
    by (simp add: cal calendar_begin_def)
  show "\<forall>q \<in> set (walk (subtree w root) root). settled (attr w' q)
      \<and> status_of w' q = requeue_target w (set (walk (subtree w root) root)) q"
    using reset tgt by (auto simp: w' attr_upd upd_flow_def settled_def fresh_node_def)
qed

end
