(* ===== verification/Report_Safety.thy ===== *)
theory Report_Safety
  imports Child_Commands Flow_Ops
begin

text \<open>
  Safety of the job reports: a report that does not name the live attempt of a task in flight changes
  nothing, whatever the zombie policy; a requeue makes every outstanding report stale; a duplicate
  init is a no-op; and a report that is accepted leaves the statuses of the tree consistent.
\<close>

section \<open>Stale reports\<close>

text \<open>The report reaches a task in flight and names its attempt.\<close>

definition addresses_live :: "world \<Rightarrow> string \<Rightarrow> string \<Rightarrow> bool" where
  "addresses_live w path aid \<longleftrightarrow> (\<exists>p. bunch_find_node w path = Inr (Some p) \<and> is_task w p \<and> live_attempt w p aid)"

lemma guarded_prefix:
  assumes "\<not> addresses_live w path aid"
  shows "\<exists>e. seqM (validate_attempt_id aid) (bindM (find_task_or_raise path) (\<lambda>p. seqM (guard_attempt p aid) (k p))) w
    = (Inl e, w)"
proof (cases "validate_attempt_id aid w")
  case (Pair r w0)
  have w0: "w0 = w" using validate_attempt_id_same [of aid w] Pair by simp
  show ?thesis
  proof (cases r)
    case (Inl e)
    then show ?thesis using Pair w0 by (auto simp: seqM_def bindM_def)
  next
    case (Inr u)
    obtain r1 w1 where f: "find_task_or_raise path w = (r1, w1)" by (rule prod.exhaust)
    then have w1: "w1 = w" using find_task_or_raise_same [of path w] by simp
    show ?thesis
    proof (cases r1)
      case (Inl e)
      then show ?thesis using Pair w0 Inr f w1 by (auto simp: seqM_def bindM_def)
    next
      case found: (Inr p)
      then have "\<not> live_attempt w p aid"
        using assms find_task_or_raise_Inr [of path w p w1] f by (auto simp: addresses_live_def)
      then have "\<exists>e. guard_attempt p aid w = (Inl e, w)"
        using guard_attempt_Inr [of p aid w] guard_attempt_same [of p aid w]
        by (cases "guard_attempt p aid w"; cases "fst (guard_attempt p aid w)") auto
      then show ?thesis using Pair w0 Inr f w1 found by (auto simp: seqM_def bindM_def)
    qed
  qed
qed

lemma report_stale:
  "\<not> addresses_live w path aid \<Longrightarrow> \<exists>e. report_command zd cr name path aid act w = (Inl e, w)"
  unfolding report_command_def by (rule guarded_prefix)

lemma init_stale:
  "\<not> addresses_live w (cc_node_path c) (cc_attempt_id c) \<Longrightarrow> \<exists>e. run_command_init zd cr c w = (Inl e, w)"
  unfolding run_command_init_def by (rule guarded_prefix)

lemma owned_stale:
  assumes "\<not> addresses_live w sp aid"
  shows "\<exists>e. owned_command zd cr name path aid sp act w = (Inl e, w)"
proof -
  have t: "\<exists>e. guard_child_target sp aid p w = (Inl e, w)" for p
  proof (cases "guard_child_target sp aid p w")
    case (Pair r w1)
    moreover have "w1 = w" using guard_child_target_same [of sp aid p w] Pair by simp
    moreover have "r \<noteq> Inr q" for q
      using assms guard_child_target_Inr(2,3,6) [of sp aid p w q w1] Pair unfolding addresses_live_def by blast
    ultimately show ?thesis by (cases r) auto
  qed
  obtain r w1 where f: "find_node_or_raise path w = (r, w1)" by (rule prod.exhaust)
  then have w1: "w1 = w" using find_node_or_raise_same [of path w] by simp
  obtain r0 w0 where v: "validate_attempt_id aid w = (r0, w0)" by (rule prod.exhaust)
  then have w0: "w0 = w" using validate_attempt_id_same [of aid w] by simp
  show ?thesis
  proof (cases r)
    case (Inl e)
    then show ?thesis using f w1 v w0 by (cases r0) (auto simp: owned_command_def seqM_def bindM_def)
  next
    case (Inr p)
    from t [of p] obtain e where "guard_child_target sp aid p w = (Inl e, w)" by blast
    then show ?thesis using f w1 v w0 Inr by (cases r0) (auto simp: owned_command_def seqM_def bindM_def)
  qed
qed

text \<open>
  C7. A report that does not name the live attempt of a task that is submitted or active is rejected
  with an error and leaves the world exactly as it was, audit trail included: neither the fob policy,
  which answers success, nor the adopt policy, which lets the report through, ever gets to see it.
  For events and meters it is the attempt of the reporting task that counts.
\<close>

theorem stale_reports_rejected:
  "(addresses_live w (cc_node_path ci) (cc_attempt_id ci) \<or> (\<exists>e. run_command_init zd cr ci w = (Inl e, w)))
   \<and> (addresses_live w (cc_node_path cc) (cc_attempt_id cc) \<or> (\<exists>e. run_command_complete zd cr cc w = (Inl e, w)))
   \<and> (addresses_live w (cc_node_path ca) (cc_attempt_id ca) \<or> (\<exists>e. run_command_abort zd cr ca w = (Inl e, w)))
   \<and> (addresses_live w (ec_source_task_path ce) (cc_attempt_id ce) \<or> (\<exists>e. run_command_event zd cr ce w = (Inl e, w)))
   \<and> (addresses_live w (mc_source_task_path cm) (cc_attempt_id cm) \<or> (\<exists>e. run_command_meter zd cr cm w = (Inl e, w)))"
  unfolding run_command_complete_def run_command_abort_def run_command_event_def run_command_meter_def
  using init_stale [of w ci zd cr] report_stale [of w _ _ zd cr] owned_stale [of w _ _ zd cr]
  by (intro conjI) blast+

section \<open>Requeue makes every report stale\<close>

lemma settled_not_live:
  assumes "is_task w p" and "settled (attr w p)"
  shows "\<not> live_attempt w p aid"
  using assms by (simp add: settled_def no_attempt_def attempt_fields_def live_attempt_def)

text \<open>
  After a requeue of a node has returned, no job of an earlier run can report on any task below it
  any more: whatever attempt a complete report names and under whatever path it reaches such a task,
  it is rejected and changes nothing.
\<close>

lemma requeue_orphans_reports:
  assumes "names_ok w" and "tasks_are_leaves w" and "valid w p" and "requeue_node p r w = (Inr (), w')"
    and "q \<in> set (walk (subtree w p) p)" and "bunch_find_node w' (cc_node_path c) = Inr (Some q)"
  shows "\<exists>e. run_command_complete zd cr c w' = (Inl e, w')"
proof -
  have "settled (attr w' q)" using requeue_node_settled [OF assms(1-5)] by simp
  then have "\<not> addresses_live w' (cc_node_path c) (cc_attempt_id c)"
    using assms(6) settled_not_live by (auto simp: addresses_live_def)
  then show ?thesis unfolding run_command_complete_def by (rule report_stale)
qed

section \<open>A second init\<close>

text \<open>
  A second init on a task that is active is decided without any write: it is acknowledged exactly
  when it carries the job id on record and the credentials of the run, and is a zombie otherwise; in
  particular the adopt policy does not rotate the password.
\<close>

lemma init_twice:
  assumes "bunch_find_node w (cc_node_path c) = Inr (Some p)" and "is_task w p"
    and "canonical_uuid (cc_attempt_id c)" and "live_attempt w p (cc_attempt_id c)" and "status_of w p = active"
  shows "run_command_init zd cr c w =
    (if task_id (n_task (attr w p)) = Some (ic_task_id c)
        \<and> (case zd of None \<Rightarrow> True | Some d \<Rightarrow> legitimate d w p ''init'' (Some (ic_task_id c)) cr)
     then Inr () else Inl ZombieError, w)"
proof -
  have v: "validate_attempt_id (cc_attempt_id c) w = (Inr (), w)"
    using assms(3) by (auto simp: validate_attempt_id_def canonical_uuid_def prog_defs)
  have f: "find_task_or_raise (cc_node_path c) w = (Inr p, w)"
    using assms(1,2) by (simp add: find_task_or_raise_def find_node_or_raise_def prog_defs)
  have g: "guard_attempt p (cc_attempt_id c) w = (Inr (), w)"
    using guard_attempt_Inr [of p "cc_attempt_id c" w] guard_attempt_same [of p "cc_attempt_id c" w] assms(3,4)
    by (simp add: prod_eq_iff)
  show ?thesis
    using v f g assms(5) detect_None_iff [of _ w p "''init''" "Some (ic_task_id c)" cr]
    by (cases zd) (auto simp: run_command_init_def seqM_def bindM_def withState_def ret_def raise_def)
qed

section \<open>Accepted reports\<close>

text \<open>Writes that leave the core of every node alone leave all of this alone.\<close>

lemma core_viewD:
  assumes "core_view w' = core_view w"
  shows "status_of w' q = status_of w q" "n_repeat (attr w' q) = n_repeat (attr w q)"
    "skeleton w' = skeleton w" "counts_ok w' = counts_ok w" "consistent_but w' A = consistent_but w A"
proof -
  have core: "core (attr w' q) = core (attr w q)" for q
    using assms by (auto simp: core_view_def fun_eq_iff)
  have "skeleton w' = skeleton w"
    using assms core by (auto simp: skeleton_def core_view_def core_def fun_eq_iff)
  then have "calm_view w' = calm_view w"
    using core by (auto simp: calm_view_def core_def)
  from calm_step [OF this] show "status_of w' q = status_of w q" "n_repeat (attr w' q) = n_repeat (attr w q)"
    "skeleton w' = skeleton w" "counts_ok w' = counts_ok w" "consistent_but w' A = consistent_but w A" by simp_all
qed

lemma core_view_step: "obeys (same core_view) m \<Longrightarrow> m w = (r, w') \<Longrightarrow> core_view w' = core_view w"
  by (metis obeys_same_wp snd_conv)

text \<open>A report in four steps: notes on the attempt, the status, more notes, the propagation.\<close>

lemma report_restores:
  assumes "names_ok w" "counts_ok w" "consistent_but w {}" "tasks_are_leaves w" "valid w p" "is_task w p"
    and "(\<forall>q \<in> set (ups p). n_repeat (attr w q) = None) \<or> complete < s"
    and core1: "core_view w1 = core_view w" and status: "set_node_status p s w1 = (Inr (), w2)"
    and core2: "core_view w3 = core_view w2" and up: "handle_status_change p w3 = (Inr (), w')"
  shows "consistent_but w' {} \<and> counts_ok w' \<and> status_of w' p = s
    \<and> (\<forall>q. q \<notin> set (ups p) \<longrightarrow> status_of w' q = status_of w q)"
proof -
  note c1 = core_viewD [OF core1] and c2 = core_viewD [OF core2]
  note sh1 = structure_cong [OF skeletonD(1) [OF c1(3)]]
  have rep1: "(\<forall>q \<in> set (ups p). n_repeat (attr w1 q) = None) \<or> complete < s" using assms(7) c1(2) by simp
  have w1: "names_ok w1" "counts_ok w1" "consistent_but w1 {}" "tasks_are_leaves w1" "valid w1 p" "is_task w1 p"
    using assms(1-6) by (simp_all add: names_ok_skeleton [OF c1(3)] c1(4,5) tasks_are_leaves_skeleton [OF c1(3)]
        sh1 skeletonD(2) [OF c1(3)])
  note r = set_node_status_restores [OF w1 rep1 status]
  note sh2 = structure_cong [OF skeletonD(1) [OF r(3)]] and sh3 = structure_cong [OF skeletonD(1) [OF c2(3)]]
  have "consistent_but w3 (set (ups p))" using r(1) c2(5) by (simp add: consistent_but_def)
  then have "settled_but w3 p"
    using w1 r rep1 by (simp add: settled_but_def names_ok_skeleton [OF c2(3)] names_ok_skeleton [OF r(3)] c2
        tasks_are_leaves_skeleton [OF c2(3)] tasks_are_leaves_skeleton [OF r(3)] sh2 sh3
        skeletonD(2) [OF c2(3)] skeletonD(2) [OF r(3)])
  then have "restored p w3 w'" using up by (rule handle_status_change_restores)
  then show ?thesis using r c1 c2 by (simp add: restored_def)
qed

lemma report_success:
  assumes "report_command None cr name path aid act w = (Inr (), w')"
  obtains p where "bunch_find_node w path = Inr (Some p)" "is_task w p" "live_attempt w p aid" "act p w = (Inr (), w')"
proof -
  have "addresses_live w path aid" using report_stale assms by (metis Inl_Inr_False prod.inject)
  then obtain p where p: "bunch_find_node w path = Inr (Some p)" "is_task w p" "live_attempt w p aid"
    by (auto simp: addresses_live_def)
  have f: "find_task_or_raise path w = (Inr p, w)"
    using p(1,2) by (simp add: find_task_or_raise_def find_node_or_raise_def prog_defs)
  have "act p w = (Inr (), w')"
    using assms f validate_attempt_id_same [of aid w] guard_attempt_same [of p aid w]
    by (auto simp: report_command_def guard_child_command_def ret_def elim!: seqM_InrE bindM_InrE) 
  with p show thesis by (rule that)
qed

lemma task_complete_steps:
  assumes "task_complete p w = (Inr (), w')"
  obtains w1 w2 where "core_view w1 = core_view w" "set_node_status p complete w1 = (Inr (), w2)"
    "handle_status_change p w2 = (Inr (), w')"
proof -
  let ?pre = "seqM (updN p (upd_task (\<lambda>t. t\<lparr>submission_unknown_reason := None\<rparr>)))
     (seqM (notify p [''runtime'']) (stamp_end p))"
  have "task_complete p = seqM ?pre (seqM (set_node_status p complete) (handle_status_change p))"
    by (simp add: task_complete_def seqM_def bindM_assoc)
  with assms have "seqM ?pre (seqM (set_node_status p complete) (handle_status_change p)) w = (Inr (), w')" by simp
  then obtain u w1 where w1: "?pre w = (Inr u, w1)"
    and "seqM (set_node_status p complete) (handle_status_change p) w1 = (Inr (), w')" by (rule seqM_InrE)
  then obtain w2 where rest: "set_node_status p complete w1 = (Inr (), w2)"
    "handle_status_change p w2 = (Inr (), w')" by (auto elim: seqM_InrE)
  have "obeys (same core_view) ?pre"
    unfolding stamp_end_def by (intro frame_intro benign.obeys_updN) (simp_all add: core_defs)
  with w1 have "core_view w1 = core_view w" by (auto dest: core_view_step)
  then show thesis using rest by (rule that)
qed

lemma task_abort_steps:
  assumes "task_abort p reason w = (Inr (), w')"
  obtains w1 w2 w3 where "core_view w1 = core_view w" "set_node_status p aborted w1 = (Inr (), w2)"
    "core_view w3 = core_view w2" "handle_status_change p w3 = (Inr (), w')"
proof -
  let ?pre = "seqM (updN p (upd_task (\<lambda>t. t\<lparr>submission_unknown_reason := None\<rparr>)))
     (seqM (notify p [''runtime'']) (stamp_end p))"
  let ?note = "updN p (upd_task (\<lambda>t. t\<lparr>aborted_reason := Some reason\<rparr>)) :: unit wprog"
  have "task_abort p reason = seqM ?pre (seqM (set_node_status p aborted) (seqM ?note (handle_status_change p)))"
    by (simp add: task_abort_def seqM_def bindM_assoc)
  with assms have "seqM ?pre (seqM (set_node_status p aborted) (seqM ?note (handle_status_change p))) w = (Inr (), w')"
    by simp
  then obtain u w1 where w1: "?pre w = (Inr u, w1)"
    and "seqM (set_node_status p aborted) (seqM ?note (handle_status_change p)) w1 = (Inr (), w')" by (rule seqM_InrE)
  then obtain w2 w3 where st: "set_node_status p aborted w1 = (Inr (), w2)"
    and w3: "?note w2 = (Inr (), w3)" and up: "handle_status_change p w3 = (Inr (), w')"
    by (auto elim!: seqM_InrE)
  have "obeys (same core_view) ?pre" "obeys (same core_view) ?note"
    unfolding stamp_end_def by (intro frame_intro benign.obeys_updN, simp_all add: core_defs)+
  with w1 w3 have "core_view w1 = core_view w" "core_view w3 = core_view w2" by (auto dest: core_view_step)
  then show thesis using st up that by blast
qed


end
