(* ===== verification/Run_Safety.thy ===== *)
theory Run_Safety
  imports Task_Run
begin

text \<open>
  Running a task respects the limits: the capacity check, the reservation at submission and the
  walk up the tree, put together for the hooks of the base class.
\<close>

section \<open>What the limit check guarantees\<close>

definition limits_inv :: "world \<Rightarrow> bool" where
  "limits_inv w \<longleftrightarrow> names_ok w \<and> refs_ok w \<and> (\<forall>k \<in> tokens_of w. 0 \<le> k) \<and> limits_ok w"

text \<open>The reservation the node asks for fits into every limit.\<close>

definition fits :: "world \<Rightarrow> pos \<Rightarrow> bool" where
  "fits w p \<longleftrightarrow> (\<forall>q \<in> set (ups p). resolved_at w q) \<and> capacity_left w (node_path w p) [] (items_up w p)"

definition limit_view where
  "limit_view w = (skeleton w, \<lambda>q. (n_limits (attr w q), n_in_limits (attr w q)))"

lemma limit_viewD:
  assumes "limit_view w' = limit_view w"
  shows "skeleton w' = skeleton w" "n_limits (attr w' q) = n_limits (attr w q)"
    "n_in_limits (attr w' q) = n_in_limits (attr w q)" "get_limit w' r = get_limit w r"
  using assms by (auto simp: limit_view_def fun_eq_iff get_limit_def)

lemma capacity_left_cong:
  "(\<And>r. get_limit w' r = get_limit w r) \<Longrightarrow> capacity_left w' path seen ils = capacity_left w path seen ils"
  by (induction w path seen ils rule: capacity_left.induct) (auto simp: Let_def split: option.splits)

lemma limit_view_inv:
  assumes "limit_view w' = limit_view w"
  shows "limits_inv w' = limits_inv w" "fits w' p = fits w p"
proof -
  note lv = limit_viewD [OF assms]
  have cap: "capacity_left w' path seen ils = capacity_left w path seen ils" for path seen ils
    by (rule capacity_left_cong) (rule lv(4))
  show "limits_inv w' = limits_inv w"
    by (simp add: limits_inv_def names_ok_skeleton [OF lv(1)] refs_ok_def tokens_of_def limits_ok_def lv(2,3))
  show "fits w' p = fits w p"
    by (simp add: fits_def resolved_at_def items_up_def node_path_skeleton [OF lv(1)] lv(3) cap)
qed

interpretation lview: task_frame "same limit_view"
proof (intro task_frame.intro frame_same, unfold_locales, goal_cases)
  case (4 w p f)
  have "skeleton (upd p (upd_task f) w) = skeleton w" by (rule skeleton_upd) (simp add: upd_task_def)
  then show ?case by (simp add: same_def limit_view_def attr_upd upd_task_def fun_eq_iff)
next
  case (5 w p g)
  have "skeleton (upd p (upd_flow g) w) = skeleton w" by (rule skeleton_upd) (simp add: upd_flow_def)
  then show ?case by (simp add: same_def limit_view_def attr_upd upd_flow_def fun_eq_iff)
qed (simp_all add: same_def limit_view_def skeleton_def)

lemma lview_after: "obeys (same limit_view) m \<Longrightarrow> limit_view (after (m w)) = limit_view w"
  by (simp add: obeys_def same_def)

lemma status_step_limit_view: "status_step p s w w' \<Longrightarrow> limit_view w' = limit_view w"
  by (auto simp: limit_view_def status_step_def quiet_part_def)

section \<open>Resolving keeps the limits in order\<close>

lemma find_limit_range: "find_limit w p name = Some r \<Longrightarrow> snd r < length (n_limits (attr w (fst r)))"
  by (auto simp: find_limit_def dest: find_index_SomeD)

lemma lookup_range: "lookup_in_limit w p il = Inr (Some r) \<Longrightarrow> snd r < length (n_limits (attr w (fst r)))"
  by (auto simp: lookup_in_limit_def find_limit_up_def dest!: first_some_SomeD find_limit_range
      split: option.splits sum.splits)

lemma set_limit_items:
  "il \<in> set (n_in_limits (set_limit i r a)) \<Longrightarrow> il \<in> set (n_in_limits a) \<or> il_limit il = Some r"
  by (auto simp: set_limit_def nth_opt_conv split: option.splits if_splits dest!: set_update_subset_insert [THEN subsetD])

interpretation linv: frame "keeps_inv limits_inv"
  by (rule frame_keeps_inv)

lemma limits_inv_resolve: "obeys (keeps_inv limits_inv) (resolve_in_limit p i)"
  unfolding obeys_def keeps_inv_def
proof (intro allI impI)
  fix w assume inv: "limits_inv w"
  show "limits_inv (after (resolve_in_limit p i w))"
  proof (cases "\<exists>il r. item_at w p i = Some il \<and> il_limit il = None \<and> lookup_in_limit w p il = Inr (Some r)")
    case False
    then have "after (resolve_in_limit p i w) = w"
      by (auto simp: resolve_in_limit_def prog_defs split: option.splits sum.splits)
    with inv show ?thesis by simp
  next
    case True
    then obtain il r where r: "lookup_in_limit w p il = Inr (Some r)"
      and aft: "after (resolve_in_limit p i w) = upd p (set_limit i r) w"
      by (auto simp: resolve_in_limit_def updN_def prog_defs)
    have keys: "map in_limit_key (n_in_limits (set_limit i r a)) = map in_limit_key (n_in_limits a)"
      and rest: "n_limits (set_limit i r a) = n_limits a" "n_name (set_limit i r a) = n_name a" for a
      using benign_set_limit [of i r] by (auto simp: benign_def core_def)
    have lims: "n_limits (attr (upd p (set_limit i r) w) q) = n_limits (attr w q)" for q
      by (simp add: attr_upd rest)
    have "refs_ok (upd p (set_limit i r) w)"
      unfolding refs_ok_def lims
    proof (intro allI ballI impI)
      fix q il' r' assume "il' \<in> set (n_in_limits (attr (upd p (set_limit i r) w) q))" "il_limit il' = Some r'"
      then have "il' \<in> set (n_in_limits (attr w q)) \<or> r' = r"
        by (auto simp: attr_upd split: if_splits dest: set_limit_items)
      then show "snd r' < length (n_limits (attr w (fst r')))"
        using inv lookup_range [OF r] \<open>il_limit il' = Some r'\<close>
        unfolding limits_inv_def refs_ok_def by blast
    qed
    moreover have "names_ok (upd p (set_limit i r) w)"
      using inv by (simp add: limits_inv_def names_ok_upd rest)
    ultimately show ?thesis
      using inv unfolding aft limits_inv_def by (simp add: tokens_of_upd [OF keys] limits_ok_def lims)
  qed
qed

lemma limits_inv_unresolved: "obeys (keeps_inv limits_inv) (unresolved_limits_up p)"
  unfolding unresolved_limits_up_def validate_references_def resolve_in_limit_references_def
  by (intro linv.obeys_collectM linv.obeys_seqM linv.obeys_withState linv.obeys_forM limits_inv_resolve
      linv.obeys_gets)

lemma require_limit_capacity_fits:
  assumes inv: "limits_inv w" and req: "require_limit_capacity p w = (Inr (), w')"
  shows "limits_inv w' \<and> fits w' p \<and> core_view w' = core_view w"
proof -
  obtain w1 where w1: "unresolved_limits_up p w = (Inr [], w1)"
    and chk: "check_in_limit_up p w1 = (Inr True, w')"
    using req by (auto simp: require_limit_capacity_def prog_defs split: prod.splits sum.splits if_splits)
  have res: "\<forall>q \<in> set (ups p). resolved_at w1 q" using unresolved_empty [OF w1] .
  then have "unresolved_limits_up p w1 = (Inr [], w1)"
    unfolding unresolved_limits_up_def by (rule collect_validate_resolved)
  with chk have "w' = w1" "capacity_left w1 (node_path w1 p) [] (items_up w1 p)"
    by (auto simp: check_in_limit_up_def prog_defs)
  moreover have "limits_inv w1"
    using obeys_keeps_invD [OF limits_inv_unresolved inv, of p] w1 by simp
  moreover have "core_view w1 = core_view w"
    using obeysD [OF benign.obeys_unresolved_limits_up, of w p] w1 by (simp add: same_def)
  ultimately show ?thesis using res by (simp add: fits_def)
qed

section \<open>Reserving what fits\<close>

lemma capacity_left_held:
  "\<forall>il \<in> set ils. \<exists>r. il_limit il = Some r \<and> path \<in> lm_node_paths (get_limit w r)
      \<and> lm_value (get_limit w r) \<le> lm_limit (get_limit w r) \<Longrightarrow> capacity_left w path seen ils"
  by (induction ils arbitrary: seen) (auto simp: Let_def)

text \<open>Every limit the node needs names it as a holder.\<close>

definition holds_limits :: "world \<Rightarrow> pos \<Rightarrow> bool" where
  "holds_limits w p \<longleftrightarrow> (\<forall>il \<in> set (items_up w p). \<exists>r. il_limit il = Some r
     \<and> node_path w p \<in> lm_node_paths (get_limit w r))"

lemma reserve_fits:
  assumes inv: "limits_inv w" and fits: "fits w p"
  shows "\<exists>w'. increment_in_limit p w = (Inr (), w') \<and> limits_inv w' \<and> fits w' p \<and> holds_limits w' p
    \<and> calm_view w' = calm_view w"
proof -
  have res: "\<forall>q \<in> set (ups p). resolved_at w q"
    and cap: "capacity_left w (node_path w p) [] (items_up w p)" using fits by (auto simp: fits_def)
  have names: "names_ok w" and refs: "refs_ok w" and tok: "\<forall>k \<in> tokens_of w. 0 \<le> k" and ok: "limits_ok w"
    using inv by (auto simp: limits_inv_def)
  obtain w' where w': "increment_in_limit p w = (Inr (), w')"
    and eff: "\<And>r. get_limit w' r = reserved (node_path w p) (items_up w p) r (get_limit w r)"
    and len: "\<And>q. length (n_limits (attr w' q)) = length (n_limits (attr w q))"
    and ils: "\<And>q. n_in_limits (attr w' q) = n_in_limits (attr w q)"
    using increment_in_limit_effect [OF names refs res] by auto
  have calm: "calm_view w' = calm_view w"
    using obeysD [OF calm.obeys_increment_in_limit, of w p] w' by (simp add: same_def)
  have sk: "skeleton w' = skeleton w" using calm by (simp add: calm_view_def)
  have lok: "limits_ok w'" using capacity_reserve_ok [OF names refs res ok tok cap] w' by simp
  have refs': "refs_ok w'" using refs by (simp add: refs_ok_def ils len)
  have items: "items_up w' p = items_up w p" by (simp add: items_up_def ils)
  have path: "node_path w' p = node_path w p" using node_path_skeleton [OF sk] by simp
  have held: "\<exists>r. il_limit il = Some r \<and> node_path w p \<in> lm_node_paths (get_limit w' r)
      \<and> lm_value (get_limit w' r) \<le> lm_limit (get_limit w' r)" if il: "il \<in> set (items_up w p)" for il
  proof -
    from il obtain q where q: "q \<in> set (ups p)" "il \<in> set (n_in_limits (attr w q))" by (auto simp: items_up_def)
    then have "il_limit il \<noteq> None" using res unfolding resolved_at_def by blast
    then obtain r where r: "il_limit il = Some r" by blast
    obtain k where "first_tokens (items_up w p) r = Some k"
      using il r by (cases "first_tokens (items_up w p) r") (auto simp: first_tokens_def find_None_iff)
    then have "node_path w p \<in> lm_node_paths (get_limit w' r)" by (simp add: eff reserved_def)
    moreover have "snd r < length (n_limits (attr w' (fst r)))"
      using refs' q r ils unfolding refs_ok_def by metis
    then have "limit_ok (get_limit w' r)" using limits_ok_getD [OF lok] by simp
    ultimately show ?thesis using r by (auto simp: limit_ok_def)
  qed
  have "limits_inv w'"
    using names_ok_skeleton [OF sk] names refs' lok tok by (simp add: limits_inv_def tokens_of_def ils)
  moreover have "fits w' p"
    using res capacity_left_held [of "items_up w p" "node_path w p" w'] held
    by (simp add: fits_def items path resolved_at_def ils)
  moreover have "holds_limits w' p" unfolding holds_limits_def items path using held by blast
  ultimately show ?thesis using w' calm by blast
qed

section \<open>A submitted task holds its limits\<close>

text \<open>The state of a task in flight whose reservation fits.\<close>

definition run_ready :: "world \<Rightarrow> pos \<Rightarrow> bool" where
  "run_ready w p \<longleftrightarrow> limits_inv w \<and> fits w p \<and> counts_ok w \<and> tasks_are_leaves w \<and> valid w p \<and> is_task w p"

lemma run_ready_view:
  assumes lv: "limit_view w' = limit_view w" and c: "counts_ok w'" and "run_ready w p"
  shows "run_ready w' p"
proof -
  note sk = limit_viewD(1) [OF lv]
  show ?thesis
    using assms limit_view_inv [OF lv] structure_cong(1) [OF skeletonD(1) [OF sk]] skeletonD(2) [OF sk]
    by (simp add: run_ready_def tasks_are_leaves_def)
qed

lemma holds_limits_view:
  assumes "limit_view w' = limit_view w"
  shows "holds_limits w' p = holds_limits w p"
  by (simp add: holds_limits_def items_up_def node_path_skeleton [OF limit_viewD(1) [OF assms]]
      limit_viewD(3,4) [OF assms])

lemma handle_in_flight:
  assumes r: "run_ready w p" and fl: "in_flight (status_of w p)"
  shows "\<exists>w'. handle_status_change p w = (Inr (), w') \<and> run_ready w' p \<and> holds_limits w' p
    \<and> status_of w' p = status_of w p"
proof -
  obtain w1 where w1: "increment_in_limit p w = (Inr (), w1)" and inv: "limits_inv w1" "fits w1 p" "holds_limits w1 p"
    and calm: "calm_view w1 = calm_view w"
    using reserve_fits r by (auto simp: run_ready_def)
  note cs = calm_step [OF calm]
  have shp: "valid w1 = valid w" using structure_cong(1) [OF skeletonD(1) [OF cs(3)]] .
  have r1: "run_ready w1 p"
    using r inv cs(4) shp skeletonD(2) [OF cs(3)] by (simp add: run_ready_def tasks_are_leaves_def)
  have n1: "names_ok w1" using inv(1) by (simp add: limits_inv_def)
  have "complete < status_of w1 p" using fl cs(1) by (auto simp: in_flight_def status_order_defs)
  then have "no_advance w1 p" using r1 by (simp add: no_advance_def plain_status_def run_ready_def)
  with r1 n1 swim_quiet [of w1 p]
  obtain w' where w': "swim_status_change p w1 = (Inr (), w')" "counts_ok w'" "skeleton w' = skeleton w1"
    "\<forall>q. quiet_part (attr w' q) = quiet_part (attr w1 q)" "status_of w' p = status_of w1 p"
    by (auto simp: run_ready_def)
  have lv: "limit_view w' = limit_view w1"
    using w'(3,4) by (auto simp: limit_view_def quiet_part_def)
  have "handle_status_change p w = (Inr (), w')"
    using r fl w1 w'(1) by (simp add: handle_status_change_def update_limits_def run_ready_def prog_defs)
  then show ?thesis
    using run_ready_view [OF lv w'(2) r1] holds_limits_view [OF lv] inv(3) w'(5) cs(1) by auto
qed

lemma after_run_holds:
  assumes r: "run_ready w p"
  shows "\<exists>w'. after_run p w = (Inr (), w') \<and> run_ready w' p \<and> holds_limits w' p \<and> status_of w' p = submitted"
proof -
  let ?u = "upd p (upd_task (\<lambda>t. t\<lparr>submitted_at := Some (w_utcnow w)\<rparr>)) w"
  have lu: "limit_view ?u = limit_view w"
    using lview.R_task [of w p] by (simp add: same_def)
  have cu: "counts_ok ?u" using cached.R_task [of w p] r by (simp add: keeps_inv_def run_ready_def)
  have ru: "run_ready ?u p" using run_ready_view [OF lu cu r] .
  have "\<exists>w1. set_node_status p submitted ?u = (Inr (), w1) \<and> run_ready w1 p \<and> status_of w1 p = submitted"
  proof (cases "status_of ?u p = submitted")
    case True
    then show ?thesis using ru by (simp add: set_node_status_def prog_defs)
  next
    case False
    have nu: "names_ok ?u" using ru by (simp add: run_ready_def limits_inv_def)
    obtain w1 where w1: "set_node_status_only p submitted ?u = (Inr (), w1)" and st: "status_step p submitted ?u w1"
      using set_node_status_only_step [OF nu, of p submitted] by (cases "set_node_status_only p submitted ?u") auto
    have c1: "counts_ok w1"
      using obeys_keeps_invD [OF cached.obeys_set_node_status_only cu, of p submitted] w1 by simp
    have r1: "run_ready w1 p" using run_ready_view [OF status_step_limit_view [OF st] c1 ru] .
    have s1: "status_of w1 p = submitted" using status_stepD(1) [OF st, of p] by simp
    then obtain w2 where "handle_status_change p w1 = (Inr (), w2)" "run_ready w2 p" "status_of w2 p = submitted"
      using handle_in_flight [OF r1] by auto
    then show ?thesis using w1 False by (auto simp: set_node_status_def prog_defs)
  qed
  then obtain w1 where w1: "set_node_status p submitted ?u = (Inr (), w1)" "run_ready w1 p" "status_of w1 p = submitted"
    by blast
  moreover from handle_in_flight [OF w1(2)] w1(3)
  obtain w' where "handle_status_change p w1 = (Inr (), w')" "run_ready w' p" "holds_limits w' p"
    "status_of w' p = submitted" by auto
  ultimately show ?thesis by (simp add: after_run_def updN_def prog_defs)
qed

lemma require_running_same: "require_running p w = (r, w') \<Longrightarrow> w' = w"
  by (auto simp: require_running_def bunch_require_running_def prog_defs split: if_splits)

text \<open>Nothing between the two capacity checks touches a limit.\<close>

lemma task_programs_keep:
  assumes "obeys (same limit_view) m" "obeys (keeps_inv counts_ok) m" and "m w = (r, w')"
  shows "limit_view w' = limit_view w" "counts_ok w \<Longrightarrow> counts_ok w'"
  using assms(1,2) assms(3) by (auto simp: obeys_def same_def keeps_inv_def dest: spec [of _ w])

lemma prepare_run_ready:
  assumes prep: "prepare_run Task_hooks prior p w = (Inr (), w')"
    and inv: "limits_inv w" "counts_ok w" "tasks_are_leaves w" "valid w p" "is_task w p"
  shows "run_ready w' p"
proof -
  from prep obtain w2 where w2: "seqM (before_run p) (seqM (require_running p) (require_limit_capacity p)) w = (Inr (), w2)"
    and w': "w' = upd p (upd_task (set_prepared False)) w2"
    by (auto simp: prepare_run_def Task_hooks_def onError_Inr elim!: finallyM_InrE)
  from w2 obtain w1 where b: "before_run p w = (Inr (), w1)" and req: "require_limit_capacity p w1 = (Inr (), w2)"
    by (auto elim!: seqM_InrE dest: require_running_same)
  note k1 = task_programs_keep [OF lview.obeys_before_run cached.obeys_before_run b]
  have inv1: "limits_inv w1" using limit_view_inv(1) [OF k1(1)] inv(1) by simp
  from require_limit_capacity_fits [OF inv1 req]
  have f: "limits_inv w2" "fits w2 p" and cv: "core_view w2 = core_view w1" by auto
  have c2: "counts_ok w2"
    using obeys_keeps_invD [OF cached.obeys_run_steps(2), of w1 p] req k1(2) inv(2) by simp
  have sk: "skeleton w2 = skeleton w"
    using skeleton_obeys [OF skel.obeys_run_steps(2), of p w1] req limit_viewD(1) [OF k1(1)] by simp
  have r2: "run_ready w2 p"
    using f c2 inv structure_cong(1) [OF skeletonD(1) [OF sk]] skeletonD(2) [OF sk]
    by (simp add: run_ready_def tasks_are_leaves_def)
  have "limit_view w' = limit_view w2" using lview.R_task [of w2 p] by (simp add: same_def w')
  moreover have "counts_ok w'" using cached.R_task [of w2 p] c2 by (simp add: keeps_inv_def w')
  ultimately show ?thesis using r2 by (rule run_ready_view)
qed

text \<open>
  C2. A task that is run through the hooks of the base class ends up submitted and holds every limit
  that it or an ancestor names, and no limit of the whole bunch is over its capacity or below zero:
  the two capacity checks and the reservation leave no gap.
\<close>

theorem run_respects_limits:
  assumes "names_ok w" and "refs_ok w" and "\<forall>k \<in> tokens_of w. 0 \<le> k" and "limits_ok w"
    and "counts_ok w" and "tasks_are_leaves w" and "valid w p" and "is_task w p"
    and "run Task_hooks p w = (Inr ok, w')"
  shows "ok \<and> status_of w' p = submitted \<and> holds_limits w' p \<and> limits_ok w'"
proof -
  have inv: "limits_inv w" using assms(1-4) by (simp add: limits_inv_def)
  from assms(9) obtain w1 w2 w3 w4 w5 where
    req: "require_limit_capacity p w = (Inr (), w1)" and inc: "increment_try_no p w1 = (Inr (), w2)"
    and nt: "notify p [''summary'', ''runtime'', ''artifacts''] w2 = (Inr (), w3)"
    and pr: "updN p (upd_task (set_prepared True)) w3 = (Inr (), w4)"
    and prep: "prepare_run Task_hooks (n_task (attr w1 p)) p w4 = (Inr (), w5)"
    and sub: "submit_run Task_hooks (n_task (attr w1 p)) p w5 = (Inr ok, w')"
    by (auto simp: run_def withState_def Let_def raise_def elim!: seqM_InrE split: if_splits
        dest!: require_running_same)
  from require_limit_capacity_fits [OF inv req] have inv1: "limits_inv w1" by simp
  have c1: "counts_ok w1" using obeys_keeps_invD [OF cached.obeys_run_steps(2) assms(5), of p] req by simp
  have sk1: "skeleton w1 = skeleton w" using skeleton_obeys [OF skel.obeys_run_steps(2), of p w] req by simp
  note k2 = task_programs_keep [OF lview.obeys_increment_try_no cached.obeys_increment_try_no inc]
  note k3 = task_programs_keep [OF lview.obeys_report cached.obeys_report nt]
  note k4 = task_programs_keep [OF lview.obeys_upd_task cached.obeys_upd_task pr]
  have lv: "limit_view w4 = limit_view w1" using k2(1) k3(1) k4(1) by simp
  have sk: "skeleton w4 = skeleton w" using limit_viewD(1) [OF lv] sk1 by simp
  have "run_ready w5 p"
  proof (rule prepare_run_ready [OF prep])
    show "limits_inv w4" using limit_view_inv(1) [OF lv] inv1 by simp
    show "counts_ok w4" using k2(2) k3(2) k4(2) c1 by simp
    show "tasks_are_leaves w4" "valid w4 p" "is_task w4 p"
      using assms(6-8) structure_cong(1) [OF skeletonD(1) [OF sk]] skeletonD(2) [OF sk]
      by (simp_all add: tasks_are_leaves_def)
  qed
  from after_run_holds [OF this] sub show ?thesis
    by (auto simp: submit_run_def onError_Inr Task_hooks_def Task_do_run_def seqM_def bindM_def ret_def
        run_ready_def limits_inv_def split: prod.splits sum.splits)
qed

end
