(* ===== verification/Scheduling.thy ===== *)
theory Scheduling
  imports Flow_Ops Run_Safety
begin

text \<open>
  Dependency resolution (\<open>check_dependencies\<close> and \<open>resolve_dependencies\<close> of \<^verbatim>\<open>node.py\<close>,
  \<^verbatim>\<open>task_node.py\<close> and \<^verbatim>\<open>node_container.py\<close>) and the pass the scheduler makes over a flow
  (\<open>_process_flow\<close> and \<open>_flow_work\<close> of \<^verbatim>\<open>scheduler.py\<close>).
\<close>

section \<open>Dependencies of a node\<close>

fun any_time_free :: "calendar \<Rightarrow> time_attr list \<Rightarrow> exc + bool" where
  "any_time_free cal [] = Inr False"
| "any_time_free cal (t # ts) = (case time_is_free cal t of
      Inl e \<Rightarrow> Inl e | Inr True \<Rightarrow> Inr True | Inr False \<Rightarrow> any_time_free cal ts)"

definition resolve_time_dependencies :: "pos \<Rightarrow> bool wprog" where
  "resolve_time_dependencies p = liftE (\<lambda>w.
     if n_times (attr w p) = [] then Inr True
     else if kind_of w (get_root p) \<noteq> KFlow then Inl (PyError PyRuntimeError)
     else any_time_free (flow_calendar (n_flow (attr w (get_root p)))) (n_times (attr w p)))"

definition latch_complete :: "pos \<Rightarrow> unit wprog" where
  "latch_complete p = withState (\<lambda>w. whenM (\<not> n_is_complete_triggered (attr w p))
     (seqM (updN p (\<lambda>a. a\<lparr>n_is_complete_triggered := True\<rparr>)) (notify p [''runtime''])))"

definition Node_check_dependencies :: "parser \<Rightarrow> pos \<Rightarrow> bool wprog" where
  "Node_check_dependencies parse p = withState (\<lambda>w.
     if suspended (n_state (attr w p)) then ret False
     else bindM (resolve_time_dependencies p) (\<lambda>timely.
       if \<not> timely then ret False
       else bindM (evaluate_complete_trigger parse p) (\<lambda>done.
         if done then seqM (latch_complete p) (seqM (set_node_status p complete) (ret False))
         else evaluate_trigger parse p)))"

definition Task_check_dependencies :: "parser \<Rightarrow> pos \<Rightarrow> bool wprog" where
  "Task_check_dependencies parse p = withState (\<lambda>w.
     let s = status_of w p in
     if s = complete \<or> s = active \<or> s = submitted \<or> s = unknown then ret False
     else bindM (Node_check_dependencies parse p) (\<lambda>ok.
       if \<not> ok then ret False
       else if s = aborted then ret False
       else bindM (unresolved_limits_up p) (\<lambda>missing.
         if missing \<noteq> [] then ret False else check_in_limit_up p)))"

definition check_dependencies :: "parser \<Rightarrow> pos \<Rightarrow> bool wprog" where
  "check_dependencies parse p = withState (\<lambda>w.
     if is_task w p then Task_check_dependencies parse p else Node_check_dependencies parse p)"

text \<open>\<open>resolve_dependencies\<close>: a task runs, a container asks its children in order.\<close>

definition Task_resolve_dependencies :: "parser \<Rightarrow> (pos \<Rightarrow> run_hooks) \<Rightarrow> pos \<Rightarrow> bool wprog" where
  "Task_resolve_dependencies parse hooks p = bindM (Task_check_dependencies parse p) (\<lambda>ok.
     if ok then bindM (run (hooks p) p) (\<lambda>_. ret True) else ret False)"

function resolve_dependencies :: "parser \<Rightarrow> (pos \<Rightarrow> run_hooks) \<Rightarrow> shape \<Rightarrow> pos \<Rightarrow> bool wprog" where
  "resolve_dependencies parse hooks (Shape ss) p = withState (\<lambda>w.
     if is_task w p then Task_resolve_dependencies parse hooks p
     else bindM (check_dependencies parse p) (\<lambda>ok.
       if \<not> ok then ret False
       else seqM (forM (List.enumerate 0 ss)
              (\<lambda>(i, t). bindM (resolve_dependencies parse hooks t (i # p)) (\<lambda>_. ret ())))
            (ret True)))"
  by pat_completeness auto
termination
  by (relation "measure (\<lambda>(a, b, t, p). size t)") (auto dest: in_enumerate_size)

declare resolve_dependencies.simps [simp del]

section \<open>A pass over a flow\<close>

definition service_idle :: "world \<Rightarrow> bool" where
  "service_idle w \<longleftrightarrow> w_service_stopping w \<or> ss_status (w_server_state w) = halted"

definition process_flow :: "parser \<Rightarrow> (pos \<Rightarrow> run_hooks) \<Rightarrow> pos \<Rightarrow> datetime \<Rightarrow> unit wprog" where
  "process_flow parse hooks root now = withState (\<lambda>w.
     if service_idle w \<or> \<not> begun (n_flow (attr w root)) then ret ()
     else seqM (update_calendar root now) (withState (\<lambda>w.
       if service_idle w then ret ()
       else bindM (resolve_dependencies parse hooks (subtree w root) root) (\<lambda>_. ret ()))))"

text \<open>
  The incremental pass: a stack of iterators over the children still to visit, one node per step.
  The generator yields after each node, so that commands may run in between; a step re-reads the
  state of the service and of the flow.
\<close>

definition pass_over :: "world \<Rightarrow> pos \<Rightarrow> bool" where
  "pass_over w root \<longleftrightarrow> service_idle w \<or> \<not> begun (n_flow (attr w root))
     \<or> find_flow w (name_of w root) \<noteq> Some root"

text \<open>One step on the stack (top first); the answer is the new stack, empty when the pass ends.\<close>

fun flow_step :: "parser \<Rightarrow> (pos \<Rightarrow> run_hooks) \<Rightarrow> pos \<Rightarrow> pos list list \<Rightarrow> pos list list wprog" where
  "flow_step parse hooks root [] = ret []"
| "flow_step parse hooks root ([] # stack) = ret stack"
| "flow_step parse hooks root ((q # qs) # stack) = withState (\<lambda>w.
     if is_task w q then bindM (Task_resolve_dependencies parse hooks q) (\<lambda>_. ret (qs # stack))
     else bindM (check_dependencies parse q) (\<lambda>ok.
       ret (if ok then children w q # qs # stack else qs # stack)))"

fun flow_steps :: "nat \<Rightarrow> parser \<Rightarrow> (pos \<Rightarrow> run_hooks) \<Rightarrow> pos \<Rightarrow> pos list list \<Rightarrow> pos list list wprog" where
  "flow_steps 0 parse hooks root stack = ret stack"
| "flow_steps (Suc n) parse hooks root stack = withState (\<lambda>w.
     if stack = [] \<or> pass_over w root then ret []
     else bindM (flow_step parse hooks root stack) (flow_steps n parse hooks root))"

definition flow_work :: "nat \<Rightarrow> parser \<Rightarrow> (pos \<Rightarrow> run_hooks) \<Rightarrow> pos \<Rightarrow> datetime \<Rightarrow> pos list list wprog" where
  "flow_work n parse hooks root now = withState (\<lambda>w.
     if service_idle w \<or> \<not> begun (n_flow (attr w root)) then ret []
     else seqM (update_calendar root now) (withState (\<lambda>w.
       if service_idle w then ret []
       else bindM (check_dependencies parse root) (\<lambda>ok.
         if \<not> ok then ret [] else withState (\<lambda>w. flow_steps n parse hooks root [children w root])))))"

context world_frame
begin

lemma obeys_Node_check_dependencies [frame_intro]: "obeys R (Node_check_dependencies parse p)"
  unfolding Node_check_dependencies_def resolve_time_dependencies_def latch_complete_def
  by (intro frame_intro obeys_updN) (simp add: core_defs)

lemma obeys_Task_check_dependencies [frame_intro]: "obeys R (Task_check_dependencies parse p)"
  unfolding Task_check_dependencies_def Let_def by (intro frame_intro)

lemma obeys_check_dependencies [frame_intro]: "obeys R (check_dependencies parse p)"
  unfolding check_dependencies_def by (intro frame_intro)

end

context flow_frame
begin

lemma obeys_Task_resolve_dependencies:
  assumes "\<And>q. obeys R (run (hooks q) q)"
  shows "obeys R (Task_resolve_dependencies parse hooks p)"
  unfolding Task_resolve_dependencies_def by (intro frame_intro assms)

lemma obeys_resolve_dependencies:
  assumes "\<And>q. obeys R (run (hooks q) q)"
  shows "obeys R (resolve_dependencies parse hooks t p)"
proof (induction t p rule: subtree_induct)
  case (Shape ss p)
  have "obeys R (forM (List.enumerate 0 ss)
      (\<lambda>(i, t). bindM (resolve_dependencies parse hooks t (i # p)) (\<lambda>_. ret ())))"
    by (rule obeys_forM) (use Shape in \<open>auto intro!: obeys_bindM obeys_ret\<close>)
  then show ?case
    unfolding resolve_dependencies.simps
    by (intro obeys_withState obeys_if obeys_bindM obeys_seqM obeys_ret obeys_check_dependencies
        obeys_Task_resolve_dependencies assms)
qed

lemma obeys_process_flow:
  assumes "\<And>q. obeys R (run (hooks q) q)"
  shows "obeys R (process_flow parse hooks root now)"
  unfolding process_flow_def
  by (intro obeys_withState obeys_if obeys_bindM obeys_seqM obeys_ret obeys_update_calendar
      obeys_resolve_dependencies assms)

lemma obeys_flow_steps:
  assumes "\<And>q. obeys R (run (hooks q) q)"
  shows "obeys R (flow_steps n parse hooks root stack)"
proof -
  have step: "obeys R (flow_step parse hooks root st)" for st
    by (cases "(parse, hooks, root, st)" rule: flow_step.cases; simp; intro obeys_withState
        obeys_if obeys_bindM obeys_ret obeys_check_dependencies obeys_Task_resolve_dependencies assms)
  show ?thesis
    by (induction n arbitrary: stack) (auto intro!: obeys_ret obeys_withState obeys_bindM step)
qed

end

end
