(* ===== verification/Bunch_Ops.thy ===== *)
theory Bunch_Ops
  imports Task_Run
begin

text \<open>
  The bunch (\<^verbatim>\<open>bunch.py\<close>): its flows by name, its overall status and the scheduling state of the
  service, together with the commands of \<^verbatim>\<open>scheduler.py\<close> that halt and resume the service. What the
  shell task class registers to drop its deferred process starts (\<open>_skip_pending_commands\<close>) is the
  parameter \<open>skip_pending\<close>.
\<close>

section \<open>Scheduling state of the service\<close>

definition reason_text :: "halt_cause \<Rightarrow> string" where
  "reason_text c = (case c of manual \<Rightarrow> ''manual pause'' | recovery \<Rightarrow> ''recovery pending''
     | checkpoint_failure \<Rightarrow> ''checkpoint failure'')"

text \<open>The most severe cause names the reason.\<close>

definition expected_reason :: "halt_cause list \<Rightarrow> string option" where
  "expected_reason causes =
     map_option reason_text (find (\<lambda>c. c \<in> set causes) [checkpoint_failure, recovery, manual])"

text \<open>
  The validator of the model: pydantic raises a \<open>ValidationError\<close>, which is a \<open>ValueError\<close>.
\<close>

definition consistent :: "server_state \<Rightarrow> exc + server_state" where
  "consistent s =
     (if \<not> distinct (ss_halt_causes s) then Inl (PyError PyValueError)
      else if ss_status s = running
      then (if ss_halt_causes s \<noteq> [] \<or> ss_status_reason s \<noteq> None then Inl (PyError PyValueError) else Inr s)
      else (if ss_status_reason s \<noteq> expected_reason (ss_halt_causes s) then Inl (PyError PyValueError)
            else Inr s))"

definition ServerState :: server_state where
  "ServerState = \<lparr>ss_status = running, ss_status_reason = None, ss_halt_causes = []\<rparr>"

definition from_causes :: "halt_cause list \<Rightarrow> exc + server_state" where
  "from_causes causes =
     (if causes = [] then Inr ServerState
      else consistent \<lparr>ss_status = halted, ss_status_reason = expected_reason causes, ss_halt_causes = causes\<rparr>)"

section \<open>Flows\<close>

text \<open>\<open>add_flow\<close> of a flow object, the root of a tree, and \<open>delete_flow\<close> by name.\<close>

definition add_flow :: "pos \<Rightarrow> unit wprog" where
  "add_flow root =
     seqM (ensure_definition_generation root None)
     (withState (\<lambda>w.
       seqM (modify (\<lambda>w. w\<lparr>w_flows := dict_set (name_of w root) (hd root) (w_flows w)\<rparr>))
       (seqM (updN root (upd_flow (\<lambda>f. f\<lparr>in_bunch := True\<rparr>)))
         (mark (''/'' @ name_of w root) {} True))))"

definition delete_flow :: "string \<Rightarrow> pos wprog" where
  "delete_flow flow_name = withState (\<lambda>w. case find_flow w flow_name of
      None \<Rightarrow> raise NodeNotFoundError
    | Some root \<Rightarrow>
        seqM (modify (\<lambda>w. w\<lparr>w_flows := AList.delete flow_name (w_flows w)\<rparr>))
        (seqM (updN root (upd_flow (\<lambda>f. f\<lparr>in_bunch := False\<rparr>)))
        (seqM (mark (''/'' @ flow_name) {} True) (ret root))))"

text \<open>\<open>Bunch.get_node_status\<close>: \<open>max\<close> over the flows, each read with the cache of its children.\<close>

definition get_node_status :: "node_status wprog" where
  "get_node_status = withState (\<lambda>w.
     if w_flows w = [] then ret unknown
     else bindM (collectM (w_flows w) (\<lambda>(name, k). bindM (computed_status [k]) (\<lambda>s. ret [s])))
            (\<lambda>ss. ret (Max (set ss))))"

section \<open>Service commands\<close>

record status_response =
  sr_flag :: int
  sr_message :: string
  sr_status :: server_status
  sr_status_reason :: "string option"
  sr_halt_causes :: "halt_cause list"
  sr_last_checkpoint_at :: "string option"

text \<open>What the scheduler knows of its checkpoint manager: the last checkpoint and a failure reason.\<close>

record checkpoint_manager =
  cm_last_checkpoint_at :: "string option"
  cm_failure_reason :: "string option"

definition server_status_response :: "checkpoint_manager option \<Rightarrow> string option \<Rightarrow> int \<Rightarrow> string
    \<Rightarrow> status_response wprog" where
  "server_status_response cm own_last flag message = gets (\<lambda>w.
     let s = w_server_state w;
         last = (case cm of Some m \<Rightarrow> cm_last_checkpoint_at m | None \<Rightarrow> own_last);
         msg = (case cm of
             Some m \<Rightarrow> (case cm_failure_reason m of
                 Some r \<Rightarrow> if message = [] then ''checkpoint write failed: '' @ r else message
               | None \<Rightarrow> message)
           | None \<Rightarrow> message) in
     \<lparr>sr_flag = flag, sr_message = msg, sr_status = ss_status s, sr_status_reason = ss_status_reason s,
      sr_halt_causes = ss_halt_causes s, sr_last_checkpoint_at = last\<rparr>)"

definition set_server_state :: "halt_cause list \<Rightarrow> unit wprog" where
  "set_server_state causes = (case from_causes causes of
      Inl e \<Rightarrow> raise e
    | Inr s \<Rightarrow> seqM (modify (\<lambda>w. w\<lparr>w_server_state := s\<rparr>)) (mark ''/'' {''service''} False))"

definition run_command_server_halt :: "unit wprog option \<Rightarrow> checkpoint_manager option \<Rightarrow> string option
    \<Rightarrow> status_response wprog" where
  "run_command_server_halt skip_pending cm own_last = withState (\<lambda>w.
     let causes = ss_halt_causes (w_server_state w) in
     seqM (whenM (manual \<notin> set causes) (set_server_state (causes @ [manual])))
     (seqM (case skip_pending of None \<Rightarrow> ret () | Some skip \<Rightarrow> skip)
       (server_status_response cm own_last 0 ''service halted in memory'')))"

definition run_command_server_resume :: "checkpoint_manager option \<Rightarrow> string option \<Rightarrow> status_response wprog" where
  "run_command_server_resume cm own_last = withState (\<lambda>w.
     let causes = filter (\<lambda>c. c \<noteq> manual \<and> c \<noteq> recovery) (ss_halt_causes (w_server_state w)) in
     seqM (whenM (causes \<noteq> ss_halt_causes (w_server_state w)) (set_server_state causes))
       (if checkpoint_failure \<in> set causes
        then server_status_response cm own_last 33 ''checkpoint failure still halts the service''
        else server_status_response cm own_last 0 ''service running in memory''))"

definition begin_shutdown :: "unit wprog option \<Rightarrow> unit wprog" where
  "begin_shutdown skip_pending =
     seqM (modify (\<lambda>w. w\<lparr>w_service_stopping := True\<rparr>))
       (case skip_pending of None \<Rightarrow> ret () | Some skip \<Rightarrow> skip)"

section \<open>The service state stays consistent\<close>

definition service_ok :: "world \<Rightarrow> bool" where
  "service_ok w \<longleftrightarrow> consistent (w_server_state w) = Inr (w_server_state w)
     \<and> (ss_status (w_server_state w) = halted \<longleftrightarrow> ss_halt_causes (w_server_state w) \<noteq> [])"

lemma from_causes_distinct:
  "distinct causes \<Longrightarrow> from_causes causes = Inr \<lparr>ss_status = (if causes = [] then running else halted),
     ss_status_reason = expected_reason causes, ss_halt_causes = causes\<rparr>"
  by (simp add: from_causes_def consistent_def ServerState_def expected_reason_def)

lemma mark_service: "\<exists>t. mark ''/'' {''service''} False w = (Inr (), w\<lparr>w_tracker := t\<rparr>)"
proof (cases "w_tracker w")
  case None
  have "w = w\<lparr>w_tracker := w_tracker w\<rparr>" by simp
  with None show ?thesis by (auto simp: mark_def prog_defs intro: exI [of _ "w_tracker w"])
next
  case (Some q)
  then obtain q' where "qc_mark (w_monotonic w) ''/'' {''service''} False q = Inr q'"
    by (auto simp: qc_mark_def FIELD_GROUPS_def Let_def split_beta)
  with Some show ?thesis by (auto simp: mark_def prog_defs)
qed

definition state_of_causes :: "halt_cause list \<Rightarrow> server_state" where
  "state_of_causes causes = \<lparr>ss_status = (if causes = [] then running else halted),
     ss_status_reason = expected_reason causes, ss_halt_causes = causes\<rparr>"

lemma set_server_state_effect:
  assumes "distinct causes"
  obtains t where "set_server_state causes w = (Inr (), w\<lparr>w_server_state := state_of_causes causes, w_tracker := t\<rparr>)"
proof -
  obtain t where "mark ''/'' {''service''} False (w\<lparr>w_server_state := state_of_causes causes\<rparr>)
      = (Inr (), w\<lparr>w_server_state := state_of_causes causes\<rparr>\<lparr>w_tracker := t\<rparr>)"
    using mark_service by blast
  then have "set_server_state causes w = (Inr (), w\<lparr>w_server_state := state_of_causes causes, w_tracker := t\<rparr>)"
    using from_causes_distinct [OF assms] by (simp add: set_server_state_def state_of_causes_def prog_defs)
  then show thesis by (rule that)
qed

lemma service_ok_causes:
  "distinct causes \<Longrightarrow> service_ok (w\<lparr>w_server_state := state_of_causes causes, w_tracker := t\<rparr>)"
  by (auto simp: service_ok_def consistent_def state_of_causes_def expected_reason_def)

lemma service_okD:
  assumes "service_ok w"
  shows "distinct (ss_halt_causes (w_server_state w))"
  using assms by (auto simp: service_ok_def consistent_def split: if_splits)

lemma halt_effect:
  assumes "service_ok w"
  obtains w' where "run_command_server_halt None cm own w = server_status_response cm own 0 ''service halted in memory'' w'"
    and "service_ok w'" and "set (ss_halt_causes (w_server_state w')) = insert manual (set (ss_halt_causes (w_server_state w)))"
    and "w_attrs w' = w_attrs w" "w_flows w' = w_flows w"
proof (cases "manual \<in> set (ss_halt_causes (w_server_state w))")
  case True
  then show thesis
    using assms by (intro that [of w]) (auto simp: run_command_server_halt_def Let_def withState_def whenM_def)
next
  case False
  let ?c = "ss_halt_causes (w_server_state w) @ [manual]"
  have d: "distinct ?c" using service_okD [OF assms] False by simp
  obtain t where t: "set_server_state ?c w = (Inr (), w\<lparr>w_server_state := state_of_causes ?c, w_tracker := t\<rparr>)"
    using d by (rule set_server_state_effect)
  show thesis
    by (rule that [of "w\<lparr>w_server_state := state_of_causes ?c, w_tracker := t\<rparr>"])
      (use False t service_ok_causes [OF d] in \<open>simp_all add: run_command_server_halt_def Let_def withState_def
        whenM_def seqM_def bindM_def state_of_causes_def ret_def\<close>)
qed

lemma resume_effect:
  assumes "service_ok w" and "rest = filter (\<lambda>c. c \<noteq> manual \<and> c \<noteq> recovery) (ss_halt_causes (w_server_state w))"
  obtains w' where "run_command_server_resume cm own w = (if checkpoint_failure \<in> set rest
        then server_status_response cm own 33 ''checkpoint failure still halts the service''
        else server_status_response cm own 0 ''service running in memory'') w'"
    and "service_ok w'" and "ss_halt_causes (w_server_state w') = rest"
    and "w_attrs w' = w_attrs w" "w_flows w' = w_flows w"
proof (cases "rest = ss_halt_causes (w_server_state w)")
  case True
  then show thesis
    using assms by (intro that [of w]) (auto simp: run_command_server_resume_def Let_def withState_def whenM_def)
next
  case False
  have d: "distinct rest" using service_okD [OF assms(1)] assms(2) by simp
  obtain t where t: "set_server_state rest w = (Inr (), w\<lparr>w_server_state := state_of_causes rest, w_tracker := t\<rparr>)"
    using d by (rule set_server_state_effect)
  have "run_command_server_resume cm own w = (if checkpoint_failure \<in> set rest
        then server_status_response cm own 33 ''checkpoint failure still halts the service''
        else server_status_response cm own 0 ''service running in memory'') (w\<lparr>w_server_state := state_of_causes rest, w_tracker := t\<rparr>)"
    unfolding run_command_server_resume_def Let_def withState_def whenM_def assms(2) [symmetric]
    using False t by (simp add: seqM_def bindM_def)
  then show thesis
    using service_ok_causes [OF d] by (rule that) (simp_all add: state_of_causes_def)
qed

lemma causes_left:
  "filter (\<lambda>c. c \<noteq> manual \<and> c \<noteq> recovery) causes = [] \<longleftrightarrow> checkpoint_failure \<notin> set causes"
proof
  assume "checkpoint_failure \<notin> set causes"
  then have "c = manual \<or> c = recovery" if "c \<in> set causes" for c
    using that by (cases c) auto
  then show "filter (\<lambda>c. c \<noteq> manual \<and> c \<noteq> recovery) causes = []" by (auto simp: filter_empty_conv)
qed (auto simp: filter_empty_conv)

text \<open>
  The service commands keep the scheduling state consistent: halting adds the manual cause once
  and leaves the service halted, resuming releases the manual and the recovery cause only, so that
  the service runs again exactly when no checkpoint failure is left, and the answer says so with
  flag 33. Neither command fails, and neither touches a node.
\<close>

lemma service_commands:
  assumes "service_ok w"
  shows "(\<exists>w'. run_command_server_halt None cm own w =
        (Inr \<lparr>sr_flag = 0, sr_message = ''service halted in memory'', sr_status = halted,
           sr_status_reason = ss_status_reason (w_server_state w'), sr_halt_causes = ss_halt_causes (w_server_state w'),
           sr_last_checkpoint_at = (case cm of Some m \<Rightarrow> cm_last_checkpoint_at m | None \<Rightarrow> own)\<rparr>, w')
      \<and> service_ok w' \<and> set (ss_halt_causes (w_server_state w')) = insert manual (set (ss_halt_causes (w_server_state w)))
      \<and> w_attrs w' = w_attrs w \<and> w_flows w' = w_flows w)
    \<and> (\<exists>r w'. run_command_server_resume cm own w = (Inr r, w')
      \<and> service_ok w' \<and> set (ss_halt_causes (w_server_state w')) = set (ss_halt_causes (w_server_state w)) - {manual, recovery}
      \<and> (ss_status (w_server_state w') = running \<longleftrightarrow> checkpoint_failure \<notin> set (ss_halt_causes (w_server_state w)))
      \<and> (sr_flag r = 33 \<longleftrightarrow> checkpoint_failure \<in> set (ss_halt_causes (w_server_state w)))
      \<and> w_attrs w' = w_attrs w \<and> w_flows w' = w_flows w)"
proof (rule conjI, goal_cases)
  case 1
  obtain w' where "run_command_server_halt None cm own w = server_status_response cm own 0 ''service halted in memory'' w'"
    and ok: "service_ok w'" "set (ss_halt_causes (w_server_state w')) = insert manual (set (ss_halt_causes (w_server_state w)))"
      "w_attrs w' = w_attrs w" "w_flows w' = w_flows w"
    using assms by (rule halt_effect)
  moreover have "ss_status (w_server_state w') = halted" using ok(1,2) by (auto simp: service_ok_def)
  ultimately show ?case
    by (intro exI [of _ w']) (auto simp: server_status_response_def gets_def Let_def split: option.splits)
next
  case 2
  let ?rest = "filter (\<lambda>c. c \<noteq> manual \<and> c \<noteq> recovery) (ss_halt_causes (w_server_state w))"
  obtain w' where run: "run_command_server_resume cm own w = (if checkpoint_failure \<in> set ?rest
        then server_status_response cm own 33 ''checkpoint failure still halts the service''
        else server_status_response cm own 0 ''service running in memory'') w'"
    and ok: "service_ok w'" "ss_halt_causes (w_server_state w') = ?rest"
      "w_attrs w' = w_attrs w" "w_flows w' = w_flows w"
    using assms refl by (rule resume_effect)
  have "ss_status (w_server_state w') = running \<longleftrightarrow> checkpoint_failure \<notin> set (ss_halt_causes (w_server_state w))"
    using ok(1,2) causes_left by (cases "ss_status (w_server_state w')") (auto simp: service_ok_def)
  with run ok show ?case
    by (cases "checkpoint_failure \<in> set (ss_halt_causes (w_server_state w))")
      (auto simp: server_status_response_def gets_def Let_def)
qed

section \<open>The registry of flows\<close>

lemma mark_after: "\<exists>t. after (mark path g i w) = w\<lparr>w_tracker := t\<rparr>"
proof -
  have "\<exists>t. w = w\<lparr>w_tracker := t\<rparr>" by (rule exI [of _ "w_tracker w"]) simp
  then show ?thesis by (auto simp: mark_def prog_defs split: option.splits sum.splits)
qed

lemma mark_run:
  assumes "mark path g i w = (r, w')"
  obtains t where "w' = w\<lparr>w_tracker := t\<rparr>"
  using mark_after [of path g i w] assms by auto

lemma add_flow_effect:
  assumes "add_flow [k] w = (Inr (), w')"
  shows "find_flow w' n = (if n = name_of w [k] then Some [k] else find_flow w n)"
    and "in_bunch (n_flow (attr w' [k]))" and "name_of w' q = name_of w q"
proof -
  let ?new = "\<lambda>w1. upd [k] (upd_flow (\<lambda>f. f\<lparr>in_bunch := True\<rparr>)) (w1\<lparr>w_flows := dict_set (name_of w1 [k]) k (w_flows w1)\<rparr>)"
  obtain u w1 where w1: "ensure_definition_generation [k] None w = (Inr u, w1)"
    and rest: "withState (\<lambda>w. seqM (modify (\<lambda>w. w\<lparr>w_flows := dict_set (name_of w [k]) (hd [k]) (w_flows w)\<rparr>))
       (seqM (updN [k] (upd_flow (\<lambda>f. f\<lparr>in_bunch := True\<rparr>))) (mark (''/'' @ name_of w [k]) {} True))) w1 = (Inr (), w')"
    using assms unfolding add_flow_def by (rule seqM_InrE)
  from rest have "mark (''/'' @ name_of w1 [k]) {} True (?new w1) = (Inr (), w')"
    by (simp add: withState_def seqM_def bindM_def updN_def modify_def)
  then obtain t where t: "w' = (?new w1)\<lparr>w_tracker := t\<rparr>" by (rule mark_run)
  have sk: "skeleton w1 = skeleton w"
    using skeleton_obeys [OF skel.obeys_ensure_definition_generation, of "[k]" None w] w1 by simp
  show "find_flow w' n = (if n = name_of w [k] then Some [k] else find_flow w n)"
    by (simp add: t find_flow_def dict_get_set skeletonD(3,4) [OF sk])
  show "in_bunch (n_flow (attr w' [k]))" by (simp add: t attr_upd upd_flow_def)
  show "name_of w' q = name_of w q" by (simp add: t attr_upd upd_flow_def skeletonD(3) [OF sk])
qed

text \<open>
  Adding a flow to the bunch and deleting it by its name are inverse on the registry: in between the
  flow is found under its name and belongs to the bunch, the deletion returns that very flow and detaches
  it, and no other name is affected by either. Deleting a name that is not there is refused and changes nothing.
\<close>

lemma flow_registry:
  assumes "add_flow [k] w = (Inr (), w1)" and "delete_flow (name_of w [k]) w1 = (r, w2)"
  shows "find_flow w1 (name_of w [k]) = Some [k] \<and> in_bunch (n_flow (attr w1 [k]))
    \<and> (\<forall>root. r = Inr root \<longrightarrow> root = [k] \<and> find_flow w2 (name_of w [k]) = None
         \<and> \<not> in_bunch (n_flow (attr w2 [k])))
    \<and> (\<forall>n. n \<noteq> name_of w [k] \<longrightarrow> find_flow w2 n = find_flow w n)
    \<and> (\<forall>n. find_flow w n = None \<longrightarrow> delete_flow n w = (Inl NodeNotFoundError, w))"
proof -
  note add = add_flow_effect [OF assms(1)]
  let ?n = "name_of w [k]"
  let ?del = "upd [k] (upd_flow (\<lambda>f. f\<lparr>in_bunch := False\<rparr>)) (w1\<lparr>w_flows := AList.delete ?n (w_flows w1)\<rparr>)"
  have found: "find_flow w1 ?n = Some [k]" using add(1) by simp
  obtain r1 w2' where m: "mark (''/'' @ ?n) {} True ?del = (r1, w2')" by (rule prod.exhaust)
  then obtain t where t: "w2' = ?del\<lparr>w_tracker := t\<rparr>" by (rule mark_run)
  have run: "w2 = w2'" "\<And>root. r = Inr root \<Longrightarrow> root = [k]"
    using assms(2) m by (auto simp: delete_flow_def withState_def found seqM_def bindM_def updN_def modify_def
        ret_def split: sum.splits)
  have flows: "find_flow w2 n = (if n = ?n then None else find_flow w1 n)" for n
    by (simp add: run(1) t find_flow_def delete_conv' restrict_map_def)
  have "delete_flow n w = (Inl NodeNotFoundError, w)" if "find_flow w n = None" for n
    using that by (simp add: delete_flow_def withState_def raise_def)
  moreover have "\<not> in_bunch (n_flow (attr w2 [k]))" by (simp add: run(1) t attr_upd upd_flow_def)
  ultimately show ?thesis using found add(1,2) run(2) flows by auto
qed

end
