(* ===== verification/Control_Commands.thy ===== *)
theory Control_Commands
  imports Report_Safety Scheduling Bunch_Ops
begin

text \<open>
  The operator commands of \<^verbatim>\<open>scheduler.py\<close> on nodes: requeue, suspend, resume, run, force,
  free-dependencies and begin. Each definition is the operation as written, over all the targets of
  a command; the adapter that splits a command into single targets is in the theory of the batches.
\<close>

section \<open>Guards and paths\<close>

definition require_begun :: "pos \<Rightarrow> unit wprog" where
  "require_begun p = withState (\<lambda>w. case get_flow w p of
      None \<Rightarrow> ret ()
    | Some f \<Rightarrow> if begun (n_flow (attr w f)) then ret () else raise FlowStateError)"

text \<open>\<open>Bunch.find_path\<close>: a node, or a variable of a node behind a colon.\<close>

datatype path_target = TNode pos | TVariable variable

definition colon :: char where "colon = CHR '':''"

definition find_path :: "world \<Rightarrow> string \<Rightarrow> exc + path_target option" where
  "find_path w a_path = (case py_split colon a_path of
      [_] \<Rightarrow> (case bunch_find_node w a_path of
          Inl e \<Rightarrow> Inl e | Inr r \<Rightarrow> Inr (map_option TNode r))
    | [node_part, variable_name] \<Rightarrow> (case bunch_find_node w node_part of
          Inl e \<Rightarrow> Inl e
        | Inr None \<Rightarrow> Inr None
        | Inr (Some p) \<Rightarrow> (case find_variable w p variable_name of
            Inl e \<Rightarrow> Inl e | Inr v \<Rightarrow> Inr (map_option TVariable v)))
    | _ \<Rightarrow> Inr None)"

section \<open>Requeue, suspend, resume, free dependencies\<close>

definition run_command_requeue :: "string list \<Rightarrow> unit wprog" where
  "run_command_requeue paths = forM paths (\<lambda>path. bindM (find_node_or_raise path) (\<lambda>p.
     seqM (require_begun p) (requeue_node p True)))"

definition run_command_suspend :: "string list \<Rightarrow> unit wprog" where
  "run_command_suspend paths = forM paths (\<lambda>path. bindM (find_node_or_raise path) suspend)"

definition run_command_resume :: "string list \<Rightarrow> unit wprog" where
  "run_command_resume paths = forM paths (\<lambda>path. bindM (find_node_or_raise path) resume)"

datatype dep_type = DEP_ALL | DEP_TRIGGER | DEP_TIME

definition dep_type_value :: "dep_type \<Rightarrow> string" where
  "dep_type_value d = (case d of DEP_ALL \<Rightarrow> ''all'' | DEP_TRIGGER \<Rightarrow> ''trigger'' | DEP_TIME \<Rightarrow> ''time'')"

definition run_command_free_dep :: "string list \<Rightarrow> dep_type \<Rightarrow> unit wprog" where
  "run_command_free_dep paths d = forM paths (\<lambda>path. bindM (find_node_or_raise path) (\<lambda>p.
     seqM (require_begun p) (free_dependencies p (Some (dep_type_value d)))))"

section \<open>Run\<close>

text \<open>Task classes with coroutine hooks, which \<open>ensure_synchronous_task\<close> refuses, do not occur.\<close>

definition run_node :: "(pos \<Rightarrow> run_hooks) \<Rightarrow> bool \<Rightarrow> string \<Rightarrow> bool wprog" where
  "run_node hooks force path = bindM (find_node_or_raise path) (\<lambda>p.
     seqM (require_begun p) (withState (\<lambda>w.
       if \<not> is_task w p then raise NodeTypeError
       else seqM bunch_require_running (withState (\<lambda>w.
         if \<not> force \<and> status_of w p \<in> {submitted, active} then raise FlowStateError
         else bindM (run (hooks p) p) (\<lambda>ok. if ok then ret True else raise JobSubmissionError))))))"

definition run_command_run :: "(pos \<Rightarrow> run_hooks) \<Rightarrow> string list \<Rightarrow> bool \<Rightarrow> unit wprog" where
  "run_command_run hooks paths force = forM paths (\<lambda>path. bindM (run_node hooks force path) (\<lambda>_. ret ()))"

section \<open>Force\<close>

definition unknown_targets :: "world \<Rightarrow> pos list \<Rightarrow> pos list" where
  "unknown_targets w targets = filter (\<lambda>q. is_task w q \<and> unknown_reason w q \<noteq> None) targets"

text \<open>An in-flight status may only be imposed where a current attempt exists and the limits have room.\<close>

definition current_attempt :: "world \<Rightarrow> pos \<Rightarrow> bool" where
  "current_attempt w q \<longleftrightarrow> (let t = n_task (attr w q) in
     status_of w q \<in> {submitted, active} \<and> try_no t \<noteq> 0
   \<and> attempt_id t \<noteq> None \<and> attempt_id t \<noteq> Some [] \<and> job_password t \<noteq> None \<and> job_password t \<noteq> Some []
   \<and> (case get_flow w q of None \<Rightarrow> True | Some f \<Rightarrow> task_generation t = flow_generation (n_flow (attr w f))))"

definition preflight :: "pos \<Rightarrow> unit wprog" where
  "preflight q = withState (\<lambda>w.
     if \<not> is_task w q then ret ()
     else if \<not> current_attempt w q then raise FlowStateError
     else bindM (check_in_limit_up q) (\<lambda>ok. if ok then ret () else raise FlowStateError))"

definition force_node :: "pos \<Rightarrow> string \<Rightarrow> bool \<Rightarrow> unit wprog" where
  "force_node p state recursive = (case NodeStatus_of_name state of
      None \<Rightarrow> raise UnsupportedValueError
    | Some s \<Rightarrow> withState (\<lambda>w.
        let targets = (if recursive then walk (subtree w p) p else [p]) in
        if unknown_targets w targets \<noteq> [] \<and> (recursive \<or> length targets \<noteq> 1 \<or> \<not> is_task w p
             \<or> s \<notin> {complete, aborted})
        then raise FlowStateError
        else
          seqM (whenM (s = submitted \<or> s = active) (forM targets preflight))
          (seqM (whenM (s = queued)
             (forM targets (\<lambda>q. withState (\<lambda>w. whenM (is_task w q) (clear_current_attempt q)))))
            (if recursive then sink_status_change p s else set_node_status p s))))"

definition force_event :: "pos \<Rightarrow> nat \<Rightarrow> string \<Rightarrow> unit wprog" where
  "force_event p i state =
     (if state \<noteq> ''set'' \<and> state \<noteq> ''clear'' then raise UnsupportedValueError
      else withState (\<lambda>w.
        let e = n_events (attr w p) ! i; v = (state = ''set'') in
        seqM (updN p (put_event i (e\<lparr>ev_value := v\<rparr>)))
          (whenM (v \<noteq> ev_value e) (notify p [''runtime'']))))"

definition force_path :: "string \<Rightarrow> string \<Rightarrow> bool \<Rightarrow> unit wprog" where
  "force_path variable_path state recursive =
     bindM (liftE (\<lambda>w. find_path w variable_path)) (\<lambda>target. case target of
        None \<Rightarrow> raise NodeNotFoundError
      | Some (TNode p) \<Rightarrow> seqM (require_begun p) (force_node p state recursive)
      | Some (TVariable v) \<Rightarrow>
          bindM (liftE (\<lambda>w. bunch_find_node w (py_split colon variable_path ! 0))) (\<lambda>host. case host of
             None \<Rightarrow> raise (PyError PyAttributeError)
           | Some p \<Rightarrow> seqM (require_begun p) (case v of
                 VarEvent i \<Rightarrow> force_event p i state
               | _ \<Rightarrow> raise NodeTypeError)))"

definition run_command_force :: "string list \<Rightarrow> string \<Rightarrow> bool \<Rightarrow> unit wprog" where
  "run_command_force paths state recursive = forM paths (\<lambda>path. force_path path state recursive)"

section \<open>Begin\<close>

definition begin_targets :: "world \<Rightarrow> string \<Rightarrow> exc + pos list" where
  "begin_targets w flow_name =
     (if flow_name \<noteq> [] then (case find_flow w flow_name of None \<Rightarrow> Inl NodeNotFoundError | Some f \<Rightarrow> Inr [f])
      else Inr (map (\<lambda>(name, k). [k]) (w_flows w)))"

definition run_command_begin :: "string \<Rightarrow> bool \<Rightarrow> unit wprog" where
  "run_command_begin flow_name force = bindM (liftE (\<lambda>w. begin_targets w flow_name)) (\<lambda>flows. withState (\<lambda>w.
     if \<not> force \<and> list_ex (\<lambda>f. begun (n_flow (attr w f))) flows then raise FlowStateError
     else if list_ex (\<lambda>f. has_unknown w (walk (subtree w f) f)) flows then raise FlowStateError
     else forM flows (\<lambda>f. flow_begin f force)))"

end
