(* ===== verification/Flow_Pass.thy ===== *)
theory Flow_Pass
  imports Scheduling
begin

text \<open>
  The incremental pass of \<^verbatim>\<open>scheduler.py\<close> against the recursive one. \<open>_flow_work\<close> keeps an explicit
  stack of child iterators and visits one node per step, so that the main loop can cut a large flow
  into slices; when nothing else runs in between and there are steps enough, it leaves exactly the
  world that \<open>_process_flow\<close> leaves, and raises exactly what that raises.
\<close>

section \<open>The marks a pass re-reads\<close>

definition begun_view :: "world \<Rightarrow> pos \<Rightarrow> bool" where
  "begun_view w = (\<lambda>q. begun (n_flow (attr w q)))"

definition pass_view :: "world \<Rightarrow> _" where
  "pass_view w = (skeleton w, begun_view w)"

lemma begun_view_upd: "(\<And>a. begun (n_flow (f a)) = begun (n_flow a)) \<Longrightarrow> begun_view (upd p f w) = begun_view w"
  by (simp add: begun_view_def fun_eq_iff attr_upd)

interpretation marks: world_frame "same begun_view"
proof (intro world_frame.intro benign_frame.intro frame_same, unfold_locales, goal_cases)
  case (2 f w p)
  then show ?case unfolding same_def by (intro begun_view_upd) (simp add: benign_def core_def)
next
  case (7 w p s)
  show ?case
    by (simp add: same_def write_status_def Let_def begun_view_upd write_state_def child_status_changed_def
        split: option.splits)
qed (simp_all add: same_def begun_view_upd upd_limit_def count_children_def, simp_all add: begun_view_def)

interpretation pview: frame "same pass_view"
  by (rule frame_same)

lemma obeys_pass_view: "obeys (same skeleton) m \<Longrightarrow> obeys (same begun_view) m \<Longrightarrow> obeys (same pass_view) m"
  by (simp add: obeys_def same_def pass_view_def)

lemma marks_upd_flow: "(\<And>f. begun (g f) = begun f) \<Longrightarrow> obeys (same begun_view) (updN p (upd_flow g))"
  by (simp add: obeys_def same_def updN_def prog_defs begun_view_upd upd_flow_def)

lemma marks_update_calendar: "obeys (same begun_view) (update_calendar root t)"
  unfolding update_calendar_def Flow_update_generated_parameters_def check_repeat_parameters_def
    fill_calendar_nodes_def visit_calendar_nodes_def Let_def set_calendar_def
  by (intro frame_intro marks_upd_flow) simp_all

lemma pass_view_check: "obeys (same pass_view) (check_dependencies parse p)"
  by (intro obeys_pass_view skel.obeys_check_dependencies marks.obeys_check_dependencies)

definition quiet_hooks :: "(pos \<Rightarrow> run_hooks) \<Rightarrow> bool" where
  "quiet_hooks hooks \<longleftrightarrow> (\<forall>q. obeys (same pass_view) (run (hooks q) q))"

lemma pass_view_Task_resolve:
  "quiet_hooks hooks \<Longrightarrow> obeys (same pass_view) (Task_resolve_dependencies parse hooks p)"
  unfolding Task_resolve_dependencies_def
  by (rule pview.obeys_bindM, rule obeys_pass_view [OF skel.obeys_Task_check_dependencies
        marks.obeys_Task_check_dependencies], intro pview.obeys_bindM pview.obeys_if pview.obeys_ret)
     (simp add: quiet_hooks_def)

lemma pass_viewD:
  assumes "obeys (same pass_view) m" and "m w = (r, w')"
  shows "skeleton w' = skeleton w" "begun (n_flow (attr w' q)) = begun (n_flow (attr w q))"
proof -
  have "pass_view w' = pass_view w" using assms by (metis obeys_same_wp snd_conv)
  then show "skeleton w' = skeleton w" "begun (n_flow (attr w' q)) = begun (n_flow (attr w q))"
    by (simp_all add: pass_view_def begun_view_def fun_eq_iff)
qed

lemma pass_over_cong:
  assumes "skeleton w' = skeleton w" "begun (n_flow (attr w' root)) = begun (n_flow (attr w root))"
  shows "pass_over w' root = pass_over w root"
  using assms skeletonD [OF assms(1)] by (simp add: pass_over_def service_idle_def find_flow_def)

text \<open>The hooks of the base class are quiet.\<close>

lemma marks_upd_task: "obeys (same begun_view) (updN p (upd_task g))"
  by (rule marks.obeys_updN) (simp add: core_defs)

lemma marks_fresh: "obeys (same begun_view) fresh_uuid" "obeys (same begun_view) fresh_token"
  by (simp_all add: obeys_def same_def fresh_uuid_def fresh_token_def prog_defs begun_view_def)

lemma marks_increment_try_no: "obeys (same begun_view) (increment_try_no p)"
  unfolding increment_try_no_def set_generation_def ensure_definition_generation_def
    Task_update_generated_parameters_def check_repeat_parameters_def
  by (intro frame_intro marks_upd_flow marks_upd_task marks_fresh) simp_all

lemma marks_Task_hooks: "obeys (same begun_view) (run Task_hooks p)"
proof -
  have fin: "same begun_view w (upd p (upd_task (set_prepared False)) w)" for w
    by (simp add: same_def begun_view_upd upd_task_def)
  show ?thesis
    unfolding run_def prepare_run_def submit_run_def Let_def Task_hooks_def run_hooks.simps require_running_def
      bunch_require_running_def before_run_def Task_do_run_def after_run_def require_limit_capacity_def
      restore_prior_attempt_def Task_update_generated_parameters_def check_repeat_parameters_def
    by (intro frame_intro marks_upd_task marks_increment_try_no fin)
qed

lemma quiet_Task_hooks: "quiet_hooks (\<lambda>_. Task_hooks)"
  unfolding quiet_hooks_def by (intro allI obeys_pass_view skel.obeys_Task_hooks marks_Task_hooks)

section \<open>The recursive pass as a loop over the children\<close>

definition visit :: "parser \<Rightarrow> (pos \<Rightarrow> run_hooks) \<Rightarrow> world \<Rightarrow> pos \<Rightarrow> unit wprog" where
  "visit parse hooks w q = bindM (resolve_dependencies parse hooks (subtree w q) q) (\<lambda>_. ret ())"

lemma children_enumerate: "children w p = map (\<lambda>(i, t). i # p) (List.enumerate 0 (kids (subtree w p)))"
  by (rule nth_equalityI) (simp_all add: children_def arity_def nth_enumerate_eq)

lemma forM_map: "forM (map g xs) f = forM xs (\<lambda>x. f (g x))"
  by (induction xs) simp_all

lemma subtree_kid:
  assumes "valid w p" and "(i, t) \<in> set (List.enumerate 0 (kids (subtree w p)))"
  shows "subtree w (i # p) = t"
  using assms by (cases p) (auto simp: valid_def subtree_def in_set_enumerate_eq nth_opt_conv split: option.splits)

lemma forM_kids:
  assumes "valid w p"
  shows "forM (List.enumerate 0 (kids (subtree w p))) (\<lambda>(i, t). f t (i # p))
    = forM (children w p) (\<lambda>q. f (subtree w q) q)"
  unfolding children_enumerate forM_map
  by (rule forM_cong) (auto simp: subtree_kid [OF assms])

lemma visit_task:
  "is_task w1 q \<Longrightarrow> visit parse hooks w q w1 = bindM (Task_resolve_dependencies parse hooks q) (\<lambda>_. ret ()) w1"
  by (cases "subtree w q") (simp add: visit_def resolve_dependencies.simps bindM_def withState_def)

lemma visit_container:
  assumes "\<not> is_task w1 q" and "valid w q"
  shows "visit parse hooks w q w1 = bindM (check_dependencies parse q)
    (\<lambda>ok. if ok then forM (children w q) (visit parse hooks w) else ret ()) w1"
proof -
  obtain ss where ss: "subtree w q = Shape ss" by (cases "subtree w q") simp
  then have kids: "kids (subtree w q) = ss" by simp
  have "resolve_dependencies parse hooks (subtree w q) q w1 = bindM (check_dependencies parse q)
      (\<lambda>ok. if ok then seqM (forM (children w q) (visit parse hooks w)) (ret True) else ret False) w1"
    using assms(1) forM_kids [OF assms(2), of "\<lambda>t p. bindM (resolve_dependencies parse hooks t p) (\<lambda>_. ret ())"]
    by (simp add: ss resolve_dependencies.simps withState_def visit_def [abs_def] bindM_def if_distrib [of "\<lambda>f. f _"]
        cong: if_cong split: prod.splits sum.splits)
  then show ?thesis
    unfolding visit_def [of _ _ _ q] by (auto simp: prog_defs split: prod.splits sum.splits)
qed

section \<open>Steps enough\<close>

fun weight :: "shape \<Rightarrow> nat" where
  "weight (Shape ss) = 2 + sum_list (map weight ss)"

definition stack_weight :: "world \<Rightarrow> pos list list \<Rightarrow> nat" where
  "stack_weight w stack = sum_list (map (\<lambda>qs. Suc (sum_list (map (\<lambda>q. weight (subtree w q)) qs))) stack)"

lemma children_invalid: "\<not> valid w q \<Longrightarrow> children w q = []"
  by (simp add: children_def arity_def subtree_def valid_def)

lemma weight_children: "weight (subtree w q) = 2 + sum_list (map (\<lambda>q. weight (subtree w q)) (children w q))"
proof (cases "valid w q")
  case True
  have "map (\<lambda>q. weight (subtree w q)) (children w q) = map weight (kids (subtree w q))"
    unfolding children_enumerate
    by (rule nth_equalityI) (auto simp: nth_enumerate_eq subtree_kid [OF True] in_set_enumerate_eq)
  then show ?thesis by (cases "subtree w q") simp
qed (simp add: children_invalid, simp add: subtree_def valid_def)

lemma children_valid: "valid w q \<Longrightarrow> r \<in> set (children w q) \<Longrightarrow> valid w r"
  by (cases "q = []") (auto simp: children_def valid_child, simp add: valid_def)

lemma forM_concat_Cons: "forM (concat ((q # qs) # stack)) f = seqM (f q) (forM (concat (qs # stack)) f)"
  by simp

lemma flow_steps_visit:
  assumes hooks: "quiet_hooks hooks"
    and "skeleton w = skeleton w0" "\<not> pass_over w root" "stack_weight w0 stack \<le> n"
    and "\<forall>qs \<in> set stack. \<forall>q \<in> set qs. valid w0 q"
  shows "flow_steps n parse hooks root stack w =
    seqM (forM (concat stack) (visit parse hooks w0)) (ret []) w"
  using assms(2-)
proof (induction n arbitrary: stack w)
  case 0
  then show ?case by (cases stack) (simp_all add: stack_weight_def)
next
  case (Suc n)
  note sk = Suc.prems(1) and run = Suc.prems(2)
  show ?case
  proof (cases "(parse, hooks, root, stack)" rule: flow_step.cases)
    case (1 parse' hooks' root')
    then show ?thesis by (simp add: withState_def)
  next
    case (2 parse' hooks' root' st)
    then show ?thesis
      using Suc.prems Suc.IH [of w st] by (simp add: withState_def stack_weight_def)
  next
    case (3 parse' hooks' root' q qs st)
    then have st: "stack = (q # qs) # st" by simp
    have v: "valid w0 q" using Suc.prems(4) st by simp
    have kind: "kind_of w r = kind_of w0 r" for r by (rule skeletonD(2) [OF sk])
    have wt: "Suc (stack_weight w0 (qs # st)) + sum_list (map (\<lambda>q. weight (subtree w0 q)) (children w0 q)) \<le> n"
      using Suc.prems(3) weight_children [of w0 q] by (simp add: st stack_weight_def)
    show ?thesis
    proof (cases "is_task w q")
      case True
      obtain r w1 where w1: "Task_resolve_dependencies parse hooks q w = (r, w1)" by (rule prod.exhaust)
      note keep = pass_viewD [OF pass_view_Task_resolve [OF hooks] w1]
      have "flow_steps n parse hooks root (qs # st) w1 = seqM (forM (concat (qs # st)) (visit parse hooks w0)) (ret []) w1"
        using Suc.prems(4) wt pass_over_cong [OF keep] run st sk keep(1) by (intro Suc.IH) auto
      with w1 True run show ?thesis
        by (simp add: st forM_concat_Cons withState_def del: concat.simps)
          (simp add: bindM_def seqM_def withState_def visit_task [OF True] ret_def split: sum.splits prod.splits)
    next
      case False
      obtain r w1 where w1: "check_dependencies parse q w = (r, w1)" by (rule prod.exhaust)
      note keep = pass_viewD [OF pass_view_check w1]
      have ch: "children w q = children w0 q" by (simp add: structure_cong [OF skeletonD(1) [OF sk]])
      have go: "flow_steps n parse hooks root (qs # st) w1 = seqM (forM (concat (qs # st)) (visit parse hooks w0)) (ret []) w1"
        using Suc.prems(4) wt pass_over_cong [OF keep] run st sk keep(1) by (intro Suc.IH) auto
      have down: "flow_steps n parse hooks root (children w0 q # qs # st) w1
          = seqM (forM (concat (children w0 q # qs # st)) (visit parse hooks w0)) (ret []) w1"
        using Suc.prems(4) wt pass_over_cong [OF keep] run st sk keep(1) children_valid [OF v]
        by (intro Suc.IH) (auto simp: stack_weight_def)
      have "flow_steps (Suc n) parse hooks root stack w = (case r of Inl e \<Rightarrow> (Inl e, w1)
          | Inr ok \<Rightarrow> flow_steps n parse hooks root (if ok then children w0 q # qs # st else qs # st) w1)"
        using w1 False run by (simp add: st withState_def bindM_def ret_def ch split: sum.splits)
      moreover have "visit parse hooks w0 q w = (case r of Inl e \<Rightarrow> (Inl e, w1)
          | Inr ok \<Rightarrow> (if ok then forM (children w0 q) (visit parse hooks w0) else ret ()) w1)"
        using w1 by (simp add: visit_container [OF False v] bindM_def split: sum.splits)
      ultimately show ?thesis
        using go down by (auto simp: st forM_append seqM_def bindM_assoc, simp_all add: bindM_def ret_def split: sum.splits)
    qed
  qed
qed

lemma flow_work_eq_process_flow:
  assumes "quiet_hooks hooks" and "kind_of w root = KFlow" and "valid w root"
    and "find_flow w (name_of w root) = Some root" and "weight (subtree w root) \<le> n"
  shows "flow_work n parse hooks root now w = seqM (process_flow parse hooks root now) (ret []) w"
proof (cases "service_idle w \<or> \<not> begun (n_flow (attr w root))")
  case True
  then show ?thesis by (auto simp: flow_work_def process_flow_def prog_defs)
next
  case False
  obtain r w1 where w1: "update_calendar root now w = (r, w1)" by (rule prod.exhaust)
  note keep = pass_viewD [OF obeys_pass_view [OF skel.obeys_update_calendar marks_update_calendar] w1]
  obtain ok w2 where w2: "check_dependencies parse root w1 = (ok, w2)" by (rule prod.exhaust)
  note keep2 = pass_viewD [OF pass_view_check w2]
  note sh = structure_cong [OF skeletonD(1) [OF keep(1)]]
  have w1ok: "\<not> is_task w1 root" "valid w1 root"
    using assms(2,3) skeletonD(2) [OF keep(1)] sh by simp_all
  have "\<not> pass_over w root" using False assms(4) by (simp add: pass_over_def)
  then have over: "\<not> pass_over w2 root"
    using pass_over_cong [OF keep] pass_over_cong [OF keep2] by simp
  then have idle: "\<not> service_idle w1"
    using skeletonD(5,6) [OF keep2(1)] by (simp add: pass_over_def service_idle_def)
  have ch: "children w2 root = children w1 root"
    by (simp add: structure_cong [OF skeletonD(1) [OF keep2(1)]])
  have "stack_weight w1 [children w1 root] \<le> n"
    using assms(5) weight_children [of w1 root] sh by (simp add: stack_weight_def)
  then have steps: "flow_steps n parse hooks root [children w1 root] w2
      = seqM (forM (children w1 root) (visit parse hooks w1)) (ret []) w2"
    using flow_steps_visit [OF assms(1) keep2(1) over, of "[children w1 root]" n parse] children_valid [OF w1ok(2)]
    by auto
  have "bindM (resolve_dependencies parse hooks (subtree w1 root) root) (\<lambda>_. ret ()) w1
      = bindM (check_dependencies parse root) (\<lambda>ok. if ok then forM (children w1 root) (visit parse hooks w1) else ret ()) w1"
    using visit_container [OF w1ok] by (simp add: visit_def)
  with False w1 w2 steps idle ch show ?thesis
    by (auto simp: flow_work_def process_flow_def prog_defs split: sum.splits prod.splits)
qed

text \<open>
  C3. For a flow that is in the bunch, and with at least as many steps as the flow has weight, the
  incremental pass of the main loop ends with an empty stack and does exactly what the recursive
  pass does: the same world, and the same exception when there is one.
\<close>

theorem flow_work_refines:
  assumes "quiet_hooks hooks" and "kind_of w root = KFlow" and "valid w root"
    and "find_flow w (name_of w root) = Some root" and "weight (subtree w root) \<le> n"
  shows "flow_work n parse hooks root now w = seqM (process_flow parse hooks root now) (ret []) w"
  using assms by (rule flow_work_eq_process_flow)

end
