(* ===== verification/Control_Safety.thy ===== *)
theory Control_Safety
  imports Control_Commands Flow_Pass
begin

text \<open>
  What the operator commands promise: an operation on a flow that has not begun is refused, a begin
  either concerns all its flows or changes nothing, an in-flight status is only ever imposed where a
  current attempt exists, and a submission of unknown outcome is settled by a direct, terminal force
  only.
\<close>

section \<open>Flows that have not begun\<close>

lemma forM_single: "forM [x] f = f x"
  by (rule ext) (simp add: prog_defs split: prod.splits sum.splits)

lemma find_node_found: "bunch_find_node w path = Inr (Some p) \<Longrightarrow> find_node_or_raise path w = (Inr p, w)"
  by (simp add: find_node_or_raise_def prog_defs)

lemma require_begun_refuses:
  "get_flow w p = Some f \<Longrightarrow> \<not> begun (n_flow (attr w f)) \<Longrightarrow> require_begun p w = (Inl FlowStateError, w)"
  by (simp add: require_begun_def prog_defs)

lemma guarded_unbegun:
  assumes "bunch_find_node w path = Inr (Some p)" "get_flow w p = Some f" "\<not> begun (n_flow (attr w f))"
  shows "bindM (find_node_or_raise path) (\<lambda>p. seqM (require_begun p) (k p)) w = (Inl FlowStateError, w)"
  using find_node_found [OF assms(1)] require_begun_refuses [OF assms(2,3)] by (simp add: bindM_def seqM_def)

text \<open>
  Requeue, run, free-dependencies and force of a node whose flow has not begun are refused with a
  flow state error, and nothing changes.
\<close>

lemma unbegun_refused:
  assumes "bunch_find_node w path = Inr (Some p)" and "colon \<notin> set path"
    and "get_flow w p = Some f" and "\<not> begun (n_flow (attr w f))"
  shows "run_command_requeue [path] w = (Inl FlowStateError, w)
    \<and> run_command_run hooks [path] fc w = (Inl FlowStateError, w)
    \<and> run_command_free_dep [path] d w = (Inl FlowStateError, w)
    \<and> run_command_force [path] state recursive w = (Inl FlowStateError, w)"
proof (intro conjI)
  note g = guarded_unbegun [OF assms(1,3,4)]
  show "run_command_requeue [path] w = (Inl FlowStateError, w)" "run_command_free_dep [path] d w = (Inl FlowStateError, w)"
    unfolding run_command_requeue_def run_command_free_dep_def forM_single by (rule g)+
  show "run_command_run hooks [path] fc w = (Inl FlowStateError, w)"
    unfolding run_command_run_def forM_single run_node_def by (subst bindM_def) (simp add: g)
  have "find_path w path = Inr (Some (TNode p))"
    using assms(1,2) by (simp add: find_path_def)
  then show "run_command_force [path] state recursive w = (Inl FlowStateError, w)"
    unfolding run_command_force_def forM_single force_path_def
    by (simp add: bindM_def liftE_def seqM_def require_begun_refuses [OF assms(3,4)])
qed

section \<open>Begin\<close>

lemma keeps_begun: "obeys (same begun_view) m \<Longrightarrow> obeys (keeps_inv (\<lambda>w. begun (n_flow (attr w q)))) m"
  by (auto simp: obeys_def same_def keeps_inv_def begun_view_def fun_eq_iff)

interpretation kb: frame "keeps_inv (\<lambda>w. begun (n_flow (attr w q)))" for q
  by (rule frame_keeps_inv)

lemma flow_begin_keeps_begun: "obeys (keeps_inv (\<lambda>w. begun (n_flow (attr w q)))) (flow_begin root force)"
proof -
  have cal: "obeys (same begun_view) (requeue_calendar root)"
    unfolding requeue_calendar_def Let_def
    by (intro frame_intro marks_upd_flow) (simp add: set_calendar_def)
  have set: "obeys (keeps_inv (\<lambda>w. begun (n_flow (attr w q)))) (updN root (upd_flow (\<lambda>f. f\<lparr>begun := True\<rparr>)))"
    by (auto simp: obeys_def keeps_inv_def updN_def prog_defs attr_upd upd_flow_def)
  show ?thesis
    unfolding flow_begin_def
    by (intro kb.obeys_withState kb.obeys_if kb.obeys_raise kb.obeys_seqM set keeps_begun [OF cal]
        keeps_begun [OF marks.obeys_requeue_node] keeps_begun [OF marks.obeys_notify])
qed

lemma flow_begin_begun: "flow_begin root force w = (Inr (), w') \<Longrightarrow> begun (n_flow (attr w' root))"
proof -
  assume "flow_begin root force w = (Inr (), w')"
  then obtain w2 where "notify root [''runtime''] (upd root (upd_flow (\<lambda>f. f\<lparr>begun := True\<rparr>)) w2) = (Inr (), w')"
    by (auto simp: flow_begin_def withState_def raise_def updN_def modify_def elim!: seqM_InrE split: if_splits)
  then have "attr w' root = attr (upd root (upd_flow (\<lambda>f. f\<lparr>begun := True\<rparr>)) w2) root"
    by (metis attr_notify snd_conv)
  then show ?thesis by (simp add: attr_upd upd_flow_def)
qed

lemma begin_loop:
  "forM flows (\<lambda>f. flow_begin f force) w = (Inr (), w') \<Longrightarrow>
   (\<forall>f \<in> set flows. begun (n_flow (attr w' f))) \<and> (begun (n_flow (attr w q)) \<longrightarrow> begun (n_flow (attr w' q)))"
proof (induction flows arbitrary: w q)
  case Nil
  then show ?case by (simp add: ret_def)
next
  case (Cons f flows)
  then obtain w1 where w1: "flow_begin f force w = (Inr (), w1)"
    and rest: "forM flows (\<lambda>f. flow_begin f force) w1 = (Inr (), w')" by (auto elim: seqM_InrE)
  have "begun (n_flow (attr w q)) \<Longrightarrow> begun (n_flow (attr w1 q))" for q
    using flow_begin_keeps_begun [of q f force] w1 by (auto simp: obeys_def keeps_inv_def dest: spec [of _ w])
  then show ?case using Cons.IH [OF rest] flow_begin_begun [OF w1] by auto
qed


section \<open>Force\<close>

text \<open>
  The references an in-limit caches are all that a preflight may write.
\<close>

definition preflight_view where
  "preflight_view w = (core_view w, \<lambda>q. n_task (attr w q))"

interpretation pre: refs_frame "same preflight_view"
proof (intro refs_frame.intro frame_same, unfold_locales, goal_cases)
  case (2 w p i r)
  then show ?case
    using benign.R_benign [OF benign_set_limit, where w = w and p = p]
    by (auto simp: same_def preflight_view_def attr_upd set_limit_def fun_eq_iff split: option.splits)
qed (simp add: same_def preflight_view_def core_view_def)

lemma preflight_viewD:
  assumes "preflight_view w' = preflight_view w"
  shows "current_attempt w' q = current_attempt w q" "kind_of w' q = kind_of w q"
proof -
  have a: "n_task (attr w' q) = n_task (attr w q)" "core (attr w' q) = core (attr w q)" for q
    using assms by (auto simp: preflight_view_def core_view_def fun_eq_iff)
  then show "kind_of w' q = kind_of w q" by (simp add: core_def)
  have "status_of w' q = status_of w q" "get_flow w' q = get_flow w q"
    using a(2) by (simp_all add: core_def get_flow_def)
  moreover have "n_flow (attr w' r) = n_flow (attr w r)" for r using a(2) by (simp add: core_def)
  ultimately show "current_attempt w' q = current_attempt w q"
    by (simp only: current_attempt_def a(1) Let_def)
qed

lemma preflight_view_same: "obeys (same preflight_view) (preflight q)"
  unfolding preflight_def by (intro frame_intro)

lemma preflight_Inr:
  assumes "preflight q w = (Inr (), w')" and "is_task w q"
  shows "current_attempt w q"
  using assms by (auto simp: preflight_def withState_def raise_def split: if_splits)

lemma preflight_loop:
  "forM qs preflight w = (Inr (), w') \<Longrightarrow> \<forall>q \<in> set qs. is_task w q \<longrightarrow> current_attempt w q"
proof (induction qs arbitrary: w)
  case (Cons q qs)
  then obtain w1 where w1: "preflight q w = (Inr (), w1)" and rest: "forM qs preflight w1 = (Inr (), w')"
    by (auto elim: seqM_InrE)
  have "preflight_view w1 = preflight_view w"
    using obeys_same_wp [OF preflight_view_same, of q w] w1 by simp
  from Cons.IH [OF rest] preflight_viewD [OF this] preflight_Inr [OF w1] show ?case by auto
qed simp

text \<open>
  C12. Force never fakes a running job: a force to submitted or active that succeeds only concerned
  tasks that already were in flight with a current attempt, a password, a try count and the generation
  of their flow. And a task whose submission has an unknown outcome is never changed by a recursive
  force, nor by a force to a status other than complete or aborted.
\<close>

theorem force_needs_attempt:
  assumes "NodeStatus_of_name state = Some s" and "force_node p state recursive w = (r, w')"
    and "targets = (if recursive then walk (subtree w p) p else [p])"
  shows "(r = Inr () \<and> in_flight s \<longrightarrow> (\<forall>q \<in> set targets. is_task w q \<longrightarrow> current_attempt w q))
    \<and> ((\<exists>q \<in> set targets. is_task w q \<and> unknown_reason w q \<noteq> None) \<and> (recursive \<or> s \<notin> {complete, aborted})
        \<longrightarrow> r = Inl FlowStateError \<and> w' = w)"
proof (intro conjI impI)
  assume "r = Inr () \<and> in_flight s"
  with assms obtain w1 k where "seqM (forM targets preflight) k w = (Inr (), w1)"
    by (auto simp: force_node_def withState_def raise_def Let_def in_flight_def whenM_def
        split: if_splits simp del: forM.simps)
  then obtain w2 where "forM targets preflight w = (Inr (), w2)" by (auto elim: seqM_InrE)
  then show "\<forall>q \<in> set targets. is_task w q \<longrightarrow> current_attempt w q" by (rule preflight_loop)
next
  assume h: "(\<exists>q \<in> set targets. is_task w q \<and> unknown_reason w q \<noteq> None) \<and> (recursive \<or> s \<notin> {complete, aborted})"
  then have "unknown_targets w targets \<noteq> []" by (auto simp: unknown_targets_def filter_empty_conv)
  then have "force_node p state recursive w = (Inl FlowStateError, w)"
    using assms(1,3) h by (auto simp: force_node_def withState_def raise_def Let_def)
  with assms(2) show "r = Inl FlowStateError" "w' = w" by simp_all
qed

end
