(* ===== verification/Batch.thy ===== *)
theory Batch
  imports Control_Safety
begin

text \<open>
  The batch contract of the operator commands (\<^verbatim>\<open>batch.py\<close>): a command is split into its targets, each
  target is executed on its own, in order, and a failure neither stops nor undoes anything. The
  serialised image of the bunch that \<open>_snapshot\<close> takes is the parameter \<open>snapshot\<close>, and the qualification
  of a run by \<^verbatim>\<open>run_effect.py\<close>, which inspects Python classes and is optional evidence for the reported
  effect only, is the parameter \<open>evidence\<close>; neither has an influence on what is executed.
\<close>

section \<open>Results\<close>

record batch_response =
  br_flag :: int
  br_message :: string
  br_results :: "batch_item list"
  br_had_exception :: bool

datatype batch_kind = BatchPlain | BatchRun | BatchForce | BatchBegin

section \<open>One target\<close>

text \<open>The syntax check of a target, before the operation can change anything.\<close>

definition target_ok :: "batch_kind \<Rightarrow> string \<Rightarrow> bool" where
  "target_ok k target = (case py_split colon target of
      [] \<Rightarrow> False
    | path # attribute \<Rightarrow>
        startswith path ''/'' \<and> length path \<ge> 2
      \<and> list_all (\<lambda>part. part \<noteq> [] \<and> part \<noteq> ''.'' \<and> part \<noteq> ''..'') (py_split slash (tl path))
      \<and> length attribute \<le> 1
      \<and> (attribute = [] \<or> (hd attribute \<noteq> [] \<and> k = BatchForce))
      \<and> \<not> (k = BatchBegin \<and> slash \<in> set (tl path)))"

definition failure_effect :: "(world \<Rightarrow> 'd option) \<Rightarrow> (world \<Rightarrow> effect) option \<Rightarrow> 'd option \<Rightarrow> int \<Rightarrow> world \<Rightarrow> effect" where
  "failure_effect snapshot ev before flag w' =
     (if flag = 99 then EffUnknown
      else case ev of
        Some f \<Rightarrow> f w'
      | None \<Rightarrow> (case before of
          None \<Rightarrow> EffUnknown
        | Some d \<Rightarrow> (case snapshot w' of
            None \<Rightarrow> EffUnknown
          | Some d' \<Rightarrow> if d' \<noteq> d then EffPartial else EffNone)))"

definition success_effect :: "(world \<Rightarrow> 'd option) \<Rightarrow> batch_kind \<Rightarrow> 'd option \<Rightarrow> world \<Rightarrow> effect" where
  "success_effect snapshot k before w' =
     (if k = BatchRun then EffApplied
      else if before \<noteq> None \<and> snapshot w' = before then EffNone else EffApplied)"

definition run_item :: "(world \<Rightarrow> 'd option) \<Rightarrow> (world \<Rightarrow> string \<Rightarrow> (world \<Rightarrow> effect) option) \<Rightarrow> batch_kind
    \<Rightarrow> (string \<Rightarrow> unit wprog) \<Rightarrow> nat \<Rightarrow> string \<Rightarrow> world \<Rightarrow> batch_item \<times> world" where
  "run_item snapshot evidence k operation i target w =
     (if \<not> target_ok k target then
        (let flag = error_code_for_exception InvalidNodePathError in
         (\<lparr>bi_index = i, bi_target = target, bi_flag = flag, bi_message = error_name_for_code flag,
           bi_effect = EffNone\<rparr>, w))
      else
        let ev = (if k = BatchRun then evidence w target else None);
            before = (if ev = None then snapshot w else None) in
        case operation (if k = BatchBegin then tl target else target) w of
          (Inr _, w') \<Rightarrow>
            (\<lparr>bi_index = i, bi_target = target, bi_flag = 0, bi_message = ''success'',
              bi_effect = success_effect snapshot k before w'\<rparr>, w')
        | (Inl e, w') \<Rightarrow>
            (let flag = error_code_for_exception e in
             (\<lparr>bi_index = i, bi_target = target, bi_flag = flag, bi_message = error_name_for_code flag,
               bi_effect = failure_effect snapshot ev before flag w'\<rparr>, w')))"

section \<open>All targets\<close>

fun run_items :: "(world \<Rightarrow> 'd option) \<Rightarrow> (world \<Rightarrow> string \<Rightarrow> (world \<Rightarrow> effect) option) \<Rightarrow> batch_kind
    \<Rightarrow> (string \<Rightarrow> unit wprog) \<Rightarrow> nat \<Rightarrow> string list \<Rightarrow> world \<Rightarrow> batch_item list \<times> world" where
  "run_items snapshot evidence k operation i [] w = ([], w)"
| "run_items snapshot evidence k operation i (t # ts) w =
     (case run_item snapshot evidence k operation i t w of (item, w1) \<Rightarrow>
        (case run_items snapshot evidence k operation (Suc i) ts w1 of (items, w2) \<Rightarrow> (item # items, w2)))"

definition batch_message :: "nat \<Rightarrow> nat \<Rightarrow> string" where
  "batch_message n failed = ''processed='' @ nat_digits n @ '' succeeded='' @ nat_digits (n - failed)
     @ '' failed='' @ nat_digits failed"

definition batch_targets :: "(world \<Rightarrow> 'd option) \<Rightarrow> (world \<Rightarrow> string \<Rightarrow> (world \<Rightarrow> effect) option) \<Rightarrow> batch_kind
    \<Rightarrow> (string \<Rightarrow> unit wprog) \<Rightarrow> string list \<Rightarrow> world \<Rightarrow> batch_response \<times> world" where
  "batch_targets snapshot evidence k operation targets w =
     (if targets = [] \<and> k \<noteq> BatchBegin
      then (\<lparr>br_flag = 15, br_message = ''target list must not be empty'', br_results = [],
             br_had_exception = False\<rparr>, w)
      else case run_items snapshot evidence k operation 0 targets w of (items, w') \<Rightarrow>
        let failed = length (filter (\<lambda>it. bi_flag it \<noteq> 0) items) in
        (\<lparr>br_flag = (if failed \<noteq> 0 then 16 else 0), br_message = batch_message (length items) failed,
          br_results = items, br_had_exception = (failed \<noteq> 0)\<rparr>, w'))"

text \<open>The decorated commands: \<open>begin\<close> takes its targets from the flow name or from the bunch.\<close>

definition batch_requeue where
  "batch_requeue snapshot evidence paths =
     batch_targets snapshot evidence BatchPlain (\<lambda>t. run_command_requeue [t]) paths"

definition batch_suspend where
  "batch_suspend snapshot evidence paths =
     batch_targets snapshot evidence BatchPlain (\<lambda>t. run_command_suspend [t]) paths"

definition batch_resume where
  "batch_resume snapshot evidence paths =
     batch_targets snapshot evidence BatchPlain (\<lambda>t. run_command_resume [t]) paths"

definition batch_free_dep where
  "batch_free_dep snapshot evidence paths d =
     batch_targets snapshot evidence BatchPlain (\<lambda>t. run_command_free_dep [t] d) paths"

definition batch_run where
  "batch_run snapshot evidence hooks paths fc =
     batch_targets snapshot evidence BatchRun (\<lambda>t. run_command_run hooks [t] fc) paths"

definition batch_force where
  "batch_force snapshot evidence paths state recursive =
     batch_targets snapshot evidence BatchForce (\<lambda>t. run_command_force [t] state recursive) paths"

definition batch_begin where
  "batch_begin snapshot evidence flow_name fc w =
     batch_targets snapshot evidence BatchBegin (\<lambda>t. run_command_begin t fc)
       (if flow_name \<noteq> [] then [''/'' @ flow_name] else map (\<lambda>(name, k). ''/'' @ name) (w_flows w)) w"

section \<open>The contract\<close>

text \<open>What executing the targets one after the other does to the world.\<close>

definition target_world :: "batch_kind \<Rightarrow> (string \<Rightarrow> unit wprog) \<Rightarrow> string \<Rightarrow> world \<Rightarrow> world" where
  "target_world k operation t w =
     (if target_ok k t then after (operation (if k = BatchBegin then tl t else t) w) else w)"

lemma error_code_nonzero: "error_code_for_exception e \<noteq> 0"
  using error_code_values [of e] by auto

lemma run_item_world: "snd (run_item snapshot evidence k operation i t w) = target_world k operation t w"
  by (auto simp: run_item_def target_world_def Let_def split: prod.splits sum.splits)

lemma run_item_fields:
  "bi_index (fst (run_item snapshot evidence k operation i t w)) = i"
  "bi_target (fst (run_item snapshot evidence k operation i t w)) = t"
  "bi_flag (fst (run_item snapshot evidence k operation i t w)) = 0 \<longleftrightarrow>
     target_ok k t \<and> outcome (operation (if k = BatchBegin then tl t else t) w) = Inr ()"
  by (auto simp: run_item_def Let_def error_code_nonzero split: prod.splits sum.splits)

lemma run_items_contract:
  assumes "run_items snapshot evidence k operation i ts w = (items, w')"
  shows "w' = fold (target_world k operation) ts w" "map bi_target items = ts"
    "map bi_index items = [i..<i + length ts]"
    "\<forall>j < length ts. bi_flag (items ! j) = 0 \<longleftrightarrow> target_ok k (ts ! j)
       \<and> outcome (operation (if k = BatchBegin then tl (ts ! j) else ts ! j)
           (fold (target_world k operation) (take j ts) w)) = Inr ()"
proof -
  have "w' = fold (target_world k operation) ts w \<and> map bi_target items = ts
    \<and> map bi_index items = [i..<i + length ts]
    \<and> (\<forall>j < length ts. bi_flag (items ! j) = 0 \<longleftrightarrow> target_ok k (ts ! j)
       \<and> outcome (operation (if k = BatchBegin then tl (ts ! j) else ts ! j)
           (fold (target_world k operation) (take j ts) w)) = Inr ())"
    using assms
  proof (induction ts arbitrary: i w items)
    case Nil
    then show ?case by simp
  next
    case (Cons t ts)
    obtain item w1 where it: "run_item snapshot evidence k operation i t w = (item, w1)" by (rule prod.exhaust)
    obtain rest where rest: "run_items snapshot evidence k operation (Suc i) ts w1 = (rest, w')" "items = item # rest"
      using Cons.prems it by (auto split: prod.splits)
    note one = run_item_fields [of snapshot evidence k operation i t w] run_item_world [of snapshot evidence k operation i t w]
    have up: "[i..<i + length (t # ts)] = i # [Suc i..<Suc i + length ts]"
      by (subst upt_conv_Cons) simp_all
    show ?case
      unfolding up using Cons.IH [OF rest(1)] one it rest(2)
      by (simp add: All_less_Suc2 del: upt_Suc)
  qed
  then show "w' = fold (target_world k operation) ts w" "map bi_target items = ts"
    "map bi_index items = [i..<i + length ts]"
    "\<forall>j < length ts. bi_flag (items ! j) = 0 \<longleftrightarrow> target_ok k (ts ! j)
       \<and> outcome (operation (if k = BatchBegin then tl (ts ! j) else ts ! j)
           (fold (target_world k operation) (take j ts) w)) = Inr ()" by blast+
qed

text \<open>
  C13. A batch is ordered best effort. The world after it is that of executing the well-formed targets
  one after the other, each on what its predecessors left, also after failures; the results name the
  targets in order, by index; an item reports success exactly when its target is well formed and its own
  execution returned; and the flag of the response is 0 exactly when every item succeeded, 16 otherwise.
  Snapshots and evidence change the reported effects only.
\<close>

theorem batch_best_effort:
  assumes "batch_targets snapshot evidence k operation targets w = (resp, w')" and "targets \<noteq> [] \<or> k = BatchBegin"
  shows "w' = fold (target_world k operation) targets w
    \<and> map bi_target (br_results resp) = targets \<and> map bi_index (br_results resp) = [0..<length targets]
    \<and> (\<forall>j < length targets. bi_flag (br_results resp ! j) = 0 \<longleftrightarrow> target_ok k (targets ! j)
         \<and> outcome (operation (if k = BatchBegin then tl (targets ! j) else targets ! j)
             (fold (target_world k operation) (take j targets) w)) = Inr ())
    \<and> br_flag resp = (if \<forall>it \<in> set (br_results resp). bi_flag it = 0 then 0 else 16)"
proof -
  obtain items w1 where run: "run_items snapshot evidence k operation 0 targets w = (items, w1)" by (rule prod.exhaust)
  then have resp: "br_results resp = items" "w' = w1"
    "br_flag resp = (if length (filter (\<lambda>it. bi_flag it \<noteq> 0) items) \<noteq> 0 then 16 else 0)"
    using assms by (auto simp: batch_targets_def Let_def split: if_splits)
  have "length (filter (\<lambda>it. bi_flag it \<noteq> 0) items) = 0 \<longleftrightarrow> (\<forall>it \<in> set items. bi_flag it = 0)"
    by (simp add: filter_empty_conv)
  with run_items_contract [OF run] resp show ?thesis by simp
qed

end
