(* ===== verification/Sample_World.thy ===== *)
theory Sample_World
  imports Batch
begin

text \<open>
  A small bunch on which the theorems are applied: one flow \<open>/f\<close> that has begun, with a container
  \<open>/f/c\<close> of two tasks and a task \<open>/f/t3\<close>. The task \<open>/f/c/t1\<close> is active and holds one of the two tokens of a
  limit of the flow; the others are queued. No change journal is attached.

  The first part makes the programs executable for the simplifier: the rules run a program applied to a
  state, and the weak congruences keep it from looking into the parts that have no state yet.
\<close>

section \<open>Running programs\<close>

named_theorems run_simps "equations that run a program on a state"

lemma bindM_run [run_simps]:
  "bindM m f s = (case m s of (Inl e, s') \<Rightarrow> (Inl e, s') | (Inr x, s') \<Rightarrow> f x s')"
  by (simp add: bindM_def)

lemma seqM_run [run_simps]: "seqM m n s = (case m s of (Inl e, s') \<Rightarrow> (Inl e, s') | (Inr x, s') \<Rightarrow> n s')"
  by (simp add: seqM_def bindM_def)

lemma whenM_run [run_simps]: "whenM True m s = m s" "whenM False m s = (Inr (), s)"
  by (simp_all add: whenM_def ret_def)

lemma forM_run [run_simps]:
  "forM [] f s = (Inr (), s)"
  "forM (x # xs) f s = (case f x s of (Inl e, s') \<Rightarrow> (Inl e, s') | (Inr y, s') \<Rightarrow> forM xs f s')"
  by (simp_all add: ret_def seqM_run)

lemma foldM_run [run_simps]:
  "foldM [] f b s = (Inr b, s)"
  "foldM (x # xs) f b s = (case f x b s of (Inl e, s') \<Rightarrow> (Inl e, s') | (Inr y, s') \<Rightarrow> foldM xs f y s')"
  by (simp_all add: ret_def bindM_run)

lemma collectM_run [run_simps]:
  "collectM [] f s = (Inr [], s)"
  "collectM (x # xs) f s = (case f x s of (Inl e, s') \<Rightarrow> (Inl e, s')
     | (Inr y, s') \<Rightarrow> (case collectM xs f s' of (Inl e, s') \<Rightarrow> (Inl e, s') | (Inr z, s') \<Rightarrow> (Inr (y @ z), s')))"
  by (simp_all add: ret_def bindM_run split: prod.splits sum.splits)

lemmas run_basic [run_simps] = withState_def ret_def raise_def modify_def gets_def liftE_def onError_def
  finallyM_def updN_def Let_def

lemma withState_weak: "s = s' \<Longrightarrow> withState f s = withState f s'" by simp

lemma bindM_weak: "s = s' \<Longrightarrow> bindM m f s = bindM m f s'" by simp

lemma seqM_weak: "s = s' \<Longrightarrow> seqM m n s = seqM m n s'" by simp

lemma onError_weak: "s = s' \<Longrightarrow> onError m f s = onError m f s'" by simp

lemma finallyM_weak: "s = s' \<Longrightarrow> finallyM m f s = finallyM m f s'" by simp

lemma whenM_weak: "b = b' \<Longrightarrow> whenM b m = whenM b' m" by simp

lemma Let_weak: "x = y \<Longrightarrow> Let x f = Let y f" by simp

lemmas run_cong = withState_weak bindM_weak seqM_weak onError_weak finallyM_weak whenM_weak Let_weak

text \<open>The programs of the components.\<close>

lemma notify_no_tracker [run_simps]: "w_tracker w = None \<Longrightarrow> notify_query_change p g i w = (Inr (), w)"
  by (simp add: notify_query_change_def mark_def prog_defs Let_def)

lemmas run_status [run_simps] = set_node_status_def set_node_status_only_def Task_set_node_status_only_def
  Node_set_node_status_only_def handle_status_change_def write_status_def write_state_def
  child_status_changed_def swim_status_change.simps swim_status_change_only.simps adopt_status_def
  advance_repeat_def computed_status_def count_children_def upd_task_def upd_flow_def attr_upd
  child_statuses_def count_status_def significant_count_def SIGNIFICANT_def

lemmas run_limits [run_simps] = update_limits_def decrement_in_limit_def increment_in_limit_def
  unresolved_limits_up_def validate_references_def resolve_in_limit_references_def missing_references_def
  manager_increment_def manager_decrement_def manager_step_def Limit_increment_def Limit_decrement_def
  resolve_in_limit_def limit_set_add_def get_limit_def upd_limit_def limit_increment_def limit_decrement_def
  check_in_limit_up_def items_up_def require_limit_capacity_def

lemmas run_requeue [run_simps] = requeue_node_def requeue.simps Task_requeue_def clear_current_attempt_def
  clear_attempt_def attempt_fields_def Node_requeue_def reset_latches_def reset_node_meters_def
  reset_node_repeat_def reset_trigger_def requeue_changed_def event_reset_def event_set_value_def Event_def

lemmas run_tasks [run_simps] = run_def require_running_def bunch_require_running_def increment_try_no_def
  set_generation_def get_flow_def get_root_def fresh_uuid_def fresh_token_def new_attempt_def
  Task_update_generated_parameters_def task_update_parameters_def check_repeat_parameters_def
  repeat_parameters_def prepare_run_def submit_run_def Task_hooks_def before_run_def after_run_def
  Task_do_run_def set_prepared_def has_bunch_def task_complete_def stamp_end_def

lemma parent_of_upd [run_simps]: "parent_of (upd p f w) = parent_of w"
  by (simp add: fun_eq_iff parent_of_def)

lemma node_path_upd [run_simps]:
  assumes "\<And>a. n_name (f a) = n_name a"
  shows "node_path (upd p f w) = node_path w"
proof -
  have "name_of (upd p f w) = name_of w" by (simp add: fun_eq_iff attr_upd assms)
  then show ?thesis by (simp add: fun_eq_iff node_path_def path_names_def)
qed

lemma supply_run [run_simps]:
  "parent_of (w\<lparr>w_uuid_next := n\<rparr>) = parent_of w" "parent_of (w\<lparr>w_token_next := n\<rparr>) = parent_of w"
  "arity (w\<lparr>w_uuid_next := n\<rparr>) = arity w" "arity (w\<lparr>w_token_next := n\<rparr>) = arity w"
  "children (w\<lparr>w_uuid_next := n\<rparr>) = children w" "children (w\<lparr>w_token_next := n\<rparr>) = children w"
  "node_path (w\<lparr>w_uuid_next := n\<rparr>) = node_path w" "node_path (w\<lparr>w_token_next := n\<rparr>) = node_path w"
  by (simp_all add: fun_eq_iff parent_of_def valid_def arity_def subtree_def children_def node_path_def
      path_names_def)

section \<open>The sample\<close>

definition sample_attempt :: string where
  "sample_attempt = ''00000000-0000-4000-8000-000000000001''"

definition sample_limit :: limit where
  "sample_limit = \<lparr>lm_name = ''lim'', lm_limit = 2, lm_value = 1, lm_node_paths = {''/f/c/t1''}\<rparr>"

definition with_status :: "node_status \<Rightarrow> node_attrs \<Rightarrow> node_attrs" where
  "with_status s a = a\<lparr>n_state := \<lparr>node_status = s, suspended = False\<rparr>\<rparr>"

definition sample_flow :: node_attrs where
  "sample_flow = (with_status active (new_node KFlow ''f''))\<lparr>n_limits := [sample_limit],
     n_flow := new_flow_data\<lparr>in_bunch := True, begun := True, flow_generation := Some ''g'',
       flow_calendar := calendar_begin 63000000000000000 63000000000000000 Calendar\<rparr>\<rparr>"

definition sample_container :: node_attrs where
  "sample_container = (with_status active (new_node KContainer ''c''))\<lparr>n_in_limits :=
     [\<lparr>il_limit_name = ''lim'', il_tokens = 1, il_node_path = None, il_limit = Some ([0], 0)\<rparr>]\<rparr>"

definition sample_running :: node_attrs where
  "sample_running = (with_status active (new_node KTask ''t1''))\<lparr>n_events := [Event ''ready'' False],
     n_task := new_task_data\<lparr>task_id := Some ''77'', try_no := 1, task_generation := Some ''g'',
       attempt_id := Some sample_attempt, job_password := Some ''secret''\<rparr>\<rparr>"

definition sample_queued :: "string \<Rightarrow> node_attrs" where
  "sample_queued name = with_status queued (new_node KTask name)"

definition sample_attrs :: "pos \<Rightarrow> node_attrs" where
  "sample_attrs p =
     (if p = [0] then sample_flow
      else if p = [0, 0] then sample_container
      else if p = [0, 0, 0] then sample_running
      else if p = [1, 0, 0] then sample_queued ''t2''
      else if p = [1, 0] then sample_queued ''t3''
      else new_node KContainer ''x'')"

definition sample :: world where
  "sample = \<lparr>w_shapes = [Shape [Shape [Shape [], Shape []], Shape []]], w_attrs = sample_attrs,
     w_flows = [(''f'', 0)], w_bunch_parameters = [], w_host = ''localhost'', w_port = ''33083'',
     w_server_state = ServerState, w_service_stopping = False, w_tracker = None,
     w_monotonic = 0, w_utcnow = ''2026-01-01T00:00:00Z'', w_now = 63000000000000000,
     w_uuid = (\<lambda>n. sample_attempt), w_uuid_next = 0, w_token = (\<lambda>n. ''token''), w_token_next = 0,
     w_local_time = ''2026-01-01T00:00:00'', w_audit = []\<rparr>"

lemmas sample_node_defs = sample_attrs_def sample_flow_def sample_container_def sample_running_def
  sample_queued_def with_status_def new_node_def new_task_data_def new_flow_data_def sample_limit_def
  new_state_def

lemma sample_fields [run_simps]:
  "attr sample = sample_attrs" "w_tracker sample = None" "w_service_stopping sample = False"
  "w_server_state sample = ServerState" "w_flows sample = [(''f'', 0)]"
  by (simp_all add: sample_def)

lemma sample_tree [run_simps]:
  "parent_of sample [0, 0, 0] = Some [0, 0]" "parent_of sample [Suc 0, 0, 0] = Some [0, 0]"
  "parent_of sample [0, 0] = Some [0]" "parent_of sample [Suc 0, 0] = Some [0]" "parent_of sample [0] = None"
  "arity sample [0] = 2" "arity sample [0, 0] = 2" "arity sample [0, 0, 0] = 0" "arity sample [Suc 0, 0, 0] = 0"
  "arity sample [Suc 0, 0] = 0"
  "children sample [0] = [[0, 0], [Suc 0, 0]]" "children sample [0, 0] = [[0, 0, 0], [Suc 0, 0, 0]]"
  "subtree sample [0, 0, 0] = Shape []" "subtree sample [Suc 0, 0, 0] = Shape []" "subtree sample [Suc 0, 0] = Shape []"
  by code_simp+

lemma sample_paths [run_simps]:
  "node_path sample [0] = ''/f''" "node_path sample [0, 0] = ''/f/c''" "node_path sample [0, 0, 0] = ''/f/c/t1''"
  "node_path sample [Suc 0, 0, 0] = ''/f/c/t2''" "node_path sample [Suc 0, 0] = ''/f/t3''"
  by code_simp+

lemmas sample_run = sample_node_defs ServerState_def

section \<open>The sample is well formed\<close>

lemma sample_valid_cases:
  assumes "valid sample p"
  shows "p \<in> {[0], [0, 0], [0, 0, 0], [Suc 0, 0, 0], [Suc 0, 0]}"
  using assms
proof (induction p)
  case Nil
  then show ?case by (simp add: valid_def)
next
  case (Cons i q)
  show ?case
  proof (cases "q = []")
    case True
    then show ?thesis using Cons.prems by (cases i) (simp_all add: valid_def sample_def)
  next
    case False
    then have "i < arity sample q" "q \<in> {[0], [0, 0], [0, 0, 0], [Suc 0, 0, 0], [Suc 0, 0]}"
      using Cons valid_child [OF False] by blast+
    then show ?thesis by (auto simp: sample_tree less_2_cases_iff)
  qed
qed

lemma sample_valid: "valid sample [0]" "valid sample [0, 0]" "valid sample [0, 0, 0]" "valid sample [Suc 0, 0, 0]"
  "valid sample [Suc 0, 0]"
  by code_simp+

lemma sample_names: "names_ok sample"
  by (simp add: names_ok_def sample_fields sample_node_defs clean_name_def)

lemma sample_siblings: "siblings_ok sample"
  unfolding siblings_ok_def
proof (intro allI impI)
  fix i j p
  assume "valid sample (i # p)" "valid sample (j # p)" "p \<noteq> []" "name_of sample (i # p) = name_of sample (j # p)"
  then show "i = j"
    by (auto dest!: sample_valid_cases simp: sample_fields sample_node_defs)
qed

lemma sample_leaves: "tasks_are_leaves sample"
  by (auto simp: tasks_are_leaves_def sample_fields sample_node_defs dest!: sample_valid_cases)

lemma sample_counts: "counts_ok sample"
  by (simp add: counts_ok_def sample_fields sample_node_defs)

lemma sample_consistent: "consistent_but sample {}"
  unfolding consistent_but_def consistent_at_def
  by (auto dest!: sample_valid_cases simp: plain_status_def sample_tree sample_fields sample_node_defs
      child_statuses_def compute_most_significant_status_def SIGNIFICANT_def count_status_def)

lemma sample_no_repeat: "n_repeat (attr sample p) = None"
  by (simp add: sample_fields sample_node_defs)

lemma sample_refs: "refs_ok sample"
  by (simp add: refs_ok_def sample_fields sample_node_defs)

lemma sample_tokens: "\<forall>k \<in> tokens_of sample. 0 \<le> k"
  by (auto simp: tokens_of_def sample_fields sample_node_defs split: if_splits)

lemma sample_limits: "limits_ok sample"
  by (simp add: limits_ok_def limit_ok_def sample_fields sample_node_defs)

lemma sample_live: "live_attempt sample [0, 0, 0] sample_attempt"
proof -
  have "attached sample [0, 0, 0]"
    by (simp add: attached_def sample_valid find_flow_def get_root_def sample_fields sample_node_defs)
  from bunch_find_node_path [OF sample_names sample_siblings this] show ?thesis
    by (simp add: live_attempt_def sample_fields sample_node_defs)
qed

lemma sample_found: "bunch_find_node sample ''/f/c/t1'' = Inr (Some [0, 0, 0])"
  using sample_live by (simp add: live_attempt_def sample_paths)

lemma sample_canonical: "canonical_uuid sample_attempt"
  by code_simp

section \<open>Runs of the sample\<close>

lemma sample_submits: "outcome (set_node_status [Suc 0, 0] submitted sample) = Inr ()"
  by (simp add: run_simps sample_run cong: run_cong)

lemma sample_requeues: "outcome (requeue_node [0, 0, 0] True sample) = Inr ()"
  by (simp add: run_simps sample_run cong: run_cong)

lemma sample_completes: "outcome (task_complete [0, 0, 0] sample) = Inr ()"
  by (simp add: run_simps sample_run cong: run_cong)

lemma sample_runs: "outcome (run Task_hooks [Suc 0, 0, 0] sample) = Inr True"
  by (simp add: run_simps sample_run cong: run_cong)

end
