(* ===== verification/Server_Steps.thy ===== *)
theory Server_Steps
  imports Batch
begin

text \<open>
  The server as a state machine. A single writer executes one thing at a time: a report of a job, an
  operator command, a service command, a slice of the scan of a flow; in between the environment moves
  the clocks. The invariants of the components are shown once for every elementary write, in the locale
  of the frames, and hold in every state the server can reach.
\<close>

section \<open>The frame of the server\<close>

locale server_frame = flow_frame R for R :: "world \<Rightarrow> world \<Rightarrow> bool" +
  assumes R_audit: "R w (w\<lparr>w_audit := a\<rparr>)"
    and R_service: "R w (w\<lparr>w_server_state := s\<rparr>)" "R w (w\<lparr>w_service_stopping := b\<rparr>)"
    and R_clock: "R w (w\<lparr>w_now := t, w_monotonic := m, w_utcnow := u, w_local_time := l\<rparr>)"
begin

lemma obeys_record_audit [frame_intro]: "obeys R (record_audit d command target cr code)"
  unfolding record_audit_def by (intro frame_intro) (simp add: obeys_def modify_def R_audit)

lemma obeys_dispose_zombie [frame_intro]: "obeys R (dispose_zombie p policy cr)"
  unfolding dispose_zombie_def by (cases policy) (auto intro!: frame_intro)

lemma obeys_guard [frame_intro]: "obeys R (guard d p command tid cr)"
  unfolding guard_def Let_def by (intro frame_intro)

lemma obeys_guard_child_command [frame_intro]: "obeys R (guard_child_command zd p command tid cr)"
  unfolding guard_child_command_def by (intro frame_intro)

lemma obeys_lookup [frame_intro]:
  "obeys R (find_node_or_raise path)" "obeys R (find_task_or_raise path)" "obeys R (validate_attempt_id aid)"
  "obeys R (guard_attempt p aid)" "obeys R (guard_child_target sp aid p)" "obeys R (require_begun p)"
  by (simp_all add: obeys_def find_node_or_raise_same find_task_or_raise_same validate_attempt_id_same
      guard_attempt_same guard_child_target_same R_refl require_begun_def prog_defs split: option.splits)

lemma obeys_child_commands [frame_intro]:
  "obeys R (run_command_init zd cr ci)" "obeys R (run_command_complete zd cr cc)"
  "obeys R (run_command_abort zd cr ca)" "obeys R (run_command_event zd cr ce)"
  "obeys R (run_command_meter zd cr cm)"
  unfolding run_command_init_def run_command_complete_def run_command_abort_def run_command_event_def
    run_command_meter_def report_command_def owned_command_def set_event_def set_meter_def
  by (intro frame_intro)+

lemma obeys_control_commands [frame_intro]:
  "obeys R (run_command_requeue paths)" "obeys R (run_command_suspend paths)"
  "obeys R (run_command_resume paths)" "obeys R (run_command_free_dep paths d)"
  "obeys R (run_command_begin name fc)"
  unfolding run_command_requeue_def run_command_suspend_def run_command_resume_def run_command_free_dep_def
    run_command_begin_def
  by (intro frame_intro)+

lemma obeys_force [frame_intro]: "obeys R (run_command_force paths state recursive)"
proof -
  have ev: "obeys R (force_event p i state)" for p i
    unfolding force_event_def Let_def by (intro frame_intro obeys_updN) (simp add: core_defs put_event_def)
  have node: "obeys R (force_node p state recursive)" for p
    unfolding force_node_def preflight_def Let_def by (intro frame_intro)
  have var: "obeys R (case v of VarEvent i \<Rightarrow> force_event p i state | _ \<Rightarrow> raise NodeTypeError)" for v p
    by (cases v) (simp_all add: ev obeys_raise)
  have target: "obeys R (case t of TNode p \<Rightarrow> seqM (require_begun p) (force_node p state recursive)
      | TVariable v \<Rightarrow> bindM (liftE (\<lambda>w. bunch_find_node w path)) (\<lambda>host. case host of
             None \<Rightarrow> raise (PyError PyAttributeError)
           | Some p \<Rightarrow> seqM (require_begun p) (case v of
                 VarEvent i \<Rightarrow> force_event p i state | _ \<Rightarrow> raise NodeTypeError)))" for t path
    by (cases t) (auto intro!: frame_intro node var)
  show ?thesis
    unfolding run_command_force_def force_path_def by (intro frame_intro target)
qed

lemma obeys_run_command_run:
  "(\<And>q. obeys R (run (hooks q) q)) \<Longrightarrow> obeys R (run_command_run hooks paths fc)"
  unfolding run_command_run_def run_node_def by (intro frame_intro) auto

lemma obeys_set_server_state: "obeys R (set_server_state causes)"
proof -
  have "obeys R (mark ''/'' {''service''} False)"
    using mark_journalled R_tracker unfolding obeys_def by metis
  moreover have "obeys R (modify (\<lambda>w. w\<lparr>w_server_state := s\<rparr>))" for s
    by (simp add: obeys_def modify_def R_service)
  ultimately show ?thesis unfolding set_server_state_def by (intro obeys_sum obeys_raise obeys_seqM)
qed

lemma obeys_status_response [frame_intro]: "obeys R (server_status_response cm own flag message)"
  unfolding server_status_response_def by (rule obeys_gets)

lemma obeys_service_commands [frame_intro]:
  "obeys R (run_command_server_halt None cm own)" "obeys R (run_command_server_resume cm own)"
  "obeys R (begin_shutdown None)"
proof -
  have "obeys R (modify (\<lambda>w. w\<lparr>w_service_stopping := True\<rparr>))" by (simp add: obeys_def modify_def R_service)
  then show "obeys R (begin_shutdown None)"
    unfolding begin_shutdown_def by (intro obeys_seqM) (simp_all add: obeys_ret)
  show "obeys R (run_command_server_halt None cm own)" "obeys R (run_command_server_resume cm own)"
    unfolding run_command_server_halt_def run_command_server_resume_def Let_def option.simps
    by (intro frame_intro obeys_set_server_state)+
qed

end

section \<open>Steps\<close>

text \<open>
  The hooks of the tasks and the trigger parser are those of the server. A slice of a scan is any number
  of steps from any stack of nodes still to visit, so that the interleavings of the main loop are covered.
  The program behind \<open>_skip_pending_commands\<close> is not there: no shell task is registered.
\<close>

inductive server_step :: "parser \<Rightarrow> (pos \<Rightarrow> run_hooks) \<Rightarrow> world \<Rightarrow> world \<Rightarrow> bool" for parse hooks where
  init: "server_step parse hooks w (after (run_command_init zd cr ci w))"
| complete: "server_step parse hooks w (after (run_command_complete zd cr cc w))"
| abort: "server_step parse hooks w (after (run_command_abort zd cr ca w))"
| event: "server_step parse hooks w (after (run_command_event zd cr ce w))"
| meter: "server_step parse hooks w (after (run_command_meter zd cr cm w))"
| requeue: "server_step parse hooks w (after (run_command_requeue paths w))"
| suspend: "server_step parse hooks w (after (run_command_suspend paths w))"
| resume: "server_step parse hooks w (after (run_command_resume paths w))"
| run: "server_step parse hooks w (after (run_command_run hooks paths fc w))"
| force: "server_step parse hooks w (after (run_command_force paths state recursive w))"
| free_dep: "server_step parse hooks w (after (run_command_free_dep paths d w))"
| begin_flow: "server_step parse hooks w (after (run_command_begin name fc w))"
| halt: "server_step parse hooks w (after (run_command_server_halt None mgr own w))"
| resume_service: "server_step parse hooks w (after (run_command_server_resume mgr own w))"
| shutdown: "server_step parse hooks w (after (begin_shutdown None w))"
| scan: "server_step parse hooks w (after (process_flow parse hooks root now w))"
| scan_start: "server_step parse hooks w (after (flow_work n parse hooks root now w))"
| scan_slice: "server_step parse hooks w (after (flow_steps n parse hooks root stack w))"
| clock: "server_step parse hooks w (w\<lparr>w_now := t, w_monotonic := m, w_utcnow := u, w_local_time := l\<rparr>)"

context server_frame
begin

lemma obeys_flow_work:
  "(\<And>q. obeys R (run (hooks q) q)) \<Longrightarrow> obeys R (flow_work n parse hooks root now)"
  unfolding flow_work_def by (intro frame_intro obeys_flow_steps) auto

lemma step_frame:
  assumes "server_step parse hooks w w'" and "\<And>q. obeys R (run (hooks q) q)"
  shows "R w w'"
  using assms(1)
proof cases
  case clock
  then show ?thesis using R_clock by simp
qed (simp_all add: obeysD frame_intro obeys_run_command_run obeys_process_flow obeys_flow_work obeys_flow_steps
    assms(2))

lemma steps_frame:
  assumes "(server_step parse hooks)\<^sup>*\<^sup>* w w'" and "\<And>q. obeys R (run (hooks q) q)"
  shows "R w w'"
  using assms(1) by (induction rule: rtranclp_induct) (auto intro: R_refl R_trans step_frame assms(2))

end

section \<open>Invariants\<close>

text \<open>The structure the clients rely on: the trees, the kinds, the names and the flows of the bunch.\<close>

definition tree_of :: "world \<Rightarrow> shape list \<times> (pos \<Rightarrow> node_kind \<times> string) \<times> (string \<times> nat) list" where
  "tree_of w = (w_shapes w, (\<lambda>p. (kind_of w p, name_of w p)), w_flows w)"

lemma tree_of_skeleton:
  assumes "same skeleton w w'"
  shows "same tree_of w w'"
proof -
  from assms have sk: "skeleton w' = skeleton w" by (simp add: same_def)
  show ?thesis by (simp add: same_def tree_of_def skeletonD(1-4) [OF sk])
qed

interpretation shape_inv: server_frame "same tree_of"
proof (intro server_frame.intro flow_frame.intro world_frame.intro benign_frame.intro frame_same, unfold_locales)
  show "same tree_of w (upd p f w)" if "benign f" for f w p
    by (intro tree_of_skeleton skel.R_benign that)
  show "same tree_of w (upd_limit r (limit_increment k path) w)" if "k \<in> tokens_of w" for k w r path
    by (intro tree_of_skeleton skel.R_increment that)
  show "same tree_of w (upd_limit r (limit_decrement k path) w)" if "k \<in> tokens_of w" for k w r path
    by (intro tree_of_skeleton skel.R_decrement that)
  show "same tree_of w (write_status p s w)" for w p s by (intro tree_of_skeleton skel.R_status)
  show "same tree_of w (count_children p w)" if "arity w p \<noteq> 0" "\<not> is_task w p" for w p
    by (intro tree_of_skeleton skel.R_counts that)
  show "same tree_of w (upd p (\<lambda>a. a\<lparr>n_repeat := rp\<rparr>) w)" for w p rp by (intro tree_of_skeleton skel.R_repeat)
  show "same tree_of w (upd p (upd_flow g) w)" for w p g by (intro tree_of_skeleton skel.R_flow_data)
qed (simp_all add: same_def tree_of_def)

lemma keeps_counts: "w_shapes w' = w_shapes w \<Longrightarrow> w_attrs w' = w_attrs w \<Longrightarrow> keeps_inv counts_ok w w'"
  using counts_ok_frame [of w' w] by (simp add: keeps_inv_def)

lemma keeps_nonneg: "w_attrs w' = w_attrs w \<Longrightarrow> keeps_inv limits_nonneg w w'"
  by (simp add: keeps_inv_def limits_nonneg_def tokens_of_def)

interpretation counts_inv: server_frame "keeps_inv counts_ok"
  by unfold_locales (rule keeps_counts; simp)+

interpretation nonneg_inv: server_frame "keeps_inv limits_nonneg"
  by unfold_locales (rule keeps_nonneg; simp)+

text \<open>The change journal keeps its shape and the depth of the open transaction.\<close>

definition keeps_journal :: "world \<Rightarrow> world \<Rightarrow> bool" where
  "keeps_journal w w' \<longleftrightarrow> journalled w (w_tracker w')"

interpretation journal_inv: server_frame keeps_journal
proof (intro server_frame.intro flow_frame.intro world_frame.intro benign_frame.intro frame.intro, unfold_locales)
  show "keeps_journal w w'' " if "keeps_journal w w'" "keeps_journal w' w''" for w w' w''
    using that unfolding keeps_journal_def journalled_def by (cases "w_tracker w'") auto
qed (simp_all add: keeps_journal_def journalled_def write_status_def count_children_def upd_limit_def upd_frame Let_def
    split: option.splits)


end
