(* ===== verification/Applications.thy ===== *)
theory Applications
  imports Sample_World Server_Steps
begin

text \<open>
  The theorems with hypotheses, applied to the sample bunch: each hypothesis is discharged there, so that
  none of the theorems speaks of no state at all.
\<close>

lemma run_split: "outcome x = r \<Longrightarrow> x = (r, after x)"
  by auto


theorem run_respects_limits_witness:
  "limits_ok sample \<and> holds_limits (after (run Task_hooks [Suc 0, 0, 0] sample)) [Suc 0, 0, 0]
   \<and> limits_ok (after (run Task_hooks [Suc 0, 0, 0] sample))"
  using run_respects_limits [OF sample_names sample_refs sample_tokens sample_limits sample_counts sample_leaves
      sample_valid(4) _ run_split [OF sample_runs]] sample_limits
  by (simp add: sample_fields sample_node_defs)

lemma sample_in_subtree: "[0, 0, 0] \<in> set (walk (subtree sample [0, 0, 0]) [0, 0, 0])"
  by (simp add: sample_tree)

theorem requeue_resets_witness:
  "\<not> settled (attr sample [0, 0, 0]) \<and> settled (attr (after (requeue_node [0, 0, 0] True sample)) [0, 0, 0])
   \<and> local_part (attr (after (requeue_node [0, 0, 0] True sample)) [0]) = local_part (attr sample [0])"
proof -
  have "\<not> settled (attr sample [0, 0, 0])"
    by (simp add: settled_def no_attempt_def attempt_fields_def sample_fields sample_node_defs)
  moreover have "[0] \<notin> set (walk (subtree sample [0, 0, 0]) [0, 0, 0])" by (simp add: sample_tree)
  ultimately show ?thesis
    using requeue_resets [OF sample_names sample_leaves sample_valid(3) run_split [OF sample_requeues]] sample_in_subtree
    by (metis (full_types))
qed

text \<open>The sample after the outcome of the running submission became unknown.\<close>

definition unknown_sample :: world where
  "unknown_sample = upd [0, 0, 0] (upd_task (\<lambda>t. t\<lparr>submission_unknown_reason := Some ''lost''\<rparr>)) sample"

lemma unknown_sample_skeleton: "skeleton unknown_sample = skeleton sample"
  unfolding unknown_sample_def by (rule skeleton_upd) (simp add: upd_task_def)

lemma unknown_sample_reason: "is_task unknown_sample [0, 0, 0]" "unknown_reason unknown_sample [0, 0, 0] \<noteq> None"
  by (simp_all add: unknown_sample_def attr_upd upd_task_def sample_fields sample_node_defs)

lemma unknown_sample_tree: "subtree unknown_sample = subtree sample" "valid unknown_sample = valid sample"
  "tasks_are_leaves unknown_sample"
  using structure_cong [OF skeletonD(1) [OF unknown_sample_skeleton]] sample_leaves
    tasks_are_leaves_skeleton [OF unknown_sample_skeleton] by simp_all

theorem requeue_refuses_unknown_witness:
  "unknown_reason unknown_sample [0, 0, 0] \<noteq> None
   \<and> requeue_node [0, 0, 0] True unknown_sample = (Inl FlowStateError, unknown_sample)"
  using requeue_refuses_unknown [OF unknown_sample_tree(3), of "[0, 0, 0]" "[0, 0, 0]" True] unknown_sample_reason
    sample_in_subtree sample_valid(3) by (simp add: unknown_sample_tree)

theorem flow_begin_starts_witness:
  "begun (n_flow (attr sample [0])) \<and> flow_begin [0] False sample = (Inl FlowStateError, sample)"
  using flow_begin_starts [OF sample_names sample_leaves sample_valid(1), of False "fst (flow_begin [0] False sample)"
      "snd (flow_begin [0] False sample)"]
  by (simp add: sample_fields sample_node_defs prod_eq_iff)

definition no_parser :: parser where
  "no_parser s = Inl ExpressionSyntaxError"

lemma sample_weight: "weight (subtree sample [0]) = 10"
  by code_simp

theorem flow_work_refines_witness:
  "find_flow sample ''f'' = Some [0]
   \<and> flow_work 10 no_parser (\<lambda>_. Task_hooks) [0] 63000000060000000 sample
     = seqM (process_flow no_parser (\<lambda>_. Task_hooks) [0] 63000000060000000) (ret []) sample"
  using flow_work_refines [OF quiet_Task_hooks _ sample_valid(1), of 10 no_parser 63000000060000000] sample_weight
  by (simp add: find_flow_def sample_fields sample_node_defs)


definition sample_init :: "string \<Rightarrow> init_command" where
  "sample_init tid = \<lparr>cc_node_path = ''/f/c/t1'', cc_attempt_id = sample_attempt, ic_task_id = tid\<rparr>"

definition no_credentials :: call_credentials where
  "no_credentials = \<lparr>cr_job_password = None, cr_secret = None, cr_user = None, cr_peer = None\<rparr>"

lemma sample_task: "is_task sample [0, 0, 0]" "status_of sample [0, 0, 0] = active"
  by (simp_all add: sample_fields sample_node_defs)

lemma init_twice_witness:
  "run_command_init None no_credentials (sample_init ''77'') sample = (Inr (), sample)
   \<and> run_command_init None no_credentials (sample_init ''78'') sample = (Inl ZombieError, sample)"
proof -
  have i: "run_command_init None no_credentials (sample_init tid) sample
      = (if Some ''77'' = Some tid then Inr () else Inl ZombieError, sample)" for tid
    using init_twice [of sample "sample_init tid" "[0, 0, 0]" None no_credentials] sample_found sample_task
      sample_canonical sample_live
    by (simp add: sample_init_def) (simp add: sample_fields sample_node_defs)
  show ?thesis by (simp add: i)
qed

lemma requeue_orphans_reports_witness:
  "\<exists>e. run_command_complete None no_credentials \<lparr>cc_node_path = ''/f/c/t1'', cc_attempt_id = sample_attempt\<rparr>
     (after (requeue_node [0, 0, 0] True sample)) = (Inl e, after (requeue_node [0, 0, 0] True sample))"
proof -
  have sk: "skeleton (after (requeue_node [0, 0, 0] True sample)) = skeleton sample"
    by (intro skeleton_obeys skel.obeys_requeue_node)
  have "bunch_find_node (after (requeue_node [0, 0, 0] True sample)) ''/f/c/t1'' = Inr (Some [0, 0, 0])"
    using sample_found by (simp add: bunch_find_node_skeleton [OF sk])
  then show ?thesis
    by (intro requeue_orphans_reports [OF sample_names sample_leaves sample_valid(3) run_split [OF sample_requeues]
          sample_in_subtree]) simp
qed

definition sample_report :: abort_command where
  "sample_report = \<lparr>cc_node_path = ''/f/c/t1'', cc_attempt_id = sample_attempt, ac_reason = []\<rparr>"

lemma sample_accepts:
  "run_command_complete None no_credentials \<lparr>cc_node_path = ''/f/c/t1'', cc_attempt_id = sample_attempt\<rparr> sample
   = (Inr (), after (task_complete [0, 0, 0] sample))"
proof -
  have v: "validate_attempt_id sample_attempt sample = (Inr (), sample)"
    using sample_canonical by (auto simp: validate_attempt_id_def canonical_uuid_def prog_defs)
  have f: "find_task_or_raise ''/f/c/t1'' sample = (Inr [0, 0, 0], sample)"
    using sample_found sample_task by (simp add: find_task_or_raise_def find_node_or_raise_def prog_defs)
  have g: "guard_attempt [0, 0, 0] sample_attempt sample = (Inr (), sample)"
    using guard_attempt_Inr [of "[0, 0, 0]" sample_attempt sample] guard_attempt_same [of "[0, 0, 0]" sample_attempt sample]
      sample_canonical sample_live by (simp add: prod_eq_iff)
  show ?thesis
    using v f g sample_completes
    by (simp add: run_command_complete_def report_command_def guard_child_command_def seqM_def bindM_def ret_def)
      (rule run_split)
qed


text \<open>The sample before its flow began.\<close>

definition unbegun_sample :: world where
  "unbegun_sample = upd [0] (upd_flow (\<lambda>f. f\<lparr>begun := False\<rparr>)) sample"

lemma unbegun_sample_skeleton: "skeleton unbegun_sample = skeleton sample"
  unfolding unbegun_sample_def by (rule skeleton_upd) (simp add: upd_flow_def)

lemma unbegun_refused_witness:
  "run_command_requeue [''/f/c/t1''] unbegun_sample = (Inl FlowStateError, unbegun_sample)
   \<and> run_command_force [''/f/c/t1''] ''complete'' False unbegun_sample = (Inl FlowStateError, unbegun_sample)"
proof -
  have "bunch_find_node unbegun_sample ''/f/c/t1'' = Inr (Some [0, 0, 0])"
    using sample_found by (simp add: bunch_find_node_skeleton [OF unbegun_sample_skeleton])
  moreover have "colon \<notin> set ''/f/c/t1''" by (simp add: colon_def)
  moreover have "get_flow unbegun_sample [0, 0, 0] = Some [0]" "\<not> begun (n_flow (attr unbegun_sample [0]))"
    by (simp_all add: get_flow_def get_root_def unbegun_sample_def attr_upd upd_flow_def sample_fields sample_node_defs)
  ultimately show ?thesis
    using unbegun_refused [of unbegun_sample "''/f/c/t1''" "[0, 0, 0]" "[0]" _ False _ "''complete''" False] by blast
qed


theorem force_needs_attempt_witness:
  "\<not> current_attempt sample [Suc 0, 0] \<and> outcome (force_node [Suc 0, 0] ''active'' False sample) \<noteq> Inr ()"
proof -
  have "\<not> current_attempt sample [Suc 0, 0]" by (simp add: current_attempt_def Let_def sample_fields sample_node_defs)
  moreover have "is_task sample [Suc 0, 0]" by (simp add: sample_fields sample_node_defs)
  moreover have "NodeStatus_of_name ''active'' = Some active" by (simp add: NodeStatus_of_name_def)
  ultimately show ?thesis
    using force_needs_attempt [of "''active''" active "[Suc 0, 0]" False sample
        "fst (force_node [Suc 0, 0] ''active'' False sample)" "snd (force_node [Suc 0, 0] ''active'' False sample)" "[[Suc 0, 0]]"]
    by auto
qed

theorem batch_best_effort_witness:
  "br_flag (fst (batch_suspend (\<lambda>w. Some ()) (\<lambda>w t. None) [''/f/t3'', ''bad''] sample)) = 16
   \<and> map bi_target (br_results (fst (batch_suspend (\<lambda>w. Some ()) (\<lambda>w t. None) [''/f/t3'', ''bad''] sample)))
     = [''/f/t3'', ''bad'']"
proof -
  let ?b = "batch_targets (\<lambda>w. Some ()) (\<lambda>w t. None) BatchPlain (\<lambda>t. run_command_suspend [t]) [''/f/t3'', ''bad''] sample"
  have bad: "\<not> target_ok BatchPlain ''bad''" by (simp add: target_ok_def colon_def)
  have b: "?b = (fst ?b, snd ?b)" by simp
  from batch_best_effort [OF b]
  have r: "map bi_target (br_results (fst ?b)) = [''/f/t3'', ''bad'']"
    "bi_flag (br_results (fst ?b) ! 1) = 0 \<longrightarrow> target_ok BatchPlain ''bad''"
    "br_flag (fst ?b) = (if \<forall>it \<in> set (br_results (fst ?b)). bi_flag it = 0 then 0 else 16)"
    by (auto simp: All_less_Suc2 numeral_2_eq_2)
  have "length (br_results (fst ?b)) = 2" using arg_cong [OF r(1), of length] by simp
  then have "br_results (fst ?b) ! 1 \<in> set (br_results (fst ?b))" by simp
  with r bad show ?thesis unfolding batch_suspend_def by auto
qed

lemma service_commands_witness:
  "service_ok sample \<and> ss_status (w_server_state (after (run_command_server_halt None None None sample))) = halted"
proof -
  have "service_ok sample" by (simp add: service_ok_def consistent_def sample_fields ServerState_def)
  moreover obtain w' where "run_command_server_halt None None None sample =
      (Inr \<lparr>sr_flag = 0, sr_message = ''service halted in memory'', sr_status = halted,
         sr_status_reason = ss_status_reason (w_server_state w'), sr_halt_causes = ss_halt_causes (w_server_state w'),
         sr_last_checkpoint_at = None\<rparr>, w')"
    and "service_ok w'" "set (ss_halt_causes (w_server_state w')) = insert manual (set (ss_halt_causes (w_server_state sample)))"
    using service_commands [OF calculation, of None None] unfolding option.simps by blast
  moreover from this have "ss_halt_causes (w_server_state w') \<noteq> []" by auto
  ultimately show ?thesis by (simp add: service_ok_def)
qed

text \<open>A second flow \<open>/x\<close> that is not in the bunch yet.\<close>

lemma flow_registry_witness:
  "find_flow (after (add_flow [1] sample)) ''x'' = Some [1]
   \<and> find_flow (after (add_flow [1] sample)) ''f'' = Some [0]"
proof -
  have "outcome (add_flow [Suc 0] sample) = Inr ()"
    by (simp add: run_simps sample_run add_flow_def ensure_definition_generation_def mark_def pending_children_def
        subtree_def sample_def nth_opt_conv kids_at_def cong: run_cong)
  then have "add_flow [1] sample = (Inr (), after (add_flow [1] sample))" by (simp add: prod_eq_iff)
  from flow_registry [OF this prod.collapse [symmetric]] show ?thesis
    using add_flow_effect(1) [OF \<open>add_flow [1] sample = (Inr (), after (add_flow [1] sample))\<close>, of "''f''"]
    by (simp add: sample_fields sample_node_defs find_flow_def)
qed

theorem find_node_roundtrip_witness:
  "bunch_find_node sample (node_path sample [Suc 0, 0, 0]) = Inr (Some [Suc 0, 0, 0])"
proof -
  have "attached sample [Suc 0, 0, 0]"
    by (simp add: attached_def sample_valid find_flow_def get_root_def sample_fields sample_node_defs)
  from find_node_roundtrip [OF sample_names sample_siblings this] show ?thesis by blast
qed

lemma status_cache_exact_witness:
  "outcome (computed_status [0] sample) = Inr (Max {active, queued})"
  using status_cache_exact [OF sample_counts, of "[0]" "fst (computed_status [0] sample)" "snd (computed_status [0] sample)"]
  by (simp add: sample_tree) (simp add: sample_fields sample_node_defs)

text \<open>A trigger that compares the task \<open>/f/t3\<close> with complete, and one that names no node.\<close>

definition path_ast :: "string \<Rightarrow> ast" where
  "path_ast path = AstNodePath \<lparr>np_node_path = path, np_parent_node = None, np_reference_node = None\<rparr>"

definition sample_parser :: parser where
  "sample_parser s = (if s = ''/f/t3 == complete'' then Inr (AstOpEq (path_ast ''/f/t3'') (AstNodeStatus complete))
     else if s = ''/f/no == unknown'' then Inr (AstOpEq (path_ast ''/f/no'') (AstNodeStatus unknown))
     else Inl ExpressionSyntaxError)"

lemma sample_lookup: "find_node sample [0, 0, 0] ''/f/t3'' = Inr (Some [1, 0])"
  "find_node sample [0, 0, 0] ''/f/no'' = Inr None"
  by code_simp+

theorem bound_trigger_semantics_witness:
  "fst (eval_expression sample_parser sample [0, 0, 0]
     (snd (create_ast sample_parser sample [0, 0, 0] (Expression ''/f/t3 == complete'')))) = Inr False"
proof -
  let ?ex = "Expression ''/f/t3 == complete''"
  have p: "sample_parser (ex_expression_str ?ex) = Inr (AstOpEq (path_ast ''/f/t3'') (AstNodeStatus complete))"
    by (simp add: sample_parser_def Expression_def)
  have c: "create_ast sample_parser sample [0, 0, 0] ?ex = (None, snd (create_ast sample_parser sample [0, 0, 0] ?ex))"
    by (simp add: create_ast_def p path_ast_def bind2_def bind_node_path_def get_reference_node_def sample_lookup
        split: prod.splits)
  have u: "unbound (AstOpEq (path_ast ''/f/t3'') (AstNodeStatus complete))" by (simp add: unbound_def path_ast_def)
  from bound_trigger_semantics [OF p u c refl] show ?thesis
    by (simp add: Expression_def sem_compare_def path_ast_def sample_lookup node_path_value_def py_eq_def)
       (simp add: sample_fields sample_node_defs)
qed


lemma set_meter_reads_back_witness:
  "set_meter [0, 0, 0] ''none'' 5 sample = (Inr False, sample)
   \<and> outcome (set_meter [0] ''m'' 9 (upd [0] (\<lambda>a. a\<lparr>n_meters := [Meter ''m'' 0 5]\<rparr>) sample)) = Inl (PyError PyValueError)"
proof -
  let ?w = "upd [0] (\<lambda>a. a\<lparr>n_meters := [Meter ''m'' 0 5]\<rparr>) sample"
  have 1: "set_meter [0, 0, 0] ''none'' 5 sample = (Inr False, sample)"
    by (simp add: set_meter_def write_meter_def find_meter_def withState_def ret_def sample_fields sample_node_defs)
  have "find_event ?w [0] ''m'' = None" by (simp add: find_event_def attr_upd sample_fields sample_node_defs)
  moreover have "find_meter ?w [0] ''m'' = Some 0" by (simp add: find_meter_def attr_upd Meter_def)
  moreover have "meter_is_invalid (n_meters (attr ?w [0]) ! 0) 9" by (simp add: attr_upd Meter_def meter_is_invalid_def)
  ultimately show ?thesis
    using 1 set_meter_reads_back [of "[0]" "''m''" 9 ?w "fst (set_meter [0] ''m'' 9 ?w)" "snd (set_meter [0] ''m'' 9 ?w)"]
    by simp
qed

lemma parameters_agree_witness:
  "\<exists>d. parameters sample [0, 0, 0] = Inr d
     \<and> find_parent_parameter sample [0, 0, 0] ''TASK'' = Inr (dict_get d ''TASK'')"
proof -
  have ok: "dicts_ok sample" by (simp add: dicts_ok_def sample_def sample_node_defs)
  have "\<exists>d. parameters sample [0, 0, 0] = Inr d"
    by (simp add: parameters_def parameters_only_def generated_parameters_only_def repeat_parameters_def sample_fields
        sample_node_defs split: option.splits)
  then obtain d where d: "parameters sample [0, 0, 0] = Inr d" by blast
  from parameters_agree [OF ok _ d, of "''TASK''"] d show ?thesis by simp
qed


end
