(* ===== verification/Credentials.thy ===== *)
theory Credentials
  imports Audit_Trail
begin

text \<open>
  The credentials of a call (\<^verbatim>\<open>auth.py\<close>): the credential files with their fingerprint cache, the store of
  operator secrets and whitelisted users, the privilege each method demands, and the credentials parsed
  from the metadata of a call. What the file system answers is an argument: an observation of a file is the
  outcome of \<open>os.stat\<close> and that of \<open>read_text\<close>, an error being represented by the text of its reason. A
  value in the metadata that arrived as bytes is represented by what decoding it gives.
\<close>

section \<open>Credential files\<close>

definition parse_credential_lines :: "string \<Rightarrow> string set" where
  "parse_credential_lines text =
     set (filter (\<lambda>v. v \<noteq> [] \<and> \<not> startswith v ''#'') (map py_strip (py_splitlines text)))"

record file_observation =
  fo_stat :: "string + (int \<times> int)"
  fo_text :: "string + string"

type_synonym file_system = "string \<Rightarrow> file_observation"

record credential_file =
  cf_path :: "string option"
  cf_description :: string
  cf_fingerprint :: "(int \<times> int) option"
  cf_values :: "string set"

definition CredentialFile :: "string option \<Rightarrow> string \<Rightarrow> credential_file" where
  "CredentialFile path description = \<lparr>cf_path = (if is_blank path then None else path),
     cf_description = description, cf_fingerprint = None, cf_values = {}\<rparr>"

record file_content =
  fc_configured :: bool
  fc_values :: "string set"
  fc_error :: "string option"

definition read_failure :: "credential_file \<Rightarrow> string \<Rightarrow> file_content \<times> credential_file" where
  "read_failure f reason =
     (\<lparr>fc_configured = True, fc_values = {}, fc_error = Some (''cannot read '' @ cf_description f @ '' '' @
        (case cf_path f of None \<Rightarrow> ''None'' | Some p \<Rightarrow> p) @ '': '' @ reason)\<rparr>,
      f\<lparr>cf_fingerprint := None, cf_values := {}\<rparr>)"

definition file_read :: "file_system \<Rightarrow> credential_file \<Rightarrow> file_content \<times> credential_file" where
  "file_read fs f = (case cf_path f of
      None \<Rightarrow> (\<lparr>fc_configured = False, fc_values = {}, fc_error = None\<rparr>, f)
    | Some path \<Rightarrow> (case fo_stat (fs path) of
        Inl reason \<Rightarrow> read_failure f reason
      | Inr fp \<Rightarrow>
          if cf_fingerprint f = Some fp
          then (\<lparr>fc_configured = True, fc_values = cf_values f, fc_error = None\<rparr>, f)
          else (case fo_text (fs path) of
              Inl reason \<Rightarrow> read_failure f reason
            | Inr text \<Rightarrow>
                let vs = parse_credential_lines text in
                (\<lparr>fc_configured = True, fc_values = vs, fc_error = None\<rparr>,
                 f\<lparr>cf_fingerprint := Some fp, cf_values := vs\<rparr>))))"

section \<open>The store\<close>

record credential_store =
  cs_secret :: credential_file
  cs_whitelist :: credential_file

definition CredentialStore :: "string option \<Rightarrow> string option \<Rightarrow> credential_store" where
  "CredentialStore secret_file whitelist_file =
     \<lparr>cs_secret = CredentialFile secret_file ''operator secret file'',
      cs_whitelist = CredentialFile whitelist_file ''operator whitelist file''\<rparr>"

definition read_secret_set :: "file_system \<Rightarrow> credential_store \<Rightarrow> file_content \<times> credential_store" where
  "read_secret_set fs st = (case file_read fs (cs_secret st) of (c, f) \<Rightarrow> (c, st\<lparr>cs_secret := f\<rparr>))"

definition read_whitelist :: "file_system \<Rightarrow> credential_store \<Rightarrow> file_content \<times> credential_store" where
  "read_whitelist fs st = (case file_read fs (cs_whitelist st) of (c, f) \<Rightarrow> (c, st\<lparr>cs_whitelist := f\<rparr>))"

text \<open>\<open>value.encode("utf-8")\<close>: one byte below 128, two above.\<close>

definition encode_char :: "char \<Rightarrow> nat list" where
  "encode_char c = (if char_code c < 128 then [char_code c] else [192 + char_code c div 64, 128 + char_code c mod 64])"

definition encode_secret :: "string \<Rightarrow> nat list" where
  "encode_secret s = concat (map encode_char s)"

definition compare_secret_values :: "nat list \<Rightarrow> nat list \<Rightarrow> bool" where
  "compare_secret_values candidate secret \<longleftrightarrow> candidate = secret"

text \<open>The values are compared one by one, in the order the set happens to have.\<close>

definition verify_secret :: "file_system \<Rightarrow> credential_store \<Rightarrow> string option \<Rightarrow> bool \<times> credential_store" where
  "verify_secret fs st candidate = (case candidate of
      None \<Rightarrow> (False, st)
    | Some c \<Rightarrow> (case read_secret_set fs st of (content, st') \<Rightarrow>
        (\<exists>s \<in> fc_values content. compare_secret_values (encode_secret c) (encode_secret s), st')))"

definition is_whitelisted :: "file_system \<Rightarrow> credential_store \<Rightarrow> string option \<Rightarrow> bool \<times> credential_store" where
  "is_whitelisted fs st user = (case read_whitelist fs st of (content, st') \<Rightarrow>
     (if \<not> fc_configured content then True
      else case user of None \<Rightarrow> False | Some u \<Rightarrow> u \<in> fc_values content, st'))"

datatype rejection_reason = MISSING_CREDENTIAL | INVALID_CREDENTIAL | NOT_IN_WHITELIST

definition rejection_value :: "rejection_reason \<Rightarrow> string" where
  "rejection_value r = (case r of MISSING_CREDENTIAL \<Rightarrow> ''missing_credential''
     | INVALID_CREDENTIAL \<Rightarrow> ''invalid_credential'' | NOT_IN_WHITELIST \<Rightarrow> ''not_in_whitelist'')"

text \<open>
  The four reads of one decision see the file system at four moments, \<open>fs 0\<close> to \<open>fs 3\<close>.
\<close>

definition authorize_operator :: "(nat \<Rightarrow> file_system) \<Rightarrow> credential_store \<Rightarrow> string option \<Rightarrow> string option
    \<Rightarrow> rejection_reason option \<times> credential_store" where
  "authorize_operator fs st secret user =
     (if secret = None \<or> user = None then (Some MISSING_CREDENTIAL, st)
      else case read_secret_set (fs 0) st of (secret_content, st1) \<Rightarrow>
        (case read_whitelist (fs 1) st1 of (whitelist_content, st2) \<Rightarrow>
          if fc_error secret_content \<noteq> None \<or> fc_error whitelist_content \<noteq> None
          then (Some INVALID_CREDENTIAL, st2)
          else if \<not> fc_configured secret_content then (Some INVALID_CREDENTIAL, st2)
          else case verify_secret (fs 2) st2 secret of (valid, st3) \<Rightarrow>
            if \<not> valid then (Some INVALID_CREDENTIAL, st3)
            else case is_whitelisted (fs 3) st3 user of (listed, st4) \<Rightarrow>
              (if listed then None else Some NOT_IN_WHITELIST, st4)))"

section \<open>Startup\<close>

text \<open>\<open>validate_at_startup\<close>; its warnings are log output. The outcome is whether the server may start.\<close>

definition validate_at_startup :: "file_system \<Rightarrow> credential_store \<Rightarrow> bool \<Rightarrow> (exc + unit) \<times> credential_store" where
  "validate_at_startup fs st auth_enabled =
     (if \<not> auth_enabled then (Inr (), st)
      else case read_secret_set fs st of (content, st') \<Rightarrow>
        (if \<not> fc_configured content \<or> fc_error content \<noteq> None \<or> fc_values content = {}
         then Inl SecurityConfigError else Inr (), st'))"

section \<open>The encoding tells secrets apart\<close>

lemma char_code_inj: "char_code c = char_code d \<Longrightarrow> c = d"
  by (metis char_of_code)

lemma encode_char_inj:
  assumes "encode_char c @ xs = encode_char d @ ys"
  shows "c = d \<and> xs = ys"
proof -
  have "char_code c = char_code d" if "char_code c div 64 = char_code d div 64" "char_code c mod 64 = char_code d mod 64"
    using that by (metis div_mult_mod_eq)
  then show ?thesis
    using assms char_code_less [of c] char_code_less [of d]
    by (auto simp: encode_char_def split: if_splits intro: char_code_inj)
qed

lemma encode_secret_inj: "encode_secret s = encode_secret t \<longleftrightarrow> s = t"
proof
  show "encode_secret s = encode_secret t \<Longrightarrow> s = t"
  proof (induction s arbitrary: t)
    case Nil
    then show ?case by (cases t) (auto simp: encode_secret_def encode_char_def split: if_splits)
  next
    case (Cons c s)
    then obtain d t' where t: "t = d # t'" by (cases t) (auto simp: encode_secret_def encode_char_def split: if_splits)
    then have "c = d \<and> encode_secret s = encode_secret t'"
      using Cons.prems encode_char_inj [of c "encode_secret s" d "encode_secret t'"] by (simp add: encode_secret_def)
    then show ?case using Cons.IH t by simp
  qed
qed simp

section \<open>The cache is transparent\<close>

text \<open>
  The premise of the cache: a fingerprint identifies the text of a file, which can then be read. \<open>fresh_read\<close> reads
  a file without a cache.
\<close>

definition stamped :: "(string \<Rightarrow> int \<times> int \<Rightarrow> string) \<Rightarrow> file_system \<Rightarrow> bool" where
  "stamped content fs \<longleftrightarrow> (\<forall>p fp. fo_stat (fs p) = Inr fp \<longrightarrow> fo_text (fs p) = Inr (content p fp))"

definition cache_ok :: "(string \<Rightarrow> int \<times> int \<Rightarrow> string) \<Rightarrow> credential_file \<Rightarrow> bool" where
  "cache_ok content f \<longleftrightarrow> (\<forall>p fp. cf_path f = Some p \<and> cf_fingerprint f = Some fp
     \<longrightarrow> cf_values f = parse_credential_lines (content p fp))"

definition fresh_read :: "file_system \<Rightarrow> credential_file \<Rightarrow> file_content" where
  "fresh_read fs f = fst (file_read fs (f\<lparr>cf_fingerprint := None\<rparr>))"

lemma cache_ok_new: "cache_ok content (CredentialFile path description)"
  by (simp add: cache_ok_def CredentialFile_def)

lemma file_read_path: "file_read fs f = (c, f') \<Longrightarrow> cf_path f' = cf_path f \<and> cf_description f' = cf_description f"
  by (auto simp: file_read_def read_failure_def Let_def split: option.splits sum.splits if_splits)

lemma file_read_fresh:
  assumes "stamped content fs" and "cache_ok content f" and "file_read fs f = (c, f')"
  shows "c = fresh_read fs f" and "cache_ok content f'" and "fresh_read fs2 f' = fresh_read fs2 f"
proof -
  show "c = fresh_read fs f" "cache_ok content f'"
    using assms by (auto simp: file_read_def fresh_read_def read_failure_def cache_ok_def stamped_def Let_def
        split: option.splits sum.splits if_splits)
  have "cf_path f' = cf_path f" "cf_description f' = cf_description f" using file_read_path [OF assms(3)] by auto
  then show "fresh_read fs2 f' = fresh_read fs2 f"
    by (auto simp: fresh_read_def file_read_def read_failure_def Let_def split: option.splits sum.splits)
qed

definition store_cached :: "(string \<Rightarrow> int \<times> int \<Rightarrow> string) \<Rightarrow> credential_store \<Rightarrow> bool" where
  "store_cached content st \<longleftrightarrow> cache_ok content (cs_secret st) \<and> cache_ok content (cs_whitelist st)"

text \<open>The store with its caches, and the same store reading its files anew, at every step of a decision.\<close>

definition same_files :: "credential_store \<Rightarrow> credential_store \<Rightarrow> bool" where
  "same_files st st' \<longleftrightarrow> (\<forall>fs. fresh_read fs (cs_secret st') = fresh_read fs (cs_secret st) \<and> fresh_read fs (cs_whitelist st') = fresh_read fs (cs_whitelist st))"

lemma read_secret_set_fresh:
  assumes "stamped content fs" and "store_cached content st" and "read_secret_set fs st = (c, st')"
  shows "c = fresh_read fs (cs_secret st) \<and> store_cached content st' \<and> same_files st st'"
proof -
  obtain f where f: "file_read fs (cs_secret st) = (c, f)" "st' = st\<lparr>cs_secret := f\<rparr>"
    using assms(3) by (auto simp: read_secret_set_def split: prod.splits)
  show ?thesis using file_read_fresh [OF assms(1) _ f(1)] assms(2) f(2)
    by (simp add: store_cached_def same_files_def)
qed

lemma read_whitelist_fresh:
  assumes "stamped content fs" and "store_cached content st" and "read_whitelist fs st = (c, st')"
  shows "c = fresh_read fs (cs_whitelist st) \<and> store_cached content st' \<and> same_files st st'"
proof -
  obtain f where f: "file_read fs (cs_whitelist st) = (c, f)" "st' = st\<lparr>cs_whitelist := f\<rparr>"
    using assms(3) by (auto simp: read_whitelist_def split: prod.splits)
  show ?thesis using file_read_fresh [OF assms(1) _ f(1)] assms(2) f(2)
    by (simp add: store_cached_def same_files_def)
qed

lemma same_files_trans: "same_files st st' \<Longrightarrow> same_files st' st'' \<Longrightarrow> same_files st st''"
  by (simp add: same_files_def)

lemma verify_secret_fresh:
  assumes "stamped content fs" and "store_cached content st" and "verify_secret fs st (Some s) = (b, st')"
  shows "b \<longleftrightarrow> s \<in> fc_values (fresh_read fs (cs_secret st))" and "store_cached content st'" and "same_files st st'"
  using assms(3) read_secret_set_fresh [OF assms(1,2)]
  by (auto simp: verify_secret_def compare_secret_values_def encode_secret_inj split: prod.splits)

lemma is_whitelisted_fresh:
  assumes "stamped content fs" and "store_cached content st" and "is_whitelisted fs st (Some u) = (b, st')"
  shows "b \<longleftrightarrow> \<not> fc_configured (fresh_read fs (cs_whitelist st)) \<or> u \<in> fc_values (fresh_read fs (cs_whitelist st))"
    and "store_cached content st'"
  using assms(3) read_whitelist_fresh [OF assms(1,2)] by (auto simp: is_whitelisted_def split: prod.splits if_splits)

text \<open>What an operator has to present, in terms of the files as they are.\<close>

definition operator_verdict :: "(nat \<Rightarrow> file_system) \<Rightarrow> credential_store \<Rightarrow> string option \<Rightarrow> string option
    \<Rightarrow> rejection_reason option" where
  "operator_verdict fs st secret user = (case (secret, user) of
      (Some s, Some u) \<Rightarrow>
        if fc_error (fresh_read (fs 0) (cs_secret st)) \<noteq> None \<or> fc_error (fresh_read (fs 1) (cs_whitelist st)) \<noteq> None
          \<or> \<not> fc_configured (fresh_read (fs 0) (cs_secret st)) \<or> s \<notin> fc_values (fresh_read (fs 2) (cs_secret st))
        then Some INVALID_CREDENTIAL
        else if fc_configured (fresh_read (fs 3) (cs_whitelist st)) \<and> u \<notin> fc_values (fresh_read (fs 3) (cs_whitelist st))
        then Some NOT_IN_WHITELIST else None
    | _ \<Rightarrow> Some MISSING_CREDENTIAL)"

lemma operator_decision_fresh_store:
  assumes "\<forall>i. stamped content (fs i)" and "store_cached content st"
    and "authorize_operator fs st secret user = (r, st')"
  shows "r = operator_verdict fs st secret user \<and> store_cached content st'"
proof (cases "secret = None \<or> user = None")
  case True
  then show ?thesis using assms(2,3) by (auto simp: authorize_operator_def operator_verdict_def split: option.splits)
next
  case False
  then obtain s u where su: "secret = Some s" "user = Some u" by auto
  obtain c1 st1 where r1: "read_secret_set (fs 0) st = (c1, st1)" by fastforce
  obtain c2 st2 where r2: "read_whitelist (fs 1) st1 = (c2, st2)" by fastforce
  obtain b3 st3 where r3: "verify_secret (fs 2) st2 (Some s) = (b3, st3)" by fastforce
  obtain b4 st4 where r4: "is_whitelisted (fs 3) st3 (Some u) = (b4, st4)" by fastforce
  note st = assms(1) [rule_format]
  note f1 = read_secret_set_fresh [OF st assms(2) r1]
  note f2 = read_whitelist_fresh [OF st _ r2]
  note f3 = verify_secret_fresh [OF st _ r3]
  note f4 = is_whitelisted_fresh [OF st _ r4]
  have "same_files st st3" using f1 f2 f3 same_files_trans by blast
  then show ?thesis
    using assms(3) f1 f2 f3 f4 r1 r2 r3 r4 su
    by (auto simp: authorize_operator_def operator_verdict_def same_files_def split: if_splits)
qed


text \<open>
  C28. A secret file that can no longer be read, but whose fingerprint is the cached one, as after its
  read permission was withdrawn, is not noticed: the secrets read before go on being accepted.
\<close>

theorem unreadable_secrets_accepted:
  assumes "cf_path (cs_secret st) = Some p" and "cf_fingerprint (cs_secret st) = Some fp"
    and "s \<in> cf_values (cs_secret st)" and "cf_path (cs_whitelist st) = None"
    and "\<forall>i. fo_stat (fs i p) = Inr fp" and "\<forall>i. \<exists>reason. fo_text (fs i p) = Inl reason"
  shows "authorize_operator fs st (Some s) (Some u) = (None, st)"
proof -
  have "file_read (fs i) (cs_secret st) = (\<lparr>fc_configured = True, fc_values = cf_values (cs_secret st), fc_error = None\<rparr>, cs_secret st)"
    for i using assms(1,2,5) by (simp add: file_read_def)
  moreover have "file_read (fs i) (cs_whitelist st) = (\<lparr>fc_configured = False, fc_values = {}, fc_error = None\<rparr>, cs_whitelist st)"
    for i using assms(4) by (simp add: file_read_def)
  ultimately show ?thesis using assms(3)
    by (auto simp: authorize_operator_def read_secret_set_def read_whitelist_def verify_secret_def is_whitelisted_def
        compare_secret_values_def)
qed

section \<open>A deployment\<close>

text \<open>One secret file with one secret, no whitelist: the files of the examples below.\<close>

definition sample_files :: file_system where
  "sample_files p = (if p = ''/etc/takler.secret''
     then \<lparr>fo_stat = Inr (7, 42), fo_text = Inr ''# round 3
hunter2-hunter2''\<rparr>
     else \<lparr>fo_stat = Inl ''no such file'', fo_text = Inl ''no such file''\<rparr>)"

definition sample_content :: "string \<Rightarrow> int \<times> int \<Rightarrow> string" where
  "sample_content p fp = (case fo_text (sample_files p) of Inr t \<Rightarrow> t | Inl _ \<Rightarrow> [])"

definition sample_store :: credential_store where
  "sample_store = CredentialStore (Some ''/etc/takler.secret'') None"

lemma sample_stamped: "stamped sample_content sample_files"
  by (auto simp: stamped_def sample_content_def sample_files_def)

lemma sample_store_cached: "store_cached content sample_store"
  by (simp add: store_cached_def sample_store_def CredentialStore_def cache_ok_new)


text \<open>The secret was read while the file was readable; then its permission is withdrawn.\<close>

definition locked_files :: file_system where
  "locked_files p = (sample_files p)\<lparr>fo_text := Inl ''PermissionError''\<rparr>"

definition used_store :: credential_store where
  "used_store = snd (authorize_operator (\<lambda>_. sample_files) sample_store (Some ''hunter2-hunter2'') (Some ''alice''))"

theorem unreadable_secrets_accepted_witness:
  "authorize_operator (\<lambda>_. locked_files) used_store (Some ''hunter2-hunter2'') (Some ''mallory'') = (None, used_store)"
proof (rule unreadable_secrets_accepted)
  show "cf_path (cs_secret used_store) = Some ''/etc/takler.secret''" by code_simp
  show "cf_fingerprint (cs_secret used_store) = Some (7, 42)" by code_simp
  show "''hunter2-hunter2'' \<in> cf_values (cs_secret used_store)" by code_simp
  show "cf_path (cs_whitelist used_store) = None" by code_simp
qed (simp_all add: locked_files_def sample_files_def)

end
