(* ===== verification/Auth_Gate.thy ===== *)
theory Auth_Gate
  imports Credentials Zombie
begin

text \<open>
  The check in front of every call (\<^verbatim>\<open>auth.py\<close>): what each method demands, the credentials in the metadata,
  the decision of the gate, the text that is echoed of a refused call, and the interceptor that lets a call
  through to its handler or answers the refusal.
\<close>

section \<open>Privileges\<close>

datatype privilege_level = CHILD | OPERATOR | PUBLIC

definition SERVICE_METHOD_PREFIX :: string where
  "SERVICE_METHOD_PREFIX = ''/takler_protocol.TaklerServer/''"

definition QUERY_METHOD_PREFIX :: string where
  "QUERY_METHOD_PREFIX = ''/takler_protocol.TaklerQuery/''"

definition child_methods :: "string list" where
  "child_methods = [''RunCommandInit'', ''RunCommandComplete'', ''RunCommandAbort'', ''RunCommandEvent'', ''RunCommandMeter'']"

definition operator_methods :: "string list" where
  "operator_methods = [''RunCommandRequeue'', ''RunCommandSuspend'', ''RunCommandResume'', ''RunCommandRun'',
     ''RunCommandForce'', ''RunCommandFreeDep'', ''RunCommandLoad'', ''RunCommandReplace'', ''RunCommandBegin'',
     ''RunCommandServerHalt'', ''RunCommandServerResume'', ''RunRequestServerStatus'', ''QueryCoroutine'']"

definition PRIVILEGE_BY_METHOD :: "(string \<times> privilege_level) list" where
  "PRIVILEGE_BY_METHOD =
     map (\<lambda>n. (SERVICE_METHOD_PREFIX @ n, CHILD)) child_methods
   @ map (\<lambda>n. (SERVICE_METHOD_PREFIX @ n, OPERATOR)) operator_methods
   @ [(SERVICE_METHOD_PREFIX @ ''RunRequestPing'', PUBLIC)]"

definition QUERY_PRIVILEGE_BY_METHOD :: "(string \<times> privilege_level) list" where
  "QUERY_PRIVILEGE_BY_METHOD = map (\<lambda>n. (QUERY_METHOD_PREFIX @ n, OPERATOR))
     [''GetCapabilities'', ''ReadPage'', ''ReadDetail'', ''ReadDetailChunk'', ''ReadSince'', ''ReadFullSnapshot'',
      ''ReadFullSnapshotChunk'', ''CancelFullSnapshot'']"

definition privilege_for_method :: "string \<Rightarrow> (string \<times> privilege_level) list option \<Rightarrow> privilege_level" where
  "privilege_for_method meth table = (case table of
      None \<Rightarrow> (case dict_get QUERY_PRIVILEGE_BY_METHOD meth of
          Some level \<Rightarrow> level
        | None \<Rightarrow> (case dict_get PRIVILEGE_BY_METHOD meth of Some level \<Rightarrow> level | None \<Rightarrow> OPERATOR))
    | Some t \<Rightarrow> (case dict_get t meth of Some level \<Rightarrow> level | None \<Rightarrow> OPERATOR))"

section \<open>Credentials from metadata\<close>

definition METADATA_KEY_JOB_PASSWORD :: string where "METADATA_KEY_JOB_PASSWORD = ''takler-pass''"
definition METADATA_KEY_SECRET :: string where "METADATA_KEY_SECRET = ''takler-secret''"
definition METADATA_KEY_USER :: string where "METADATA_KEY_USER = ''takler-user''"

definition CREDENTIAL_METADATA_KEYS :: "string list" where
  "CREDENTIAL_METADATA_KEYS = [METADATA_KEY_JOB_PASSWORD, METADATA_KEY_SECRET, METADATA_KEY_USER]"

text \<open>
  A value is text, bytes (with what they decode to, if they do), or something else. An entry is a pair with a
  text key, or anything else.
\<close>

datatype metadata_value = MText string | MBytes "string option" | MOther

datatype metadata_entry = MPair string metadata_value | MJunk

definition metadata_text :: "metadata_value \<Rightarrow> string option" where
  "metadata_text v = (case v of
      MText s \<Rightarrow> if is_blank (Some s) then None else Some s
    | MBytes None \<Rightarrow> None
    | MBytes (Some s) \<Rightarrow> if is_blank (Some s) then None else Some s
    | MOther \<Rightarrow> None)"

fun collect_metadata :: "metadata_entry list \<Rightarrow> (string \<times> string) list \<Rightarrow> (string \<times> string) list" where
  "collect_metadata [] values = values"
| "collect_metadata (MJunk # es) values = collect_metadata es values"
| "collect_metadata (MPair key v # es) values =
     (let k = map to_lower key in
      if k \<notin> set CREDENTIAL_METADATA_KEYS \<or> dict_get values k \<noteq> None then collect_metadata es values
      else case metadata_text v of
        None \<Rightarrow> collect_metadata es values
      | Some text \<Rightarrow> collect_metadata es (dict_set k text values))"

definition from_metadata :: "metadata_entry list option \<Rightarrow> string option \<Rightarrow> call_credentials" where
  "from_metadata metadata peer =
     (let values = (case metadata of None \<Rightarrow> [] | Some es \<Rightarrow> collect_metadata es []) in
      \<lparr>cr_job_password = dict_get values METADATA_KEY_JOB_PASSWORD, cr_secret = dict_get values METADATA_KEY_SECRET,
       cr_user = dict_get values METADATA_KEY_USER, cr_peer = peer\<rparr>)"

definition empty_credentials :: call_credentials where
  "empty_credentials = \<lparr>cr_job_password = None, cr_secret = None, cr_user = None, cr_peer = None\<rparr>"

section \<open>What is echoed\<close>

definition REDACTED :: string where "REDACTED = ''<redacted>''"
definition MAX_ECHOED_LENGTH :: nat where "MAX_ECHOED_LENGTH = 200"
definition TRUNCATION_MARKER :: string where "TRUNCATION_MARKER = ''...(truncated)''"
definition MIN_REDACTED_LENGTH :: nat where "MIN_REDACTED_LENGTH = 8"

definition escape_char :: "char \<Rightarrow> string" where
  "escape_char c = (if is_printable c \<or> c = CHR '' '' then [c] else [CHR 0x5C, CHR ''x''] @ hex2 c)"

definition redact :: "string option \<Rightarrow> string \<Rightarrow> string" where
  "redact secret s = (case secret of
      None \<Rightarrow> s
    | Some x \<Rightarrow> if length x \<ge> MIN_REDACTED_LENGTH then py_replace x REDACTED s else s)"

definition cut_off :: "string \<Rightarrow> string" where
  "cut_off s = (if length s > MAX_ECHOED_LENGTH then take MAX_ECHOED_LENGTH s @ TRUNCATION_MARKER else s)"

definition sanitize_echoed_value :: "string option \<Rightarrow> call_credentials option \<Rightarrow> string" where
  "sanitize_echoed_value v credentials = (case v of
      None \<Rightarrow> ''None''
    | Some s \<Rightarrow>
        let escaped = concat (map escape_char s);
            hidden = (case credentials of None \<Rightarrow> escaped
              | Some cr \<Rightarrow> redact (cr_secret cr) (redact (cr_job_password cr) escaped))
        in cut_off hidden)"

section \<open>The gate\<close>

record auth_gate =
  ag_auth_mode :: auth_mode
  ag_credential_store :: credential_store
  ag_audit_logger :: bool
  ag_privilege_table :: "(string \<times> privilege_level) list option"

record auth_outcome =
  ao_credentials :: "call_credentials option"
  ao_rejection :: "rejection_reason option"

definition reject_reason :: "(nat \<Rightarrow> file_system) \<Rightarrow> auth_gate \<Rightarrow> privilege_level \<Rightarrow> call_credentials
    \<Rightarrow> rejection_reason option \<times> auth_gate" where
  "reject_reason fs g level cr =
     (if level = CHILD then (if cr_job_password cr = None then Some MISSING_CREDENTIAL else None, g)
      else case authorize_operator fs (ag_credential_store g) (cr_secret cr) (cr_user cr) of
        (r, st) \<Rightarrow> (r, g\<lparr>ag_credential_store := st\<rparr>))"

definition authorize :: "(nat \<Rightarrow> file_system) \<Rightarrow> auth_gate \<Rightarrow> string \<Rightarrow> metadata_entry list option \<Rightarrow> string option
    \<Rightarrow> auth_outcome \<times> auth_gate" where
  "authorize fs g meth metadata peer =
     (let level = privilege_for_method meth (ag_privilege_table g) in
      if level = PUBLIC then (\<lparr>ao_credentials = None, ao_rejection = None\<rparr>, g)
      else
        let cr = from_metadata metadata peer in
        if ag_auth_mode g \<noteq> AUTH_ENABLED then (\<lparr>ao_credentials = Some cr, ao_rejection = None\<rparr>, g)
        else case reject_reason fs g level cr of
          (r, g') \<Rightarrow> (\<lparr>ao_credentials = Some cr, ao_rejection = r\<rparr>, g'))"

definition denied_entry :: "world \<Rightarrow> string \<Rightarrow> call_credentials \<Rightarrow> rejection_reason \<Rightarrow> string option \<Rightarrow> audit_record" where
  "denied_entry w meth cr reason target =
     \<lparr>au_timestamp = w_local_time w, au_event = EVENT_DENIED,
      au_command = audit_command_name (sanitize_echoed_value (Some meth) (Some cr)),
      au_user = sanitize_echoed_value (Some (audit_user cr)) (Some cr), au_peer = audit_peer (cr_peer cr),
      au_target = (case target of None \<Rightarrow> [] | Some t \<Rightarrow> [sanitize_echoed_value (Some t) (Some cr)]),
      au_outcome = OUTCOME_DENIED, au_error_code = DENIED_ERROR_CODE,
      au_reason = (if endswith meth ''/RunCommandReplace'' then Some (rejection_value reason) else None),
      au_results = None\<rparr>"

definition refuse :: "auth_gate \<Rightarrow> string \<Rightarrow> call_credentials \<Rightarrow> rejection_reason \<Rightarrow> string option \<Rightarrow> string wprog" where
  "refuse g meth cr reason target =
     seqM (whenM (ag_audit_logger g) (modify (\<lambda>w. w\<lparr>w_audit := w_audit w @ [denied_entry w meth cr reason target]\<rparr>)))
       (ret (sanitize_echoed_value (Some meth) (Some cr) @ '' refused: '' @ rejection_value reason))"

section \<open>The interceptor\<close>

datatype status_code = UNAUTHENTICATED | PERMISSION_DENIED

fun STATUS_CODE_BY_REJECTION :: "rejection_reason \<Rightarrow> status_code" where
  "STATUS_CODE_BY_REJECTION MISSING_CREDENTIAL = UNAUTHENTICATED"
| "STATUS_CODE_BY_REJECTION INVALID_CREDENTIAL = PERMISSION_DENIED"
| "STATUS_CODE_BY_REJECTION NOT_IN_WHITELIST = PERMISSION_DENIED"

datatype 'a rpc_answer = Aborted status_code string | Answered 'a

text \<open>
  \<open>continuation\<close> is the handler of the method, run with the credentials that are published for the call.
  \<open>peer\<close> and \<open>replace_target\<close> are what the context of an aborted call tells: the address of the caller,
  and the target of a replace request whose body could be parsed.
\<close>

definition intercept_service :: "(nat \<Rightarrow> file_system) \<Rightarrow> auth_gate \<Rightarrow> string \<Rightarrow> metadata_entry list option
    \<Rightarrow> string option \<Rightarrow> string option \<Rightarrow> (call_credentials \<Rightarrow> 'a wprog) \<Rightarrow> world
    \<Rightarrow> ((exc + 'a rpc_answer) \<times> world) \<times> auth_gate" where
  "intercept_service fs g meth metadata peer replace_target continuation w =
     (case authorize fs g meth metadata None of (out, g') \<Rightarrow>
       (case ao_rejection out of
          Some reason \<Rightarrow>
            (bindM (refuse g' meth ((the (ao_credentials out))\<lparr>cr_peer := peer\<rparr>) reason
                (if meth = SERVICE_METHOD_PREFIX @ ''RunCommandReplace'' then replace_target else None))
              (\<lambda>details. ret (Aborted (STATUS_CODE_BY_REJECTION reason) details)) w, g')
        | None \<Rightarrow>
            (bindM (continuation (case ao_credentials out of None \<Rightarrow> empty_credentials | Some cr \<Rightarrow> cr))
              (\<lambda>a. ret (Answered a)) w, g')))"

section \<open>Privileges fail closed\<close>

lemma dict_get_const:
  "dict_get (map (\<lambda>n. (f n, v)) ns) k = (if k \<in> f ` set ns then Some v else None)"
  by (induction ns) auto

lemma service_prefix_append:
  "SERVICE_METHOD_PREFIX @ m \<noteq> QUERY_METHOD_PREFIX @ n" "QUERY_METHOD_PREFIX @ n \<noteq> SERVICE_METHOD_PREFIX @ m"
  by (simp_all add: SERVICE_METHOD_PREFIX_def QUERY_METHOD_PREFIX_def)

text \<open>
  Without a table of its own the gate asks for operator credentials for every method but these: the ping, which is
  public, and the five reports of jobs. In particular a method nobody registered needs an operator.
\<close>

lemma privilege_fail_closed:
  "privilege_for_method m None =
     (if m = SERVICE_METHOD_PREFIX @ ''RunRequestPing'' then PUBLIC
      else if m \<in> (@) SERVICE_METHOD_PREFIX ` set child_methods then CHILD else OPERATOR)"
proof (cases "m \<in> range ((@) SERVICE_METHOD_PREFIX)")
  case True
  then obtain n where m: "m = SERVICE_METHOD_PREFIX @ n" by auto
  have "dict_get QUERY_PRIVILEGE_BY_METHOD m = None"
    by (auto simp: m QUERY_PRIVILEGE_BY_METHOD_def dict_get_const service_prefix_append)
  moreover have "dict_get PRIVILEGE_BY_METHOD m = (if n \<in> set child_methods then Some CHILD
      else if n \<in> set operator_methods then Some OPERATOR else if n = ''RunRequestPing'' then Some PUBLIC else None)"
    by (auto simp: m PRIVILEGE_BY_METHOD_def map_add_def dict_get_const)
  moreover have "''RunRequestPing'' \<notin> set child_methods \<and> ''RunRequestPing'' \<notin> set operator_methods"
    by (simp add: child_methods_def operator_methods_def)
  ultimately show ?thesis by (auto simp: m privilege_for_method_def)
next
  case False
  then have "dict_get PRIVILEGE_BY_METHOD m = None"
    by (auto simp: PRIVILEGE_BY_METHOD_def map_add_def dict_get_const)
  moreover have "dict_get QUERY_PRIVILEGE_BY_METHOD m \<in> {None, Some OPERATOR}"
    by (simp add: QUERY_PRIVILEGE_BY_METHOD_def dict_get_const del: list.map)
  ultimately show ?thesis using False by (auto simp: privilege_for_method_def)
qed

section \<open>Echoed text is harmless\<close>

text \<open>A credential that the marks of the redaction and of the truncation cannot spell by accident.\<close>

definition distinct_from_marks :: "string \<Rightarrow> bool" where
  "distinct_from_marks x \<longleftrightarrow> length x \<ge> MIN_REDACTED_LENGTH \<and> CHR ''<'' \<notin> set x \<and> CHR ''>'' \<notin> set x \<and> CHR ''.'' \<notin> set x
     \<and> \<not> sublist x ''redacted'' \<and> \<not> sublist x ''(truncated)''"

lemma redacted_frame: "REDACTED = CHR ''<'' # ''redacted'' @ [CHR ''>'']"
  by (simp add: REDACTED_def)

lemma redact_hides:
  assumes "distinct_from_marks x"
  shows "\<not> sublist x (redact (Some x) s)" and "\<not> sublist x s \<Longrightarrow> \<not> sublist x (redact y s)"
  using assms py_replace_removes [of "CHR ''<''" x "CHR ''>''" "''redacted''"]
    py_replace_adds_nothing [of "CHR ''<''" x "CHR ''>''" "''redacted''"]
  by (auto simp: redact_def distinct_from_marks_def redacted_frame simp del: append_Cons split: option.splits)

lemma cut_off_hides:
  assumes "distinct_from_marks x" and "\<not> sublist x s"
  shows "\<not> sublist x (cut_off s)"
proof
  assume "sublist x (cut_off s)"
  moreover have "\<not> sublist x (take n s)" for n
    using assms(2) by (meson prefix_imp_sublist sublist_order.order_trans take_is_prefix)
  moreover have "sublist x zs" if "sublist x (CHR ''.'' # zs)" for zs
    using assms that by (auto simp: distinct_from_marks_def sublist_Cons_right prefix_Cons)
  then have "\<not> sublist x TRUNCATION_MARKER"
    using assms(1) unfolding TRUNCATION_MARKER_def distinct_from_marks_def by blast
  ultimately obtain x1 x2 where x: "x = x1 @ x2" "suffix x1 (take MAX_ECHOED_LENGTH s)" "prefix x2 TRUNCATION_MARKER"
    using assms(2) by (auto simp: cut_off_def sublist_append split: if_splits)
  have "x2 = []" using x assms(1) by (auto simp: TRUNCATION_MARKER_def distinct_from_marks_def prefix_Cons)
  then show False using x \<open>\<not> sublist x (take MAX_ECHOED_LENGTH s)\<close> by (auto intro: suffix_imp_sublist)
qed

lemma printable_chars: "list_all is_printable ''<redacted>...(truncated)None x'' \<and> is_printable (CHR 0x5C)"
  by (simp add: is_printable_def char_code_def)

lemma printable_replace: "list_all is_printable s \<Longrightarrow> list_all is_printable new \<Longrightarrow> list_all is_printable (py_replace old new s)"
proof (induction old new s rule: py_replace.induct)
  case (2 old new c cs)
  then have "list_all is_printable (drop (length old) (c # cs))"
    unfolding list_all_iff by (blast dest: in_set_dropD)
  then show ?case using 2 by auto
qed simp

lemma printable_escape: "list_all is_printable (escape_char c)"
  using hex2_printable [of c] printable_chars by (auto simp: escape_char_def)

lemma printable_redact: "list_all is_printable s \<Longrightarrow> list_all is_printable (redact x s)"
  using printable_chars by (auto simp: redact_def REDACTED_def intro!: printable_replace split: option.splits)

lemma printable_cut_off: "list_all is_printable s \<Longrightarrow> list_all is_printable (cut_off s)"
  using printable_chars by (auto simp: cut_off_def TRUNCATION_MARKER_def list_all_iff dest: in_set_takeD)


lemma redaction_can_echo:
  "sanitize_echoed_value (Some ''<redacted'') (Some (empty_credentials\<lparr>cr_secret := Some ''<redacted''\<rparr>)) = ''<redacted>''"
  by code_simp

section \<open>A refused call never reaches its handler\<close>

definition call_verdict :: "(nat \<Rightarrow> file_system) \<Rightarrow> auth_gate \<Rightarrow> string \<Rightarrow> metadata_entry list option \<Rightarrow> rejection_reason option" where
  "call_verdict fs g meth metadata =
     (let level = privilege_for_method meth (ag_privilege_table g); cr = from_metadata metadata None in
      if level = PUBLIC \<or> ag_auth_mode g \<noteq> AUTH_ENABLED then None
      else if level = CHILD then (if cr_job_password cr = None then Some MISSING_CREDENTIAL else None)
      else operator_verdict fs (ag_credential_store g) (cr_secret cr) (cr_user cr))"

definition published :: "auth_gate \<Rightarrow> string \<Rightarrow> metadata_entry list option \<Rightarrow> call_credentials" where
  "published g meth metadata =
     (if privilege_for_method meth (ag_privilege_table g) = PUBLIC then empty_credentials else from_metadata metadata None)"

lemma authorize_verdict:
  assumes "\<forall>i. stamped content (fs i)" and "store_cached content (ag_credential_store g)"
    and "authorize fs g meth metadata None = (out, g')"
  shows "ao_rejection out = call_verdict fs g meth metadata"
    and "call_verdict fs g meth metadata \<noteq> None \<Longrightarrow> ao_credentials out \<noteq> None"
    and "(case ao_credentials out of None \<Rightarrow> empty_credentials | Some cr \<Rightarrow> cr) = published g meth metadata"
    and "store_cached content (ag_credential_store g')" and "ag_audit_logger g' = ag_audit_logger g"
  using assms(2,3) operator_decision_fresh_store [OF assms(1,2)]
  by (auto simp: authorize_def reject_reason_def call_verdict_def published_def Let_def split: if_splits prod.splits)

lemma refuse_effect:
  "refuse g meth cr reason target w =
     (Inr (sanitize_echoed_value (Some meth) (Some cr) @ '' refused: '' @ rejection_value reason),
      w\<lparr>w_audit := w_audit w @ (if ag_audit_logger g then [denied_entry w meth cr reason target] else [])\<rparr>)"
  by (simp add: refuse_def prog_defs)


section \<open>A guarded server\<close>

definition sample_gate :: auth_gate where
  "sample_gate = \<lparr>ag_auth_mode = AUTH_ENABLED, ag_credential_store = sample_store, ag_audit_logger = True,
     ag_privilege_table = None\<rparr>"



end
