(* ===== verification/Protocol_Commands.thy ===== *)
theory Protocol_Commands
  imports Takler_Errors
begin

text \<open>The commands of the protocol (\<^verbatim>\<open>protocol/commands.py\<close>) and the words that name them.\<close>

datatype command = INIT | COMPLETE | ABORT | EVENT | METER
  | REQUEUE | SUSPEND | RESUME | RUN | FORCE | FREE_DEP | LOAD | REPLACE | BEGIN
  | PING | COROUTINE | SERVER_STATUS | SERVER_HALT | SERVER_RESUME

fun command_value :: "command \<Rightarrow> string" where
  "command_value INIT = ''init''"
| "command_value COMPLETE = ''complete''"
| "command_value ABORT = ''abort''"
| "command_value EVENT = ''event''"
| "command_value METER = ''meter''"
| "command_value REQUEUE = ''requeue''"
| "command_value SUSPEND = ''suspend''"
| "command_value RESUME = ''resume''"
| "command_value RUN = ''run''"
| "command_value FORCE = ''force''"
| "command_value FREE_DEP = ''free-dep''"
| "command_value LOAD = ''load''"
| "command_value REPLACE = ''replace''"
| "command_value BEGIN = ''begin''"
| "command_value PING = ''ping''"
| "command_value COROUTINE = ''coroutine''"
| "command_value SERVER_STATUS = ''server-status''"
| "command_value SERVER_HALT = ''server-halt''"
| "command_value SERVER_RESUME = ''server-resume''"

definition all_commands :: "command list" where
  "all_commands = [INIT, COMPLETE, ABORT, EVENT, METER, REQUEUE, SUSPEND, RESUME, RUN, FORCE, FREE_DEP, LOAD, REPLACE,
     BEGIN, PING, COROUTINE, SERVER_STATUS, SERVER_HALT, SERVER_RESUME]"

text \<open>\<open>Command(value)\<close>.\<close>

definition command_of_value :: "string \<Rightarrow> command option" where
  "command_of_value v = find (\<lambda>c. command_value c = v) all_commands"

lemma command_of_value_inverse: "command_of_value (command_value c) = Some c"
  by (cases c) (simp_all add: command_of_value_def all_commands_def)

definition BATCH_COMMANDS :: "command set" where
  "BATCH_COMMANDS = {REQUEUE, SUSPEND, RESUME, RUN, FORCE, FREE_DEP, BEGIN}"

end
