(* ===== verification/Handlers.thy ===== *)
theory Handlers
  imports Server_Steps Auth_Gate Protocol_Commands
begin

text \<open>
  The command handlers (\<^verbatim>\<open>server/handlers.py\<close>): one command behind the exception boundary and the audit
  boundary. Parsing the request is an argument, since each transport brings its own; so are the two operations
  on definition documents (load and replace), the list of asynchronous tasks, and the texts of
  exceptions, which the model leaves out of them. The version store is not modelled.
\<close>

section \<open>Requests and responses\<close>

datatype request =
    RInit init_command | RComplete child_command | RAbort abort_command | REvent event_command | RMeter meter_command
  | RRequeue "string list" | RSuspend "string list" | RResume "string list" | RRun "string list" bool
  | RForce "string list" string bool | RFreeDep "string list" dep_type | RLoad string string | RReplace string string
  | RBegin string bool | RPing | RCoroutine | RServerStatus | RServerHalt | RServerResume

fun command_of :: "request \<Rightarrow> command" where
  "command_of (RInit _) = INIT"
| "command_of (RComplete _) = COMPLETE"
| "command_of (RAbort _) = ABORT"
| "command_of (REvent _) = EVENT"
| "command_of (RMeter _) = METER"
| "command_of (RRequeue _) = REQUEUE"
| "command_of (RSuspend _) = SUSPEND"
| "command_of (RResume _) = RESUME"
| "command_of (RRun _ _) = RUN"
| "command_of (RForce _ _ _) = FORCE"
| "command_of (RFreeDep _ _) = FREE_DEP"
| "command_of (RLoad _ _) = LOAD"
| "command_of (RReplace _ _) = REPLACE"
| "command_of (RBegin _ _) = BEGIN"
| "command_of RPing = PING"
| "command_of RCoroutine = COROUTINE"
| "command_of RServerStatus = SERVER_STATUS"
| "command_of RServerHalt = SERVER_HALT"
| "command_of RServerResume = SERVER_RESUME"

record service_response =
  sv_flag :: int
  sv_message :: string

datatype response = Service service_response | Batched batch_response | Pong
  | Coroutines "(string \<times> string) list" | Status status_response

definition ok_response :: response where
  "ok_response = Service \<lparr>sv_flag = SUCCESS, sv_message = []\<rparr>"

text \<open>\<open>getattr(response, "flag", SUCCESS) or SUCCESS\<close>.\<close>

definition response_flag :: "response \<Rightarrow> int" where
  "response_flag resp = (case resp of Service s \<Rightarrow> sv_flag s | Batched b \<Rightarrow> br_flag b | Status s \<Rightarrow> sr_flag s | _ \<Rightarrow> SUCCESS)"

definition response_message :: "response \<Rightarrow> string" where
  "response_message resp = (case resp of Service s \<Rightarrow> sv_message s | Batched b \<Rightarrow> br_message b | Status s \<Rightarrow> sr_message s | _ \<Rightarrow> [])"

text \<open>What the boundary catches: an exception of an operation, or the rejection of the request by its model.\<close>

datatype failure = Raised exc | ValidationError

definition failure_code :: "failure \<Rightarrow> int" where
  "failure_code e = (case e of Raised x \<Rightarrow> error_code_for_exception x | ValidationError \<Rightarrow> INTERNAL_SERVER_ERROR)"

record 'd handler_env =
  he_zombie :: "zombie_detector option"
  he_hooks :: "pos \<Rightarrow> run_hooks"
  he_skip_pending :: "unit wprog option"
  he_checkpoint :: "checkpoint_manager option"
  he_last_checkpoint :: "string option"
  he_snapshot :: "world \<Rightarrow> 'd option"
  he_evidence :: "world \<Rightarrow> string \<Rightarrow> (world \<Rightarrow> effect) option"
  he_load :: "string \<Rightarrow> string \<Rightarrow> unit wprog"
  he_replace :: "string \<Rightarrow> string \<Rightarrow> service_response wprog"
  he_coroutines :: "(string \<times> string) list"
  he_describe :: "failure \<Rightarrow> string"
  he_text :: "failure \<Rightarrow> string"
  he_fail_fast :: bool
  he_audit_logger :: bool

section \<open>Running a request\<close>

definition total :: "(world \<Rightarrow> batch_response \<times> world) \<Rightarrow> response wprog" where
  "total f w = (case f w of (resp, w') \<Rightarrow> (Inr (Batched resp), w'))"

definition answer_ok :: "unit wprog \<Rightarrow> response wprog" where
  "answer_ok m = seqM m (ret ok_response)"

fun run_request :: "'d handler_env \<Rightarrow> call_credentials \<Rightarrow> request \<Rightarrow> response wprog" where
  "run_request env cr (RInit c) = answer_ok (run_command_init (he_zombie env) cr c)"
| "run_request env cr (RComplete c) = answer_ok (run_command_complete (he_zombie env) cr c)"
| "run_request env cr (RAbort c) = answer_ok (run_command_abort (he_zombie env) cr c)"
| "run_request env cr (REvent c) = answer_ok (run_command_event (he_zombie env) cr c)"
| "run_request env cr (RMeter c) = answer_ok (run_command_meter (he_zombie env) cr c)"
| "run_request env cr (RRequeue ps) = total (batch_requeue (he_snapshot env) (he_evidence env) ps)"
| "run_request env cr (RSuspend ps) = total (batch_suspend (he_snapshot env) (he_evidence env) ps)"
| "run_request env cr (RResume ps) = total (batch_resume (he_snapshot env) (he_evidence env) ps)"
| "run_request env cr (RRun ps fc) = total (batch_run (he_snapshot env) (he_evidence env) (he_hooks env) ps fc)"
| "run_request env cr (RForce ps state r) = total (batch_force (he_snapshot env) (he_evidence env) ps state r)"
| "run_request env cr (RFreeDep ps d) = total (batch_free_dep (he_snapshot env) (he_evidence env) ps d)"
| "run_request env cr (RReplace path bytes) = bindM (he_replace env path bytes) (\<lambda>s. ret (Service s))"
| "run_request env cr (RLoad ty bytes) = answer_ok (he_load env ty bytes)"
| "run_request env cr (RBegin name fc) = total (batch_begin (he_snapshot env) (he_evidence env) name fc)"
| "run_request env cr RPing = ret Pong"
| "run_request env cr RCoroutine = ret (Coroutines (he_coroutines env))"
| "run_request env cr RServerStatus =
     bindM (server_status_response (he_checkpoint env) (he_last_checkpoint env) 0 []) (\<lambda>s. ret (Status s))"
| "run_request env cr RServerHalt =
     bindM (run_command_server_halt (he_skip_pending env) (he_checkpoint env) (he_last_checkpoint env)) (\<lambda>s. ret (Status s))"
| "run_request env cr RServerResume =
     bindM (run_command_server_resume (he_checkpoint env) (he_last_checkpoint env)) (\<lambda>s. ret (Status s))"

section \<open>The audit record of a control command\<close>

fun METHOD_NAME_BY_COMMAND :: "command \<Rightarrow> string" where
  "METHOD_NAME_BY_COMMAND INIT = ''RunCommandInit''"
| "METHOD_NAME_BY_COMMAND COMPLETE = ''RunCommandComplete''"
| "METHOD_NAME_BY_COMMAND ABORT = ''RunCommandAbort''"
| "METHOD_NAME_BY_COMMAND EVENT = ''RunCommandEvent''"
| "METHOD_NAME_BY_COMMAND METER = ''RunCommandMeter''"
| "METHOD_NAME_BY_COMMAND REQUEUE = ''RunCommandRequeue''"
| "METHOD_NAME_BY_COMMAND SUSPEND = ''RunCommandSuspend''"
| "METHOD_NAME_BY_COMMAND RESUME = ''RunCommandResume''"
| "METHOD_NAME_BY_COMMAND RUN = ''RunCommandRun''"
| "METHOD_NAME_BY_COMMAND FORCE = ''RunCommandForce''"
| "METHOD_NAME_BY_COMMAND FREE_DEP = ''RunCommandFreeDep''"
| "METHOD_NAME_BY_COMMAND LOAD = ''RunCommandLoad''"
| "METHOD_NAME_BY_COMMAND REPLACE = ''RunCommandReplace''"
| "METHOD_NAME_BY_COMMAND BEGIN = ''RunCommandBegin''"
| "METHOD_NAME_BY_COMMAND PING = ''RunRequestPing''"
| "METHOD_NAME_BY_COMMAND COROUTINE = ''QueryCoroutine''"
| "METHOD_NAME_BY_COMMAND SERVER_STATUS = ''RunRequestServerStatus''"
| "METHOD_NAME_BY_COMMAND SERVER_HALT = ''RunCommandServerHalt''"
| "METHOD_NAME_BY_COMMAND SERVER_RESUME = ''RunCommandServerResume''"

definition READ_ONLY_OPERATOR_METHODS :: "string list" where
  "READ_ONLY_OPERATOR_METHODS = [''QueryCoroutine'', ''RunRequestServerStatus'']"

definition CONTROL_METHOD_NAMES :: "string list" where
  "CONTROL_METHOD_NAMES = filter (\<lambda>n. n \<notin> set READ_ONLY_OPERATOR_METHODS)
     (map (\<lambda>(full_name, level). drop (length SERVICE_METHOD_PREFIX) full_name)
       (filter (\<lambda>(full_name, level). level = OPERATOR) PRIVILEGE_BY_METHOD))"

fun audit_target :: "request \<Rightarrow> string list option" where
  "audit_target (RRequeue ps) = Some ps"
| "audit_target (RSuspend ps) = Some ps"
| "audit_target (RResume ps) = Some ps"
| "audit_target (RRun ps _) = Some ps"
| "audit_target (RForce ps _ _) = Some ps"
| "audit_target (RFreeDep ps _) = Some ps"
| "audit_target (RBegin name _) = Some [name]"
| "audit_target (RReplace path _) = Some [path]"
| "audit_target _ = None"

definition control_entry :: "world \<Rightarrow> call_credentials \<Rightarrow> command \<Rightarrow> string list option \<Rightarrow> response \<Rightarrow> string option
    \<Rightarrow> audit_record" where
  "control_entry w cr command target resp peer =
     (let flag = response_flag resp;
          targets = (case target of None \<Rightarrow> [] | Some ts \<Rightarrow> ts) in
      \<lparr>au_timestamp = w_local_time w, au_event = EVENT_CONTROL,
       au_command = audit_command_name (METHOD_NAME_BY_COMMAND command), au_user = audit_user cr,
       au_peer = audit_peer (if cr_peer cr = None then peer else cr_peer cr),
       au_target = (if command = REPLACE then map (\<lambda>t. sanitize_echoed_value (Some t) (Some cr)) targets else targets),
       au_outcome = (if flag = SUCCESS then OUTCOME_SUCCESS else OUTCOME_ERROR), au_error_code = flag,
       au_reason = (case resp of Batched b \<Rightarrow> Some (br_message b)
                    | _ \<Rightarrow> if command = REPLACE then Some (response_message resp) else None),
       au_results = (case resp of Batched b \<Rightarrow> Some (br_results b) | _ \<Rightarrow> None)\<rparr>)"

definition audit_control :: "'d handler_env \<Rightarrow> call_credentials \<Rightarrow> command \<Rightarrow> string list option \<Rightarrow> response
    \<Rightarrow> string option \<Rightarrow> world \<Rightarrow> world" where
  "audit_control env cr command target resp peer w =
     (if he_audit_logger env \<and> METHOD_NAME_BY_COMMAND command \<in> set CONTROL_METHOD_NAMES
      then w\<lparr>w_audit := w_audit w @ [control_entry w cr command target resp peer]\<rparr> else w)"

section \<open>The exception boundary\<close>

definition error_response :: "'d handler_env \<Rightarrow> bool \<Rightarrow> command \<Rightarrow> failure \<Rightarrow> response wprog" where
  "error_response env query_errors command e =
     (let flag = (if e = ValidationError then 15 else failure_code e) in
      if command \<in> BATCH_COMMANDS then
        ret (Batched \<lparr>br_flag = flag, br_message = (if e = ValidationError then ''invalid request'' else ''command failed''),
          br_results = [], br_had_exception = False\<rparr>)
      else if query_errors \<and> command \<in> {PING, COROUTINE} then raise (PyError PyRuntimeError)
      else if command \<in> {SERVER_STATUS, SERVER_HALT, SERVER_RESUME} then
        bindM (server_status_response (he_checkpoint env) (he_last_checkpoint env) flag
            (if e = ValidationError then ''invalid request''
             else if failure_code e = 33 then he_text env e else ''command failed''))
          (\<lambda>s. ret (Status s))
      else if command = PING then ret Pong
      else if command = COROUTINE then ret (Coroutines [])
      else ret (Service \<lparr>sv_flag = failure_code e, sv_message = he_describe env e\<rparr>))"

text \<open>The state behind the lock: the world, the query revision, and whether the fatal shutdown was triggered.\<close>

record handler_state =
  hs_world :: world
  hs_query_revision :: int
  hs_fatal :: bool

definition operate :: "'d handler_env \<Rightarrow> call_credentials \<Rightarrow> failure + request \<Rightarrow> world \<Rightarrow> (failure + response) \<times> world" where
  "operate env cr parsed w = (case parsed of
      Inl e \<Rightarrow> (Inl e, w)
    | Inr req \<Rightarrow> (case run_request env cr req w of
        (Inr resp, w') \<Rightarrow> (Inr resp, w')
      | (Inl x, w') \<Rightarrow> (Inl (Raised x), w')))"

definition batch_failed :: "response \<Rightarrow> bool" where
  "batch_failed resp \<longleftrightarrow> (case resp of Batched b \<Rightarrow> br_had_exception b | _ \<Rightarrow> False)"

definition masked :: "command \<Rightarrow> failure \<Rightarrow> failure" where
  "masked command e = (if command = REPLACE \<and> failure_code e = 99 then Raised (PyError PyRuntimeError) else e)"

definition sanitized :: "command \<Rightarrow> call_credentials \<Rightarrow> response \<Rightarrow> response" where
  "sanitized command cr resp = (case resp of
      Service s \<Rightarrow> if command = REPLACE
        then Service (s\<lparr>sv_message := sanitize_echoed_value (Some (sv_message s)) (Some cr)\<rparr>) else resp
    | _ \<Rightarrow> resp)"

definition handle_command :: "'d handler_env \<Rightarrow> call_credentials \<Rightarrow> bool \<Rightarrow> command \<Rightarrow> failure + request \<Rightarrow> string option
    \<Rightarrow> handler_state \<Rightarrow> (exc + response) \<times> handler_state" where
  "handle_command env cr query_errors command parsed peer hs =
     (let target = (case parsed of Inl _ \<Rightarrow> None | Inr req \<Rightarrow> audit_target req) in
      case operate env cr parsed (hs_world hs) of
        (Inr resp, w1) \<Rightarrow>
          (Inr resp, hs\<lparr>hs_world := audit_control env cr command target resp peer w1,
             hs_fatal := hs_fatal hs \<or> (batch_failed resp \<and> he_fail_fast env)\<rparr>)
      | (Inl e, w1) \<Rightarrow>
          (let fatal = (hs_fatal hs \<or> he_fail_fast env) in
           case error_response env query_errors command (masked command e) w1 of
             (Inl x, w2) \<Rightarrow> (Inl x, hs\<lparr>hs_world := w2, hs_fatal := fatal\<rparr>)
           | (Inr resp0, w2) \<Rightarrow>
               (let resp = sanitized command cr resp0 in
                (Inr resp, hs\<lparr>hs_world := audit_control env cr command target resp peer w2, hs_fatal := fatal\<rparr>))))"

section \<open>The transaction\<close>

definition mutates :: "command \<Rightarrow> bool" where
  "mutates command \<longleftrightarrow> command \<notin> {PING, COROUTINE, SERVER_STATUS}"

definition begin_changes :: "world \<Rightarrow> world" where
  "begin_changes w = w\<lparr>w_tracker := map_option qc_begin (w_tracker w)\<rparr>"

definition end_changes :: "world \<Rightarrow> (exc + unit) \<times> world" where
  "end_changes w = (case w_tracker w of
      None \<Rightarrow> (Inr (), w)
    | Some q \<Rightarrow> (case qc_end (w_monotonic w) q of
        Inl e \<Rightarrow> (Inl e, w)
      | Inr q' \<Rightarrow> (Inr (), w\<lparr>w_tracker := Some q'\<rparr>)))"

definition dispatch :: "'d handler_env \<Rightarrow> call_credentials \<Rightarrow> bool \<Rightarrow> command \<Rightarrow> failure + request \<Rightarrow> string option
    \<Rightarrow> handler_state \<Rightarrow> (exc + response) \<times> handler_state" where
  "dispatch env cr query_errors command parsed peer hs =
     (if \<not> mutates command then handle_command env cr query_errors command parsed peer hs
      else
        let hs1 = hs\<lparr>hs_query_revision := hs_query_revision hs + 1, hs_world := begin_changes (hs_world hs)\<rparr> in
        case handle_command env cr query_errors command parsed peer hs1 of (r, hs2) \<Rightarrow>
          (case end_changes (hs_world hs2) of
             (Inl e, w) \<Rightarrow> (Inl e, hs2\<lparr>hs_world := w\<rparr>)
           | (Inr _, w) \<Rightarrow> (r, hs2\<lparr>hs_world := w, hs_query_revision := hs_query_revision hs2 + 1\<rparr>)))"

section \<open>Every frame of the server is a frame of the handlers\<close>

definition env_frame :: "(world \<Rightarrow> world \<Rightarrow> bool) \<Rightarrow> 'd handler_env \<Rightarrow> bool" where
  "env_frame R env \<longleftrightarrow> (\<forall>q. obeys R (run (he_hooks env q) q)) \<and> (\<forall>ty bytes. obeys R (he_load env ty bytes))
     \<and> (\<forall>path bytes. obeys R (he_replace env path bytes))
     \<and> (case he_skip_pending env of None \<Rightarrow> True | Some skip \<Rightarrow> obeys R skip)"

lemma total_after [simp]: "after (total f w) = snd (f w)"
  by (simp add: total_def split: prod.splits)

context server_frame
begin

lemma obeys_batch:
  assumes "\<And>t. obeys R (operation t)"
  shows "obeys R (total (batch_targets snapshot evidence k operation ts))"
proof -
  have step: "R w (target_world k operation t w)" for t w
    using obeysD [OF assms] by (simp add: target_world_def R_refl)
  have fold: "R w (fold (target_world k operation) ts w)" for ts w
    by (induction ts arbitrary: w) (auto intro: R_refl R_trans step)
  have "R w (snd (batch_targets snapshot evidence k operation ts w))" for w
  proof (cases "ts = [] \<and> k \<noteq> BatchBegin")
    case False
    obtain items w' where run: "run_items snapshot evidence k operation 0 ts w = (items, w')" by (rule prod.exhaust)
    then show ?thesis using False fold [of w ts] run_items_contract(1) [OF run]
      by (auto simp: batch_targets_def Let_def)
  qed (simp add: batch_targets_def R_refl)
  then show ?thesis by (simp add: obeys_def)
qed

lemma obeys_halt:
  "(case skip of None \<Rightarrow> True | Some m \<Rightarrow> obeys R m) \<Longrightarrow> obeys R (run_command_server_halt skip cm own)"
  unfolding run_command_server_halt_def Let_def
  by (cases skip) (simp_all, (intro frame_intro obeys_set_server_state; assumption?)+)

lemma obeys_run_request:
  assumes "env_frame R env"
  shows "obeys R (run_request env cr req)"
proof -
  have env: "\<And>q. obeys R (run (he_hooks env q) q)" "\<And>ty bytes. obeys R (he_load env ty bytes)"
    "\<And>path bytes. obeys R (he_replace env path bytes)"
    "obeys R (run_command_server_halt (he_skip_pending env) cm own)" for cm own
    using assms by (auto simp: env_frame_def intro: obeys_halt)
  have begin_all: "obeys R (total (batch_begin (he_snapshot env) (he_evidence env) name fc))" for name fc
    using obeys_batch [of "\<lambda>t. run_command_begin t fc" "he_snapshot env" "he_evidence env" BatchBegin] obeys_control_commands(5)
    by (simp add: obeys_def batch_begin_def)
  show ?thesis
    by (cases req) (auto simp: answer_ok_def batch_requeue_def batch_suspend_def batch_resume_def batch_run_def
        batch_force_def batch_free_dep_def intro!: frame_intro obeys_batch begin_all env obeys_run_command_run)
qed

end

section \<open>The boundary\<close>

lemma control_methods:
  "METHOD_NAME_BY_COMMAND c \<in> set CONTROL_METHOD_NAMES \<longleftrightarrow>
     c \<notin> {INIT, COMPLETE, ABORT, EVENT, METER, PING, COROUTINE, SERVER_STATUS}"
proof -
  have eq: "CONTROL_METHOD_NAMES = [''RunCommandRequeue'', ''RunCommandSuspend'', ''RunCommandResume'', ''RunCommandRun'',
     ''RunCommandForce'', ''RunCommandFreeDep'', ''RunCommandLoad'', ''RunCommandReplace'', ''RunCommandBegin'',
     ''RunCommandServerHalt'', ''RunCommandServerResume'']" by code_simp
  show ?thesis by (cases c) (simp_all add: eq)
qed

lemma status_response_same: "after (server_status_response cm own flag msg w) = w"
  by (simp add: server_status_response_def gets_def)


lemma operate_journal:
  assumes "env_frame keeps_journal env" and "operate env cr parsed w = (r0, w1)"
  shows "keeps_journal w w1"
proof (cases parsed)
  case (Inl e)
  then show ?thesis using assms(2) journal_inv.R_refl by (simp add: operate_def)
next
  case (Inr req)
  then show ?thesis using assms(2) obeysD [OF journal_inv.obeys_run_request [OF assms(1)], of w cr req]
    by (auto simp: operate_def split: prod.splits sum.splits)
qed

lemma error_response_answers:
  "\<exists>resp. error_response env False command e w = (Inr resp, w)
     \<and> (command \<notin> {PING, COROUTINE} \<longrightarrow> response_flag resp \<noteq> SUCCESS)"
proof -
  have code: "failure_code e \<noteq> 0"
    using error_code_nonzero by (cases e) (simp_all add: failure_code_def INTERNAL_SERVER_ERROR_def)
  show ?thesis
    by (auto simp: error_response_def server_status_response_def Let_def prog_defs response_flag_def code SUCCESS_def)
qed

lemma sanitized_flag [simp]: "response_flag (sanitized command cr resp) = response_flag resp"
  by (auto simp: sanitized_def response_flag_def split: response.splits)

text \<open>What one command does behind the boundary, in terms of its bare operation.\<close>

lemma handle_command_effect:
  assumes "operate env cr parsed (hs_world hs) = (r0, w1)"
    and "handle_command env cr False command parsed peer hs = (r, hs')"
  shows "\<exists>resp. r = Inr resp
    \<and> (case r0 of Inr x \<Rightarrow> resp = x | Inl e \<Rightarrow> command \<notin> {PING, COROUTINE} \<longrightarrow> response_flag resp \<noteq> SUCCESS)
    \<and> hs_world hs' = audit_control env cr command (case parsed of Inl _ \<Rightarrow> None | Inr req \<Rightarrow> audit_target req) resp peer w1
    \<and> hs_query_revision hs' = hs_query_revision hs
    \<and> hs_fatal hs' = (hs_fatal hs \<or> he_fail_fast env \<and> (case r0 of Inl _ \<Rightarrow> True | Inr x \<Rightarrow> batch_failed x))"
proof (cases r0)
  case (Inr x)
  then show ?thesis using assms by (auto simp: handle_command_def Let_def)
next
  case (Inl e)
  obtain resp where "error_response env False command (masked command e) w1 = (Inr resp, w1)"
    "command \<notin> {PING, COROUTINE} \<longrightarrow> response_flag resp \<noteq> SUCCESS"
    using error_response_answers by blast
  then show ?thesis using assms Inl by (auto simp: handle_command_def Let_def)
qed


lemma audit_control_frame:
  "w_tracker (audit_control env cr command target resp peer w) = w_tracker w"
  "w_audit (audit_control env cr command target resp peer w) = w_audit w @
     (if he_audit_logger env \<and> command \<notin> {INIT, COMPLETE, ABORT, EVENT, METER, PING, COROUTINE, SERVER_STATUS}
      then [control_entry w cr command target resp peer] else [])"
  "(audit_control env cr command target resp peer w)\<lparr>w_audit := w_audit w\<rparr> = w"
  by (simp_all add: audit_control_def control_methods)

lemma end_changes_open:
  assumes "map_option qs_depth (w_tracker w) = map_option (Suc \<circ> qs_depth) (w_tracker w0)"
  shows "\<exists>t. end_changes w = (Inr (), w\<lparr>w_tracker := t\<rparr>) \<and> map_option qs_depth t = map_option qs_depth (w_tracker w0)"
proof (cases "w_tracker w")
  case None
  have "w = w\<lparr>w_tracker := None\<rparr>" using None by simp
  then show ?thesis using None assms by (auto simp: end_changes_def)
next
  case (Some q)
  then obtain q0 where q0: "w_tracker w0 = Some q0" "qs_depth q = Suc (qs_depth q0)"
    using assms by (cases "w_tracker w0") auto
  then show ?thesis using Some by (auto simp: end_changes_def qc_end_def Let_def qc_commit_depth)
qed


end
