(* ===== verification/Main_Loop.thy ===== *)
theory Main_Loop
  imports Handlers "HOL-Library.Multiset"
begin

text \<open>
  The main loop of \<^verbatim>\<open>scheduler.py\<close>: one sweep over the flows, in slices of a bounded number of nodes, taking turns, each
  flow behind its own exception boundary and each slice in a transaction of its own. A generator of
  \<open>_flow_work\<close> is its program counter and its stack. How many nodes a slice gets (sixteen, or fewer when the clock
  says so), what other commands do to the world between two slices and whether a stop has been asked for by then are arguments.
\<close>

section \<open>The generator\<close>

datatype scan = Fresh datetime | Running "pos list list"

text \<open>From one \<open>yield\<close> to the next; exhausted iterators are popped on the way. \<open>None\<close> is \<open>StopIteration\<close>.\<close>

fun scan_next :: "parser \<Rightarrow> (pos \<Rightarrow> run_hooks) \<Rightarrow> pos \<Rightarrow> pos list list \<Rightarrow> scan option wprog" where
  "scan_next parse hooks root [] = ret None"
| "scan_next parse hooks root ([] # stack) = withState (\<lambda>w.
     if pass_over w root then ret None else scan_next parse hooks root stack)"
| "scan_next parse hooks root ((q # qs) # stack) = withState (\<lambda>w.
     if pass_over w root then ret None
     else bindM (flow_step parse hooks root ((q # qs) # stack)) (\<lambda>st. ret (Some (Running st))))"

definition next_step :: "parser \<Rightarrow> (pos \<Rightarrow> run_hooks) \<Rightarrow> pos \<Rightarrow> scan \<Rightarrow> scan option wprog" where
  "next_step parse hooks root g = (case g of
      Running stack \<Rightarrow> scan_next parse hooks root stack
    | Fresh now \<Rightarrow> withState (\<lambda>w.
        if service_idle w \<or> \<not> begun (n_flow (attr w root)) then ret None
        else seqM (update_calendar root now) (withState (\<lambda>w.
          if service_idle w then ret None
          else bindM (check_dependencies parse root) (\<lambda>ok.
            if \<not> ok then ret None else withState (\<lambda>w. scan_next parse hooks root [children w root]))))))"

fun run_slice :: "nat \<Rightarrow> parser \<Rightarrow> (pos \<Rightarrow> run_hooks) \<Rightarrow> pos \<Rightarrow> scan \<Rightarrow> scan option wprog" where
  "run_slice 0 parse hooks root g = ret (Some g)"
| "run_slice (Suc m) parse hooks root g = bindM (next_step parse hooks root g) (\<lambda>r. case r of
      None \<Rightarrow> ret None
    | Some g' \<Rightarrow> run_slice m parse hooks root g')"

fun run_slices :: "nat list \<Rightarrow> parser \<Rightarrow> (pos \<Rightarrow> run_hooks) \<Rightarrow> pos \<Rightarrow> scan \<Rightarrow> scan option wprog" where
  "run_slices [] parse hooks root g = ret (Some g)"
| "run_slices (m # ms) parse hooks root g = bindM (run_slice m parse hooks root g) (\<lambda>r. case r of
      None \<Rightarrow> ret None
    | Some g' \<Rightarrow> run_slices ms parse hooks root g')"

section \<open>The sweep\<close>

record work_item =
  wi_name :: string
  wi_flow :: pos
  wi_steps :: scan

datatype turn_outcome = TSkipped | TDone | TFailed exc | TMore scan

definition FLOW_SCAN_SLICE_NODES :: nat where "FLOW_SCAN_SLICE_NODES = 16"

text \<open>The clock is read after a step, so a slice has one step at least; \<open>budget\<close> is how many fit in the time.\<close>

definition slice_nodes :: "nat \<Rightarrow> nat" where
  "slice_nodes budget = max 1 (min budget FLOW_SCAN_SLICE_NODES)"

text \<open>One turn of an item: the slice within a transaction, when the flow is still there and active.\<close>

definition turn :: "parser \<Rightarrow> (pos \<Rightarrow> run_hooks) \<Rightarrow> nat \<Rightarrow> work_item \<Rightarrow> handler_state \<Rightarrow> turn_outcome \<times> handler_state" where
  "turn parse hooks budget item hs =
     (let w = hs_world hs in
      if find_flow w (wi_name item) \<noteq> Some (wi_flow item) then (TSkipped, hs)
      else if ss_status (w_server_state w) = halted \<or> \<not> begun (n_flow (attr w (wi_flow item))) then (TSkipped, hs)
      else case run_slice (slice_nodes budget) parse hooks (wi_flow item) (wi_steps item) (begin_changes w) of
        (r, w1) \<Rightarrow> (case end_changes w1 of
            (Inl e, w2) \<Rightarrow> (TFailed e, hs\<lparr>hs_world := w2, hs_query_revision := hs_query_revision hs + 1\<rparr>)
          | (Inr _, w2) \<Rightarrow>
              (case r of Inl e \<Rightarrow> TFailed e | Inr None \<Rightarrow> TDone | Inr (Some g) \<Rightarrow> TMore g,
               hs\<lparr>hs_world := w2, hs_query_revision := hs_query_revision hs + 2\<rparr>)))"

text \<open>What one sweep meets besides the flows: the time for each turn, what runs between turns, a stop.\<close>

record surroundings =
  sr_budget :: "nat \<Rightarrow> nat"
  sr_between :: "nat \<Rightarrow> world \<Rightarrow> world"
  sr_stop :: "nat \<Rightarrow> bool"

text \<open>The queue of one sweep, with fuel: how each flow ended, in order, and the state; \<open>i\<close> counts the turns.\<close>

fun sweep :: "nat \<Rightarrow> bool \<Rightarrow> parser \<Rightarrow> (pos \<Rightarrow> run_hooks) \<Rightarrow> surroundings \<Rightarrow> nat \<Rightarrow> work_item list
    \<Rightarrow> handler_state \<Rightarrow> ((pos \<times> turn_outcome) list \<times> handler_state) option" where
  "sweep 0 fail_fast parse hooks sr i work hs = None"
| "sweep (Suc k) fail_fast parse hooks sr i [] hs = Some ([], hs)"
| "sweep (Suc k) fail_fast parse hooks sr i (item # work) hs =
     (if sr_stop sr i then Some ([], hs)
      else case turn parse hooks (sr_budget sr i) item hs of (out, hs1) \<Rightarrow>
       let hs2 = hs1\<lparr>hs_world := sr_between sr i (hs_world hs1)\<rparr>;
           ended = map_option (\<lambda>(log, h). ((wi_flow item, out) # log, h)) in
       case out of
         TSkipped \<Rightarrow> ended (sweep k fail_fast parse hooks sr (Suc i) work hs1)
       | TDone \<Rightarrow> ended (sweep k fail_fast parse hooks sr (Suc i) work hs2)
       | TFailed e \<Rightarrow>
           if fail_fast then Some ([(wi_flow item, out)], hs1\<lparr>hs_fatal := True\<rparr>)
           else ended (sweep k fail_fast parse hooks sr (Suc i) work hs1)
       | TMore g \<Rightarrow> sweep k fail_fast parse hooks sr (Suc i) (work @ [item\<lparr>wi_steps := g\<rparr>]) hs2)"

definition main_loop_sweep :: "nat \<Rightarrow> bool \<Rightarrow> parser \<Rightarrow> (pos \<Rightarrow> run_hooks) \<Rightarrow> surroundings
    \<Rightarrow> handler_state \<Rightarrow> ((pos \<times> turn_outcome) list \<times> handler_state) option" where
  "main_loop_sweep k fail_fast parse hooks sr hs =
     (let w = hs_world hs in
      sweep k fail_fast parse hooks sr 0
        (map (\<lambda>(name, j). \<lparr>wi_name = name, wi_flow = [j], wi_steps = Fresh (w_now w)\<rparr>) (w_flows w)) hs)"

section \<open>Slices do not matter\<close>

lemma run_slice_add:
  "run_slice (a + b) parse hooks root g = bindM (run_slice a parse hooks root g) (\<lambda>r. case r of
      None \<Rightarrow> ret None | Some g' \<Rightarrow> run_slice b parse hooks root g')"
proof (induction a arbitrary: g)
  case (Suc a)
  have "(\<lambda>r. case r of None \<Rightarrow> ret None | Some g' \<Rightarrow> run_slice (a + b) parse hooks root g')
      = (\<lambda>r. bindM (case r of None \<Rightarrow> ret None | Some g' \<Rightarrow> run_slice a parse hooks root g')
          (\<lambda>r. case r of None \<Rightarrow> ret None | Some g' \<Rightarrow> run_slice b parse hooks root g'))"
    by (rule ext) (simp add: Suc.IH split: option.splits)
  then show ?case by (simp add: bindM_assoc)
qed simp

lemma run_slices_sum: "run_slices ms parse hooks root = run_slice (sum_list ms) parse hooks root"
proof (induction ms)
  case (Cons m ms)
  show ?case by (rule ext) (simp add: run_slice_add Cons.IH)
qed (rule ext, simp)

text \<open>The stack with one node per step, against the steps of the generator, which pops more.\<close>

definition slice_of_steps :: "(exc + pos list list) \<times> world \<Rightarrow> (exc + scan option) \<times> world \<Rightarrow> bool" where
  "slice_of_steps a b = (case a of
      (Inl e, w') \<Rightarrow> b = (Inl e, w')
    | (Inr st, w') \<Rightarrow> st = [] \<longrightarrow> b = (Inr None, w'))"

lemma flow_steps_slice:
  assumes "n < m"
  shows "slice_of_steps (flow_steps n parse hooks root st w) (run_slice m parse hooks root (Running st) w)"
  using assms
proof (induction n arbitrary: m st w)
  case 0
  then show ?case by (cases m; cases st) (simp_all add: ret_def next_step_def bindM_def slice_of_steps_def)
next
  case (Suc n)
  then obtain k where m: "m = Suc k" "n < k" by (cases m) auto
  show ?case
  proof (cases "(parse, hooks, root, st)" rule: flow_step.cases)
    case (1 parse' hooks' root')
    then show ?thesis using m by (simp add: slice_of_steps_def withState_def next_step_def ret_def bindM_def)
  next
    case (2 parse' hooks' root' st')
    show ?thesis
    proof (cases "pass_over w root")
      case True
      with 2 m show ?thesis by (simp add: slice_of_steps_def withState_def next_step_def ret_def bindM_def)
    next
      case False
      have "flow_steps (Suc n) parse hooks root st w = flow_steps n parse hooks root st' w"
        using 2 False by (simp add: withState_def)
      moreover have "run_slice m parse hooks root (Running st) w = run_slice m parse hooks root (Running st') w"
        using 2 False m by (simp add: withState_def next_step_def bindM_def)
      ultimately show ?thesis using Suc.IH [of m st' w] m by simp
    qed
  next
    case (3 parse' hooks' root' q qs st')
    obtain r w1 where w1: "flow_step parse hooks root st w = (r, w1)" by (rule prod.exhaust)
    show ?thesis
    proof (cases "pass_over w root")
      case True
      with 3 m show ?thesis by (simp add: slice_of_steps_def withState_def next_step_def ret_def bindM_def)
    next
      case False
      have slice: "run_slice m parse hooks root (Running st) w = (case r of Inl e \<Rightarrow> (Inl e, w1)
          | Inr st1 \<Rightarrow> run_slice k parse hooks root (Running st1) w1)"
        using 3 m False w1 by (simp add: next_step_def withState_def bindM_def ret_def split: sum.splits)
      have steps: "flow_steps (Suc n) parse hooks root st w = (case r of Inl e \<Rightarrow> (Inl e, w1)
          | Inr st1 \<Rightarrow> flow_steps n parse hooks root st1 w1)"
        using 3 False w1 by (simp add: withState_def bindM_def split: sum.splits)
      show ?thesis
      proof (cases r)
        case (Inl e)
        then show ?thesis by (simp add: slice steps slice_of_steps_def del: flow_steps.simps run_slice.simps)
      next
        case (Inr st1)
        then show ?thesis using Suc.IH [OF m(2), of st1 w1]
          by (simp add: slice steps del: flow_steps.simps run_slice.simps)
      qed
    qed
  qed
qed

lemma run_slice_Running:
  "run_slice (Suc k) parse hooks root (Running st) = bindM (scan_next parse hooks root st) (\<lambda>r. case r of
      None \<Rightarrow> ret None | Some g' \<Rightarrow> run_slice k parse hooks root g')"
  by (simp add: next_step_def)

lemma flow_work_slice:
  assumes "n < m"
  shows "slice_of_steps (flow_work n parse hooks root now w) (run_slice m parse hooks root (Fresh now) w)"
proof -
  obtain k where m: "m = Suc k" using assms by (cases m) auto
  note go = flow_steps_slice [OF assms]
  obtain r w1 where w1: "update_calendar root now w = (r, w1)" by (rule prod.exhaust)
  obtain ok w2 where w2: "check_dependencies parse root w1 = (ok, w2)" by (rule prod.exhaust)
  let ?stop = "service_idle w \<or> \<not> begun (n_flow (attr w root))"
  have "run_slice m parse hooks root (Fresh now) w = (if ?stop then (Inr None, w) else case r of Inl e \<Rightarrow> (Inl e, w1)
      | Inr _ \<Rightarrow> if service_idle w1 then (Inr None, w1) else case ok of Inl e \<Rightarrow> (Inl e, w2)
        | Inr b \<Rightarrow> if b then run_slice m parse hooks root (Running [children w2 root]) w2 else (Inr None, w2))"
    using w1 w2 unfolding m run_slice_Running by (simp add: next_step_def prog_defs split: sum.splits)
  moreover have "flow_work n parse hooks root now w = (if ?stop then (Inr [], w) else case r of Inl e \<Rightarrow> (Inl e, w1)
      | Inr _ \<Rightarrow> if service_idle w1 then (Inr [], w1) else case ok of Inl e \<Rightarrow> (Inl e, w2)
        | Inr b \<Rightarrow> if b then flow_steps n parse hooks root [children w2 root] w2 else (Inr [], w2))"
    using w1 w2 by (simp add: flow_work_def prog_defs split: sum.splits)
  ultimately show ?thesis using go by (simp add: slice_of_steps_def split: sum.splits)
qed

text \<open>
  C23. However the main loop cuts a flow into slices, when nothing else runs between them and they add up to more
  nodes than the flow has weight, the scan of \<open>_flow_work\<close> ends, leaving the world and raising the exception that one
  recursive pass of \<open>_process_flow\<close> leaves and raises.
\<close>

theorem sliced_scan_refines:
  assumes "quiet_hooks hooks" and "kind_of w root = KFlow" and "valid w root"
    and "find_flow w (name_of w root) = Some root" and "weight (subtree w root) < sum_list ms"
  shows "run_slices ms parse hooks root (Fresh now) w = seqM (process_flow parse hooks root now) (ret None) w"
proof -
  obtain r w' where rw: "process_flow parse hooks root now w = (r, w')" by (rule prod.exhaust)
  have "slice_of_steps (seqM (process_flow parse hooks root now) (ret []) w) (run_slices ms parse hooks root (Fresh now) w)"
    using flow_work_slice [OF assms(5), of parse hooks root now w] flow_work_eq_process_flow [OF assms(1-4) order_refl]
    by (simp add: run_slices_sum)
  then show ?thesis using rw by (cases r) (simp_all add: slice_of_steps_def prog_defs)
qed

section \<open>A sweep ends\<close>

definition scan_weight :: "world \<Rightarrow> pos \<Rightarrow> scan \<Rightarrow> nat" where
  "scan_weight w root g = (case g of Fresh _ \<Rightarrow> weight (subtree w root) | Running stack \<Rightarrow> stack_weight w stack)"

definition sweep_weight :: "world \<Rightarrow> work_item list \<Rightarrow> nat" where
  "sweep_weight w work = sum_list (map (\<lambda>item. Suc (scan_weight w (wi_flow item) (wi_steps item))) work)"

lemma stack_weight_cong: "w_shapes w' = w_shapes w \<Longrightarrow> stack_weight w' = stack_weight w"
  by (simp add: fun_eq_iff stack_weight_def subtree_def)

lemma scan_weight_cong: "w_shapes w' = w_shapes w \<Longrightarrow> scan_weight w' = scan_weight w"
  using stack_weight_cong [of w' w] by (simp add: fun_eq_iff scan_weight_def subtree_def split: scan.splits)

lemma sweep_weight_cong: "w_shapes w' = w_shapes w \<Longrightarrow> sweep_weight w' = sweep_weight w"
  using scan_weight_cong [of w' w] by (simp add: fun_eq_iff sweep_weight_def)

lemma flow_step_weight:
  assumes "flow_step parse hooks root ((q # qs) # stack) w = (Inr st, w')"
  shows "stack_weight w st < stack_weight w ((q # qs) # stack)"
  using assms weight_children [of w q]
  by (auto simp: withState_def bindM_def ret_def stack_weight_def split: if_splits sum.splits prod.splits)

lemma pass_view_flow_step: "quiet_hooks hooks \<Longrightarrow> obeys (same pass_view) (flow_step parse hooks root stack)"
  by (cases "(parse, hooks, root, stack)" rule: flow_step.cases)
     (auto intro!: pview.obeys_withState pview.obeys_if pview.obeys_bindM pview.obeys_ret pass_view_check pass_view_Task_resolve)

lemma pass_view_scan_next:
  assumes "quiet_hooks hooks"
  shows "obeys (same pass_view) (scan_next parse hooks root stack)"
proof (induction stack)
  case (Cons qs stack)
  then show ?case
    by (cases qs) (auto intro!: pview.obeys_withState pview.obeys_if pview.obeys_bindM pview.obeys_ret
        pass_view_flow_step [OF assms] simp del: flow_step.simps)
qed (simp add: pview.obeys_ret)

lemma pass_view_next_step:
  assumes "quiet_hooks hooks"
  shows "obeys (same pass_view) (next_step parse hooks root g)"
proof -
  have cal: "obeys (same pass_view) (update_calendar root now)" for now
    by (intro obeys_pass_view skel.obeys_update_calendar marks_update_calendar)
  show ?thesis unfolding next_step_def
    by (cases g) (auto intro!: pview.obeys_withState pview.obeys_if pview.obeys_bindM pview.obeys_seqM pview.obeys_ret
        pass_view_scan_next [OF assms] pass_view_check cal)
qed

lemma pass_view_run_slice: "quiet_hooks hooks \<Longrightarrow> obeys (same pass_view) (run_slice m parse hooks root g)"
  by (induction m parse hooks root g rule: run_slice.induct)
     (auto intro!: pview.obeys_bindM pview.obeys_ret pass_view_next_step split: option.splits)

lemma scan_next_weight:
  assumes "scan_next parse hooks root stack w = (Inr (Some g), w')"
  shows "scan_weight w root g < stack_weight w stack"
  using assms
proof (induction stack)
  case (Cons qs stack)
  show ?case
  proof (cases qs)
    case Nil
    then have "scan_weight w root g < stack_weight w stack"
      using Cons by (auto simp: withState_def ret_def split: if_splits)
    then show ?thesis by (simp add: stack_weight_def)
  next
    case (Cons q qs')
    then show ?thesis using \<open>scan_next parse hooks root (qs # stack) w = _\<close>
      by (auto simp: withState_def bindM_def ret_def scan_weight_def simp del: flow_step.simps
          split: if_splits sum.splits prod.splits intro: flow_step_weight)
  qed
qed (simp add: ret_def)

lemma pass_view_shapes: "obeys (same pass_view) m \<Longrightarrow> m w = (r, w') \<Longrightarrow> w_shapes w' = w_shapes w"
  using pass_viewD(1) skeletonD(1) by metis

lemma next_step_weight:
  assumes "quiet_hooks hooks" and "next_step parse hooks root g w = (Inr (Some g'), w')"
  shows "scan_weight w root g' < scan_weight w root g"
proof (cases g)
  case (Running stack)
  then show ?thesis using scan_next_weight [of parse hooks root stack w g' w'] assms(2)
    by (simp add: next_step_def scan_weight_def)
next
  case (Fresh now)
  obtain r w1 where w1: "update_calendar root now w = (r, w1)" by (rule prod.exhaust)
  obtain ok w2 where w2: "check_dependencies parse root w1 = (ok, w2)" by (rule prod.exhaust)
  have same: "w_shapes w1 = w_shapes w" "w_shapes w2 = w_shapes w1"
    using pass_view_shapes [OF obeys_pass_view [OF skel.obeys_update_calendar marks_update_calendar] w1]
      pass_view_shapes [OF pass_view_check w2] by simp_all
  have "scan_next parse hooks root [children w2 root] w2 = (Inr (Some g'), w')"
    using assms(2) Fresh w1 w2
    by (auto simp: next_step_def prog_defs split: if_splits sum.splits)
  from scan_next_weight [OF this] show ?thesis
    using weight_children [of w2 root] same Fresh scan_weight_cong [of w2 w]
    by (simp add: stack_weight_def) (simp add: scan_weight_def [of _ _ "Fresh _"] subtree_def)
qed

lemma run_slice_weight:
  assumes "quiet_hooks hooks" and "run_slice m parse hooks root g w = (Inr (Some g'), w')" and "0 < m"
  shows "scan_weight w root g' < scan_weight w root g"
  using assms(2,3)
proof (induction m arbitrary: g w)
  case (Suc m)
  obtain g1 w1 where step: "next_step parse hooks root g w = (Inr (Some g1), w1)"
    and rest: "run_slice m parse hooks root g1 w1 = (Inr (Some g'), w')"
    using Suc.prems(1) by (auto simp: bindM_def ret_def split: sum.splits prod.splits option.splits)
  note less = next_step_weight [OF assms(1) step] scan_weight_cong [OF pass_view_shapes [OF pass_view_next_step [OF assms(1)] step]]
  show ?case
  proof (cases "m = 0")
    case True
    then show ?thesis using rest less by (simp add: ret_def)
  next
    case False
    then show ?thesis using Suc.IH [OF rest] less by simp
  qed
qed simp

lemma slice_nodes_pos: "0 < slice_nodes n"
  by (simp add: slice_nodes_def)

lemma turn_weight:
  assumes "quiet_hooks hooks" and "turn parse hooks budget item hs = (out, hs1)"
  shows "w_shapes (hs_world hs1) = w_shapes (hs_world hs) \<and> hs_fatal hs1 = hs_fatal hs
    \<and> (\<forall>g. out = TMore g \<longrightarrow> scan_weight (hs_world hs) (wi_flow item) g < scan_weight (hs_world hs) (wi_flow item) (wi_steps item))"
proof -
  let ?w = "begin_changes (hs_world hs)"
  have b: "w_shapes ?w = w_shapes (hs_world hs)" by (simp add: begin_changes_def)
  obtain r w1 where s: "run_slice (slice_nodes budget) parse hooks (wi_flow item) (wi_steps item) ?w = (r, w1)"
    by (rule prod.exhaust)
  obtain r2 w2 where e: "end_changes w1 = (r2, w2)" by (rule prod.exhaust)
  have "w_shapes w2 = w_shapes w1" using e by (auto simp: end_changes_def split: option.splits sum.splits)
  then have sh: "w_shapes w2 = w_shapes (hs_world hs)"
    using pass_view_shapes [OF pass_view_run_slice [OF assms(1)] s] b by simp
  have "r = Inr (Some g) \<Longrightarrow> scan_weight (hs_world hs) (wi_flow item) g < scan_weight (hs_world hs) (wi_flow item) (wi_steps item)" for g
    using run_slice_weight [OF assms(1), of "slice_nodes budget" parse "wi_flow item" "wi_steps item" ?w g w1]
      s slice_nodes_pos scan_weight_cong [OF b] by simp
  then show ?thesis using assms(2) s e sh
    by (auto simp: turn_def Let_def split: if_splits sum.splits option.splits)
qed


end
