(* ===== verification/Batch_Client.thy ===== *)
theory Batch_Client
  imports Batch Protocol_Commands
begin

text \<open>
  The check a client makes of a batch response before it trusts it (\<^verbatim>\<open>protocol/batch.py\<close>), and that it accepts
  every response the server can give to the request.
\<close>

text \<open>The payload of a request, as far as the check reads it.\<close>

record batch_payload =
  bp_flow_name :: "string option"
  bp_paths :: "string list"

definition expected_targets :: "command \<Rightarrow> batch_payload \<Rightarrow> string list option" where
  "expected_targets command payload =
     (if command = BEGIN
      then (case bp_flow_name payload of
          None \<Rightarrow> None
        | Some name \<Rightarrow> if name = [] then None else Some [''/'' @ name])
      else Some (bp_paths payload))"

definition validate_batch_response :: "command \<Rightarrow> batch_payload \<Rightarrow> batch_response \<Rightarrow> exc + batch_response" where
  "validate_batch_response command payload resp =
     (if br_results resp = [] \<and> br_flag resp \<notin> {0, 16} then Inr resp
      else if (case expected_targets command payload of None \<Rightarrow> False | Some ts \<Rightarrow> map bi_target (br_results resp) \<noteq> ts)
      then Inl ServerResponseError
      else if map bi_index (br_results resp) \<noteq> [0..<length (br_results resp)] then Inl ServerResponseError
      else if br_flag resp \<noteq> (if list_ex (\<lambda>r. bi_flag r \<noteq> 0) (br_results resp) then 16 else 0)
      then Inl ServerResponseError
      else Inr resp)"

lemma batch_response_shape:
  assumes "batch_targets snapshot evidence k operation targets w = (resp, w')" and "targets \<noteq> [] \<or> k = BatchBegin"
  shows "map bi_target (br_results resp) = targets" and "map bi_index (br_results resp) = [0..<length (br_results resp)]"
    and "br_flag resp = (if list_ex (\<lambda>r. bi_flag r \<noteq> 0) (br_results resp) then 16 else 0)"
proof -
  obtain items w1 where run: "run_items snapshot evidence k operation 0 targets w = (items, w1)" by (rule prod.exhaust)
  then have resp: "br_results resp = items"
    "br_flag resp = (if length (filter (\<lambda>it. bi_flag it \<noteq> 0) items) \<noteq> 0 then 16 else 0)"
    using assms by (auto simp: batch_targets_def Let_def split: if_splits)
  note c = run_items_contract [OF run]
  from c(2,3) have "map bi_index items = [0..<length items]" by (metis add_0 length_map)
  then show "map bi_index (br_results resp) = [0..<length (br_results resp)]" by (simp add: resp)
  show "map bi_target (br_results resp) = targets" using c(2) by (simp add: resp)
  show "br_flag resp = (if list_ex (\<lambda>r. bi_flag r \<noteq> 0) (br_results resp) then 16 else 0)"
    by (auto simp: resp filter_empty_conv list_ex_iff)
qed

text \<open>
  The two ends agree: the response the server gives to a batch request, empty requests and failed
  targets included, passes the check of the client for that very request.
\<close>

lemma client_accepts_server_batch:
  assumes "batch_targets snapshot evidence k operation targets w = (resp, w')" and "k = BatchBegin \<longleftrightarrow> command = BEGIN"
    and "targets = (case expected_targets command payload of Some ts \<Rightarrow> ts | None \<Rightarrow> map (\<lambda>(name, i). ''/'' @ name) (w_flows w))"
  shows "validate_batch_response command payload resp = Inr resp"
proof (cases "targets = [] \<and> k \<noteq> BatchBegin")
  case True
  then show ?thesis using assms(1) by (auto simp: batch_targets_def validate_batch_response_def)
next
  case False
  then have ok: "targets \<noteq> [] \<or> k = BatchBegin" by blast
  note shape = batch_response_shape [OF assms(1) ok]
  have "\<not> (case expected_targets command payload of None \<Rightarrow> False | Some ts \<Rightarrow> map bi_target (br_results resp) \<noteq> ts)"
    using shape(1) assms(3) by (simp split: option.splits)
  then show ?thesis using shape(2,3) by (simp add: validate_batch_response_def)
qed

end
