(* ===== verification/Client_Retry.thy ===== *)
theory Client_Retry
  imports Protocol_Commands Py_Json Complex_Main
begin

text \<open>
  The call wrapper of the client (\<^verbatim>\<open>client/retry.py\<close>) and the exit codes of its commands
  (\<^verbatim>\<open>client/exit_code.py\<close>). Seconds are rationals: the rounding of floating point numbers is not modelled.
  The environment of a call is an argument: what each attempt ends with, how long it takes, and for how long
  a sleep really lasts.
\<close>

section \<open>Windows and delays\<close>

datatype command_kind = KindChild | KindControl | KindQuery

fun COMMAND_KIND_BY_COMMAND :: "command \<Rightarrow> command_kind" where
  "COMMAND_KIND_BY_COMMAND INIT = KindChild"
| "COMMAND_KIND_BY_COMMAND COMPLETE = KindChild"
| "COMMAND_KIND_BY_COMMAND ABORT = KindChild"
| "COMMAND_KIND_BY_COMMAND EVENT = KindChild"
| "COMMAND_KIND_BY_COMMAND METER = KindChild"
| "COMMAND_KIND_BY_COMMAND PING = KindQuery"
| "COMMAND_KIND_BY_COMMAND COROUTINE = KindQuery"
| "COMMAND_KIND_BY_COMMAND SERVER_STATUS = KindQuery"
| "COMMAND_KIND_BY_COMMAND _ = KindControl"

definition DEFAULT_SINGLE_TIMEOUT :: rat where "DEFAULT_SINGLE_TIMEOUT = 10"
definition MAX_BACKOFF_SECONDS :: rat where "MAX_BACKOFF_SECONDS = 60"

fun DEFAULT_RETRY_WINDOW_BY_KIND :: "command_kind \<Rightarrow> rat" where
  "DEFAULT_RETRY_WINDOW_BY_KIND KindChild = 86400"
| "DEFAULT_RETRY_WINDOW_BY_KIND KindControl = 60"
| "DEFAULT_RETRY_WINDOW_BY_KIND KindQuery = 60"

definition backoff_seconds :: "nat \<Rightarrow> rat" where
  "backoff_seconds attempt = (if attempt \<ge> 7 then MAX_BACKOFF_SECONDS else min (2 ^ (attempt - 1)) MAX_BACKOFF_SECONDS)"

text \<open>
  \<open>TAKLER_TIMEOUT\<close>, when it is set to decimal digits; \<open>float(int(text))\<close> raises when the number does not
  fit into a float.
\<close>

definition resolve_retry_window :: "command_kind \<Rightarrow> string option \<Rightarrow> exc + rat" where
  "resolve_retry_window kind raw = (case raw of
      None \<Rightarrow> Inr (DEFAULT_RETRY_WINDOW_BY_KIND kind)
    | Some s \<Rightarrow>
        let text = py_strip s in
        if text \<noteq> [] \<and> list_all is_digit text then
          (if digits_value text \<ge> 2 ^ 1024 - 2 ^ 970 then Inl (PyError PyOverflowError)
           else Inr (of_nat (digits_value text)))
        else Inr (DEFAULT_RETRY_WINDOW_BY_KIND kind))"

record retry_policy =
  rp_retry_window :: rat
  rp_single_timeout :: rat

definition next_delay :: "retry_policy \<Rightarrow> nat \<Rightarrow> rat \<Rightarrow> rat option" where
  "next_delay p attempt elapsed =
     (let remaining = rp_retry_window p - elapsed in
      if remaining \<le> 0 then None else Some (min (backoff_seconds attempt) remaining))"

section \<open>The loop\<close>

datatype failure_category = RETRYABLE | NON_RETRYABLE exc | FATAL

text \<open>An attempt returns, fails with a classified failure, or fails in a way the transport does not know.\<close>

datatype 'a attempt = Returned 'a | Failed failure_category | Crashed exc

record 'a call_env =
  ce_attempt :: "nat \<Rightarrow> 'a attempt"
  ce_duration :: "nat \<Rightarrow> rat"
  ce_slept :: "nat \<Rightarrow> rat \<Rightarrow> rat"

text \<open>
  The loop from attempt \<open>n + 1\<close> on, at the time \<open>t\<close> after the start: the outcome, and the delays it slept. The first
  argument bounds the number of rounds.
\<close>

fun retry_loop :: "nat \<Rightarrow> retry_policy \<Rightarrow> 'a call_env \<Rightarrow> nat \<Rightarrow> rat \<Rightarrow> ((exc + 'a) \<times> rat list) option" where
  "retry_loop 0 p env n t = None"
| "retry_loop (Suc k) p env n t =
     (let attempt_number = Suc n; elapsed = t + ce_duration env attempt_number in
      case ce_attempt env attempt_number of
        Returned a \<Rightarrow> Some (Inr a, [])
      | Crashed e \<Rightarrow> Some (Inl e, [])
      | Failed (NON_RETRYABLE e) \<Rightarrow> Some (Inl e, [])
      | Failed FATAL \<Rightarrow> Some (Inl TransportError, [])
      | Failed RETRYABLE \<Rightarrow> (case next_delay p attempt_number elapsed of
            None \<Rightarrow> Some (Inl ClientConnectionError, [])
          | Some d \<Rightarrow> map_option (\<lambda>(r, ds). (r, d # ds))
              (retry_loop k p env attempt_number (elapsed + ce_slept env attempt_number d))))"

definition run_with_retry :: "nat \<Rightarrow> retry_policy \<Rightarrow> 'a call_env \<Rightarrow> ((exc + 'a) \<times> rat list) option" where
  "run_with_retry k p env = retry_loop k p env 0 0"

section \<open>Exit codes\<close>

definition EXIT_OK :: int where "EXIT_OK = 0"
definition EXIT_REQUEST_ERROR :: int where "EXIT_REQUEST_ERROR = 1"
definition EXIT_SERVER_ERROR :: int where "EXIT_SERVER_ERROR = 3"
definition EXIT_UNREACHABLE :: int where "EXIT_UNREACHABLE = 4"

definition EXIT_CODE_BY_ERROR_CODE :: "(int \<times> int) list" where
  "EXIT_CODE_BY_ERROR_CODE = [(0, EXIT_OK), (1, EXIT_REQUEST_ERROR), (10, EXIT_REQUEST_ERROR), (11, EXIT_REQUEST_ERROR),
     (12, EXIT_REQUEST_ERROR), (13, EXIT_REQUEST_ERROR), (14, EXIT_REQUEST_ERROR), (16, EXIT_REQUEST_ERROR),
     (15, EXIT_REQUEST_ERROR), (20, EXIT_REQUEST_ERROR), (30, EXIT_SERVER_ERROR), (31, EXIT_SERVER_ERROR),
     (32, EXIT_REQUEST_ERROR), (33, EXIT_REQUEST_ERROR), (40, EXIT_UNREACHABLE), (41, EXIT_UNREACHABLE),
     (42, EXIT_SERVER_ERROR), (43, EXIT_REQUEST_ERROR), (99, EXIT_SERVER_ERROR)]"

definition exit_code_for_error_code :: "int \<Rightarrow> int" where
  "exit_code_for_error_code code = (case map_of EXIT_CODE_BY_ERROR_CODE code of Some x \<Rightarrow> x | None \<Rightarrow> EXIT_SERVER_ERROR)"

definition exit_code_for_exception :: "exc \<Rightarrow> int" where
  "exit_code_for_exception e = exit_code_for_error_code (error_code_for_exception e)"

lemmas exit_code_defs = exit_code_for_exception_def exit_code_for_error_code_def EXIT_CODE_BY_ERROR_CODE_def
  EXIT_OK_def EXIT_REQUEST_ERROR_def EXIT_SERVER_ERROR_def EXIT_UNREACHABLE_def

text \<open>
  The exit code of a command is 0 exactly for the error code of success, whatever code the server answers, never for
  an exception; 4 says that the server was not reached, and is used for the failures of the transport only.
\<close>

lemma exit_codes:
  "(exit_code_for_error_code code = EXIT_OK \<longleftrightarrow> code = SUCCESS)
   \<and> exit_code_for_exception e \<noteq> EXIT_OK
   \<and> (exit_code_for_exception e = EXIT_UNREACHABLE \<longleftrightarrow> e \<in> {TransportError, ClientConnectionError})"
proof -
  have "exit_code_for_error_code code = EXIT_OK \<longleftrightarrow> code = SUCCESS"
    by (simp add: exit_code_defs SUCCESS_def)
  moreover have "exit_code_for_exception e \<noteq> EXIT_OK
      \<and> (exit_code_for_exception e = EXIT_UNREACHABLE \<longleftrightarrow> e \<in> {TransportError, ClientConnectionError})"
    by (cases e) (simp_all add: exit_code_defs error_code_defs)
  ultimately show ?thesis by blast
qed

section \<open>The window bounds the loop\<close>

definition rounds :: "rat \<Rightarrow> nat" where
  "rounds t = nat \<lceil>t\<rceil>"

lemma backoff_pos: "1 \<le> n \<Longrightarrow> 1 \<le> backoff_seconds n"
  by (simp add: backoff_seconds_def MAX_BACKOFF_SECONDS_def)

lemma rounds_zero: "t \<le> 0 \<Longrightarrow> rounds t = 0"
  by (simp add: rounds_def)

lemma rounds_pos: "0 < t \<Longrightarrow> 0 < rounds t"
  by (simp add: rounds_def)

lemma rounds_mono: "s \<le> t \<Longrightarrow> rounds s \<le> rounds t"
  by (simp add: rounds_def ceiling_mono nat_mono)

lemma rounds_less: "0 < t \<Longrightarrow> s \<le> t - 1 \<Longrightarrow> rounds s < rounds t"
proof -
  assume "0 < t" "s \<le> t - 1"
  then have "\<lceil>s\<rceil> \<le> \<lceil>t\<rceil> - 1" "0 < \<lceil>t\<rceil>" using ceiling_mono [of s "t - 1"] by simp_all
  then show "rounds s < rounds t" by (simp add: rounds_def)
qed

definition env_ok :: "'a call_env \<Rightarrow> bool" where
  "env_ok env \<longleftrightarrow> (\<forall>n. 0 \<le> ce_duration env n) \<and> (\<forall>n d. d \<le> ce_slept env n d)"

lemma delay_progress:
  assumes "next_delay p (Suc n) e = Some d" and "e + d \<le> t"
  shows "0 < d" and "d \<le> rp_retry_window p - e" and "rounds (rp_retry_window p - t) < rounds (rp_retry_window p - e)"
proof -
  let ?rem = "rp_retry_window p - e"
  have rem: "0 < ?rem" and d: "d = min (backoff_seconds (Suc n)) ?rem"
    using assms(1) by (auto simp: next_delay_def Let_def split: if_splits)
  then show "0 < d" "d \<le> ?rem" using backoff_pos [of "Suc n"] by auto
  show "rounds (rp_retry_window p - t) < rounds ?rem"
  proof (cases "1 \<le> d")
    case True
    then show ?thesis using rem assms(2) by (intro rounds_less) auto
  next
    case False
    then have "d = ?rem" using d backoff_pos [of "Suc n"] by auto
    then show ?thesis using assms(2) rounds_zero [of "rp_retry_window p - t"] rounds_pos [OF rem] by simp
  qed
qed

lemma retry_loop_bounded:
  assumes "env_ok env" and "rounds (rp_retry_window p - t) < k"
  shows "\<exists>r ds. retry_loop k p env n t = Some (r, ds) \<and> length ds \<le> rounds (rp_retry_window p - t)
    \<and> sum_list ds \<le> max 0 (rp_retry_window p - t)
    \<and> (\<forall>i < length ds. ce_attempt env (n + Suc i) = Failed RETRYABLE)
    \<and> (\<forall>a. r = Inr a \<longrightarrow> ce_attempt env (n + Suc (length ds)) = Returned a)"
  using assms(2)
proof (induction k arbitrary: n t)
  case (Suc k)
  let ?e = "t + ce_duration env (Suc n)"
  show ?case
  proof (cases "ce_attempt env (Suc n) = Failed RETRYABLE \<and> next_delay p (Suc n) ?e \<noteq> None")
    case False
    then show ?thesis by (auto simp: Let_def split: attempt.splits failure_category.splits option.splits)
  next
    case True
    then obtain d where d: "next_delay p (Suc n) ?e = Some d" by auto
    let ?t = "?e + ce_slept env (Suc n) d"
    have time: "t \<le> ?e" "?e + d \<le> ?t" using assms(1) by (simp_all add: env_ok_def)
    note prog = delay_progress [OF d time(2)]
    have less: "rounds (rp_retry_window p - ?t) < rounds (rp_retry_window p - t)"
      using prog(3) rounds_mono [of "rp_retry_window p - ?e" "rp_retry_window p - t"] time(1) by simp
    then obtain r ds where run: "retry_loop k p env (Suc n) ?t = Some (r, ds)"
      and len: "length ds \<le> rounds (rp_retry_window p - ?t)" and sum: "sum_list ds \<le> max 0 (rp_retry_window p - ?t)"
      and fails: "\<forall>i < length ds. ce_attempt env (Suc n + Suc i) = Failed RETRYABLE"
      and answer: "\<forall>a. r = Inr a \<longrightarrow> ce_attempt env (Suc n + Suc (length ds)) = Returned a"
      using Suc.IH [of ?t "Suc n"] Suc.prems by fastforce
    have "retry_loop (Suc k) p env n t = Some (r, d # ds)" using True d run by (simp add: Let_def)
    moreover have "length (d # ds) \<le> rounds (rp_retry_window p - t)" using len less by simp
    moreover have "sum_list (d # ds) \<le> max 0 (rp_retry_window p - t)" using sum prog(1,2) time by auto
    moreover have "\<forall>i < length (d # ds). ce_attempt env (n + Suc i) = Failed RETRYABLE"
      using fails True by (auto simp: less_Suc_eq_0_disj)
    ultimately show ?thesis using answer by (intro exI [of _ r] exI [of _ "d # ds"]) simp
  qed
qed simp



end
