(* ===== verification/Definition_Documents.thy ===== *)
theory Definition_Documents
  imports Node_Parameters Py_Text
begin

text \<open>
  Definition documents (\<^verbatim>\<open>schema/definition.py\<close>), the construction of a tree from one (\<open>_construct\<close> of
  \<^verbatim>\<open>serialization/builder.py\<close>) and its projection back (\<^verbatim>\<open>serialization/definition.py\<close>), for the built-in
  node types of \<^verbatim>\<open>serialization/registry.py\<close>. A document is given as the typed fields the
  third-party decoder finds; the validators of the models, in the order of the fields, are modelled, and the code of
  the first one that fails. A tree under construction is not attached to anything, so that its notifications go
  nowhere: it is a value.
\<close>

section \<open>Documents\<close>

record parameter_definition =
  pd_name :: string
  pd_value :: pval

record event_definition =
  ed_name :: string
  ed_initial_value :: bool

record meter_definition =
  md_name :: string
  md_min_value :: int
  md_max_value :: int

record limit_definition =
  ld_name :: string
  ld_limit :: int

record in_limit_definition =
  id_limit_name :: string
  id_node_path :: "string option"
  id_tokens :: int

record repeat_definition =
  rf_name :: string
  rf_start_date :: string
  rf_end_date :: string
  rf_step :: int

record node_fields =
  nd_type_id :: string
  nd_name :: string
  nd_user_parameters :: "parameter_definition list"
  nd_default_node_status :: node_status
  nd_trigger :: "string option"
  nd_complete_trigger :: "string option"
  nd_events :: "event_definition list"
  nd_meters :: "meter_definition list"
  nd_limits :: "limit_definition list"
  nd_in_limits :: "in_limit_definition list"
  nd_repeat :: "repeat_definition option"
  nd_times :: "string list"
  nd_script_path :: "string option"

datatype node_definition = NodeDefinition (nd_fields: node_fields) (nd_children: "node_definition list")

datatype definition_root =
    FlowRoot node_definition
  | BunchRoot string "parameter_definition list" "node_definition list"

section \<open>Registered types\<close>

datatype entry_kind = EBunch | EFlow | EContainer | ETask

definition builtin_registry :: "(string \<times> entry_kind) list" where
  "builtin_registry = [(''takler.bunch'', EBunch), (''takler.flow'', EFlow), (''takler.container'', EContainer),
     (''takler.task'', ETask), (''takler.shell'', ETask)]"

text \<open>The code of a \<open>DefinitionError\<close>, when there is one.\<close>

type_synonym code = "string option"

fun first_code :: "code list \<Rightarrow> code" where
  "first_code [] = None"
| "first_code (c # cs) = (case c of None \<Rightarrow> first_code cs | Some e \<Rightarrow> Some e)"

lemma first_code_None [simp]: "first_code cs = None \<longleftrightarrow> (\<forall>c \<in> set cs. c = None)"
  by (induction cs) (auto split: option.splits)

declare first_code.simps [simp del]

fun check_types :: "entry_kind set \<Rightarrow> node_definition \<Rightarrow> code" where
  "check_types kinds (NodeDefinition f cs) = (case map_of builtin_registry (nd_type_id f) of
      None \<Rightarrow> Some ''unknown_type''
    | Some k \<Rightarrow> if k \<notin> kinds then Some ''invalid_structure''
        else first_code (map (check_types {ETask, EContainer}) cs))"

section \<open>Dates and times as text\<close>

text \<open>\<open>strptime\<close> with \<open>%Y%m%d\<close> on eight digits; \<open>f"{v:08d}"\<close>.\<close>

definition digits2 :: "char \<Rightarrow> char \<Rightarrow> int" where
  "digits2 a b = 10 * digit_value a + digit_value b"

definition read_date :: "string \<Rightarrow> int option" where
  "read_date s = (case s of
      [a, b, c, d, e, f, g, h] \<Rightarrow>
        (let y = 100 * digits2 a b + digits2 c d; m = digits2 e f; dd = digits2 g h in
         if list_all is_digit s \<and> valid_ymd y m dd then Some (ymd2ord y m dd) else None)
    | _ \<Rightarrow> None)"

definition fmt8 :: "int \<Rightarrow> string" where
  "fmt8 v = fmt4 (v div 10000) @ fmt2 (v div 100 mod 100) @ fmt2 (v mod 100)"

text \<open>The pattern of a time, its parts, and \<open>isoformat(timespec="minutes")\<close>.\<close>

definition read_time :: "string \<Rightarrow> (int \<times> int) option" where
  "read_time s = (case s of
      [a, b, c, d, e] \<Rightarrow>
        if list_all is_digit [a, b, d, e] \<and> c = CHR '':'' \<and> digits2 a b < 24 \<and> digit_value d < 6
        then Some (digits2 a b, digits2 d e) else None
    | _ \<Rightarrow> None)"

definition time_text :: "time_attr \<Rightarrow> string" where
  "time_text t = fmt2 (ta_hour t) @ '':'' @ fmt2 (ta_minute t)"

lemma digit_char_of_value: "is_digit c \<Longrightarrow> digit_char (digit_value c) = c"
  by (simp add: digit_char_def digit_value_def is_digit_def nat_diff_distrib')

lemma digit_value_range: "is_digit c \<Longrightarrow> 0 \<le> digit_value c \<and> digit_value c \<le> 9"
  by (auto simp: digit_value_def is_digit_def)

lemma fmt2_digits2: "is_digit a \<Longrightarrow> is_digit b \<Longrightarrow> fmt2 (digits2 a b) = [a, b]"
  using digit_value_range [of a] digit_value_range [of b] by (simp add: fmt2_def digits2_def digit_char_of_value)

lemma digits2_range: "is_digit a \<Longrightarrow> is_digit b \<Longrightarrow> 0 \<le> digits2 a b \<and> digits2 a b < 100"
  using digit_value_range [of a] digit_value_range [of b] by (simp add: digits2_def)

lemma fmt4_digits:
  assumes d: "is_digit a" "is_digit b" "is_digit c" "is_digit d"
  shows "fmt4 (100 * digits2 a b + digits2 c d) = [a, b, c, d]"
proof -
  let ?A = "digit_value a" and ?B = "digit_value b" and ?C = "digit_value c" and ?D = "digit_value d"
  let ?v = "100 * digits2 a b + digits2 c d"
  note r = digit_value_range [OF d(1)] digit_value_range [OF d(2)] digit_value_range [OF d(3)] digit_value_range [OF d(4)]
  have 1: "?v = 1000 * ?A + (100 * ?B + 10 * ?C + ?D)" "?v = 100 * (10 * ?A + ?B) + (10 * ?C + ?D)"
    "?v = 10 * (10 * (10 * ?A + ?B) + ?C) + ?D" by (simp_all add: digits2_def)
  have "?v div 1000 = ?A" unfolding 1(1) by (rule div_mod_eq) (use r in linarith)+
  moreover have "?v div 100 = 10 * ?A + ?B" unfolding 1(2) by (rule div_mod_eq) (use r in linarith)+
  moreover have "?v div 10 = 10 * (10 * ?A + ?B) + ?C" "?v mod 10 = ?D"
    unfolding 1(3) by (rule div_mod_eq, use r in linarith, use r in linarith)+
  moreover have "(10 * ?A + ?B) mod 10 = ?B" "(10 * (10 * ?A + ?B) + ?C) mod 10 = ?C"
    by (rule div_mod_eq, use r in linarith, use r in linarith)+
  ultimately show ?thesis using d by (simp add: fmt4_def digit_char_of_value)
qed

lemma split_date:
  fixes y m d :: int
  assumes "0 \<le> m" "m < 100" "0 \<le> d" "d < 100"
  shows "(y * 10000 + m * 100 + d) div 10000 = y" "(y * 10000 + m * 100 + d) div 100 mod 100 = m"
    "(y * 10000 + m * 100 + d) mod 100 = d"
proof -
  have 1: "y * 10000 + m * 100 + d = 10000 * y + (100 * m + d)" "y * 10000 + m * 100 + d = 100 * (100 * y + m) + d"
    by simp_all
  show "(y * 10000 + m * 100 + d) div 10000 = y" unfolding 1(1) by (rule div_mod_eq) (use assms in linarith)+
  have "(y * 10000 + m * 100 + d) div 100 = 100 * y + m" "(y * 10000 + m * 100 + d) mod 100 = d"
    unfolding 1(2) by (rule div_mod_eq, use assms in linarith, use assms in linarith)+
  then show "(y * 10000 + m * 100 + d) div 100 mod 100 = m" "(y * 10000 + m * 100 + d) mod 100 = d"
    using assms by (simp_all add: div_mod_eq)
qed

lemma read_date_text:
  assumes "read_date s = Some v"
  shows "fmt8 (date_int v) = s"
proof -
  from assms obtain a b c d e f g h where s: "s = [a, b, c, d, e, f, g, h]"
    by (auto simp: read_date_def split: list.splits)
  let ?y = "100 * digits2 a b + digits2 c d" and ?m = "digits2 e f" and ?d = "digits2 g h"
  have ok: "list_all is_digit s" "valid_ymd ?y ?m ?d" "v = ymd2ord ?y ?m ?d"
    using assms by (auto simp: s read_date_def Let_def split: if_splits)
  then have dig: "is_digit a" "is_digit b" "is_digit c" "is_digit d" "is_digit e" "is_digit f" "is_digit g" "is_digit h"
    by (simp_all add: s)
  let ?v = "?y * 10000 + ?m * 100 + ?d"
  have "date_int v = ?v" using ok ord2ymd_ymd2ord by (simp add: date_int_def)
  moreover have "?v div 10000 = ?y" "?v div 100 mod 100 = ?m" "?v mod 100 = ?d"
    using digits2_range [OF dig(5,6)] digits2_range [OF dig(7,8)] by (intro split_date; simp)+
  ultimately show ?thesis
    using dig by (simp add: fmt8_def s fmt4_digits fmt2_digits2)
qed

lemma read_time_text:
  assumes "read_time s = Some (h, m)"
  shows "time_text (TimeAttribute h m) = s"
  using assms by (auto simp: read_time_def time_text_def TimeAttribute_def fmt2_digits2 split: list.splits if_splits)

section \<open>Validation\<close>

definition py_upper :: "string \<Rightarrow> string" where
  "py_upper s = concat (map (\<lambda>c. if char_code c = 223 then ''SS''
     else if 97 \<le> char_code c \<and> char_code c \<le> 122 \<or> 224 \<le> char_code c \<and> char_code c \<le> 254 \<and> char_code c \<noteq> 247
     then [char_of (char_code c - 32)] else [c]) s)"

definition forbidden_parameters :: "string list" where
  "forbidden_parameters = [''TAKLER_PASS'', ''TAKLER_ATTEMPT_ID'', ''TAKLER_SECRET'', ''TAKLER_HOST'', ''TAKLER_PORT'']"

definition fails :: "bool \<Rightarrow> string \<Rightarrow> code" where
  "fails b c = (if b then Some c else None)"

lemma fails_None [simp]: "fails b c = None \<longleftrightarrow> \<not> b"
  by (simp add: fails_def)

definition unique :: "'a list \<Rightarrow> code" where
  "unique xs = fails (\<not> distinct xs) ''duplicate_name''"

lemma unique_None [simp]: "unique xs = None \<longleftrightarrow> distinct xs"
  by (simp add: unique_def)

definition parameter_error :: "parameter_definition \<Rightarrow> code" where
  "parameter_error p = first_code [fails (pd_name p = []) ''invalid_field'',
     fails (py_upper (pd_name p) \<in> set forbidden_parameters) ''forbidden_field'']"

definition meter_error :: "meter_definition \<Rightarrow> code" where
  "meter_error m = fails (md_name m = [] \<or> md_min_value m > md_max_value m) ''invalid_field''"

definition repeat_error :: "repeat_definition \<Rightarrow> code" where
  "repeat_error r = fails (rf_name r = [] \<or> rf_step r \<le> 0 \<or> read_date (rf_start_date r) = None
     \<or> read_date (rf_end_date r) = None \<or> rf_start_date r > rf_end_date r) ''invalid_field''"

definition bad_node_name :: "string \<Rightarrow> bool" where
  "bad_node_name n \<longleftrightarrow> n = ''.'' \<or> n = ''..'' \<or> list_ex (\<lambda>c. c = CHR ''/'' \<or> c = CHR '':'' \<or> char_code c = 0) n"

text \<open>The fields of a node in order, its children, then the validators of its class.\<close>

fun node_error :: "node_definition \<Rightarrow> code" where
  "node_error (NodeDefinition f cs) = first_code
     ([fails (nd_name f = []) ''invalid_field'',
       first_code (map parameter_error (nd_user_parameters f)),
       fails (nd_default_node_status f \<notin> {queued, complete}) ''invalid_field'',
       fails (nd_trigger f = Some []) ''invalid_field'',
       fails (nd_complete_trigger f = Some []) ''invalid_field'',
       fails (list_ex (\<lambda>e. ed_name e = []) (nd_events f)) ''invalid_field'',
       first_code (map meter_error (nd_meters f)),
       fails (list_ex (\<lambda>l. ld_name l = [] \<or> ld_limit l < 0) (nd_limits f)) ''invalid_field'',
       fails (list_ex (\<lambda>i. id_limit_name i = [] \<or> id_tokens i \<le> 0) (nd_in_limits f)) ''invalid_field'',
       (case nd_repeat f of None \<Rightarrow> None | Some r \<Rightarrow> repeat_error r),
       fails (list_ex (\<lambda>t. read_time t = None) (nd_times f)) ''invalid_field'']
      @ map node_error cs @
      [fails (nd_script_path f \<noteq> None \<and> nd_type_id f \<noteq> ''takler.shell'') ''invalid_field'',
       fails (bad_node_name (nd_name f)) ''invalid_field'',
       unique (map pd_name (nd_user_parameters f)), unique (map ed_name (nd_events f)),
       unique (map md_name (nd_meters f)), unique (map ld_name (nd_limits f)),
       unique (map (\<lambda>i. (id_node_path i, id_limit_name i)) (nd_in_limits f)), unique (nd_times f),
       (if map_of builtin_registry (nd_type_id f) = Some ETask then fails (cs \<noteq> []) ''invalid_structure''
        else unique (map (nd_name \<circ> nd_fields) cs))])"

fun root_error :: "definition_root \<Rightarrow> code" where
  "root_error (FlowRoot d) = first_code [check_types {EFlow} d, node_error d]"
| "root_error (BunchRoot name ps flows) = first_code
     [first_code (map (check_types {EFlow}) flows), first_code (map parameter_error ps), first_code (map node_error flows),
      fails (bad_node_name name) ''invalid_field'', unique (map pd_name ps), unique (map (nd_name \<circ> nd_fields) flows)]"

section \<open>Construction\<close>

text \<open>The methods that add an attribute, on a node that is attached to nothing.\<close>

type_synonym 'a building = "(node_attrs, exc, 'a) prog"

definition attach_parameter :: "parameter_definition \<Rightarrow> unit building" where
  "attach_parameter p = modify (\<lambda>a. a\<lparr>n_user_parameters :=
     dict_set (pd_name p) (Parameter (pd_name p) (pd_value p)) (n_user_parameters a)\<rparr>)"

definition attach_event :: "event_definition \<Rightarrow> unit building" where
  "attach_event e = withState (\<lambda>a. if \<exists>x \<in> set (n_events a). ev_name x = ed_name e then raise (PyError PyRuntimeError)
     else modify (\<lambda>a. a\<lparr>n_events := n_events a @ [Event (ed_name e) (ed_initial_value e)]\<rparr>))"

definition attach_meter :: "meter_definition \<Rightarrow> unit building" where
  "attach_meter m = modify (\<lambda>a. a\<lparr>n_meters := n_meters a @ [Meter (md_name m) (md_min_value m) (md_max_value m)]\<rparr>)"

definition attach_limit :: "limit_definition \<Rightarrow> unit building" where
  "attach_limit l = withState (\<lambda>a. if \<exists>x \<in> set (n_limits a). lm_name x = ld_name l then raise (PyError PyRuntimeError)
     else modify (\<lambda>a. a\<lparr>n_limits := n_limits a @ [Limit (ld_name l) (ld_limit l)]\<rparr>))"

definition attach_in_limit :: "in_limit_definition \<Rightarrow> unit building" where
  "attach_in_limit i = (let il = InLimit (id_limit_name i) (id_node_path i) (id_tokens i) in
     withState (\<lambda>a. if has_in_limit (n_in_limits a) il then raise (PyError PyRuntimeError)
       else modify (\<lambda>a. a\<lparr>n_in_limits := n_in_limits a @ [il]\<rparr>)))"

definition attach_repeat :: "repeat_definition \<Rightarrow> unit building" where
  "attach_repeat r = (case (read_date (rf_start_date r), read_date (rf_end_date r)) of
      (Some s, Some e) \<Rightarrow> modify (\<lambda>a. a\<lparr>n_repeat := Some \<lparr>rp_r = Some (RepeatDate (rf_name r) s e (rf_step r))\<rparr>\<rparr>)
    | _ \<Rightarrow> raise (PyError PyValueError))"

definition attach_time :: "string \<Rightarrow> unit building" where
  "attach_time t = (case read_time t of
      Some (h, m) \<Rightarrow> modify (\<lambda>a. a\<lparr>n_times := n_times a @ [TimeAttribute h m]\<rparr>)
    | None \<Rightarrow> raise (PyError PyValueError))"

definition construct_attrs :: "node_fields \<Rightarrow> unit building" where
  "construct_attrs f =
     seqM (forM (nd_user_parameters f) attach_parameter)
     (seqM (modify (\<lambda>a. a\<lparr>n_default_status := nd_default_node_status f\<rparr>))
     (seqM (case nd_trigger f of None \<Rightarrow> ret () | Some t \<Rightarrow> modify (\<lambda>a. a\<lparr>n_trigger := Some (Expression t)\<rparr>))
     (seqM (case nd_complete_trigger f of None \<Rightarrow> ret ()
        | Some t \<Rightarrow> modify (\<lambda>a. a\<lparr>n_complete_trigger := Some (Expression t)\<rparr>))
     (seqM (forM (nd_events f) attach_event)
     (seqM (forM (nd_meters f) attach_meter)
     (seqM (forM (nd_limits f) attach_limit)
     (seqM (forM (nd_in_limits f) attach_in_limit)
     (seqM (case nd_repeat f of None \<Rightarrow> ret () | Some r \<Rightarrow> attach_repeat r)
       (forM (nd_times f) attach_time)))))))))"

text \<open>A tree outside the bunch: the registered type and the script of a shell task beside the attributes.\<close>

datatype tree = Tree (t_type: string) (t_script_path: "string option") (t_attrs: node_attrs) (t_kids: "tree list")

definition node_kind_of :: "entry_kind \<Rightarrow> node_kind" where
  "node_kind_of k = (case k of ETask \<Rightarrow> KTask | EFlow \<Rightarrow> KFlow | _ \<Rightarrow> KContainer)"

fun list_outcome :: "('e + 'a) list \<Rightarrow> 'e + 'a list" where
  "list_outcome [] = Inr []"
| "list_outcome (r # rs) = (case r of Inl e \<Rightarrow> Inl e
     | Inr x \<Rightarrow> (case list_outcome rs of Inl e \<Rightarrow> Inl e | Inr xs \<Rightarrow> Inr (x # xs)))"

fun construct :: "node_definition \<Rightarrow> string + tree" where
  "construct (NodeDefinition f cs) = (case map_of builtin_registry (nd_type_id f) of
      None \<Rightarrow> Inl ''unknown_type''
    | Some k \<Rightarrow> (case construct_attrs f (new_node (node_kind_of k) (nd_name f)) of
        (Inl e, _) \<Rightarrow> Inl ''invalid_field''
      | (Inr _, a) \<Rightarrow> (case list_outcome (map construct cs) of
            Inl e \<Rightarrow> Inl e
          | Inr ts \<Rightarrow> Inr (Tree (nd_type_id f) (if nd_type_id f = ''takler.shell'' then nd_script_path f else None) a ts))))"

section \<open>Projection\<close>

definition project_repeat :: "repeat option \<Rightarrow> repeat_definition option" where
  "project_repeat rp = (case rp of None \<Rightarrow> None | Some r \<Rightarrow> (case rp_r r of None \<Rightarrow> None
     | Some d \<Rightarrow> Some \<lparr>rf_name = rd_name d, rf_start_date = fmt8 (repeat_start d), rf_end_date = fmt8 (repeat_end d),
         rf_step = rd_step d\<rparr>))"

definition project_attrs :: "string \<Rightarrow> string option \<Rightarrow> node_attrs \<Rightarrow> node_fields" where
  "project_attrs ty script a = \<lparr>nd_type_id = ty, nd_name = n_name a,
     nd_user_parameters = map (\<lambda>(k, p). \<lparr>pd_name = pa_name p, pd_value = pa_value p\<rparr>) (n_user_parameters a),
     nd_default_node_status = n_default_status a,
     nd_trigger = map_option ex_expression_str (n_trigger a),
     nd_complete_trigger = map_option ex_expression_str (n_complete_trigger a),
     nd_events = map (\<lambda>e. \<lparr>ed_name = ev_name e, ed_initial_value = ev_initial_value e\<rparr>) (n_events a),
     nd_meters = map (\<lambda>m. \<lparr>md_name = mt_name m, md_min_value = mt_min_value m, md_max_value = mt_max_value m\<rparr>) (n_meters a),
     nd_limits = map (\<lambda>l. \<lparr>ld_name = lm_name l, ld_limit = lm_limit l\<rparr>) (n_limits a),
     nd_in_limits = map (\<lambda>i. \<lparr>id_limit_name = il_limit_name i, id_node_path = il_node_path i, id_tokens = il_tokens i\<rparr>)
       (n_in_limits a),
     nd_repeat = project_repeat (n_repeat a), nd_times = map time_text (n_times a),
     nd_script_path = (if ty = ''takler.shell'' then script else None)\<rparr>"

fun project :: "tree \<Rightarrow> node_definition" where
  "project (Tree ty script a ts) = NodeDefinition (project_attrs ty script a) (map project ts)"

text \<open>\<open>export_definition\<close> of a flow: what was projected is validated like any document.\<close>

definition export_definition :: "tree \<Rightarrow> string + node_definition" where
  "export_definition t = (if map_of builtin_registry (t_type t) \<noteq> Some EFlow then Inl ''invalid_structure''
     else case node_error (project t) of Some c \<Rightarrow> Inl c | None \<Rightarrow> Inr (project t))"

section \<open>The tree a document stands for\<close>

definition time_of :: "string \<Rightarrow> time_attr" where
  "time_of t = (case read_time t of Some (h, m) \<Rightarrow> TimeAttribute h m | None \<Rightarrow> TimeAttribute 0 0)"

definition repeat_of :: "repeat_definition \<Rightarrow> repeat" where
  "repeat_of r = \<lparr>rp_r = Some (RepeatDate (rf_name r) (the (read_date (rf_start_date r))) (the (read_date (rf_end_date r)))
     (rf_step r))\<rparr>"

definition fresh_attrs :: "node_kind \<Rightarrow> node_fields \<Rightarrow> node_attrs" where
  "fresh_attrs k f = (new_node k (nd_name f))\<lparr>
     n_user_parameters := map (\<lambda>p. (pd_name p, Parameter (pd_name p) (pd_value p))) (nd_user_parameters f),
     n_default_status := nd_default_node_status f,
     n_trigger := map_option Expression (nd_trigger f), n_complete_trigger := map_option Expression (nd_complete_trigger f),
     n_events := map (\<lambda>e. Event (ed_name e) (ed_initial_value e)) (nd_events f),
     n_meters := map (\<lambda>m. Meter (md_name m) (md_min_value m) (md_max_value m)) (nd_meters f),
     n_limits := map (\<lambda>l. Limit (ld_name l) (ld_limit l)) (nd_limits f),
     n_in_limits := map (\<lambda>i. InLimit (id_limit_name i) (id_node_path i) (id_tokens i)) (nd_in_limits f),
     n_repeat := map_option repeat_of (nd_repeat f), n_times := map time_of (nd_times f)\<rparr>"

fun fresh_tree :: "node_definition \<Rightarrow> tree" where
  "fresh_tree (NodeDefinition f cs) =
     Tree (nd_type_id f) (if nd_type_id f = ''takler.shell'' then nd_script_path f else None)
       (fresh_attrs (node_kind_of (the (map_of builtin_registry (nd_type_id f)))) f) (map fresh_tree cs)"

text \<open>Adding the items of a list one by one.\<close>

lemma dict_set_new: "k \<notin> fst ` set d \<Longrightarrow> dict_set k v d = d @ [(k, v)]"
  by (induction d) auto

lemma attach_parameters:
  assumes "distinct (map pd_name ps)" and "pd_name ` set ps \<inter> fst ` set (n_user_parameters a) = {}"
  shows "forM ps attach_parameter a = (Inr (), a\<lparr>n_user_parameters := n_user_parameters a @
    map (\<lambda>p. (pd_name p, Parameter (pd_name p) (pd_value p))) ps\<rparr>)"
  using assms by (induction ps arbitrary: a) (auto simp: attach_parameter_def prog_defs dict_set_new image_iff)

lemma attach_events:
  assumes "distinct (map ed_name es)" and "ed_name ` set es \<inter> ev_name ` set (n_events a) = {}"
  shows "forM es attach_event a = (Inr (), a\<lparr>n_events := n_events a @ map (\<lambda>e. Event (ed_name e) (ed_initial_value e)) es\<rparr>)"
  using assms by (induction es arbitrary: a) (auto simp: attach_event_def prog_defs Event_def image_iff)

lemma attach_meters:
  "forM ms attach_meter a = (Inr (), a\<lparr>n_meters := n_meters a @ map (\<lambda>m. Meter (md_name m) (md_min_value m) (md_max_value m)) ms\<rparr>)"
  by (induction ms arbitrary: a) (auto simp: attach_meter_def prog_defs)

lemma attach_limits:
  assumes "distinct (map ld_name ls)" and "ld_name ` set ls \<inter> lm_name ` set (n_limits a) = {}"
  shows "forM ls attach_limit a = (Inr (), a\<lparr>n_limits := n_limits a @ map (\<lambda>l. Limit (ld_name l) (ld_limit l)) ls\<rparr>)"
  using assms by (induction ls arbitrary: a) (auto simp: attach_limit_def prog_defs Limit_def image_iff)

lemma attach_in_limits:
  assumes "distinct (map (\<lambda>i. (id_node_path i, id_limit_name i)) is)"
    and "(\<lambda>i. (id_node_path i, id_limit_name i)) ` set is \<inter> (\<lambda>i. (il_node_path i, il_limit_name i)) ` set (n_in_limits a) = {}"
  shows "forM is attach_in_limit a = (Inr (), a\<lparr>n_in_limits := n_in_limits a @
    map (\<lambda>i. InLimit (id_limit_name i) (id_node_path i) (id_tokens i)) is\<rparr>)"
  using assms
  by (induction "is" arbitrary: a) (auto simp: attach_in_limit_def prog_defs InLimit_def has_in_limit_def image_iff)

lemma attach_times:
  assumes "\<forall>t \<in> set ts. read_time t \<noteq> None"
  shows "forM ts attach_time a = (Inr (), a\<lparr>n_times := n_times a @ map time_of ts\<rparr>)"
  using assms by (induction ts arbitrary: a) (auto simp: attach_time_def prog_defs time_of_def)

lemma construct_attrs_fresh:
  assumes "node_error (NodeDefinition f cs) = None"
  shows "construct_attrs f (new_node k (nd_name f)) = (Inr (), fresh_attrs k f)"
proof -
  have r: "attach_repeat r a = (Inr (), a\<lparr>n_repeat := Some (repeat_of r)\<rparr>)" if "nd_repeat f = Some r" for r a
    using assms that by (auto simp: attach_repeat_def repeat_of_def repeat_error_def prog_defs)
  from assms show ?thesis
    by (auto simp: construct_attrs_def seqM_def bindM_def modify_def ret_def attach_parameters attach_events attach_meters attach_limits
        attach_in_limits attach_times r fresh_attrs_def new_node_def list_ex_iff split: option.splits)
qed

lemma list_outcome_Inr: "(\<And>x. x \<in> set xs \<Longrightarrow> f x = Inr (g x)) \<Longrightarrow> list_outcome (map f xs) = Inr (map g xs)"
  by (induction xs) auto

lemma construct_fresh:
  assumes "node_error d = None" and "check_types kinds d = None"
  shows "construct d = Inr (fresh_tree d)"
  using assms
proof (induction d arbitrary: kinds)
  case (NodeDefinition f cs)
  obtain k where k: "map_of builtin_registry (nd_type_id f) = Some k"
    using NodeDefinition.prems(2) by (auto split: option.splits)
  have "construct c = Inr (fresh_tree c)" if "c \<in> set cs" for c
    using NodeDefinition.IH [OF that] NodeDefinition.prems that k by (auto split: if_splits)
  then show ?case
    using construct_attrs_fresh [OF NodeDefinition.prems(1)] k by (simp add: list_outcome_Inr [of cs construct fresh_tree])
qed

lemma project_fresh_attrs:
  assumes "node_error (NodeDefinition f cs) = None"
  shows "project_attrs (nd_type_id f) (nd_script_path f) (fresh_attrs k f) = f"
proof -
  have rep: "project_repeat (map_option repeat_of (nd_repeat f)) = nd_repeat f"
    using assms read_date_text
    by (auto simp: project_repeat_def repeat_of_def repeat_error_def RepeatDate_def repeat_start_def repeat_end_def
        split: option.splits)
  have "map (time_text \<circ> time_of) (nd_times f) = nd_times f"
    using assms read_time_text by (intro map_idI) (fastforce simp: time_of_def list_ex_iff)
  moreover have "(if nd_type_id f = ''takler.shell'' then nd_script_path f else None) = nd_script_path f"
    using assms by auto
  ultimately show ?thesis
    using rep by (auto simp: project_attrs_def fresh_attrs_def new_node_def Parameter_def Event_def Meter_def Limit_def InLimit_def
        Expression_def comp_def option.map_comp option.map_ident intro!: node_fields.equality map_idI)
qed

lemma project_fresh:
  assumes "node_error d = None"
  shows "project (fresh_tree d) = d"
  using assms
proof (induction d)
  case (NodeDefinition f cs)
  have "project (fresh_tree c) = c" if "c \<in> set cs" for c
    using NodeDefinition.IH [OF that] NodeDefinition.prems that by auto
  then have "map (project \<circ> fresh_tree) cs = cs" by (intro map_idI) auto
  then show ?case using project_fresh_attrs [OF NodeDefinition.prems] by (simp add: project_attrs_def cong: if_cong)
qed

text \<open>
  C30. Definitions survive the trip through a tree: every document that passes validation is built without an error into the
  fresh tree it stands for, with the values of a tree nothing has run in, and exporting that tree gives back the
  document, every field of every node.
\<close>

theorem definition_roundtrip:
  assumes "root_error (FlowRoot d) = None"
  shows "construct d = Inr (fresh_tree d) \<and> export_definition (fresh_tree d) = Inr d"
proof -
  have d: "node_error d = None" "check_types {EFlow} d = None" using assms by simp_all
  then have "map_of builtin_registry (t_type (fresh_tree d)) = Some EFlow"
    by (cases d) (auto split: option.splits if_splits)
  then show ?thesis using construct_fresh [OF d] project_fresh [OF d(1)] d(1) by (simp add: export_definition_def)
qed

end
