(* ===== verification/Definition_Loading.thy ===== *)
theory Definition_Loading
  imports Definition_Documents Bunch_Ops Flow_Pass Requeue_Effect
begin

text \<open>
  Loading a definition into the server (\<^verbatim>\<open>serialization/builder.py\<close> and \<open>run_command_load\<close> of
  \<^verbatim>\<open>server/scheduler.py\<close>): the candidate is put into the store as a tree of its own, its triggers and in-limits are
  bound to nodes of the candidate or of the running bunch, and only then is it registered. Decoding the bytes into
  the fields of a document, and parsing a trigger, are arguments.
\<close>

section \<open>The candidate in the store\<close>

fun tree_shape :: "tree \<Rightarrow> shape" where
  "tree_shape (Tree ty sp a ts) = Shape (map tree_shape ts)"

fun tree_attrs :: "nat list \<Rightarrow> tree \<Rightarrow> node_attrs option" where
  "tree_attrs [] t = Some (t_attrs t)"
| "tree_attrs (i # is) t = (case nth_opt (t_kids t) i of None \<Rightarrow> None | Some u \<Rightarrow> tree_attrs is u)"

definition install :: "tree \<Rightarrow> world \<Rightarrow> world" where
  "install t w = (let k = length (w_shapes w) in
     w\<lparr>w_shapes := w_shapes w @ [tree_shape t],
       w_attrs := (\<lambda>p. if p \<noteq> [] \<and> last p = k
         then (case tree_attrs (rev (butlast p)) t of None \<Rightarrow> w_attrs w p | Some a \<Rightarrow> a) else w_attrs w p)\<rparr>)"

section \<open>References\<close>

type_synonym 'a dprog = "(world, string, 'a) prog"

text \<open>\<open>walk\<close> of the bunch: the nodes of its flows, in order.\<close>

definition bunch_walk :: "world \<Rightarrow> pos list" where
  "bunch_walk w = concat (map (\<lambda>(_, k). walk (subtree w [k]) [k]) (w_flows w))"

text \<open>\<open>nodes[path]\<close>, the dictionary of the candidate's nodes by path: of equal paths the last one stays.\<close>

definition candidate_nodes :: "world \<Rightarrow> pos \<Rightarrow> string \<Rightarrow> pos option" where
  "candidate_nodes w root = map_of (rev (map (\<lambda>q. (node_path w q, q)) (walk (subtree w root) root)))"

definition reference :: "world \<Rightarrow> bool \<Rightarrow> pos \<Rightarrow> pos \<Rightarrow> string \<Rightarrow> exc + pos option" where
  "reference w existing root owner path =
     (if startswith path ''/'' then
        (case candidate_nodes w root path of
           Some q \<Rightarrow> Inr (Some q)
         | None \<Rightarrow> if existing \<and> py_split slash path ! 1 \<noteq> name_of w root then bunch_find_node w path else Inr None)
      else find_node w owner path)"

definition bad_reference :: "string \<Rightarrow> bool" where
  "bad_reference path \<longleftrightarrow> path = [] \<or> path = ''/'' \<or> sublist ''//'' path \<or> endswith path ''/''
     \<or> list_ex (\<lambda>c. c = CHR '':'' \<or> char_code c = 0) path"

text \<open>
  The checks below take the lookup of a path, seen from an owner, as an argument: \<open>reference\<close> for the candidate of a load,
  and another one for a whole bunch.
\<close>

type_synonym finder = "world \<Rightarrow> pos \<Rightarrow> string \<Rightarrow> exc + pos option"

definition reference_limit :: "finder \<Rightarrow> world \<Rightarrow> pos \<Rightarrow> in_limit \<Rightarrow> string + lref option" where
  "reference_limit look w q il = (case il_node_path il of
      None \<Rightarrow> Inr (find_limit_up w q (il_limit_name il))
    | Some path \<Rightarrow> if bad_reference path then Inl ''invalid_reference''
        else (case look w q path of
            Inl e \<Rightarrow> Inl ''invalid_field''
          | Inr None \<Rightarrow> Inr None
          | Inr (Some r) \<Rightarrow> Inr (find_limit w r (il_limit_name il))))"

definition check_reference :: "finder \<Rightarrow> pos \<Rightarrow> nat \<Rightarrow> unit dprog" where
  "check_reference look q i = withState (\<lambda>w. case nth_opt (n_in_limits (attr w q)) i of
     None \<Rightarrow> ret ()
   | Some il \<Rightarrow> (case reference_limit look w q il of
       Inl c \<Rightarrow> raise c
     | Inr None \<Rightarrow> raise ''unresolved_reference''
     | Inr (Some r) \<Rightarrow> if il_tokens il > lm_limit (get_limit w r) then raise ''invalid_reference''
         else modify (upd q (set_limit i r))))"

definition check_references :: "finder \<Rightarrow> pos \<Rightarrow> unit dprog" where
  "check_references look q = withState (\<lambda>w. forM [0..<length (n_in_limits (attr w q))] (check_reference look q))"

definition builder_validate_references :: "bool \<Rightarrow> pos \<Rightarrow> unit dprog" where
  "builder_validate_references existing root =
     withState (\<lambda>w. forM (walk (subtree w root) root) (check_references (\<lambda>w. reference w existing root)))"

text \<open>\<open>bind\<close>: both operands of an operator, left first; a variable has to exist at its node.\<close>

type_synonym variables = "world \<Rightarrow> pos \<Rightarrow> string \<Rightarrow> exc + variable option"

definition bind_path :: "finder \<Rightarrow> world \<Rightarrow> pos \<Rightarrow> ast_node_path \<Rightarrow> string + pos" where
  "bind_path look w owner np = (case look w owner (np_node_path np) of
      Inl e \<Rightarrow> Inl ''invalid_field''
    | Inr None \<Rightarrow> Inl ''unresolved_reference''
    | Inr (Some q) \<Rightarrow> Inr q)"

definition bound_to :: "pos \<Rightarrow> pos \<Rightarrow> ast_node_path \<Rightarrow> ast_node_path" where
  "bound_to owner q np = np\<lparr>np_parent_node := Some owner, np_reference_node := Some q\<rparr>"

definition bind_both :: "(ast \<Rightarrow> ast \<Rightarrow> ast) \<Rightarrow> string + ast \<Rightarrow> string + ast \<Rightarrow> string + ast" where
  "bind_both f l r = (case l of Inl c \<Rightarrow> Inl c | Inr l' \<Rightarrow> (case r of Inl c \<Rightarrow> Inl c | Inr r' \<Rightarrow> Inr (f l' r')))"

fun bind :: "finder \<Rightarrow> variables \<Rightarrow> world \<Rightarrow> pos \<Rightarrow> ast \<Rightarrow> string + ast" where
  "bind look var w owner (AstOpEq l r) = bind_both AstOpEq (bind look var w owner l) (bind look var w owner r)"
| "bind look var w owner (AstOpGt l r) = bind_both AstOpGt (bind look var w owner l) (bind look var w owner r)"
| "bind look var w owner (AstOpGe l r) = bind_both AstOpGe (bind look var w owner l) (bind look var w owner r)"
| "bind look var w owner (AstOpLt l r) = bind_both AstOpLt (bind look var w owner l) (bind look var w owner r)"
| "bind look var w owner (AstOpLe l r) = bind_both AstOpLe (bind look var w owner l) (bind look var w owner r)"
| "bind look var w owner (AstOpAnd l r) = bind_both AstOpAnd (bind look var w owner l) (bind look var w owner r)"
| "bind look var w owner (AstOpOr l r) = bind_both AstOpOr (bind look var w owner l) (bind look var w owner r)"
| "bind look var w owner (AstMathAdd l r) = bind_both AstMathAdd (bind look var w owner l) (bind look var w owner r)"
| "bind look var w owner (AstNodePath np) = (case bind_path look w owner np of
      Inl c \<Rightarrow> Inl c | Inr q \<Rightarrow> Inr (AstNodePath (bound_to owner q np)))"
| "bind look var w owner (AstVariablePath np name) = (case bind_path look w owner np of
      Inl c \<Rightarrow> Inl c
    | Inr q \<Rightarrow> (case var w q name of
        Inl e \<Rightarrow> Inl ''invalid_field''
      | Inr None \<Rightarrow> Inl ''unresolved_reference''
      | Inr (Some v) \<Rightarrow> Inr (AstVariablePath (bound_to owner q np) name)))"
| "bind look var w owner (AstInteger n) = Inr (AstInteger n)"
| "bind look var w owner (AstNodeStatus s) = Inr (AstNodeStatus s)"

definition bind_expression :: "parser \<Rightarrow> finder \<Rightarrow> variables \<Rightarrow> world \<Rightarrow> pos \<Rightarrow> expression option \<Rightarrow> string + expression option" where
  "bind_expression parse look var w q ex = (case ex of
      None \<Rightarrow> Inr None
    | Some e \<Rightarrow> (case parse (ex_expression_str e) of
        Inl x \<Rightarrow> Inl ''expression_syntax''
      | Inr a \<Rightarrow> (case bind look var w q a of
          Inl c \<Rightarrow> Inl c
        | Inr a' \<Rightarrow> Inr (Some (e\<lparr>ex_ast := Some a'\<rparr>)))))"

definition bind_node :: "parser \<Rightarrow> finder \<Rightarrow> variables \<Rightarrow> pos \<Rightarrow> unit dprog" where
  "bind_node parse look var q =
     seqM (withState (\<lambda>w. case bind_expression parse look var w q (n_trigger (attr w q)) of
         Inl c \<Rightarrow> raise c | Inr e \<Rightarrow> modify (upd q (\<lambda>a. a\<lparr>n_trigger := e\<rparr>))))
       (withState (\<lambda>w. case bind_expression parse look var w q (n_complete_trigger (attr w q)) of
         Inl c \<Rightarrow> raise c | Inr e \<Rightarrow> modify (upd q (\<lambda>a. a\<lparr>n_complete_trigger := e\<rparr>))))"

definition bind_expressions :: "parser \<Rightarrow> bool \<Rightarrow> pos \<Rightarrow> unit dprog" where
  "bind_expressions parse existing root = withState (\<lambda>w. forM (walk (subtree w root) root)
     (bind_node parse (\<lambda>w. reference w existing root) find_variable))"

section \<open>Building and loading\<close>

type_synonym decoder = "string \<Rightarrow> string + definition_root"

text \<open>
  The root of the candidate, or nothing when the document holds a whole bunch, which no command of the server accepts.
\<close>

definition build_definition :: "decoder \<Rightarrow> parser \<Rightarrow> bool \<Rightarrow> (pos \<Rightarrow> unit dprog) \<Rightarrow> string \<Rightarrow> pos option dprog" where
  "build_definition decode parse existing initialize bytes = withState (\<lambda>w. case decode bytes of
      Inl c \<Rightarrow> raise c
    | Inr doc \<Rightarrow> (case root_error doc of
        Some c \<Rightarrow> raise c
      | None \<Rightarrow> (case doc of
          BunchRoot name ps flows \<Rightarrow> ret None
        | FlowRoot d \<Rightarrow> (case construct d of
            Inl c \<Rightarrow> raise c
          | Inr t \<Rightarrow> (let root = [length (w_shapes w)] in
              seqM (modify (install t)) (seqM (initialize root)
              (seqM (bind_expressions parse existing root) (seqM (builder_validate_references existing root) (ret (Some root))))))))))"

definition mapError :: "('e \<Rightarrow> 'f) \<Rightarrow> ('s, 'e, 'a) prog \<Rightarrow> ('s, 'f, 'a) prog" where
  "mapError f m s = (case m s of (Inl e, s') \<Rightarrow> (Inl (f e), s') | (Inr x, s') \<Rightarrow> (Inr x, s'))"

definition run_command_load :: "decoder \<Rightarrow> parser \<Rightarrow> string \<Rightarrow> string \<Rightarrow> unit wprog" where
  "run_command_load decode parse flow_type bytes =
     (if flow_type \<noteq> ''json'' then raise UnsupportedValueError
      else bindM (mapError (\<lambda>_. InvalidRequestError) (build_definition decode parse True (\<lambda>_. ret ()) bytes)) (\<lambda>r. case r of
          None \<Rightarrow> raise InvalidRequestError
        | Some root \<Rightarrow> withState (\<lambda>w.
            if find_flow w (name_of w root) \<noteq> None then raise FlowStateError
            else seqM (add_flow root) (withState (\<lambda>w. mark (node_path w root) {} True)))))"

section \<open>A candidate touches nothing else\<close>

definition candidate_only :: "nat \<Rightarrow> world \<Rightarrow> world \<Rightarrow> bool" where
  "candidate_only k w w' \<longleftrightarrow> w' = w\<lparr>w_attrs := w_attrs w'\<rparr> \<and> (\<forall>p. p = [] \<or> last p \<noteq> k \<longrightarrow> attr w' p = attr w p)"

interpretation cand: frame "candidate_only k" for k
proof
  show "candidate_only k w w" for w by (simp add: candidate_only_def)
  show "candidate_only k w w2" if "candidate_only k w w1" "candidate_only k w1 w2" for w w1 w2
    using that unfolding candidate_only_def by (metis (no_types, lifting) world.surjective world.update_convs(2))
qed

lemma candidate_upd: "q \<noteq> [] \<Longrightarrow> last q = k \<Longrightarrow> obeys (candidate_only k) (modify (upd q f))"
  by (auto simp: obeys_def prog_defs candidate_only_def upd_def)

lemma walk_candidate: "q \<in> set (walk t [k]) \<Longrightarrow> q \<noteq> [] \<and> last q = k"
  using walk_suffix [of q t "[k]"] by auto

lemma candidate_bind_expressions: "obeys (candidate_only k) (bind_expressions parse existing [k])"
  unfolding bind_expressions_def bind_node_def
  by (intro cand.obeys_withState cand.obeys_forM cand.obeys_seqM cand.obeys_sum cand.obeys_raise candidate_upd)
     (auto dest: walk_candidate)

lemma candidate_validate_references: "obeys (candidate_only k) (builder_validate_references existing [k])"
  unfolding builder_validate_references_def check_references_def check_reference_def
  by (intro cand.obeys_withState cand.obeys_forM cand.obeys_seqM cand.obeys_sum cand.obeys_option cand.obeys_if
      cand.obeys_raise cand.obeys_ret candidate_upd) (auto dest: walk_candidate)

section \<open>What a candidate is bound to\<close>

fun bound :: "ast \<Rightarrow> bool" where
  "bound (AstOpEq l r) = (bound l \<and> bound r)"
| "bound (AstOpGt l r) = (bound l \<and> bound r)"
| "bound (AstOpGe l r) = (bound l \<and> bound r)"
| "bound (AstOpLt l r) = (bound l \<and> bound r)"
| "bound (AstOpLe l r) = (bound l \<and> bound r)"
| "bound (AstOpAnd l r) = (bound l \<and> bound r)"
| "bound (AstOpOr l r) = (bound l \<and> bound r)"
| "bound (AstMathAdd l r) = (bound l \<and> bound r)"
| "bound (AstNodePath np) = (np_reference_node np \<noteq> None)"
| "bound (AstVariablePath np name) = (np_reference_node np \<noteq> None)"
| "bound _ = True"

definition bound_expression :: "expression option \<Rightarrow> bool" where
  "bound_expression ex = (case ex of None \<Rightarrow> True | Some e \<Rightarrow> (case ex_ast e of None \<Rightarrow> False | Some a \<Rightarrow> bound a))"

definition linked :: "node_attrs \<Rightarrow> bool" where
  "linked a \<longleftrightarrow> bound_expression (n_trigger a) \<and> bound_expression (n_complete_trigger a)
     \<and> (\<forall>il \<in> set (n_in_limits a). il_limit il \<noteq> None)"

text \<open>A node without its bindings.\<close>

definition unbound_expression :: "expression \<Rightarrow> expression" where
  "unbound_expression e = e\<lparr>ex_ast := None\<rparr>"

definition unlinked :: "in_limit \<Rightarrow> in_limit" where
  "unlinked i = i\<lparr>il_limit := None\<rparr>"

definition unlinked_node :: "node_attrs \<Rightarrow> node_attrs" where
  "unlinked_node a = a\<lparr>n_trigger := map_option unbound_expression (n_trigger a), n_complete_trigger := map_option unbound_expression (n_complete_trigger a),
     n_in_limits := map unlinked (n_in_limits a)\<rparr>"

lemma bind_both_bound: "bind_both f l r = Inr a \<Longrightarrow> \<exists>l' r'. l = Inr l' \<and> r = Inr r' \<and> a = f l' r'"
  by (auto simp: bind_both_def split: sum.splits)

lemma bind_bound: "bind look var w owner a = Inr a' \<Longrightarrow> bound a'"
  by (induction a arbitrary: a')
     (auto dest!: bind_both_bound simp: bound_to_def split: sum.splits option.splits)

lemma bind_expression_bound: "bind_expression parse look var w q ex = Inr ex' \<Longrightarrow> bound_expression ex'"
  by (auto simp: bind_expression_def bound_expression_def split: option.splits sum.splits dest: bind_bound)

lemma forM_establishes:
  assumes "forM xs f s = (Inr u, s')"
    and est: "\<And>x s s1. f x s = (Inr (), s1) \<Longrightarrow> P x s1" and keep: "\<And>x y s s1. f x s = (Inr (), s1) \<Longrightarrow> P y s \<Longrightarrow> P y s1"
  shows "(\<forall>x \<in> set xs. P x s') \<and> (\<forall>y. P y s \<longrightarrow> P y s')"
  using assms(1)
proof (induction xs arbitrary: s)
  case (Cons x xs)
  from Cons.prems obtain s1 where s1: "f x s = (Inr (), s1)" "forM xs f s1 = (Inr u, s')"
    by (auto elim: seqM_InrE)
  then show ?case using Cons.IH [OF s1(2)] est [OF s1(1)] keep [OF s1(1)] by auto
qed (simp add: ret_def)

definition bound_triggers :: "pos \<Rightarrow> world \<Rightarrow> bool" where
  "bound_triggers q w \<longleftrightarrow> bound_expression (n_trigger (attr w q)) \<and> bound_expression (n_complete_trigger (attr w q))"

lemma bind_node_effect:
  assumes "bind_node parse look var q w = (Inr (), w')"
  shows "bound_triggers q w'" "bound_triggers y w \<Longrightarrow> bound_triggers y w'"
  using assms
  by (auto simp: bind_node_def bound_triggers_def seqM_def bindM_def withState_def modify_def raise_def attr_upd
      split: sum.splits dest: bind_expression_bound)

lemma bind_expressions_effect:
  assumes "bind_expressions parse existing root w = (Inr u, w')"
  shows "\<forall>q \<in> set (walk (subtree w root) root). bound_triggers q w'"
  using assms forM_establishes [where P = bound_triggers and f = "bind_node parse (\<lambda>w. reference w existing root) find_variable"] bind_node_effect
  unfolding bind_expressions_def withState_def by blast

definition resolved :: "pos \<Rightarrow> world \<Rightarrow> bool" where
  "resolved q w \<longleftrightarrow> (\<forall>il \<in> set (n_in_limits (attr w q)). il_limit il \<noteq> None)"

definition resolved_item :: "pos \<Rightarrow> nat \<Rightarrow> world \<Rightarrow> bool" where
  "resolved_item q i w \<longleftrightarrow> (i < length (n_in_limits (attr w q)) \<longrightarrow> il_limit (n_in_limits (attr w q) ! i) \<noteq> None)"

lemma check_reference_effect:
  assumes "check_reference look q i w = (Inr (), w')"
  shows "resolved_item q i w'" "resolved_item y j w \<Longrightarrow> resolved_item y j w'"
    "length (n_in_limits (attr w' y)) = length (n_in_limits (attr w y))"
  using assms
  by (auto simp: check_reference_def resolved_item_def withState_def modify_def raise_def ret_def attr_upd set_limit_def
      nth_opt_conv nth_list_update split: sum.splits option.splits if_splits)

lemma resolved_items: "resolved q w \<longleftrightarrow> (\<forall>i < length (n_in_limits (attr w q)). resolved_item q i w)"
  by (auto simp: resolved_def resolved_item_def all_set_conv_all_nth)

lemma check_references_length:
  "forM is (check_reference look q) w = (Inr u, w') \<Longrightarrow> length (n_in_limits (attr w' y)) = length (n_in_limits (attr w y))"
  by (induction "is" arbitrary: w) (auto simp: ret_def elim!: seqM_InrE dest: check_reference_effect(3))

lemma check_references_effect:
  assumes "check_references look q w = (Inr (), w')"
  shows "resolved q w'" "resolved y w \<Longrightarrow> resolved y w'"
proof -
  have run: "forM [0..<length (n_in_limits (attr w q))] (check_reference look q) w = (Inr (), w')"
    using assms by (simp add: check_references_def withState_def)
  note len = check_references_length [OF run]
  have "(\<forall>i \<in> set [0..<length (n_in_limits (attr w q))]. resolved_item q i w') \<and> (\<forall>i. resolved_item q i w \<longrightarrow> resolved_item q i w')"
    by (rule forM_establishes [where P = "resolved_item q", OF run]) (auto dest: check_reference_effect)
  then show "resolved q w'" by (simp add: resolved_items len)
  have keep: "forM is (check_reference look q) v = (Inr u, w') \<Longrightarrow> resolved_item y i v \<Longrightarrow> resolved_item y i w'" for "is" u v i
  proof (induction "is" arbitrary: v)
    case (Cons a "is")
    from Cons.prems(1) obtain s1 where s1: "check_reference look q a v = (Inr (), s1)"
      "forM is (check_reference look q) s1 = (Inr u, w')" by (auto elim: seqM_InrE)
    show ?case using Cons.IH [OF s1(2)] check_reference_effect(2) [OF s1(1) Cons.prems(2)] by simp
  qed (simp add: ret_def)
  show "resolved y w'" if "resolved y w" using that keep [OF run] by (simp add: resolved_items len)
qed

lemma validate_references_effect:
  assumes "builder_validate_references existing root w = (Inr u, w')"
  shows "\<forall>q \<in> set (walk (subtree w root) root). resolved q w'"
  using assms forM_establishes [where P = resolved and f = "check_references (\<lambda>w. reference w existing root)"]
    check_references_effect
  unfolding builder_validate_references_def withState_def by blast

section \<open>What loading leaves alone\<close>

definition trigger_view :: "world \<Rightarrow> pos \<Rightarrow> expression option \<times> expression option" where
  "trigger_view w = (\<lambda>q. (n_trigger (attr w q), n_complete_trigger (attr w q)))"

definition static_view :: "world \<Rightarrow> pos \<Rightarrow> node_kind \<times> string \<times> flow_data" where
  "static_view w = (\<lambda>q. (n_kind (attr w q), n_name (attr w q), n_flow (attr w q)))"

definition load_view :: "world \<Rightarrow> _" where
  "load_view w = (trigger_view w, \<lambda>q. n_in_limits (attr w q), begun_view w, \<lambda>q. name_of w q)"

interpretation trig: frame "same trigger_view" by (rule frame_same)

interpretation static: frame "same static_view" by (rule frame_same)

interpretation loadv: frame "same load_view" by (rule frame_same)

lemma trigger_validate: "obeys (same trigger_view) (builder_validate_references existing root)"
proof -
  have u: "obeys (same trigger_view) (modify (upd q (set_limit i r)))" for q i r
    by (auto simp: obeys_def same_def prog_defs trigger_view_def attr_upd set_limit_def fun_eq_iff split: option.splits)
  show ?thesis unfolding builder_validate_references_def check_references_def check_reference_def
    by (intro trig.obeys_withState trig.obeys_forM trig.obeys_sum trig.obeys_option trig.obeys_if trig.obeys_raise trig.obeys_ret u)
qed

lemma static_upd:
  assumes "\<And>a. n_kind (f a) = n_kind a \<and> n_name (f a) = n_name a \<and> n_flow (f a) = n_flow a"
  shows "obeys (same static_view) (modify (upd q f))"
  using assms by (auto simp: obeys_def same_def prog_defs static_view_def attr_upd fun_eq_iff)

lemma static_bind: "obeys (same static_view) (bind_expressions parse existing root)"
  unfolding bind_expressions_def bind_node_def
  by (intro static.obeys_withState static.obeys_forM static.obeys_seqM static.obeys_sum static.obeys_raise static_upd) simp_all

lemma static_validate: "obeys (same static_view) (builder_validate_references existing root)"
  unfolding builder_validate_references_def check_references_def check_reference_def
  by (intro static.obeys_withState static.obeys_forM static.obeys_sum static.obeys_option static.obeys_if static.obeys_raise static.obeys_ret
      static_upd) (auto simp: set_limit_def split: option.splits)

text \<open>Registering a flow writes its own tree, the registry, the journal and the supply of identifiers.\<close>

definition registers :: "nat \<Rightarrow> world \<Rightarrow> world \<Rightarrow> bool" where
  "registers k w w' \<longleftrightarrow> w_shapes w' = w_shapes w \<and> w_server_state w' = w_server_state w \<and> w_audit w' = w_audit w
     \<and> (\<forall>p. p = [] \<or> last p \<noteq> k \<longrightarrow> attr w' p = attr w p) \<and> load_view w' = load_view w"

interpretation reg: frame "registers k" for k
  by unfold_locales (auto simp: registers_def)

lemma registers_upd:
  assumes "q \<noteq> []" "last q = k" and "\<And>a. n_trigger (f a) = n_trigger a \<and> n_complete_trigger (f a) = n_complete_trigger a
      \<and> n_in_limits (f a) = n_in_limits a \<and> n_name (f a) = n_name a \<and> begun (n_flow (f a)) = begun (n_flow a)"
  shows "obeys (registers k) (updN q f)"
  using assms
  by (auto simp: obeys_def updN_def prog_defs registers_def load_view_def trigger_view_def begun_view_def attr_upd fun_eq_iff)

lemma load_view_attrs [simp]:
  "load_view (w\<lparr>w_tracker := t\<rparr>) = load_view w" "load_view (w\<lparr>w_uuid_next := n\<rparr>) = load_view w"
  "load_view (w\<lparr>w_flows := fs\<rparr>) = load_view w"
  by (simp_all add: load_view_def trigger_view_def begun_view_def)

lemma registers_notify: "obeys (registers k) (notify_query_change p groups ivd)"
proof -
  have "registers k w (after (notify_query_change p groups ivd w))" for w
    using notify_after [of p groups ivd w] by (auto simp: registers_def)
  then show ?thesis by (simp add: obeys_def)
qed

lemma registers_fresh_uuid: "obeys (registers k) fresh_uuid"
  by (simp add: obeys_def registers_def fresh_uuid_def prog_defs)

lemma registers_generation: "obeys (registers k) (ensure_definition_generation [k] None)"
  unfolding ensure_definition_generation_def option.simps
proof (intro reg.obeys_seqM reg.obeys_withState reg.obeys_whenM reg.obeys_bindM registers_fresh_uuid reg.obeys_forM
    registers_notify registers_upd)
  fix w q
  assume "q \<in> set (pending_children w [k])"
  then have "q \<in> set (walk (subtree w [k]) [k])" using set_pending_children [of "[k]" w] by blast
  then show "q \<noteq> []" "last q = k" using walk_candidate by blast+
qed (simp_all add: upd_flow_def upd_task_def)

lemma add_flow_frame:
  assumes "add_flow [k] w = (r, w')"
  shows "registers k w w'"
proof -
  have m: "obeys (registers k) (mark path groups ivd)" for path groups ivd
    by (auto simp: obeys_def registers_def mark_def prog_defs split: option.splits sum.splits)
  have f: "obeys (registers k) (modify (\<lambda>w. w\<lparr>w_flows := g w\<rparr>))" for g
    by (simp add: obeys_def registers_def prog_defs)
  have "obeys (registers k) (add_flow [k])"
    unfolding add_flow_def
    by (intro reg.obeys_seqM reg.obeys_withState registers_generation m f registers_upd) (simp_all add: upd_flow_def)
  then show ?thesis using assms by (metis obeysD snd_conv)
qed

section \<open>The load command\<close>

lemma shape_at_last: "shape_at ss p = Some s \<Longrightarrow> p \<noteq> [] \<and> last p < length ss"
  by (induction ss p arbitrary: s rule: shape_at.induct) (auto simp: nth_opt_conv split: if_splits option.splits)

lemma valid_last: "valid w p \<Longrightarrow> p \<noteq> [] \<and> last p < length (w_shapes w)"
  by (auto simp: valid_def dest: shape_at_last)

lemma shape_at_append: "p \<noteq> [] \<Longrightarrow> last p < length ss \<Longrightarrow> shape_at (ss @ ts) p = shape_at ss p"
  by (induction ss p rule: shape_at.induct) (auto simp: nth_opt_conv nth_append split: option.splits)

lemma install_old: "p = [] \<or> last p \<noteq> length (w_shapes w) \<Longrightarrow> attr (install t w) p = attr w p"
  by (auto simp: install_def Let_def)

lemma install_root:
  "subtree (install t w) [length (w_shapes w)] = tree_shape t" "attr (install t w) [length (w_shapes w)] = t_attrs t"
  by (simp_all add: install_def Let_def subtree_def nth_opt_conv)

lemma build_candidate:
  assumes "build_definition decode parse existing initialize bytes w = (r, w')"
    and init: "\<And>d. root_error (FlowRoot d) = None \<Longrightarrow> candidate_only (length (w_shapes w)) (install (fresh_tree d) w)
      (after (initialize [length (w_shapes w)] (install (fresh_tree d) w)))"
  shows "(w' = w \<or> (\<exists>t. candidate_only (length (w_shapes w)) (install t w) w'))
    \<and> (\<forall>root. r = Inr (Some root) \<longrightarrow> root = [length (w_shapes w)] \<and> (\<exists>d w0. decode bytes = Inr (FlowRoot d)
        \<and> root_error (FlowRoot d) = None \<and> initialize root (install (fresh_tree d) w) = (Inr (), w0)
        \<and> candidate_only (length (w_shapes w)) (install (fresh_tree d) w) w' \<and> static_view w' = static_view w0
        \<and> (\<forall>q \<in> set (walk (tree_shape (fresh_tree d)) root). linked (attr w' q))))"
proof (cases "\<exists>d. decode bytes = Inr (FlowRoot d) \<and> root_error (FlowRoot d) = None")
  case False
  then show ?thesis using assms(1)
    by (auto simp: build_definition_def withState_def raise_def ret_def split: sum.splits option.splits definition_root.splits)
next
  case True
  then obtain d where d: "decode bytes = Inr (FlowRoot d)" "root_error (FlowRoot d) = None" by blast
  have c: "construct d = Inr (fresh_tree d)"
    using d(2) construct_fresh [of d "{EFlow}"] by simp
  let ?k = "length (w_shapes w)" and ?i = "install (fresh_tree d) w"
  obtain r0 w0 where w0: "initialize [?k] ?i = (r0, w0)" by (rule prod.exhaust)
  obtain r1 w1 where w1: "bind_expressions parse existing [?k] w0 = (r1, w1)" by (rule prod.exhaust)
  obtain r2 w2 where w2: "builder_validate_references existing [?k] w1 = (r2, w2)" by (rule prod.exhaust)
  have run: "(r, w') = (case r0 of Inl c \<Rightarrow> (Inl c, w0) | Inr _ \<Rightarrow> (case r1 of Inl c \<Rightarrow> (Inl c, w1)
      | Inr _ \<Rightarrow> (case r2 of Inl c \<Rightarrow> (Inl c, w2) | Inr _ \<Rightarrow> (Inr (Some [?k]), w2))))"
    using assms(1) w0 w1 w2 d c
    by (simp add: build_definition_def withState_def Let_def seqM_def bindM_def modify_def ret_def del: root_error.simps
        split: sum.splits)
  have k0: "candidate_only ?k ?i w0" using init [OF d(2)] w0 by simp
  have k1: "candidate_only ?k ?i w1"
    using cand.R_trans [OF k0] candidate_bind_expressions [of ?k parse existing] w1 by (metis obeysD snd_conv)
  have k2: "candidate_only ?k w1 w2" using candidate_validate_references [of ?k existing] w2 by (metis obeysD snd_conv)
  note k = k0 k1 cand.R_trans [OF k1 k2]
  have st: "static_view w2 = static_view w0"
    using obeys_same_wp [OF static_bind, of parse existing "[?k]" w0] obeys_same_wp [OF static_validate, of existing "[?k]" w1]
    by (simp add: w1 w2)
  have sub: "subtree v [?k] = tree_shape (fresh_tree d)" if "candidate_only ?k ?i v" for v
    using that install_root(1) [of "fresh_tree d" w] by (simp add: candidate_only_def subtree_def)
      (metis world.select_convs(1) world.surjective world.update_convs(2))
  have tv: "trigger_view w2 = trigger_view w1" using obeys_same_wp [OF trigger_validate, of existing "[?k]" w1] by (simp add: w2)
  have "linked (attr w2 q)" if "r1 = Inr u" "r2 = Inr v" "q \<in> set (walk (tree_shape (fresh_tree d)) [?k])" for u v q
  proof -
    have "bound_triggers q w1" using bind_expressions_effect [of parse existing "[?k]" w0 u w1] w1 that sub [OF k0] by simp
    moreover have "resolved q w2" using validate_references_effect [of existing "[?k]" w1 v w2] w2 that sub [OF k1] by simp
    ultimately show ?thesis using tv by (simp add: linked_def bound_triggers_def resolved_def trigger_view_def fun_eq_iff)
  qed
  then show ?thesis using run k st d w0 by (auto split: sum.splits)
qed

text \<open>What a client of the bunch can see of the world, without what lies in the store outside its trees.\<close>

definition online :: "world \<Rightarrow> world \<Rightarrow> bool" where
  "online w w' \<longleftrightarrow> (\<forall>p. valid w p \<longrightarrow> attr w' p = attr w p \<and> valid w' p \<and> subtree w' p = subtree w p)
     \<and> w_server_state w' = w_server_state w \<and> w_audit w' = w_audit w"

lemma online_install:
  assumes "w_shapes w' = w_shapes w @ [s]" and "\<forall>p. p = [] \<or> last p \<noteq> length (w_shapes w) \<longrightarrow> attr w' p = attr w p"
    and "w_server_state w' = w_server_state w" "w_audit w' = w_audit w"
  shows "online w w'"
  unfolding online_def
proof (intro conjI allI impI assms(3,4))
  fix p assume v: "valid w p"
  have p: "p \<noteq> []" "last p < length (w_shapes w)" using valid_last [OF v] by simp_all
  then show "attr w' p = attr w p" using assms(2) by simp
  show "valid w' p" "subtree w' p = subtree w p"
    using v p shape_at_append [of p "w_shapes w" "[s]"] by (simp_all add: valid_def subtree_def assms(1))
qed

lemma candidate_online: "candidate_only (length (w_shapes w)) (install t w) w' \<Longrightarrow>
    online w w' \<and> w_flows w' = w_flows w \<and> w_tracker w' = w_tracker w \<and> w_shapes w' = w_shapes w @ [tree_shape t]"
proof -
  assume c: "candidate_only (length (w_shapes w)) (install t w) w'"
  then have w': "w' = (install t w)\<lparr>w_attrs := w_attrs w'\<rparr>" by (simp add: candidate_only_def)
  have "w_shapes w' = w_shapes w @ [tree_shape t]" "w_server_state w' = w_server_state w" "w_audit w' = w_audit w"
    "w_flows w' = w_flows w" "w_tracker w' = w_tracker w" by (subst w', simp add: install_def Let_def)+
  moreover have "attr w' p = attr w p" if "p = [] \<or> last p \<noteq> length (w_shapes w)" for p
    using c that install_old [OF that, of t] unfolding candidate_only_def by metis
  ultimately show ?thesis by (auto intro: online_install)
qed

lemma mark_flow_name:
  assumes "\<not> bad_node_name n" "n \<noteq> []"
  shows "\<exists>t. mark (''/'' @ n) {} True w = (Inr (), w\<lparr>w_tracker := t\<rparr>)"
proof -
  have "last n \<noteq> CHR ''/''" using assms last_in_set [of n] by (auto simp: bad_node_name_def list_ex_iff)
  then have "\<not> endswith (''/'' @ n) ''/''" using assms(2) by (cases n rule: rev_cases) (auto simp: endswith_def)
  moreover have "startswith (''/'' @ n) ''/''" by (simp add: startswith_def)
  ultimately show ?thesis
    by (cases "w_tracker w") (auto simp: mark_def prog_defs qc_mark_def split_beta Let_def intro: exI [of _ "w_tracker w"])
qed

lemma forM_total:
  assumes "\<And>x s. x \<in> set xs \<Longrightarrow> I s \<Longrightarrow> \<exists>s1. f x s = (Inr (), s1) \<and> I s1" and "I s"
  shows "\<exists>s1. forM xs f s = (Inr (), s1) \<and> I s1"
  using assms
proof (induction xs arbitrary: s)
  case (Cons x xs)
  obtain s1 where "f x s = (Inr (), s1)" "I s1" using Cons.prems(1) [of x s] Cons.prems(2) by auto
  then show ?case using Cons.IH [of s1] Cons.prems(1) by (auto simp: seqM_def bindM_def)
qed (simp add: ret_def)

lemma seqM_step: "m s = (Inr x, s1) \<Longrightarrow> seqM m n s = n s1"
  by (simp add: seqM_def bindM_def)

lemma notify_detached: "\<not> has_bunch w (get_root p) \<Longrightarrow> notify_query_change p groups ivd w = (Inr (), w)"
  by (simp add: notify_query_change_def withState_def Let_def ret_def)

lemma has_bunch_root: "has_bunch w [k] \<longleftrightarrow> kind_of w [k] = KFlow \<and> in_bunch (n_flow (attr w [k]))"
  by (simp add: has_bunch_def)

lemma root_of_walk: "q \<in> set (walk t [k]) \<Longrightarrow> get_root q = [k]"
  using walk_candidate by (auto simp: get_root_def)

lemma generation_total:
  assumes "\<not> has_bunch w [k]"
  shows "\<exists>w'. ensure_definition_generation [k] None w = (Inr (), w')"
proof -
  let ?I = "\<lambda>w. \<not> has_bunch w [k]"
  let ?first = "withState (\<lambda>w. whenM (flow_generation (n_flow (attr w [k])) = None) (bindM fresh_uuid (\<lambda>u.
      seqM (updN [k] (upd_flow (\<lambda>f. f\<lparr>flow_generation := Some u\<rparr>))) (notify [k] [''runtime'']))))"
  obtain w1 where w1: "?first w = (Inr (), w1)" "?I w1"
  proof (cases "flow_generation (n_flow (attr w [k])) = None")
    case True
    let ?w1 = "upd [k] (upd_flow (\<lambda>f. f\<lparr>flow_generation := Some (w_uuid w (w_uuid_next w))\<rparr>)) (w\<lparr>w_uuid_next := Suc (w_uuid_next w)\<rparr>)"
    have d: "\<not> has_bunch ?w1 [k]" using assms by (simp add: has_bunch_root attr_upd upd_flow_def)
    then have "?first w = (Inr (), ?w1)" using True
      by (simp add: prog_defs fresh_uuid_def updN_def notify_detached get_root_def)
    then show thesis using that d by blast
  next
    case False
    then have "?first w = (Inr (), w)" by (auto simp: withState_def whenM_def ret_def)
    then show thesis using that assms by blast
  qed
  let ?step = "\<lambda>q. withState (\<lambda>w. whenM (is_task w q \<and> (None \<noteq> (None :: pos option) \<or> task_generation (n_task (attr w q)) = None))
      (seqM (updN q (upd_task (\<lambda>t. t\<lparr>task_generation := flow_generation (n_flow (attr w [k]))\<rparr>)))
         (whenM (None = (None :: pos option)) (notify q [''runtime'']))))"
  have "\<exists>w2. ?step q v = (Inr (), w2) \<and> ?I w2" if "q \<in> set (pending_children w1 [k])" "?I v" for q v
  proof -
    have "q \<in> set (walk (subtree w1 [k]) [k])" using that(1) set_pending_children [of "[k]" w1] by blast
    then have "get_root q = [k]" by (rule root_of_walk)
    let ?v = "upd q (upd_task (\<lambda>t. t\<lparr>task_generation := flow_generation (n_flow (attr v [k]))\<rparr>)) v"
    have "\<not> has_bunch ?v [k]" using that(2) by (auto simp: has_bunch_root attr_upd upd_task_def)
    then have "?step q v = (Inr (), ?v) \<or> ?step q v = (Inr (), v)"
      using \<open>get_root q = [k]\<close> by (simp add: prog_defs updN_def notify_detached)
    with \<open>\<not> has_bunch ?v [k]\<close> that(2) show ?thesis by blast
  qed
  from forM_total [of _ ?I ?step, OF this w1(2)] obtain w2 where "forM (pending_children w1 [k]) ?step w1 = (Inr (), w2)" by blast
  then show ?thesis
    unfolding ensure_definition_generation_def option.simps seqM_step [of ?first, OF w1(1)]
    by (subst withState_def) (rule exI)
qed

lemma fresh_root:
  assumes "root_error (FlowRoot d) = None"
  shows "n_kind (t_attrs (fresh_tree d)) = KFlow" "n_flow (t_attrs (fresh_tree d)) = new_flow_data"
    "n_name (t_attrs (fresh_tree d)) = nd_name (nd_fields d)" "nd_name (nd_fields d) \<noteq> []" "\<not> bad_node_name (nd_name (nd_fields d))"
  using assms
  by (cases d; auto simp: fresh_attrs_def new_node_def node_kind_of_def split: option.splits if_splits)+

lemma node_path_root: "\<not> bad_node_name (name_of w [k]) \<Longrightarrow> name_of w [k] \<noteq> [] \<Longrightarrow> node_path w [k] = ''/'' @ name_of w [k]"
  unfolding node_path_def
  by (subst path_str_clean) (auto simp: path_names_def bad_node_name_def clean_name_def list_ex_iff)

lemma registration:
  assumes "\<not> has_bunch w [k]" and "\<not> bad_node_name (name_of w [k])" "name_of w [k] \<noteq> []"
  shows "\<exists>w'. seqM (add_flow [k]) (withState (\<lambda>w. mark (node_path w [k]) {} True)) w = (Inr (), w')
    \<and> (\<forall>n. find_flow w' n = (if n = name_of w [k] then Some [k] else find_flow w n)) \<and> registers k w w'"
proof -
  let ?flow = "\<lambda>w1. upd [k] (upd_flow (\<lambda>f. f\<lparr>in_bunch := True\<rparr>)) (w1\<lparr>w_flows := dict_set (name_of w1 [k]) k (w_flows w1)\<rparr>)"
  obtain w1 where w1: "ensure_definition_generation [k] None w = (Inr (), w1)" using generation_total [OF assms(1)] by blast
  have n1: "name_of w1 [k] = name_of w [k]"
    using skeletonD(3) [OF skeleton_obeys [OF skel.obeys_ensure_definition_generation, of "[k]" None w]] by (simp add: w1)
  obtain t where t: "mark (''/'' @ name_of w1 [k]) {} True (?flow w1) = (Inr (), (?flow w1)\<lparr>w_tracker := t\<rparr>)"
    using mark_flow_name assms(2,3) n1 by metis
  let ?w2 = "(?flow w1)\<lparr>w_tracker := t\<rparr>"
  have add: "add_flow [k] w = (Inr (), ?w2)"
    using w1 t by (simp add: add_flow_def seqM_def bindM_def withState_def modify_def updN_def)
  note eff = add_flow_effect [OF add]
  have n2: "name_of ?w2 [k] = name_of w [k]" by (rule eff(3))
  then have "node_path ?w2 [k] = ''/'' @ name_of w [k]" using node_path_root [of ?w2 k] assms(2,3) by simp
  then obtain t' where t': "mark (node_path ?w2 [k]) {} True ?w2 = (Inr (), ?w2\<lparr>w_tracker := t'\<rparr>)"
    using mark_flow_name assms(2,3) by metis
  have "seqM (add_flow [k]) (withState (\<lambda>w. mark (node_path w [k]) {} True)) w = (Inr (), ?w2\<lparr>w_tracker := t'\<rparr>)"
    using add t' by (simp only: seqM_def bindM_def withState_def prod.case sum.case)
  moreover have "registers k ?w2 (?w2\<lparr>w_tracker := t'\<rparr>)" by (simp add: registers_def)
  ultimately show ?thesis
    using reg.R_trans [OF add_flow_frame [OF add]] eff(1) by (auto simp: find_flow_def)
qed

text \<open>
  C29. Loading is all or nothing. When the command returns, the document was a valid flow whose name was free, the flow is
  registered under its name and under no other, it has not begun, and every trigger and every in-limit of the new tree
  is bound to a node or a limit. When it raises, the registry and the journal are as before. In both cases no node, no subtree and no
  service state that was there has changed.
\<close>

theorem load_all_or_nothing:
  assumes "run_command_load decode parse ty bytes w = (r, w')"
  shows "online w w' \<and> (case r of
      Inl e \<Rightarrow> w_flows w' = w_flows w \<and> w_tracker w' = w_tracker w
        \<and> e \<in> {UnsupportedValueError, InvalidRequestError, FlowStateError}
    | Inr _ \<Rightarrow> (\<exists>d. decode bytes = Inr (FlowRoot d) \<and> root_error (FlowRoot d) = None
        \<and> find_flow w (nd_name (nd_fields d)) = None
        \<and> (\<forall>n. find_flow w' n = (if n = nd_name (nd_fields d) then Some [length (w_shapes w)] else find_flow w n))
        \<and> subtree w' [length (w_shapes w)] = tree_shape (fresh_tree d)
        \<and> \<not> begun (n_flow (attr w' [length (w_shapes w)]))
        \<and> (\<forall>q \<in> set (walk (tree_shape (fresh_tree d)) [length (w_shapes w)]). linked (attr w' q))))"
proof (cases "ty = ''json''")
  case False
  then show ?thesis using assms by (auto simp: run_command_load_def raise_def online_def)
next
  case True
  let ?k = "length (w_shapes w)"
  obtain rb w1 where b: "build_definition decode parse True (\<lambda>_. ret ()) bytes w = (rb, w1)" by (rule prod.exhaust)
  have "candidate_only ?k v (after ((ret () :: unit dprog) v))" for v by (simp add: ret_def cand.R_refl)
  note bc = build_candidate [OF b this]
  have on: "online w w1 \<and> w_flows w1 = w_flows w \<and> w_tracker w1 = w_tracker w"
    using bc candidate_online by (auto simp: online_def)
  have run: "(r, w') = (case rb of Inl c \<Rightarrow> (Inl InvalidRequestError, w1) | Inr None \<Rightarrow> (Inl InvalidRequestError, w1)
      | Inr (Some root) \<Rightarrow> if find_flow w1 (name_of w1 root) \<noteq> None then (Inl FlowStateError, w1)
          else seqM (add_flow root) (withState (\<lambda>w. mark (node_path w root) {} True)) w1)"
    using assms True b unfolding run_command_load_def withState_def [of "\<lambda>w. if _ w then _ w else _ w"]
    by (cases rb rule: sum.exhaust [case_product option.exhaust])
      (auto simp: mapError_def bindM_def [of "mapError _ _"] raise_def split: option.splits)
  show ?thesis
  proof (cases "\<exists>root. rb = Inr (Some root) \<and> find_flow w1 (name_of w1 root) = None")
    case False
    then show ?thesis using run on by (auto split: sum.splits option.splits if_splits)
  next
    case True
    then obtain d where rb: "rb = Inr (Some [?k])" "find_flow w1 (name_of w1 [?k]) = None"
      and d: "decode bytes = Inr (FlowRoot d)" "root_error (FlowRoot d) = None"
        "candidate_only ?k (install (fresh_tree d) w) w1" "static_view w1 = static_view (install (fresh_tree d) w)"
        "\<forall>q \<in> set (walk (tree_shape (fresh_tree d)) [?k]). linked (attr w1 q)"
      using bc unfolding ret_def by blast
    note fr = fresh_root [OF d(2)]
    have st: "kind_of w1 [?k] = KFlow" "name_of w1 [?k] = nd_name (nd_fields d)" "n_flow (attr w1 [?k]) = new_flow_data"
      using d(4) fr(1-3) install_root(2) [of "fresh_tree d" w] by (simp_all add: static_view_def fun_eq_iff)
    have "\<not> has_bunch w1 [?k]" by (simp add: has_bunch_root st new_flow_data_def)
    from registration [OF this] fr(4,5) st(2) rb run obtain
      "r = Inr ()" and fl: "\<forall>n. find_flow w' n = (if n = nd_name (nd_fields d) then Some [?k] else find_flow w1 n)"
      and reg: "registers ?k w1 w'" by auto
    have sh: "w_shapes w' = w_shapes w @ [tree_shape (fresh_tree d)]" "subtree w' [?k] = tree_shape (fresh_tree d)"
      using reg candidate_online [OF d(3)] by (simp_all add: registers_def subtree_def nth_opt_conv)
    have old: "attr w' p = attr w p" if "p = [] \<or> last p \<noteq> ?k" for p
      using reg d(3) install_old [OF that, of "fresh_tree d"] that unfolding registers_def candidate_only_def by metis
    have "online w w'"
      using online_install [OF sh(1)] reg on old by (simp add: registers_def online_def)
    moreover have "load_view w' = load_view w1" using reg by (simp add: registers_def)
    then have "\<not> begun (n_flow (attr w' [?k]))"
      and "linked (attr w' q) = linked (attr w1 q)" for q
      using st(3) by (simp_all add: load_view_def begun_view_def trigger_view_def fun_eq_iff linked_def new_flow_data_def)
    ultimately show ?thesis
      using \<open>r = Inr ()\<close> fl d rb(2) st(2) sh(2) on by (auto simp: find_flow_def simp del: root_error.simps)
  qed
qed

end
