(* ===== verification/Disk.thy ===== *)
theory Disk
  imports Takler_Prelude
begin

text \<open>
  The part of a POSIX file system the checkpoint files rely on. One directory maps names to inodes, so
  that two names can share a file (a hard link), and opening a file to write truncates it under every
  name. A file's bytes are safe once \<open>fsync\<close> returned, a change of the directory once the directory
  was synced. Every system call takes the next item of \<open>d_fates\<close>: it goes through, it fails with an error number,
  or the machine stops there; a \<open>write\<close> that does not go through leaves a prefix. \<open>power_loss\<close> is the disk the next
  process finds: the directory as it was at some moment since it was last synced, and anything in the files
  that were not synced.
\<close>

unbundle bit_operations_syntax

section \<open>State\<close>

datatype errno = EACCES | EPERM | EROFS | ENOSPC | EDQUOT | EIO | ENOENT | EEXIST

datatype os_exc = OSError errno | CheckpointResourceError | CheckpointRestoreError | VersionUnavailable string | OtherError | Stopped

datatype fate = Goes | Fails errno nat | Stops nat

record inode =
  i_bytes :: string
  i_synced :: bool
  i_mode :: int

type_synonym directory = "(string \<times> nat) list"

record disk =
  d_parent :: bool
  d_names :: directory
  d_past :: "directory list"
  d_inodes :: "inode list"
  d_umask :: int
  d_fates :: "fate list"

type_synonym ('z, 'a) fprog = "('z disk_scheme, os_exc, 'a) prog"

abbreviation inode_of :: "'z disk_scheme \<Rightarrow> string \<Rightarrow> nat option" where
  "inode_of s q \<equiv> map_of (d_names s) q"

abbreviation dirs :: "'z disk_scheme \<Rightarrow> directory list" where
  "dirs s \<equiv> d_names s # d_past s"

definition nlink :: "nat \<Rightarrow> 'z disk_scheme \<Rightarrow> nat" where
  "nlink i s = length (filter (\<lambda>e. snd e = i) (d_names s))"

definition set_names :: "directory \<Rightarrow> 'z disk_scheme \<Rightarrow> 'z disk_scheme" where
  "set_names d s = s\<lparr>d_names := d, d_past := d_names s # d_past s\<rparr>"

definition set_inode :: "nat \<Rightarrow> (inode \<Rightarrow> inode) \<Rightarrow> 'z disk_scheme \<Rightarrow> 'z disk_scheme" where
  "set_inode i f s = s\<lparr>d_inodes := (d_inodes s)[i := f (d_inodes s ! i)]\<rparr>"

section \<open>System calls\<close>

definition call :: "(nat \<Rightarrow> 'z disk_scheme \<Rightarrow> 'z disk_scheme) \<Rightarrow> ('z, 'a) fprog \<Rightarrow> ('z, 'a) fprog" where
  "call torn act s = (case d_fates s of
      [] \<Rightarrow> act s
    | Goes # fs \<Rightarrow> act (s\<lparr>d_fates := fs\<rparr>)
    | Fails e n # fs \<Rightarrow> (Inl (OSError e), torn n (s\<lparr>d_fates := fs\<rparr>))
    | Stops n # fs \<Rightarrow> (Inl Stopped, torn n (s\<lparr>d_fates := fs\<rparr>)))"

abbreviation whole :: "('z, 'a) fprog \<Rightarrow> ('z, 'a) fprog" where
  "whole \<equiv> call (\<lambda>_ s. s)"

text \<open>\<open>try m except Exception as e: h e\<close>. A machine that stopped runs no handler.\<close>

definition exceptM :: "('z, 'a) fprog \<Rightarrow> (os_exc \<Rightarrow> ('z, 'a) fprog) \<Rightarrow> ('z, 'a) fprog" where
  "exceptM m h s = (case m s of
      (Inr x, s') \<Rightarrow> (Inr x, s')
    | (Inl e, s') \<Rightarrow> if e = Stopped then (Inl e, s') else h e s')"

definition dir_exists :: "('z, bool) fprog" where
  "dir_exists = whole (gets d_parent)"

definition mkdir :: "('z, unit) fprog" where
  "mkdir = whole (modify (\<lambda>s. s\<lparr>d_parent := True\<rparr>))"

definition path_exists :: "string \<Rightarrow> ('z, bool) fprog" where
  "path_exists q = whole (gets (\<lambda>s. inode_of s q \<noteq> None))"

text \<open>\<open>os.open\<close> for reading yields the file; \<open>lstat\<close> yields its mode and its link count. The model has regular files only.\<close>

definition open_read :: "string \<Rightarrow> ('z, nat) fprog" where
  "open_read q = whole (liftE (\<lambda>s. case inode_of s q of None \<Rightarrow> Inl (OSError ENOENT) | Some i \<Rightarrow> Inr i))"

definition lstat :: "string \<Rightarrow> ('z, int \<times> nat) fprog" where
  "lstat q = whole (liftE (\<lambda>s. case inode_of s q of
      None \<Rightarrow> Inl (OSError ENOENT) | Some i \<Rightarrow> Inr (i_mode (d_inodes s ! i), nlink i s)))"

text \<open>\<open>open(path, O_WRONLY | O_CREAT, mode)\<close>: a new file is empty and takes the mode less the umask. With \<open>O_EXCL\<close> an
  existing name is an error, with \<open>O_TRUNC\<close> its file is emptied in place.\<close>

definition add_inode :: "string \<Rightarrow> int \<Rightarrow> 'z disk_scheme \<Rightarrow> 'z disk_scheme" where
  "add_inode q mode s = set_names (AList.update q (length (d_inodes s)) (d_names s))
     (s\<lparr>d_inodes := d_inodes s @ [\<lparr>i_bytes = [], i_synced = False, i_mode = mode AND NOT (d_umask s)\<rparr>]\<rparr>)"

definition open_create :: "bool \<Rightarrow> string \<Rightarrow> int \<Rightarrow> ('z, nat) fprog" where
  "open_create excl q mode = whole (\<lambda>s.
     if \<not> d_parent s then (Inl (OSError ENOENT), s)
     else case inode_of s q of
        None \<Rightarrow> (Inr (length (d_inodes s)), add_inode q mode s)
      | Some i \<Rightarrow> if excl then (Inl (OSError EEXIST), s)
          else (Inr i, set_inode i (\<lambda>n. n\<lparr>i_bytes := [], i_synced := False\<rparr>) s))"

definition fchmod :: "nat \<Rightarrow> int \<Rightarrow> ('z, unit) fprog" where
  "fchmod i mode = whole (modify (set_inode i (\<lambda>n. n\<lparr>i_mode := mode\<rparr>)))"

definition append_bytes :: "nat \<Rightarrow> string \<Rightarrow> 'z disk_scheme \<Rightarrow> 'z disk_scheme" where
  "append_bytes i bs = set_inode i (\<lambda>n. n\<lparr>i_bytes := i_bytes n @ bs, i_synced := False\<rparr>)"

definition write_file :: "nat \<Rightarrow> string \<Rightarrow> ('z, unit) fprog" where
  "write_file i bs = call (\<lambda>n. append_bytes i (take n bs)) (modify (append_bytes i bs))"

definition read_file :: "nat \<Rightarrow> ('z, string) fprog" where
  "read_file i = whole (gets (\<lambda>s. i_bytes (d_inodes s ! i)))"

definition fsync :: "nat \<Rightarrow> ('z, unit) fprog" where
  "fsync i = whole (modify (set_inode i (\<lambda>n. n\<lparr>i_synced := True\<rparr>)))"

text \<open>\<open>os.link\<close> fails on an existing name. \<open>os.replace\<close> does nothing when both names are the same file.\<close>

definition link :: "string \<Rightarrow> string \<Rightarrow> ('z, unit) fprog" where
  "link q r = whole (\<lambda>s. case inode_of s q of
      None \<Rightarrow> (Inl (OSError ENOENT), s)
    | Some i \<Rightarrow> if inode_of s r \<noteq> None then (Inl (OSError EEXIST), s)
        else (Inr (), set_names (AList.update r i (d_names s)) s))"

definition replace :: "string \<Rightarrow> string \<Rightarrow> ('z, unit) fprog" where
  "replace q r = whole (\<lambda>s. case inode_of s q of
      None \<Rightarrow> (Inl (OSError ENOENT), s)
    | Some i \<Rightarrow> if inode_of s r = Some i then (Inr (), s)
        else (Inr (), set_names (AList.update r i (AList.delete q (d_names s))) s))"

text \<open>\<open>path.unlink(missing_ok=True)\<close>\<close>

definition unlink :: "string \<Rightarrow> ('z, unit) fprog" where
  "unlink q = whole (\<lambda>s. if inode_of s q = None then (Inr (), s)
     else (Inr (), set_names (AList.delete q (d_names s)) s))"

definition open_dir :: "('z, unit) fprog" where
  "open_dir = whole (liftE (\<lambda>s. if d_parent s then Inr () else Inl (OSError ENOENT)))"

definition fsync_dir :: "('z, unit) fprog" where
  "fsync_dir = whole (modify (\<lambda>s. s\<lparr>d_past := []\<rparr>))"

section \<open>What a new process finds\<close>

definition power_loss :: "nat \<Rightarrow> (nat \<Rightarrow> string) \<Rightarrow> 'z disk_scheme \<Rightarrow> 'z disk_scheme" where
  "power_loss n junk s = s\<lparr>
     d_names := dirs s ! (n mod length (dirs s)), d_past := [],
     d_inodes := map (\<lambda>(i, f). if i_synced f then f else f\<lparr>i_bytes := junk i\<rparr>) (enumerate 0 (d_inodes s)),
     d_fates := []\<rparr>"

section \<open>What the calls leave alone\<close>

text \<open>A frame of the file system does not look at the fates still to come. It is kept by a call as soon as it is kept by the
  effect of the call, whole or torn.\<close>

locale disk_frame = frame R for R :: "'z disk_scheme \<Rightarrow> 'z disk_scheme \<Rightarrow> bool" +
  assumes R_fates: "R s (s\<lparr>d_fates := fs\<rparr>)"
begin

lemma obeys_call:
  assumes "obeys R act" and "\<And>n s. R s (torn n s)"
  shows "obeys R (call torn act)"
  unfolding obeys_def
proof
  fix s
  have "R s (after (act (s\<lparr>d_fates := fs\<rparr>)))" "R s (torn n (s\<lparr>d_fates := fs\<rparr>))" for fs n
    using R_trans [OF R_fates] obeysD [OF assms(1)] assms(2) by blast+
  then show "R s (after (call torn act s))"
    using obeysD [OF assms(1)] by (simp add: call_def split: list.splits fate.splits)
qed

lemma obeys_whole: "obeys R act \<Longrightarrow> obeys R (whole act)"
  by (rule obeys_call) (simp_all add: R_refl)

lemma obeys_exceptM:
  assumes "obeys R m" and "\<And>e. obeys R (h e)"
  shows "obeys R (exceptM m h)"
  unfolding obeys_def
proof
  fix s
  have "R s (after (m s))" and "\<And>e. R (after (m s)) (after (h e (after (m s))))"
    using assms by (simp_all add: obeys_def)
  then show "R s (after (exceptM m h s))"
    by (cases "m s"; cases "fst (m s)") (auto simp: exceptM_def intro: R_trans)
qed

lemmas disk_intros = obeys_ret obeys_bindM obeys_seqM obeys_exceptM obeys_prod obeys_if obeys_whenM

end

text \<open>The files a name may stand for after a power loss.\<close>

definition candidates :: "string \<Rightarrow> 'z disk_scheme \<Rightarrow> nat option set" where
  "candidates q s = (\<lambda>d. map_of d q) ` set (dirs s)"

definition keeps_name :: "string \<Rightarrow> 'z disk_scheme \<Rightarrow> 'z disk_scheme \<Rightarrow> bool" where
  "keeps_name q s t \<longleftrightarrow> inode_of t q = inode_of s q \<and> candidates q t \<subseteq> candidates q s"

definition keeps_inode :: "nat \<Rightarrow> 'z disk_scheme \<Rightarrow> 'z disk_scheme \<Rightarrow> bool" where
  "keeps_inode i s t \<longleftrightarrow> (i < length (d_inodes s) \<longrightarrow> i < length (d_inodes t) \<and> d_inodes t ! i = d_inodes s ! i)"

interpretation nm: disk_frame "keeps_name q" for q
proof unfold_locales
  show "keeps_name q s s" for s :: "'z disk_scheme" by (simp add: keeps_name_def)
  show "keeps_name q s u" if "keeps_name q s t" and "keeps_name q t u" for s t u :: "'z disk_scheme"
    using that by (simp add: keeps_name_def) blast
  show "keeps_name q s (s\<lparr>d_fates := fs\<rparr>)" for s :: "'z disk_scheme" and fs
    by (simp add: keeps_name_def candidates_def)
qed

interpretation fl: disk_frame "same d_inodes"
  by unfold_locales (auto simp: same_def)

interpretation nd: disk_frame "keeps_inode i" for i
  by unfold_locales (auto simp: keeps_inode_def)

lemma inode_of_candidate: "inode_of s q \<in> candidates q s"
  by (simp add: candidates_def)

lemma set_names_sel [simp]: "d_names (set_names d s) = d" "d_past (set_names d s) = d_names s # d_past s"
  "d_inodes (set_names d s) = d_inodes s" "d_parent (set_names d s) = d_parent s"
  by (simp_all add: set_names_def)

lemma set_inode_sel [simp]: "d_names (set_inode i f s) = d_names s" "d_past (set_inode i f s) = d_past s"
  "d_inodes (set_inode i f s) = (d_inodes s)[i := f (d_inodes s ! i)]" "d_parent (set_inode i f s) = d_parent s"
  by (simp_all add: set_inode_def)

lemma keeps_name_set_names:
  "map_of d q = inode_of s q \<Longrightarrow> keeps_name q s (set_names d s)"
  by (auto simp: keeps_name_def candidates_def)

lemma keeps_name_same: "d_names t = d_names s \<Longrightarrow> d_past t = d_past s \<Longrightarrow> keeps_name q s t"
  by (simp add: keeps_name_def candidates_def)

lemma candidates_set_names: "candidates q (set_names d s) = insert (map_of d q) (candidates q s)"
  by (auto simp: candidates_def)

lemmas call_defs = dir_exists_def mkdir_def path_exists_def open_read_def lstat_def open_create_def fchmod_def
  write_file_def read_file_def fsync_def link_def replace_def unlink_def open_dir_def fsync_dir_def append_bytes_def

named_theorems keeps "frames of the system calls"

lemma keeps_name_calls [keeps]:
  "obeys (keeps_name q) dir_exists" "obeys (keeps_name q) mkdir" "obeys (keeps_name q) (path_exists r)"
  "obeys (keeps_name q) (open_read r)" "obeys (keeps_name q) (lstat r)" "obeys (keeps_name q) (fchmod i m)"
  "obeys (keeps_name q) (write_file i bs)" "obeys (keeps_name q) (read_file i)" "obeys (keeps_name q) (fsync i)"
  "obeys (keeps_name q) open_dir" "obeys (keeps_name q) fsync_dir"
  by (auto simp: obeys_def call_def call_defs prog_defs keeps_name_def candidates_def split: list.splits fate.splits)

lemma keeps_name_other [keeps]:
  assumes "q \<noteq> r"
  shows "obeys (keeps_name q) (open_create excl r m)" "obeys (keeps_name q) (link p r)" "obeys (keeps_name q) (unlink r)"
    and "q \<noteq> p \<Longrightarrow> obeys (keeps_name q) (replace p r)"
  using assms
  by (auto simp: obeys_def call_def call_defs update_conv' delete_conv add_inode_def keeps_name_def candidates_def
      split: option.splits list.splits fate.splits)

lemma keeps_files_calls [keeps]:
  "obeys (same d_inodes) dir_exists" "obeys (same d_inodes) mkdir" "obeys (same d_inodes) (path_exists r)"
  "obeys (same d_inodes) (open_read r)" "obeys (same d_inodes) (lstat r)" "obeys (same d_inodes) (read_file i)"
  "obeys (same d_inodes) open_dir" "obeys (same d_inodes) fsync_dir" "obeys (same d_inodes) (link p r)"
  "obeys (same d_inodes) (unlink r)" "obeys (same d_inodes) (replace p r)"
  by (auto simp: obeys_def call_def call_defs prog_defs same_def split: option.splits list.splits fate.splits)

lemma same_keeps_inode: "obeys (same d_inodes) m \<Longrightarrow> obeys (keeps_inode i) m"
  by (simp add: obeys_def same_def keeps_inode_def)

lemma keeps_inode_calls [keeps]:
  "i \<noteq> j \<Longrightarrow> obeys (keeps_inode i) (fchmod j m)" "i \<noteq> j \<Longrightarrow> obeys (keeps_inode i) (write_file j bs)"
  "i \<noteq> j \<Longrightarrow> obeys (keeps_inode i) (fsync j)"
  by (auto simp: obeys_def call_def call_defs prog_defs keeps_inode_def split: list.splits fate.splits)

text \<open>The rest of a state that holds a disk is never touched.\<close>

interpretation mo: disk_frame "same disk.more"
  by unfold_locales (auto simp: same_def)

lemma keeps_more_calls [keeps]:
  "obeys (same disk.more) dir_exists" "obeys (same disk.more) mkdir" "obeys (same disk.more) (path_exists r)"
  "obeys (same disk.more) (open_read r)" "obeys (same disk.more) (lstat r)" "obeys (same disk.more) (read_file i)"
  "obeys (same disk.more) open_dir" "obeys (same disk.more) fsync_dir" "obeys (same disk.more) (link p r)"
  "obeys (same disk.more) (unlink r)" "obeys (same disk.more) (replace p r)" "obeys (same disk.more) (open_create excl r m)"
  "obeys (same disk.more) (fchmod i m)" "obeys (same disk.more) (write_file i bs)" "obeys (same disk.more) (fsync i)"
  by (auto simp: obeys_def call_def call_defs prog_defs same_def add_inode_def set_names_def set_inode_def
      split: option.splits list.splits fate.splits)

section \<open>Weakest preconditions of the calls\<close>

lemma wp_callI:
  assumes "\<And>fs. wp act Q (s\<lparr>d_fates := fs\<rparr>)" and "\<And>fs e n. Q (Inl e) (torn n (s\<lparr>d_fates := fs\<rparr>))"
  shows "wp (call torn act) Q s"
proof -
  have "s\<lparr>d_fates := d_fates s\<rparr> = s" by simp
  then have "wp act Q s" using assms(1) [of "d_fates s"] by simp
  then show ?thesis using assms by (simp add: wp_def call_def split: list.splits fate.splits)
qed

lemma wp_bindI:
  assumes "wp m (\<lambda>r t. case r of Inl e \<Rightarrow> Q (Inl e) t | Inr x \<Rightarrow> P x t) s" and "\<And>x t. P x t \<Longrightarrow> wp (f x) Q t"
  shows "wp (bindM m f) Q s"
  using assms by (auto simp: wp_def bindM_def split: prod.splits sum.splits)

lemma wp_seqI:
  assumes "wp m (\<lambda>r t. case r of Inl e \<Rightarrow> Q (Inl e) t | Inr x \<Rightarrow> P t) s" and "\<And>t. P t \<Longrightarrow> wp n Q t"
  shows "wp (seqM m n) Q s"
  unfolding seqM_def by (rule wp_bindI [OF assms])

lemma wp_exceptM:
  "wp (exceptM m h) Q s = wp m (\<lambda>r s'. case r of
      Inr x \<Rightarrow> Q (Inr x) s' | Inl e \<Rightarrow> if e = Stopped then Q (Inl e) s' else wp (h e) Q s') s"
  by (simp add: wp_def exceptM_def split: prod.splits sum.splits)

section \<open>What survives a power loss\<close>

definition contents :: "'z disk_scheme \<Rightarrow> string \<Rightarrow> string option" where
  "contents s q = map_option (\<lambda>i. i_bytes (d_inodes s ! i)) (inode_of s q)"

text \<open>\<open>settles q C s\<close>: whenever the power fails, the next process finds one of \<open>C\<close> under the name \<open>q\<close>.\<close>

definition durable :: "'z disk_scheme \<Rightarrow> nat \<Rightarrow> bool" where
  "durable s i \<longleftrightarrow> i < length (d_inodes s) \<and> i_synced (d_inodes s ! i)"

definition settles :: "string \<Rightarrow> string option set \<Rightarrow> 'z disk_scheme \<Rightarrow> bool" where
  "settles q C s \<longleftrightarrow> (\<forall>c \<in> candidates q s. (\<forall>i. c = Some i \<longrightarrow> durable s i)
     \<and> map_option (\<lambda>i. i_bytes (d_inodes s ! i)) c \<in> C)"

lemma power_loss_inode:
  assumes "durable s i"
  shows "i_bytes (d_inodes (power_loss n junk s) ! i) = i_bytes (d_inodes s ! i)"
  using assms by (simp add: power_loss_def durable_def nth_enumerate_eq)

lemma power_loss_candidate: "inode_of (power_loss n junk s) q \<in> candidates q s"
proof -
  have "dirs s ! (n mod length (dirs s)) \<in> set (dirs s)" by (rule nth_mem) simp
  then show ?thesis by (simp add: power_loss_def candidates_def del: set_simps)
qed

lemma settles_power_loss:
  assumes "settles q C s"
  shows "contents (power_loss n junk s) q \<in> C"
proof -
  let ?c = "inode_of (power_loss n junk s) q"
  have "(\<forall>i. ?c = Some i \<longrightarrow> durable s i) \<and> map_option (\<lambda>i. i_bytes (d_inodes s ! i)) ?c \<in> C"
    using assms power_loss_candidate [of n junk s q] by (simp add: settles_def)
  then show ?thesis by (cases ?c) (simp_all add: contents_def power_loss_inode)
qed

lemma settles_contents: "settles q C s \<Longrightarrow> contents s q \<in> C"
  using inode_of_candidate [of s q] by (auto simp: settles_def contents_def)

lemma settles_mono: "settles q C s \<Longrightarrow> C \<subseteq> D \<Longrightarrow> settles q D s"
  by (auto simp: settles_def)

text \<open>A file that is safe is not written again.\<close>

definition grows :: "'z disk_scheme \<Rightarrow> 'z disk_scheme \<Rightarrow> bool" where
  "grows s t \<longleftrightarrow> (\<forall>i. durable s i \<longrightarrow> durable t i \<and> d_inodes t ! i = d_inodes s ! i)"

interpretation gr: disk_frame grows
  by unfold_locales (auto simp: grows_def durable_def)

lemma same_grows: "obeys (same d_inodes) m \<Longrightarrow> obeys grows m"
  by (simp add: obeys_def same_def grows_def durable_def)

lemma settles_grows: "settles q C s \<Longrightarrow> keeps_name q s t \<Longrightarrow> grows s t \<Longrightarrow> settles q C t"
  unfolding settles_def keeps_name_def
proof (intro ballI)
  fix c
  assume s: "\<forall>c \<in> candidates q s. (\<forall>i. c = Some i \<longrightarrow> durable s i) \<and> map_option (\<lambda>i. i_bytes (d_inodes s ! i)) c \<in> C"
    and "inode_of t q = inode_of s q \<and> candidates q t \<subseteq> candidates q s" and g: "grows s t" and "c \<in> candidates q t"
  then have c: "(\<forall>i. c = Some i \<longrightarrow> durable s i) \<and> map_option (\<lambda>i. i_bytes (d_inodes s ! i)) c \<in> C" by blast
  show "(\<forall>i. c = Some i \<longrightarrow> durable t i) \<and> map_option (\<lambda>i. i_bytes (d_inodes t ! i)) c \<in> C"
  proof (cases c)
    case (Some i)
    with c g have "durable t i" "d_inodes t ! i = d_inodes s ! i" by (simp_all add: grows_def)
    with Some c show ?thesis by simp
  qed (use c in simp)
qed

end
