(* ===== verification/Checkpoint_Files.thy ===== *)
theory Checkpoint_Files
  imports Disk Bunch_Ops Py_Json
begin

text \<open>
  The writing half of \<^verbatim>\<open>server/checkpoint.py\<close>: a snapshot is prepared in a temporary file and rotated into place, the
  former snapshot becomes the backup. \<open>manager\<close> is \<open>CheckpointManager.__init__\<close> together with the disk it writes to, the
  process id and the world whose service state it reports to. The text of a snapshot is an argument.
\<close>

section \<open>Constants and paths\<close>

definition MAX_BACKGROUND_WRITES :: nat where "MAX_BACKGROUND_WRITES = 3"

definition MAX_BACKGROUND_BYTES :: int where "MAX_BACKGROUND_BYTES = 1536 * 1024 * 1024"

definition MAX_CHECKPOINT_OUTPUT_BYTES :: nat where "MAX_CHECKPOINT_OUTPUT_BYTES = 768 * 1024 * 1024"

definition CHECKPOINT_FILE_MODE :: int where "CHECKPOINT_FILE_MODE = 384"

definition BACKUP_SUFFIX :: string where "BACKUP_SUFFIX = ''.b''"

definition TEMP_SUFFIX :: string where "TEMP_SUFFIX = ''.tmp''"

record restore_summary =
  rs_primary :: bool
  rs_saved_at :: string
  rs_flow_count :: nat
  rs_node_count :: nat
  rs_in_flight_count :: nat
  rs_snapshot_status :: string
  rs_snapshot_status_reason :: "string option"
  rs_effective :: server_state

record manager = disk +
  m_checkpoint_file :: string
  m_pid :: string
  m_next_sequence :: nat
  m_last_attempted_sequence :: nat
  m_last_attempt_succeeded :: bool
  m_can_link_backup :: bool
  m_last_outcome_sequence :: nat
  m_last_success_sequence :: nat
  m_write_error_kind :: "string option"
  m_newer_failed_sequence :: nat
  m_last_checkpoint_at :: "string option"
  m_restore_summary :: "restore_summary option"
  m_checkpoint_failure_reason :: "string option"
  m_background_writes :: "nat list"
  m_background_reserved :: int
  m_stopping :: bool
  m_has_scheduler :: bool
  m_query_revision :: int
  m_flushes :: nat
  m_world :: world

type_synonym 'a mprog = "(manager, os_exc, 'a) prog"

definition backup_file :: "string \<Rightarrow> string" where
  "backup_file file = file @ BACKUP_SUFFIX"

definition temp_path :: "string \<Rightarrow> string \<Rightarrow> string" where
  "temp_path pid path = path @ TEMP_SUFFIX @ ''.'' @ pid"

definition prepared_path :: "string \<Rightarrow> string \<Rightarrow> string \<Rightarrow> string \<Rightarrow> string" where
  "prepared_path file pid seq hex = file @ TEMP_SUFFIX @ ''.'' @ pid @ ''.'' @ seq @ ''.'' @ hex"

definition write_failure_category :: "os_exc \<Rightarrow> string" where
  "write_failure_category e = (case e of
      CheckpointResourceError \<Rightarrow> ''resource exhausted''
    | VersionUnavailable r \<Rightarrow> if r \<in> {''version_memory_limit'', ''field_too_large''} then ''resource exhausted''
        else ''snapshot validation error''
    | OSError n \<Rightarrow> if n \<in> {EACCES, EPERM, EROFS} then ''permission denied''
        else if n \<in> {ENOSPC, EDQUOT} then ''storage full'' else ''storage I/O error''
    | _ \<Rightarrow> ''snapshot validation error'')"

section \<open>File operations\<close>

definition ensure_parent_directory :: "('z, unit) fprog" where
  "ensure_parent_directory = bindM dir_exists (\<lambda>there. whenM (\<not> there) mkdir)"

definition open_restricted :: "string \<Rightarrow> ('z, nat) fprog" where
  "open_restricted path = bindM (open_create False path CHECKPOINT_FILE_MODE) (\<lambda>fd.
     seqM (fchmod fd CHECKPOINT_FILE_MODE) (ret fd))"

definition write_temp_file :: "string \<Rightarrow> string \<Rightarrow> ('z, unit) fprog" where
  "write_temp_file path payload = bindM (open_restricted path) (\<lambda>f. seqM (write_file f payload) (fsync f))"

definition copy_bytes :: "string \<Rightarrow> string \<Rightarrow> ('z, unit) fprog" where
  "copy_bytes file backup_temp =
     bindM (open_read file) (\<lambda>source. bindM (open_restricted backup_temp) (\<lambda>target.
       bindM (read_file source) (\<lambda>bs. seqM (write_file target bs) (fsync target))))"

definition link_backup :: "string \<Rightarrow> string \<Rightarrow> ('z, bool) fprog" where
  "link_backup file backup_temp = exceptM
     (bindM (lstat file) (\<lambda>(mode, links). if mode = CHECKPOINT_FILE_MODE \<and> links = 1
        then seqM (link file backup_temp) (ret True) else ret False))
     (\<lambda>e. case e of OSError _ \<Rightarrow> ret False | _ \<Rightarrow> raise e)"

definition copy_to_backup_temp :: "string \<Rightarrow> string \<Rightarrow> bool \<Rightarrow> ('z, unit) fprog" where
  "copy_to_backup_temp file backup_temp can_link_backup = bindM (path_exists file) (\<lambda>there.
     if \<not> there then ret ()
     else bindM (if can_link_backup then link_backup file backup_temp else ret False) (\<lambda>linked.
       if linked then ret () else copy_bytes file backup_temp))"

definition replace_backup :: "string \<Rightarrow> string \<Rightarrow> ('z, unit) fprog" where
  "replace_backup file backup_temp = bindM (path_exists backup_temp) (\<lambda>there.
     whenM there (replace backup_temp (backup_file file)))"

definition replace_checkpoint :: "string \<Rightarrow> string \<Rightarrow> ('z, unit) fprog" where
  "replace_checkpoint file main_temp = replace main_temp file"

definition cleanup_temp_files :: "string list \<Rightarrow> ('z, unit) fprog" where
  "cleanup_temp_files paths = forM paths (\<lambda>path. exceptM (unlink path)
     (\<lambda>e. case e of OSError _ \<Rightarrow> ret () | _ \<Rightarrow> raise e))"

section \<open>Writing a payload in steps\<close>

definition write_steps :: "string \<Rightarrow> string \<Rightarrow> string \<Rightarrow> string \<Rightarrow> bool \<Rightarrow> (string \<times> ('z, unit) fprog) list" where
  "write_steps file payload main_temp backup_temp can_link =
     [(''ensure_parent_directory'', ensure_parent_directory),
      (''write_temp_file'', write_temp_file main_temp payload),
      (''copy_to_backup_temp'', copy_to_backup_temp file backup_temp can_link),
      (''replace_backup'', replace_backup file backup_temp),
      (''replace_checkpoint'', replace_checkpoint file main_temp)]"

definition set_write_error_kind :: "string option \<Rightarrow> unit mprog" where
  "set_write_error_kind k = modify (\<lambda>m. m\<lparr>m_write_error_kind := k\<rparr>)"

primrec run_write_steps :: "string list \<Rightarrow> (string \<times> unit mprog) list \<Rightarrow> bool mprog" where
  "run_write_steps temps [] = ret True"
| "run_write_steps temps (step # steps) = bindM
     (exceptM (seqM (snd step) (ret True))
       (\<lambda>e. seqM (set_write_error_kind (Some (write_failure_category e))) (seqM (cleanup_temp_files temps) (ret False))))
     (\<lambda>ok. if ok then run_write_steps temps steps else ret False)"

definition write_payload :: "string \<Rightarrow> bool mprog" where
  "write_payload payload = withState (\<lambda>m.
     let file = m_checkpoint_file m;
         main_temp = temp_path (m_pid m) file;
         backup_temp = temp_path (m_pid m) (backup_file file) in
     run_write_steps [main_temp, backup_temp] (write_steps file payload main_temp backup_temp (m_can_link_backup m)))"

section \<open>Publication in order\<close>

text \<open>The guard both publishers start with: a newer view was attempted, or failed before it could be.\<close>

definition superseded :: "nat \<Rightarrow> manager \<Rightarrow> (bool \<times> bool \<times> string option) option" where
  "superseded sequence m =
     (if sequence \<le> m_newer_failed_sequence m \<and> m_last_attempted_sequence m < m_newer_failed_sequence m
      then Some (False, False, None)
      else if sequence \<le> m_last_attempted_sequence m then Some (m_last_attempt_succeeded m, False, None)
      else None)"

definition begin_attempt :: "nat \<Rightarrow> unit mprog" where
  "begin_attempt sequence = modify (\<lambda>m. m\<lparr>m_last_attempted_sequence := sequence, m_write_error_kind := None\<rparr>)"

definition set_attempt_succeeded :: "bool \<Rightarrow> unit mprog" where
  "set_attempt_succeeded ok = modify (\<lambda>m. m\<lparr>m_last_attempt_succeeded := ok\<rparr>)"

definition publish_captured :: "nat \<Rightarrow> string \<Rightarrow> (bool \<times> bool \<times> string option) mprog" where
  "publish_captured sequence payload = withState (\<lambda>m. case superseded sequence m of
      Some result \<Rightarrow> ret result
    | None \<Rightarrow> seqM (begin_attempt sequence)
       (bindM (exceptM (write_payload payload)
           (\<lambda>e. seqM (set_write_error_kind (Some (write_failure_category e))) (ret False))) (\<lambda>success.
        seqM (set_attempt_succeeded success)
          (gets (\<lambda>m. (success, success, m_write_error_kind m))))))"

definition rotate_files :: "string \<Rightarrow> string \<Rightarrow> string \<Rightarrow> bool \<Rightarrow> ('z, unit) fprog" where
  "rotate_files file prepared backup_temp can_link =
     seqM ensure_parent_directory
    (seqM (copy_to_backup_temp file backup_temp can_link)
    (seqM (replace_backup file backup_temp)
    (seqM (replace_checkpoint file prepared)
    (seqM open_dir fsync_dir))))"

definition publish_prepared :: "nat \<Rightarrow> string \<Rightarrow> (bool \<times> bool \<times> string option) mprog" where
  "publish_prepared sequence prepared = withState (\<lambda>m.
     let file = m_checkpoint_file m; backup_temp = temp_path (m_pid m) (backup_file file) in
     case superseded sequence m of
       Some result \<Rightarrow> seqM (cleanup_temp_files [prepared]) (ret result)
     | None \<Rightarrow> seqM (begin_attempt sequence)
        (bindM (exceptM (seqM (rotate_files file prepared backup_temp (m_can_link_backup m)) (ret None))
            (\<lambda>e. seqM (set_write_error_kind (Some (write_failure_category e)))
              (seqM (set_attempt_succeeded False)
              (seqM (cleanup_temp_files [prepared, backup_temp])
                (ret (Some (False, False, Some (write_failure_category e))))))))
          (\<lambda>failed. case failed of
             Some result \<Rightarrow> ret result
           | None \<Rightarrow> seqM (set_attempt_succeeded True)
               (seqM (modify (\<lambda>m. m\<lparr>m_can_link_backup := True\<rparr>))
               (seqM (cleanup_temp_files [backup_temp]) (ret (True, True, None)))))))"

section \<open>Preparing a fixed version\<close>

text \<open>The encoder hands over the text of the version chunk by chunk and may fail after any of them, so an encoder is the
  list of its chunks and its failure.\<close>

type_synonym encoder = "string list \<times> os_exc option"

primrec bounded_writes :: "nat \<Rightarrow> string list \<Rightarrow> nat \<Rightarrow> ('z, unit) fprog" where
  "bounded_writes fd [] written = ret ()"
| "bounded_writes fd (chunk # chunks) written =
     (if MAX_CHECKPOINT_OUTPUT_BYTES < written + length chunk then raise CheckpointResourceError
      else seqM (write_file fd chunk) (bounded_writes fd chunks (written + length chunk)))"

definition checkpoint_stream :: "nat \<Rightarrow> encoder \<Rightarrow> ('z, unit) fprog" where
  "checkpoint_stream fd enc = seqM (bounded_writes fd (fst enc) 0)
     (case snd enc of None \<Rightarrow> ret () | Some e \<Rightarrow> raise e)"

definition prepare_fixed_version :: "encoder \<Rightarrow> string \<Rightarrow> ('z, string) fprog" where
  "prepare_fixed_version enc path =
     seqM mkdir (bindM (open_create True path CHECKPOINT_FILE_MODE) (\<lambda>fd.
       seqM (exceptM
           (seqM (fchmod fd CHECKPOINT_FILE_MODE) (seqM (checkpoint_stream fd enc) (fsync fd)))
           (\<lambda>e. seqM (unlink path) (raise e)))
         (ret path)))"

section \<open>Reporting an outcome\<close>

definition set_world :: "(world \<Rightarrow> world) \<Rightarrow> unit mprog" where
  "set_world f = modify (\<lambda>m. m\<lparr>m_world := f (m_world m)\<rparr>)"

definition halt_causes_of :: "manager \<Rightarrow> halt_cause list" where
  "halt_causes_of m = ss_halt_causes (w_server_state (m_world m))"

definition causes_after :: "bool \<Rightarrow> halt_cause list \<Rightarrow> halt_cause list" where
  "causes_after success causes =
     (if success then filter (\<lambda>c. c \<noteq> checkpoint_failure) causes
      else if checkpoint_failure \<in> set causes then causes else causes @ [checkpoint_failure])"

definition failure_text :: "string option \<Rightarrow> string" where
  "failure_text reason = (case reason of None \<Rightarrow> ''storage I/O error'' | Some r \<Rightarrow> if r = [] then ''storage I/O error'' else r)"

definition apply_outcome :: "nat \<Rightarrow> bool \<Rightarrow> bool \<Rightarrow> string \<Rightarrow> string option \<Rightarrow> unit mprog" where
  "apply_outcome sequence success published saved_at reason = withState (\<lambda>m.
     seqM (whenM (success \<and> published \<and> m_last_success_sequence m < sequence)
       (modify (\<lambda>m. m\<lparr>m_last_checkpoint_at := Some saved_at, m_last_success_sequence := sequence\<rparr>)))
     (if sequence < m_last_outcome_sequence m then ret ()
      else if \<not> published \<and> success then ret ()
      else seqM (modify (\<lambda>m. m\<lparr>m_last_outcome_sequence := sequence,
              m_checkpoint_failure_reason := (if success then None else Some (failure_text reason))\<rparr>))
        (let causes = causes_after success (halt_causes_of m) in
         if causes = halt_causes_of m then ret ()
         else case from_causes causes of
            Inl _ \<Rightarrow> raise OtherError
          | Inr st \<Rightarrow> set_world (\<lambda>w. w\<lparr>w_server_state := st\<rparr>))))"

definition notify_service :: "unit mprog" where
  "notify_service = withState (\<lambda>m. case mark ''/'' {''service''} False (m_world m) of
      (Inl _, w) \<Rightarrow> seqM (set_world (\<lambda>_. w)) (raise OtherError)
    | (Inr _, w) \<Rightarrow> set_world (\<lambda>_. w))"

definition outcome_view :: "manager \<Rightarrow> string option \<times> string option \<times> server_state" where
  "outcome_view m = (m_last_checkpoint_at m, m_checkpoint_failure_reason m, w_server_state (m_world m))"

definition bump_revision :: "unit mprog" where
  "bump_revision = withState (\<lambda>m. whenM (m_has_scheduler m) (modify (\<lambda>m. m\<lparr>m_query_revision := m_query_revision m + 1\<rparr>)))"

text \<open>\<open>try m finally f\<close>, where the finaliser may raise itself.\<close>

definition finallyP :: "'a mprog \<Rightarrow> unit mprog \<Rightarrow> 'a mprog" where
  "finallyP m f s = (case m s of (r, s1) \<Rightarrow> (case f s1 of (Inl e, s2) \<Rightarrow> (Inl e, s2) | (Inr _, s2) \<Rightarrow> (r, s2)))"

definition record_outcome :: "nat \<Rightarrow> bool \<Rightarrow> bool \<Rightarrow> string \<Rightarrow> string option \<Rightarrow> unit mprog" where
  "record_outcome sequence success published saved_at reason = withState (\<lambda>before.
     seqM bump_revision
       (finallyP (apply_outcome sequence success published saved_at reason)
         (seqM (withState (\<lambda>m. whenM (m_has_scheduler m \<and> outcome_view before \<noteq> outcome_view m)
             (seqM notify_service (modify (\<lambda>m. m\<lparr>m_flushes := m_flushes m + 1\<rparr>)))))
           bump_revision)))"

section \<open>Starting a write\<close>

definition next_sequence :: "nat mprog" where
  "next_sequence = seqM (modify (\<lambda>m. m\<lparr>m_next_sequence := m_next_sequence m + 1\<rparr>)) (gets m_next_sequence)"

definition note_failed :: "nat \<Rightarrow> unit mprog" where
  "note_failed sequence = modify (\<lambda>m. m\<lparr>m_newer_failed_sequence := max (m_newer_failed_sequence m) sequence\<rparr>)"

definition fixed_failure :: "nat \<Rightarrow> os_exc \<Rightarrow> unit mprog" where
  "fixed_failure sequence e = seqM (note_failed sequence)
     (record_outcome sequence False False [] (Some (write_failure_category e)))"

text \<open>\<open>pin\<close> is what the version store answers: the fixed version (with the encoder of its text), or why there is none.\<close>

definition pin_fixed_for_write :: "os_exc + encoder \<Rightarrow> string \<Rightarrow> (nat \<times> encoder option \<times> string) mprog" where
  "pin_fixed_for_write pin now = bindM next_sequence (\<lambda>sequence. case pin of
      Inr version \<Rightarrow> ret (sequence, Some version, now)
    | Inl e \<Rightarrow> seqM (whenM (e \<noteq> VersionUnavailable ''state_changing'') (fixed_failure sequence e))
        (ret (sequence, None, [])))"

definition capture_for_write :: "os_exc + string \<times> string \<Rightarrow> (nat \<times> (os_exc + string \<times> string)) mprog" where
  "capture_for_write capture = bindM next_sequence (\<lambda>sequence. case capture of
      Inr view \<Rightarrow> ret (sequence, Inr view)
    | Inl e \<Rightarrow> seqM (withState (\<lambda>m. whenM (m_last_attempted_sequence m < sequence)
          (modify (\<lambda>m. m\<lparr>m_last_attempted_sequence := sequence, m_last_attempt_succeeded := False\<rparr>))))
        (ret (sequence, Inl e)))"

text \<open>What a write meets on its way: the store's answer, the capture of a standalone manager, the time, the random part of
  the temporary name.\<close>

record write_env =
  we_pin :: "os_exc + encoder"
  we_capture :: "os_exc + string \<times> string"
  we_now :: string
  we_hex :: string

definition write_fixed :: "write_env \<Rightarrow> bool mprog" where
  "write_fixed env = bindM (pin_fixed_for_write (we_pin env) (we_now env)) (\<lambda>(sequence, version, saved_at). case version of
      None \<Rightarrow> ret False
    | Some enc \<Rightarrow> withState (\<lambda>m.
        let prepared = prepared_path (m_checkpoint_file m) (m_pid m) (nat_digits sequence) (we_hex env) in
        bindM (exceptM (seqM (prepare_fixed_version enc prepared) (ret None))
            (\<lambda>e. seqM (fixed_failure sequence e) (ret (Some False)))) (\<lambda>failed. case failed of
          Some result \<Rightarrow> ret result
        | None \<Rightarrow> bindM (publish_prepared sequence prepared) (\<lambda>(success, published, reason).
            seqM (record_outcome sequence success published saved_at reason) (ret success)))))"

definition write_captured :: "write_env \<Rightarrow> bool mprog" where
  "write_captured env = bindM (capture_for_write (we_capture env)) (\<lambda>(sequence, view). case view of
      Inl e \<Rightarrow> seqM (record_outcome sequence False False [] (Some (write_failure_category e))) (ret False)
    | Inr (payload, saved_at) \<Rightarrow> bindM (publish_captured sequence payload) (\<lambda>(success, published, reason).
        seqM (record_outcome sequence success published saved_at reason) (ret success)))"

definition write_checkpoint :: "write_env \<Rightarrow> bool mprog" where
  "write_checkpoint env = withState (\<lambda>m. if m_has_scheduler m then write_fixed env else write_captured env)"

section \<open>Writes in the background\<close>

record job =
  j_sequence :: nat
  j_reservation :: int
  j_encoder :: encoder
  j_saved_at :: string

definition write_fixed_background :: "nat \<Rightarrow> encoder \<Rightarrow> string \<Rightarrow> (bool \<times> bool \<times> string option) mprog" where
  "write_fixed_background sequence enc hex = withState (\<lambda>m.
     let prepared = prepared_path (m_checkpoint_file m) (m_pid m) (nat_digits sequence) hex in
     exceptM (seqM (prepare_fixed_version enc prepared) (publish_prepared sequence prepared))
       (\<lambda>e. seqM (cleanup_temp_files [prepared]) (seqM (note_failed sequence)
         (ret (False, False, Some (write_failure_category e))))))"

text \<open>The part of \<open>_write_fixed_async\<close> before the worker is created; \<open>retained\<close> is the size of the version.\<close>

definition start_fixed_write :: "os_exc + encoder \<times> int \<Rightarrow> string \<Rightarrow> job option mprog" where
  "start_fixed_write pin now = withState (\<lambda>m. if m_stopping m then ret None else
     bindM (pin_fixed_for_write (map_sum id fst pin) now) (\<lambda>(sequence, version, saved_at). case (version, pin) of
        (Some enc, Inr (_, retained)) \<Rightarrow> withState (\<lambda>m.
          let reservation = (retained * 5 + 1) div 2 in
          if MAX_BACKGROUND_WRITES \<le> length (m_background_writes m)
             \<or> MAX_BACKGROUND_BYTES < m_background_reserved m + reservation
          then seqM (fixed_failure sequence CheckpointResourceError) (ret None)
          else seqM (modify (\<lambda>m. m\<lparr>m_background_reserved := m_background_reserved m + reservation,
                m_background_writes := m_background_writes m @ [sequence]\<rparr>))
            (ret (Some \<lparr>j_sequence = sequence, j_reservation = reservation, j_encoder = enc, j_saved_at = saved_at\<rparr>)))
      | _ \<Rightarrow> ret None))"

text \<open>The result of the worker, or \<open>None\<close> for a cancelled task.\<close>

definition finish_async_write :: "(os_exc + bool \<times> bool \<times> string option) option \<Rightarrow> nat \<Rightarrow> string \<Rightarrow> unit mprog" where
  "finish_async_write result sequence saved_at = (case result of
      None \<Rightarrow> seqM (note_failed sequence) (record_outcome sequence False False [] (Some ''storage I/O error''))
    | Some (Inl e) \<Rightarrow> seqM (note_failed sequence) (record_outcome sequence False False [] (Some (write_failure_category e)))
    | Some (Inr (success, published, reason)) \<Rightarrow> record_outcome sequence success published saved_at reason)"

definition finish_fixed_write :: "job \<Rightarrow> (os_exc + bool \<times> bool \<times> string option) option \<Rightarrow> unit mprog" where
  "finish_fixed_write j result =
     seqM (modify (\<lambda>m. m\<lparr>m_background_writes := remove1 (j_sequence j) (m_background_writes m),
             m_background_reserved := m_background_reserved m - j_reservation j\<rparr>))
       (finish_async_write result (j_sequence j) (j_saved_at j))"

text \<open>\<open>start\<close>, and \<open>stop\<close>: the writes in flight are drained before the last one.\<close>

definition start_manager :: "unit mprog" where
  "start_manager = modify (\<lambda>m. m\<lparr>m_stopping := False\<rparr>)"

definition stop_manager :: "unit mprog \<Rightarrow> write_env \<Rightarrow> bool mprog" where
  "stop_manager drained env = seqM (modify (\<lambda>m. m\<lparr>m_stopping := True\<rparr>)) (seqM drained (write_checkpoint env))"

end
