(* ===== verification/Checkpoint_Safety.thy ===== *)
theory Checkpoint_Safety
  imports Checkpoint_Files
begin

text \<open>
  A checkpoint write is atomic: whatever call fails and wherever the machine stops, the checkpoint file is the former
  snapshot or the new one, complete, and the backup is the former backup or the former snapshot. The proof follows the write
  call by call with weakest preconditions: a file that is safe is never written again (\<open>grows\<close>), and only the two
  renames touch the names of the two files.
\<close>

section \<open>Names\<close>

lemma paths_apart [simp]:
  "backup_file file \<noteq> file" "temp_path pid (backup_file file) \<noteq> file" "temp_path pid (backup_file file) \<noteq> backup_file file"
  "temp_path pid file \<noteq> file" "temp_path pid file \<noteq> backup_file file" "temp_path pid file \<noteq> temp_path pid (backup_file file)"
  "prepared_path file pid n hex \<noteq> file" "prepared_path file pid n hex \<noteq> backup_file file"
  "prepared_path file pid n hex \<noteq> temp_path pid (backup_file file)"
  "file \<noteq> backup_file file" "file \<noteq> temp_path pid (backup_file file)" "backup_file file \<noteq> temp_path pid (backup_file file)"
  "file \<noteq> temp_path pid file" "backup_file file \<noteq> temp_path pid file" "temp_path pid (backup_file file) \<noteq> temp_path pid file"
  "file \<noteq> prepared_path file pid n hex" "backup_file file \<noteq> prepared_path file pid n hex"
  "temp_path pid (backup_file file) \<noteq> prepared_path file pid n hex"
  by (simp_all add: backup_file_def temp_path_def prepared_path_def BACKUP_SUFFIX_def TEMP_SUFFIX_def)

text \<open>What \<open>copy_bytes\<close> knows of the file it is writing.\<close>

definition fresh_file :: "'z disk_scheme \<Rightarrow> 'z disk_scheme \<Rightarrow> string \<Rightarrow> string \<Rightarrow> nat \<Rightarrow> bool" where
  "fresh_file s t q bs k \<longleftrightarrow> grows s t \<and> inode_of t q = Some k \<and> k < length (d_inodes t) \<and> \<not> durable s k
     \<and> i_bytes (d_inodes t ! k) = bs"

lemma open_restricted_fresh:
  assumes "inode_of s q = None"
  shows "wp (open_restricted q) (\<lambda>r t. case r of Inl _ \<Rightarrow> grows s t | Inr k \<Rightarrow> fresh_file s t q [] k) s"
  unfolding open_restricted_def open_create_def fchmod_def wp_bindM wp_seqM
  apply (rule wp_callI)
  using assms
  apply (auto simp: wp_def prog_defs add_inode_def grows_def durable_def nth_append update_conv' fresh_file_def call_def
      split: list.splits fate.splits)
  done

lemma write_fresh:
  assumes "fresh_file s t q [] k"
  shows "wp (seqM (write_file k bs) (fsync k)) (\<lambda>r u. grows s u \<and>
     (r = Inr () \<longrightarrow> inode_of u q = Some k \<and> durable u k \<and> i_bytes (d_inodes u ! k) = bs)) t"
  using assms unfolding write_file_def fsync_def wp_seqM
  by (auto intro!: wp_callI simp: append_bytes_def fresh_file_def grows_def durable_def nth_list_update)


text \<open>A name that stands for a safe file with the given text, or for no file.\<close>

definition holds :: "string \<Rightarrow> string option \<Rightarrow> 'z disk_scheme \<Rightarrow> bool" where
  "holds q c t \<longleftrightarrow> contents t q = c \<and> (\<forall>k. inode_of t q = Some k \<longrightarrow> durable t k)"

lemma settles_holds: "settles q {c} s \<Longrightarrow> holds q c s"
  using inode_of_candidate [of s q] by (auto simp: settles_def holds_def contents_def)

lemma holds_grows: "holds q c s \<Longrightarrow> keeps_name q s t \<Longrightarrow> grows s t \<Longrightarrow> holds q c t"
  by (cases "inode_of s q") (auto simp: holds_def keeps_name_def grows_def contents_def)

text \<open>The backup file in the making: \<open>saved s old bt t\<close> says that \<open>bt\<close> now holds what the checkpoint file held.\<close>

definition saved :: "'z disk_scheme \<Rightarrow> string option \<Rightarrow> string \<Rightarrow> 'z disk_scheme \<Rightarrow> bool" where
  "saved s old q t \<longleftrightarrow> grows s t \<and> holds q old t"

lemma open_read_effect:
  "wp (open_read q) (\<lambda>r t. case r of Inl _ \<Rightarrow> grows s t
     | Inr i \<Rightarrow> grows s t \<and> inode_of s q = Some i \<and> d_names t = d_names s) s"
  by (auto simp: open_read_def wp_def call_def prog_defs grows_def durable_def split: list.splits fate.splits option.splits)

lemma read_file_fresh:
  assumes "fresh_file s t q [] k" and "durable s i"
  shows "wp (read_file i) (\<lambda>r u. case r of Inl _ \<Rightarrow> grows s u
     | Inr bs \<Rightarrow> fresh_file s u q [] k \<and> bs = i_bytes (d_inodes s ! i)) t"
  using assms unfolding read_file_def
  by (auto intro!: wp_callI simp: fresh_file_def grows_def durable_def)

lemma copy_bytes_effect:
  assumes "inode_of s bt = None" and "\<forall>i. inode_of s file = Some i \<longrightarrow> durable s i"
  shows "wp (copy_bytes file bt) (\<lambda>r t. grows s t \<and> (r = Inr () \<longrightarrow> saved s (contents s file) bt t)) s"
  unfolding copy_bytes_def
proof (rule wp_bindI)
  show "wp (open_read file) (\<lambda>r t. case r of Inl e \<Rightarrow> grows s t \<and> (Inl e = Inr () \<longrightarrow> saved s (contents s file) bt t)
      | Inr i \<Rightarrow> grows s t \<and> inode_of s file = Some i \<and> inode_of t bt = None) s"
    by (rule wp_mono [OF open_read_effect]) (auto simp: assms(1) split: sum.splits)
next
  fix i t
  assume t: "grows s t \<and> inode_of s file = Some i \<and> inode_of t bt = None"
  with assms(2) have i: "durable s i" by blast
  have tr: "grows s u" if "grows t u" for u using t that gr.R_trans by blast
  have nd: "\<not> durable s k" if "\<not> durable t k" for k using t that by (auto simp: grows_def)
  have fr: "fresh_file s u bt [] k" if "fresh_file t u bt [] k" for u k
    using that tr [of u] nd [of k] by (simp add: fresh_file_def)
  show "wp (bindM (open_restricted bt) (\<lambda>target. bindM (read_file i) (\<lambda>bs. seqM (write_file target bs) (fsync target))))
      (\<lambda>r t. grows s t \<and> (r = Inr () \<longrightarrow> saved s (contents s file) bt t)) t"
  proof (rule wp_bindI [where P = "\<lambda>k u. fresh_file s u bt [] k"])
    show "wp (open_restricted bt) (\<lambda>r u. case r of Inl e \<Rightarrow> grows s u \<and> (Inl e = Inr () \<longrightarrow> saved s (contents s file) bt u)
        | Inr k \<Rightarrow> fresh_file s u bt [] k) t"
      using t by (intro wp_mono [OF open_restricted_fresh]) (auto split: sum.splits intro: tr fr)
  next
    fix k u
    assume u: "fresh_file s u bt [] k"
    show "wp (bindM (read_file i) (\<lambda>bs. seqM (write_file k bs) (fsync k)))
        (\<lambda>r t. grows s t \<and> (r = Inr () \<longrightarrow> saved s (contents s file) bt t)) u"
    proof (rule wp_bindI)
      show "wp (read_file i) (\<lambda>r v. case r of Inl e \<Rightarrow> grows s v \<and> (Inl e = Inr () \<longrightarrow> saved s (contents s file) bt v)
          | Inr bs \<Rightarrow> fresh_file s v bt [] k \<and> contents s file = Some bs) u"
        by (rule wp_mono [OF read_file_fresh [OF u i]]) (use t in \<open>auto simp: contents_def split: sum.splits\<close>)
      show "wp (seqM (write_file k bs) (fsync k)) (\<lambda>r t. grows s t \<and> (r = Inr () \<longrightarrow> saved s (contents s file) bt t)) v"
        if "fresh_file s v bt [] k \<and> contents s file = Some bs" for bs v
        by (rule wp_mono [OF write_fresh]) (use that in \<open>auto simp: saved_def holds_def contents_def\<close>)
    qed
  qed
qed

text \<open>The next backup is in place before the directory is touched, whichever way it was made.\<close>

lemma link_backup_effect:
  assumes "inode_of s bt = None" and "bt \<noteq> file" and "\<forall>i. inode_of s file = Some i \<longrightarrow> durable s i"
  shows "wp (link_backup file bt) (\<lambda>r t. grows s t \<and> (r = Inr True \<longrightarrow> saved s (contents s file) bt t)
     \<and> (r = Inr False \<longrightarrow> d_names t = d_names s \<and> d_inodes t = d_inodes s)) s"
proof -
  have "wp (bindM (lstat file) (\<lambda>(mode, links). if mode = CHECKPOINT_FILE_MODE \<and> links = 1
        then seqM (link file bt) (ret True) else ret False))
      (\<lambda>r t. d_inodes t = d_inodes s \<and> (case r of Inr True \<Rightarrow> inode_of t bt = inode_of s file \<and> inode_of s file \<noteq> None
         | _ \<Rightarrow> d_names t = d_names s)) s"
    using assms(1,2) unfolding lstat_def link_def
    by (auto simp: wp_def call_def prog_defs update_conv' split: list.splits fate.splits option.splits)
  then show ?thesis unfolding link_backup_def wp_exceptM
    by (rule wp_mono) (use assms in \<open>auto simp: saved_def holds_def grows_def durable_def contents_def
      split: sum.splits bool.splits os_exc.splits\<close>)
qed

lemma copy_to_backup_temp_effect:
  fixes s :: "'z disk_scheme"
  assumes "inode_of s bt = None" and "bt \<noteq> file" and "\<forall>i. inode_of s file = Some i \<longrightarrow> durable s i"
  shows "wp (copy_to_backup_temp file bt can) (\<lambda>r t. grows s t \<and> (r = Inr () \<longrightarrow> saved s (contents s file) bt t)) s"
  unfolding copy_to_backup_temp_def
proof (rule wp_bindI)
  show "wp (path_exists file) (\<lambda>r t. case r of Inl e \<Rightarrow> grows s t \<and> (Inl e = Inr () \<longrightarrow> saved s (contents s file) bt t)
      | Inr there \<Rightarrow> there = (inode_of s file \<noteq> None) \<and> d_names t = d_names s \<and> d_inodes t = d_inodes s) s"
    unfolding path_exists_def by (rule wp_callI) (auto simp: grows_def durable_def)
next
  fix there and t :: "'z disk_scheme"
  assume t: "there = (inode_of s file \<noteq> None) \<and> d_names t = d_names s \<and> d_inodes t = d_inodes s"
  let ?Q = "\<lambda>r t. grows s t \<and> (r = Inr () \<longrightarrow> saved s (contents s file) bt t)"
  have eq: "grows u = grows s" "saved u = saved s" "contents u file = contents s file"
    "inode_of u bt = None" "\<forall>i. inode_of u file = Some i \<longrightarrow> durable u i"
    if "d_names u = d_names s" "d_inodes u = d_inodes s" for u :: "'z disk_scheme"
    using that assms by (auto simp: fun_eq_iff grows_def durable_def saved_def holds_def contents_def)
  have copy: "wp (copy_bytes file bt) ?Q u" if "d_names u = d_names s" "d_inodes u = d_inodes s" for u :: "'z disk_scheme"
    using copy_bytes_effect [of u bt "file"] eq [OF that] by simp
  have lnk: "wp (link_backup file bt) (\<lambda>r t. case r of Inl e \<Rightarrow> ?Q (Inl e) t
      | Inr linked \<Rightarrow> if linked then ?Q (Inr ()) t else d_names t = d_names s \<and> d_inodes t = d_inodes s) t"
    by (rule wp_mono [OF link_backup_effect]) (use t assms(2) eq [of t] in \<open>auto split: sum.splits\<close>)
  show "wp (if \<not> there then ret () else bindM (if can then link_backup file bt else ret False)
      (\<lambda>linked. if linked then ret () else copy_bytes file bt)) ?Q t"
  proof (cases there)
    case True
    have "wp (bindM (if can then link_backup file bt else ret False)
        (\<lambda>linked. if linked then ret () else copy_bytes file bt)) ?Q t"
    proof (rule wp_bindI)
      show "wp (if can then link_backup file bt else ret False) (\<lambda>r t. case r of Inl e \<Rightarrow> ?Q (Inl e) t
          | Inr linked \<Rightarrow> if linked then ?Q (Inr ()) t else d_names t = d_names s \<and> d_inodes t = d_inodes s) t"
        using t lnk by (cases can) simp_all
      show "wp (if linked then ret () else copy_bytes file bt) ?Q u"
        if "if linked then ?Q (Inr ()) u else d_names u = d_names s \<and> d_inodes u = d_inodes s" for linked u
        using that copy [of u] by (cases linked) simp_all
    qed
    with True show ?thesis by simp
  next
    case False
    with t eq [of t] show ?thesis by (auto simp: saved_def holds_def grows_def durable_def contents_def)
  qed
qed

section \<open>One rotation\<close>

lemma wp_frame: "obeys R m \<Longrightarrow> wp m Q s \<Longrightarrow> wp m (\<lambda>r t. Q r t \<and> R s t) s"
  by (simp add: wp_def obeys_def)

text \<open>Renaming a safe file over another: at any moment the target is the old file or the new one.\<close>

lemma replace_effect:
  assumes "holds p (Some c) s" and "settles q C s" and "p \<noteq> q"
  shows "wp (replace p q) (\<lambda>r t. settles q (insert (Some c) C) t \<and> (r = Inr () \<longrightarrow> holds q (Some c) t)) s"
proof -
  obtain i where i: "inode_of s p = Some i" "durable s i" "i_bytes (d_inodes s ! i) = c"
    using assms(1) by (auto simp: holds_def contents_def)
  have q: "settles q (insert (Some c) C) s" using assms(2) by (rule settles_mono) blast
  then have t: "settles q (insert (Some c) C) (s\<lparr>d_fates := fs\<rparr>)" for fs
    by (simp add: settles_def candidates_def durable_def)
  have "settles q (insert (Some c) C) (set_names (AList.update q i (AList.delete p (d_names s))) (s\<lparr>d_fates := fs\<rparr>))" for fs
    using q i by (auto simp: settles_def candidates_def durable_def update_conv')
  with i t show ?thesis unfolding replace_def
    by (intro wp_callI) (auto simp: wp_def holds_def contents_def durable_def update_conv')
qed

lemma fsync_dir_effect:
  "wp fsync_dir (\<lambda>r t. r = Inr () \<longrightarrow> (\<forall>q c. holds q c s \<longrightarrow> settles q {c} t)) s"
  unfolding fsync_dir_def
  by (rule wp_callI) (auto simp: holds_def settles_def candidates_def contents_def durable_def)

text \<open>A part that renames other names and writes no file keeps what is known of a name.\<close>

lemma quiet_settles: "obeys (same d_inodes) m \<Longrightarrow> obeys (keeps_name q) m \<Longrightarrow> settles q C s \<Longrightarrow> settles q C (after (m s))"
  using settles_grows obeysD [OF same_grows] obeysD by fast

lemma quiet_holds: "obeys (same d_inodes) m \<Longrightarrow> obeys (keeps_name q) m \<Longrightarrow> holds q c s \<Longrightarrow> holds q c (after (m s))"
  using holds_grows obeysD [OF same_grows] obeysD by fast

lemma ensure_parent_keeps [keeps]:
  "obeys (keeps_name q) ensure_parent_directory" "obeys (same d_inodes) ensure_parent_directory"
  unfolding ensure_parent_directory_def by (intro nm.disk_intros fl.disk_intros keeps)+

lemma ignore_os_keeps:
  "obeys (keeps_name q) (case e of OSError _ \<Rightarrow> ret x | _ \<Rightarrow> raise e)" "obeys (same d_inodes) (case e of OSError _ \<Rightarrow> ret x | _ \<Rightarrow> raise e)"
  by (cases e; simp add: nm.obeys_ret nm.obeys_raise fl.obeys_ret fl.obeys_raise)+

lemma open_restricted_keeps [keeps]: "q \<noteq> bt \<Longrightarrow> obeys (keeps_name q) (open_restricted bt)"
  unfolding open_restricted_def by (intro nm.disk_intros keeps)

lemma copy_keeps_name [keeps]:
  assumes "q \<noteq> bt"
  shows "obeys (keeps_name q) (copy_to_backup_temp file bt can)"
proof -
  have parts: "obeys (keeps_name q) (copy_bytes file bt)" "obeys (keeps_name q) (link_backup file bt)"
    unfolding copy_bytes_def link_backup_def by (intro nm.disk_intros keeps ignore_os_keeps assms)+
  show ?thesis unfolding copy_to_backup_temp_def by (intro nm.disk_intros keeps parts)
qed

lemma replace_backup_keeps [keeps]:
  "q \<noteq> bt \<Longrightarrow> q \<noteq> backup_file file \<Longrightarrow> obeys (keeps_name q) (replace_backup file bt)"
  "obeys (same d_inodes) (replace_backup file bt)"
  unfolding replace_backup_def by (intro nm.disk_intros fl.disk_intros keeps; simp)+

lemma cleanup_keeps [keeps]:
  "q \<notin> set qs \<Longrightarrow> obeys (keeps_name q) (cleanup_temp_files qs)" "obeys (same d_inodes) (cleanup_temp_files qs)"
  unfolding cleanup_temp_files_def
  by (intro nm.obeys_forM fl.obeys_forM nm.obeys_exceptM fl.obeys_exceptM keeps ignore_os_keeps; auto)+

definition backups :: "string option \<Rightarrow> string option \<Rightarrow> string option set" where
  "backups b old = insert b ({old} - {None})"

definition safe :: "string \<Rightarrow> string option \<Rightarrow> string option \<Rightarrow> string \<Rightarrow> 'z disk_scheme \<Rightarrow> bool" where
  "safe file old b new t \<longleftrightarrow> settles file {old, Some new} t \<and> settles (backup_file file) (backups b old) t"

lemma safeI: "settles file {old} t \<Longrightarrow> settles (backup_file file) {b} t \<Longrightarrow> safe file old b new t"
  unfolding safe_def backups_def by (auto elim: settles_mono)

lemma copy_step:
  fixes s :: "'z disk_scheme"
  assumes "settles file {old} s" and "settles (backup_file file) {b} s" and "holds p (Some new) s" and "inode_of s bt = None"
    and "bt \<noteq> file" "bt \<noteq> backup_file file" "bt \<noteq> p"
  shows "wp (copy_to_backup_temp file bt can) (\<lambda>r t. settles file {old} t \<and> settles (backup_file file) {b} t
     \<and> holds p (Some new) t \<and> (r = Inr () \<longrightarrow> holds bt old t)) s"
proof -
  have old: "contents s file = old" "\<forall>i. inode_of s file = Some i \<longrightarrow> durable s i"
    using settles_holds [OF assms(1)] by (simp_all add: holds_def)
  have k: "keeps_name q s (after (copy_to_backup_temp file bt can s))" if "q \<in> {file, backup_file file, p}" for q
    by (rule obeysD, rule copy_keeps_name) (use that assms(5-) in auto)
  show ?thesis
    using copy_to_backup_temp_effect [OF assms(4,5) old(2), of can] k assms(1-3) unfolding wp_def old(1) saved_def
    by (auto intro: settles_grows holds_grows)
qed

lemma replace_backup_step:
  fixes s :: "'z disk_scheme"
  assumes "settles file {old} s" and "settles (backup_file file) {b} s" and "holds p (Some new) s" and "holds bt old s"
    and "bt \<noteq> file" "bt \<noteq> backup_file file" "bt \<noteq> p" "p \<noteq> backup_file file"
  shows "wp (replace_backup file bt) (\<lambda>r t. settles file {old} t \<and> settles (backup_file file) (backups b old) t
     \<and> holds p (Some new) t \<and> (r = Inr () \<longrightarrow> old \<noteq> None \<longrightarrow> holds (backup_file file) old t)) s"
proof -
  let ?b = "backup_file file"
  have "wp (replace_backup file bt) (\<lambda>r t. settles ?b (backups b old) t \<and> (r = Inr () \<longrightarrow> old \<noteq> None \<longrightarrow> holds ?b old t)) s"
    unfolding replace_backup_def
  proof (rule wp_bindI)
    show "wp (path_exists bt) (\<lambda>r t. case r of Inl e \<Rightarrow> settles ?b (backups b old) t \<and> (Inl e = Inr () \<longrightarrow> old \<noteq> None \<longrightarrow> holds ?b old t)
        | Inr there \<Rightarrow> (there \<longleftrightarrow> old \<noteq> None) \<and> settles ?b {b} t \<and> holds bt old t) s"
      using assms(2,4) unfolding path_exists_def backups_def
      by (intro wp_callI) (auto simp: holds_def settles_def candidates_def durable_def contents_def)
  next
    fix there and t :: "'z disk_scheme"
    assume "(there \<longleftrightarrow> old \<noteq> None) \<and> settles ?b {b} t \<and> holds bt old t"
    then have there: "there \<longleftrightarrow> old \<noteq> None" and b: "settles ?b {b} t" and bt: "holds bt old t" by simp_all
    show "wp (whenM there (replace bt ?b)) (\<lambda>r t. settles ?b (backups b old) t \<and> (r = Inr () \<longrightarrow> old \<noteq> None \<longrightarrow> holds ?b old t)) t"
    proof (cases old)
      case None
      with there b show ?thesis by (simp add: backups_def)
    next
      case (Some c)
      from replace_effect [OF bt [unfolded Some] b assms(6)] there Some show ?thesis
        by (simp add: backups_def insert_commute)
    qed
  qed
  moreover have "obeys (keeps_name file) (replace_backup file bt :: ('z, unit) fprog)"
      "obeys (keeps_name p) (replace_backup file bt :: ('z, unit) fprog)"
    using assms(5-) by (auto intro: replace_backup_keeps)
  ultimately show ?thesis
    using quiet_settles [OF replace_backup_keeps(2) _ assms(1)] quiet_holds [OF replace_backup_keeps(2) _ assms(3)]
    by (simp add: wp_def)
qed

lemma rotate_files_safe:
  fixes s :: "'z disk_scheme"
  assumes "settles file {old} s" and "settles (backup_file file) {b} s" and "holds p (Some new) s" and "inode_of s bt = None"
    and "bt \<noteq> file" "bt \<noteq> backup_file file" "bt \<noteq> p" "p \<noteq> backup_file file" "p \<noteq> file"
  shows "wp (rotate_files file p bt can) (\<lambda>r t. safe file old b new t \<and>
     (r = Inr () \<longrightarrow> settles file {Some new} t \<and> (old \<noteq> None \<longrightarrow> settles (backup_file file) {old} t))) s"
    (is "wp _ ?Q s")
  unfolding rotate_files_def
proof (rule wp_seqI)
  let ?b = "backup_file file"
  have safe: "safe file old b new t" if "settles file {old} t" "settles ?b (backups b old) t" for t :: "'z disk_scheme"
    using that settles_mono unfolding safe_def by blast
  show "wp ensure_parent_directory (\<lambda>r t. case r of Inl e \<Rightarrow> ?Q (Inl e) t
      | Inr _ \<Rightarrow> settles file {old} t \<and> settles ?b {b} t \<and> holds p (Some new) t \<and> inode_of t bt = None) s"
    using quiet_settles [OF ensure_parent_keeps(2,1) assms(1)] quiet_settles [OF ensure_parent_keeps(2,1) assms(2)]
      quiet_holds [OF ensure_parent_keeps(2,1) assms(3)] obeysD [OF ensure_parent_keeps(1), of bt s] assms(4)
    by (auto simp: wp_def keeps_name_def safeI split: sum.splits)
  fix t :: "'z disk_scheme"
  assume t: "settles file {old} t \<and> settles ?b {b} t \<and> holds p (Some new) t \<and> inode_of t bt = None"
  show "wp (seqM (copy_to_backup_temp file bt can) (seqM (replace_backup file bt) (seqM (replace_checkpoint file p) (seqM open_dir fsync_dir)))) ?Q t"
  proof (rule wp_seqI)
    show "wp (copy_to_backup_temp file bt can) (\<lambda>r t. case r of Inl e \<Rightarrow> ?Q (Inl e) t
        | Inr _ \<Rightarrow> settles file {old} t \<and> settles ?b {b} t \<and> holds p (Some new) t \<and> holds bt old t) t"
      by (rule wp_mono [OF copy_step [where p = p and b = b and new = new and old = old]]) (use t assms(5-) safeI in \<open>auto split: sum.splits\<close>)
    fix t :: "'z disk_scheme"
    assume t: "settles file {old} t \<and> settles ?b {b} t \<and> holds p (Some new) t \<and> holds bt old t"
    show "wp (seqM (replace_backup file bt) (seqM (replace_checkpoint file p) (seqM open_dir fsync_dir))) ?Q t"
    proof (rule wp_seqI)
      show "wp (replace_backup file bt) (\<lambda>r t. case r of Inl e \<Rightarrow> ?Q (Inl e) t | Inr _ \<Rightarrow> settles file {old} t
          \<and> settles ?b (backups b old) t \<and> holds p (Some new) t \<and> (old \<noteq> None \<longrightarrow> holds ?b old t)) t"
        by (rule wp_mono [OF replace_backup_step [where p = p and b = b and new = new and old = old]]) (use t assms(5-) safe in \<open>auto split: sum.splits\<close>)
      fix t :: "'z disk_scheme"
      assume t: "settles file {old} t \<and> settles ?b (backups b old) t \<and> holds p (Some new) t \<and> (old \<noteq> None \<longrightarrow> holds ?b old t)"
      show "wp (seqM (replace_checkpoint file p) (seqM open_dir fsync_dir)) ?Q t"
      proof (rule wp_seqI)
        have "wp (replace p file) (\<lambda>r t. settles file {old, Some new} t \<and> (r = Inr () \<longrightarrow> holds file (Some new) t)) t"
          by (rule wp_mono [OF replace_effect [where C = "{old}"]]) (use t assms(9) in \<open>auto simp: insert_commute\<close>)
        moreover have "obeys (keeps_name ?b) (replace p file :: ('z, unit) fprog)" using assms(8) by (intro keeps) auto
        ultimately show "wp (replace_checkpoint file p) (\<lambda>r t. case r of Inl e \<Rightarrow> ?Q (Inl e) t
            | Inr _ \<Rightarrow> safe file old b new t \<and> holds file (Some new) t \<and> (old \<noteq> None \<longrightarrow> holds ?b old t)) t"
          using t quiet_settles [OF keeps_files_calls(11), of ?b p "file" "backups b old" t] quiet_holds [OF keeps_files_calls(11), of ?b p "file" old t]
          by (auto simp: wp_def replace_checkpoint_def safe_def split: sum.splits)
        fix t :: "'z disk_scheme"
        assume t: "safe file old b new t \<and> holds file (Some new) t \<and> (old \<noteq> None \<longrightarrow> holds ?b old t)"
        have keep: "safe file old b new (after (m u))" if "obeys (same d_inodes) m" "\<And>q. obeys (keeps_name q) m" "safe file old b new u"
          for m :: "('z, unit) fprog" and u
          using that quiet_settles [OF that(1,2)] by (simp add: safe_def)
        show "wp (seqM open_dir fsync_dir) ?Q t"
        proof (rule wp_seqI)
          show "wp open_dir (\<lambda>r t. case r of Inl e \<Rightarrow> ?Q (Inl e) t
              | Inr _ \<Rightarrow> safe file old b new t \<and> holds file (Some new) t \<and> (old \<noteq> None \<longrightarrow> holds ?b old t)) t"
            using t keep [OF keeps_files_calls(7) keeps_name_calls(10)] quiet_holds [OF keeps_files_calls(7) keeps_name_calls(10)]
            by (auto simp: wp_def split: sum.splits)
          show "wp fsync_dir ?Q t" if "safe file old b new t \<and> holds file (Some new) t \<and> (old \<noteq> None \<longrightarrow> holds ?b old t)" for t
            using that fsync_dir_effect [of t] keep [OF keeps_files_calls(8) keeps_name_calls(11), of t] by (simp add: wp_def)
        qed
      qed
    qed
  qed
qed

section \<open>Publishing\<close>

lemma note_keeps [keeps]:
  "obeys (keeps_name q) (begin_attempt n)" "obeys (same d_inodes) (begin_attempt n)"
  "obeys (keeps_name q) (set_attempt_succeeded ok)" "obeys (same d_inodes) (set_attempt_succeeded ok)"
  "obeys (keeps_name q) (set_write_error_kind k)" "obeys (same d_inodes) (set_write_error_kind k)"
  "obeys (keeps_name q) (modify (\<lambda>m. m\<lparr>m_can_link_backup := ok\<rparr>))" "obeys (same d_inodes) (modify (\<lambda>m. m\<lparr>m_can_link_backup := ok\<rparr>))"
  by (simp_all add: begin_attempt_def set_attempt_succeeded_def set_write_error_kind_def obeys_def prog_defs same_def
      keeps_name_def candidates_def)

text \<open>What a publisher needs: the files of the last snapshot are safe, and no temporary file of the backup is left over.\<close>

definition ready :: "manager \<Rightarrow> string option \<Rightarrow> string option \<Rightarrow> bool" where
  "ready m old b \<longleftrightarrow> settles (m_checkpoint_file m) {old} m \<and> settles (backup_file (m_checkpoint_file m)) {b} m
     \<and> inode_of m (temp_path (m_pid m) (backup_file (m_checkpoint_file m))) = None"

definition published_safely :: "string \<Rightarrow> string option \<Rightarrow> string option \<Rightarrow> string \<Rightarrow> bool \<Rightarrow> manager \<Rightarrow> bool" where
  "published_safely file old b new done t \<longleftrightarrow> safe file old b new t \<and>
     (done \<longrightarrow> settles file {Some new} t \<and> (old \<noteq> None \<longrightarrow> settles (backup_file file) {old} t))"

lemma published_safely_quiet:
  assumes "published_safely file old b new done t" and "obeys (same d_inodes) m" "obeys (keeps_name file) m"
    "obeys (keeps_name (backup_file file)) m"
  shows "published_safely file old b new done (after (m t))"
  using assms(1) quiet_settles [OF assms(2,3)] quiet_settles [OF assms(2,4)]
  by (auto simp: published_safely_def safe_def)

lemma wp_try:
  assumes "wp m (\<lambda>r t. case r of Inr _ \<Rightarrow> A t | Inl _ \<Rightarrow> B t) s"
    and "\<And>e t. B t \<Longrightarrow> wp (h e) (\<lambda>r t. B t \<and> (\<forall>x. r = Inr x \<longrightarrow> D x)) t"
  shows "wp (exceptM (seqM m (ret y)) h) (\<lambda>r t. case r of Inl _ \<Rightarrow> B t | Inr x \<Rightarrow> x = y \<and> A t \<or> D x \<and> B t) s"
proof (cases "m s")
  case (Pair r t)
  show ?thesis
  proof (cases r)
    case (Inr x)
    with Pair assms(1) show ?thesis by (simp add: wp_def exceptM_def seqM_def bindM_def ret_def)
  next
    case (Inl e)
    with Pair assms have "B t" "wp (h e) (\<lambda>r t. B t \<and> (\<forall>x. r = Inr x \<longrightarrow> D x)) t" by (simp_all add: wp_def)
    with Pair Inl show ?thesis
      by (cases "outcome (h e t)") (simp_all add: wp_def exceptM_def seqM_def bindM_def ret_def)
  qed
qed

lemma wp_begin_attempt: "wp (seqM (begin_attempt n) k) Q m = wp k Q (after (begin_attempt n m))"
  by (simp add: begin_attempt_def wp_def prog_defs)

lemma superseded_unpublished: "superseded n m = Some r \<Longrightarrow> \<exists>ok. r = (ok, False, None)"
  by (auto simp: superseded_def split: if_splits)

lemma outcome_seq: "outcome (seqM k n s) = Inr y \<Longrightarrow> \<exists>t. outcome (n t) = Inr y"
  by (auto simp: seqM_def bindM_def split: prod.splits sum.splits)

lemma outcome_bind: "outcome (bindM k f s) = Inr y \<Longrightarrow> \<exists>x t. outcome (k s) = Inr x \<and> outcome (f x t) = Inr y"
  by (auto simp: bindM_def split: prod.splits sum.splits)

lemma outcome_except: "outcome (exceptM k h s) = Inr y \<Longrightarrow> outcome (k s) = Inr y \<or> (\<exists>e t. outcome (h e t) = Inr y)"
  by (auto simp: exceptM_def split: prod.splits sum.splits if_splits)

lemma outcome_ret: "outcome (ret x s) = Inr y \<longleftrightarrow> y = x"
  by (auto simp: ret_def)

lemma publish_prepared_safe:
  fixes m :: manager
  defines "file \<equiv> m_checkpoint_file m"
  assumes "ready m old b" and "holds p (Some new) m" and "p \<notin> {file, backup_file file, temp_path (m_pid m) (backup_file file)}"
  shows "wp (publish_prepared n p) (\<lambda>r t. published_safely file old b new (r = Inr (True, True, None)) t) m"
proof -
  let ?bt = "temp_path (m_pid m) (backup_file file)" and ?P = "published_safely file old b new"
  have s: "settles file {old} m" "settles (backup_file file) {b} m" "inode_of m ?bt = None"
    using assms(2) by (simp_all add: ready_def file_def)
  have quiet: "?P d (after (k t))" if "?P d t" "obeys (same d_inodes) k" "\<And>q. q \<notin> {p, ?bt} \<Longrightarrow> obeys (keeps_name q) k"
    for d t and k :: "'a mprog"
    by (rule published_safely_quiet [OF that(1,2)]; rule that(3)) (use assms(4) in auto)
  have fin: "?P True (after (seqM (set_attempt_succeeded True) (seqM (modify (\<lambda>m. m\<lparr>m_can_link_backup := True\<rparr>))
      (seqM (cleanup_temp_files [?bt]) (ret (True, True, None)))) t))" if "?P True t" for t
    by (rule quiet [OF that]; intro fl.disk_intros nm.disk_intros keeps; simp)
  have err: "?P False (after (seqM (set_write_error_kind k) (seqM (set_attempt_succeeded False)
      (seqM (cleanup_temp_files [p, ?bt]) (ret (Some (False, False, k))))) t))" if "?P False t" for t k
    by (rule quiet [OF that]; intro fl.disk_intros nm.disk_intros keeps; simp)
  have rot: "wp (rotate_files file p ?bt can) (\<lambda>r t. ?P (r = Inr ()) t) (after (begin_attempt n m))" for can
    unfolding published_safely_def
  proof (rule rotate_files_safe)
    show "inode_of (after (begin_attempt n m)) ?bt = None" using s(3) by (simp add: begin_attempt_def prog_defs)
  qed (use s assms(3,4) quiet_settles [OF note_keeps(2,1)] quiet_holds [OF note_keeps(2,1)] in auto)
  show ?thesis
  proof (cases "superseded n m")
    case (Some r)
    have "?P False m" using s safeI unfolding published_safely_def by blast
    then have "?P False (after (seqM (cleanup_temp_files [p]) (ret r) m))"
      by (rule quiet; intro fl.disk_intros nm.disk_intros keeps; simp)
    moreover have "outcome (seqM (cleanup_temp_files [p]) (ret r) m) \<noteq> Inr (True, True, None)"
      using superseded_unpublished [OF Some] by (auto dest!: outcome_seq simp: outcome_ret)
    ultimately show ?thesis using Some by (simp add: wp_def publish_prepared_def withState_def Let_def file_def)
  next
    case None
    let ?h = "\<lambda>e. seqM (set_write_error_kind (Some (write_failure_category e))) (seqM (set_attempt_succeeded False)
        (seqM (cleanup_temp_files [p, ?bt]) (ret (Some (False, False, Some (write_failure_category e))))))"
    have "wp (bindM (exceptM (seqM (rotate_files file p ?bt can) (ret None)) ?h)
        (\<lambda>failed. case failed of Some result \<Rightarrow> ret result
           | None \<Rightarrow> seqM (set_attempt_succeeded True) (seqM (modify (\<lambda>m. m\<lparr>m_can_link_backup := True\<rparr>))
               (seqM (cleanup_temp_files [?bt]) (ret (True, True, None))))))
        (\<lambda>r t. ?P (r = Inr (True, True, None)) t) (after (begin_attempt n m))" for can
    proof (rule wp_bindI)
      show "wp (exceptM (seqM (rotate_files file p ?bt can) (ret None)) ?h) (\<lambda>r t. case r of
            Inl e \<Rightarrow> ?P (Inl e = Inr (True, True, None)) t
          | Inr None \<Rightarrow> ?P True t | Inr (Some res) \<Rightarrow> ?P False t \<and> res \<noteq> (True, True, None)) (after (begin_attempt n m))"
        by (rule wp_mono [OF wp_try [where A = "?P True" and B = "?P False" and D = "\<lambda>x. \<exists>res. x = Some res \<and> res \<noteq> (True, True, None)"]])
          (use rot [of can] err in \<open>auto simp: wp_def outcome_ret dest!: outcome_seq split: sum.splits option.splits\<close>)
    next
      fix res t
      assume "case res of None \<Rightarrow> ?P True t | Some res \<Rightarrow> ?P False t \<and> res \<noteq> (True, True, None)"
      then show "wp (case res of Some result \<Rightarrow> ret result
           | None \<Rightarrow> seqM (set_attempt_succeeded True) (seqM (modify (\<lambda>m. m\<lparr>m_can_link_backup := True\<rparr>))
               (seqM (cleanup_temp_files [?bt]) (ret (True, True, None)))))
        (\<lambda>r t. ?P (r = Inr (True, True, None)) t) t"
        using fin [of t] by (cases res) (auto simp: wp_def published_safely_def ret_def)
    qed
    from this [of "m_can_link_backup m"] show ?thesis
      unfolding publish_prepared_def Let_def wp_withState None option.case wp_begin_attempt file_def .
  qed
qed

section \<open>The write in steps\<close>

text \<open>One step of the loop: what it leaves on failure has to survive the removal of the temporary files.\<close>

lemma run_write_steps_Cons:
  assumes "wp (snd step) (\<lambda>r t. case r of Inr _ \<Rightarrow> A t | Inl _ \<Rightarrow> B t) s"
    and "\<And>t k. B t \<Longrightarrow> B (after (seqM (set_write_error_kind k) (seqM (cleanup_temp_files temps) (ret False)) t))"
    and "\<And>t. A t \<Longrightarrow> wp (run_write_steps temps steps) Q t" and "\<And>t r. B t \<Longrightarrow> r \<noteq> Inr True \<Longrightarrow> Q r t"
  shows "wp (run_write_steps temps (step # steps)) Q s"
  unfolding run_write_steps.simps
proof (rule wp_bindI)
  let ?h = "\<lambda>e. seqM (set_write_error_kind (Some (write_failure_category e))) (seqM (cleanup_temp_files temps) (ret False))"
  show "wp (exceptM (seqM (snd step) (ret True)) ?h)
      (\<lambda>r t. case r of Inl e \<Rightarrow> Q (Inl e) t | Inr ok \<Rightarrow> if ok then A t else B t) s"
    by (rule wp_mono [OF wp_try [OF assms(1), where D = "\<lambda>x. x = False"]])
      (use assms(2,4) in \<open>auto simp: wp_def outcome_ret dest!: outcome_seq split: sum.splits\<close>)
  show "wp (if ok then run_write_steps temps steps else ret False) Q t" if "if ok then A t else B t" for ok t
    using that assms(3,4) by (cases ok) simp_all
qed

lemma write_temp_file_effect:
  assumes "inode_of s q = None"
  shows "wp (write_temp_file q payload) (\<lambda>r t. grows s t \<and> (r = Inr () \<longrightarrow> holds q (Some payload) t)) s"
  unfolding write_temp_file_def
proof (rule wp_bindI)
  show "wp (open_restricted q) (\<lambda>r t. case r of Inl e \<Rightarrow> grows s t \<and> (Inl e = Inr () \<longrightarrow> holds q (Some payload) t)
      | Inr k \<Rightarrow> fresh_file s t q [] k) s"
    by (rule wp_mono [OF open_restricted_fresh [OF assms]]) (auto split: sum.splits)
  show "wp (seqM (write_file k payload) (fsync k)) (\<lambda>r t. grows s t \<and> (r = Inr () \<longrightarrow> holds q (Some payload) t)) t"
    if "fresh_file s t q [] k" for k t
    by (rule wp_mono [OF write_fresh [OF that]]) (auto simp: holds_def contents_def)
qed

lemma write_temp_file_keeps [keeps]: "q \<noteq> r \<Longrightarrow> obeys (keeps_name q) (write_temp_file r payload)"
  unfolding write_temp_file_def by (intro nm.disk_intros keeps)

text \<open>The steps as written give the same guarantee as the rotation, except that the directory is not synced at the end.\<close>

lemma write_payload_safe:
  fixes m :: manager
  defines "file \<equiv> m_checkpoint_file m"
  assumes "ready m old b" and "inode_of m (temp_path (m_pid m) file) = None"
  shows "wp (write_payload new) (\<lambda>r t. safe file old b new t
     \<and> (r = Inr True \<longrightarrow> holds file (Some new) t \<and> (old \<noteq> None \<longrightarrow> holds (backup_file file) old t))) m"
proof -
  let ?bf = "backup_file file" and ?mt = "temp_path (m_pid m) file"
  let ?bt = "temp_path (m_pid m) ?bf"
  let ?Q = "\<lambda>r t. safe file old b new t \<and> (r = Inr True \<longrightarrow> holds file (Some new) t \<and> (old \<noteq> None \<longrightarrow> holds ?bf old t))"
  have s: "settles file {old} m" "settles ?bf {b} m" "inode_of m ?bt = None"
    using assms(2) by (simp_all add: ready_def file_def)
  have clean: "safe file old b new (after (seqM (set_write_error_kind k) (seqM (cleanup_temp_files [?mt, ?bt]) (ret False)) t))"
    if "safe file old b new t" for t :: manager and k
  proof -
    have "published_safely file old b new False t" using that by (simp add: published_safely_def)
    then have "published_safely file old b new False (after (seqM (set_write_error_kind k) (seqM (cleanup_temp_files [?mt, ?bt]) (ret False)) t))"
      by (rule published_safely_quiet; intro fl.disk_intros nm.disk_intros keeps; simp)
    then show ?thesis by (simp add: published_safely_def)
  qed
  note step = run_write_steps_Cons [where B = "safe file old b new" and temps = "[?mt, ?bt]", OF _ clean]
  have start: "wp ensure_parent_directory (\<lambda>r t. case r of Inr _ \<Rightarrow> settles file {old} t \<and> settles ?bf {b} t
      \<and> inode_of t ?mt = None \<and> inode_of t ?bt = None | Inl _ \<Rightarrow> safe file old b new t) m"
    using quiet_settles [OF ensure_parent_keeps(2,1) s(1)] quiet_settles [OF ensure_parent_keeps(2,1) s(2)]
      obeysD [OF ensure_parent_keeps(1), of ?mt m] obeysD [OF ensure_parent_keeps(1), of ?bt m] s(3) assms(3)
    by (auto simp: wp_def keeps_name_def safeI split: sum.splits)
  have temp: "wp (write_temp_file ?mt new) (\<lambda>r t. case r of Inr _ \<Rightarrow> settles file {old} t \<and> settles ?bf {b} t
      \<and> holds ?mt (Some new) t \<and> inode_of t ?bt = None | Inl _ \<Rightarrow> safe file old b new t) t"
    if t: "settles file {old} t \<and> settles ?bf {b} t \<and> inode_of t ?mt = None \<and> inode_of t ?bt = None" for t :: manager
  proof -
    have k: "keeps_name q t (after (write_temp_file ?mt new t))" if "q \<in> {file, ?bf, ?bt}" for q
      by (rule obeysD, rule write_temp_file_keeps) (use that in auto)
    have w: "wp (write_temp_file ?mt new) (\<lambda>r u. grows t u \<and> (r = Inr () \<longrightarrow> holds ?mt (Some new) u)) t"
      using t by (intro write_temp_file_effect) simp
    let ?u = "after (write_temp_file ?mt new t)"
    have "settles file {old} ?u" "settles ?bf {b} ?u"
      using w t k settles_grows [of "file" "{old}" t ?u] settles_grows [of ?bf "{b}" t ?u] by (simp_all add: wp_def)
    then show ?thesis using w t k [of ?bt] safeI [of "file" old ?u b new]
      by (auto simp: wp_def keeps_name_def split: sum.splits)
  qed
  have last: "wp (run_write_steps [?mt, ?bt] [(nm, replace_checkpoint file ?mt)]) ?Q t"
    if t: "settles file {old} t \<and> settles ?bf (backups b old) t \<and> holds ?mt (Some new) t \<and> (old \<noteq> None \<longrightarrow> holds ?bf old t)"
    for t :: manager and nm
  proof (rule step)
    have "wp (replace ?mt file) (\<lambda>r t. settles file {old, Some new} t \<and> (r = Inr () \<longrightarrow> holds file (Some new) t)) t"
      by (rule wp_mono [OF replace_effect [where C = "{old}"]]) (use t in \<open>auto simp: insert_commute\<close>)
    moreover have "obeys (keeps_name ?bf) (replace ?mt file :: unit mprog)" by (intro keeps) auto
    ultimately show "wp (snd (nm, replace_checkpoint file ?mt)) (\<lambda>r t. case r of Inr _ \<Rightarrow> ?Q (Inr True) t | Inl _ \<Rightarrow> safe file old b new t) t"
      using t quiet_settles [OF keeps_files_calls(11), of ?bf ?mt "file" "backups b old" t]
        quiet_holds [OF keeps_files_calls(11), of ?bf ?mt "file" old t]
      by (auto simp: wp_def replace_checkpoint_def safe_def split: sum.splits)
  qed simp_all
  have rot: "wp (replace_backup file ?bt) (\<lambda>r t. case r of Inr _ \<Rightarrow> settles file {old} t \<and> settles ?bf (backups b old) t
      \<and> holds ?mt (Some new) t \<and> (old \<noteq> None \<longrightarrow> holds ?bf old t) | Inl _ \<Rightarrow> safe file old b new t) t"
    if t: "settles file {old} t \<and> settles ?bf {b} t \<and> holds ?mt (Some new) t \<and> holds ?bt old t" for t :: manager
    by (rule wp_mono [OF replace_backup_step [where p = ?mt and b = b and new = new and old = old]])
      (use t in \<open>auto simp: safe_def elim: settles_mono split: sum.splits\<close>)
  have copy: "wp (copy_to_backup_temp file ?bt can) (\<lambda>r t. case r of Inr _ \<Rightarrow> settles file {old} t \<and> settles ?bf {b} t
      \<and> holds ?mt (Some new) t \<and> holds ?bt old t | Inl _ \<Rightarrow> safe file old b new t) t"
    if t: "settles file {old} t \<and> settles ?bf {b} t \<and> holds ?mt (Some new) t \<and> inode_of t ?bt = None" for t :: manager and can
    by (rule wp_mono [OF copy_step [where p = ?mt and b = b and new = new and old = old]])
      (use t safeI in \<open>auto split: sum.splits\<close>)
  show ?thesis
    unfolding write_payload_def Let_def wp_withState write_steps_def file_def [symmetric]
    by (rule step, unfold snd_conv, rule start, assumption, rule step, unfold snd_conv, erule temp, assumption,
      rule step, unfold snd_conv, erule copy, assumption, rule step, unfold snd_conv, erule rot, assumption, erule last)
      simp_all
qed

section \<open>Preparing\<close>

lemma write_file_fresh:
  assumes "fresh_file s t q bs k"
  shows "wp (write_file k cs) (\<lambda>r u. case r of Inl _ \<Rightarrow> grows s u | Inr _ \<Rightarrow> fresh_file s u q (bs @ cs) k) t"
  using assms unfolding write_file_def
  by (auto intro!: wp_callI simp: append_bytes_def fresh_file_def grows_def durable_def nth_list_update)

lemma bounded_writes_fresh:
  assumes "fresh_file s t q bs k"
  shows "wp (bounded_writes k chunks w) (\<lambda>r u. case r of Inl _ \<Rightarrow> grows s u | Inr _ \<Rightarrow> fresh_file s u q (bs @ concat chunks) k) t"
  using assms
proof (induction chunks arbitrary: bs t w)
  case Nil
  then show ?case by simp
next
  case (Cons c cs)
  show ?case
  proof (cases "MAX_CHECKPOINT_OUTPUT_BYTES < w + length c")
    case True
    with Cons.prems show ?thesis by (simp add: fresh_file_def)
  next
    case False
    have "wp (seqM (write_file k c) (bounded_writes k cs (w + length c)))
        (\<lambda>r u. case r of Inl _ \<Rightarrow> grows s u | Inr _ \<Rightarrow> fresh_file s u q (bs @ c @ concat cs) k) t"
    proof (rule wp_seqI)
      show "wp (write_file k c) (\<lambda>r u. case r of Inl e \<Rightarrow> (case Inl e of Inl _ \<Rightarrow> grows s u
          | Inr _ \<Rightarrow> fresh_file s u q (bs @ c @ concat cs) k) | Inr _ \<Rightarrow> fresh_file s u q (bs @ c) k) t"
        by (rule wp_mono [OF write_file_fresh [OF Cons.prems]]) (auto split: sum.splits)
      show "wp (bounded_writes k cs (w + length c))
          (\<lambda>r u. case r of Inl _ \<Rightarrow> grows s u | Inr _ \<Rightarrow> fresh_file s u q (bs @ c @ concat cs) k) u"
        if "fresh_file s u q (bs @ c) k" for u
        using Cons.IH [OF that] unfolding append_assoc .
    qed
    with False show ?thesis unfolding bounded_writes.simps concat.simps by (simp del: wp_seqM)
  qed
qed

lemma prepare_effect:
  fixes s :: "'z disk_scheme"
  assumes "inode_of s q = None"
  shows "wp (prepare_fixed_version enc q) (\<lambda>r t. grows s t \<and> (\<forall>x. r = Inr x \<longrightarrow> holds q (Some (concat (fst enc))) t)) s"
    (is "wp _ ?Q s")
  unfolding prepare_fixed_version_def
proof (rule wp_seqI)
  show "wp mkdir (\<lambda>r t. case r of Inl e \<Rightarrow> ?Q (Inl e) t | Inr _ \<Rightarrow> d_names t = d_names s \<and> d_inodes t = d_inodes s) s"
    unfolding mkdir_def by (rule wp_callI) (auto simp: grows_def durable_def)
  fix t :: "'z disk_scheme"
  assume t: "d_names t = d_names s \<and> d_inodes t = d_inodes s"
  have "wp (open_create True q CHECKPOINT_FILE_MODE) (\<lambda>r u. case r of Inl _ \<Rightarrow> grows s u | Inr k \<Rightarrow> fresh_file s u q [] k) t"
    using assms t unfolding open_create_def
    by (intro wp_callI) (auto simp: wp_def add_inode_def grows_def durable_def nth_append update_conv' fresh_file_def)
  then have o: "wp (open_create True q CHECKPOINT_FILE_MODE) (\<lambda>r u. case r of Inl e \<Rightarrow> ?Q (Inl e) u | Inr k \<Rightarrow> fresh_file s u q [] k) t"
    by (rule wp_mono) (auto split: sum.splits)
  let ?body = "\<lambda>k. seqM (fchmod k CHECKPOINT_FILE_MODE) (seqM (checkpoint_stream k enc) (fsync k))"
  have body: "wp (?body k) (\<lambda>r u. case r of Inr _ \<Rightarrow> grows s u \<and> holds q (Some (concat (fst enc))) u | Inl _ \<Rightarrow> grows s u) u"
    if u: "fresh_file s u q [] k" for k u
  proof (rule wp_seqI)
    show "wp (fchmod k CHECKPOINT_FILE_MODE) (\<lambda>r v. case r of Inl e \<Rightarrow> (case Inl e of
          Inr _ \<Rightarrow> grows s v \<and> holds q (Some (concat (fst enc))) v | Inl _ \<Rightarrow> grows s v) | Inr _ \<Rightarrow> fresh_file s v q [] k) u"
      using u unfolding fchmod_def
      by (auto intro!: wp_callI simp: fresh_file_def grows_def durable_def nth_list_update)
    fix v :: "'z disk_scheme"
    assume v: "fresh_file s v q [] k"
    show "wp (seqM (checkpoint_stream k enc) (fsync k))
        (\<lambda>r u. case r of Inr _ \<Rightarrow> grows s u \<and> holds q (Some (concat (fst enc))) u | Inl _ \<Rightarrow> grows s u) v"
    proof (rule wp_seqI)
      show "wp (checkpoint_stream k enc) (\<lambda>r v. case r of Inl e \<Rightarrow> (case Inl e of
            Inr _ \<Rightarrow> grows s v \<and> holds q (Some (concat (fst enc))) v | Inl _ \<Rightarrow> grows s v)
          | Inr _ \<Rightarrow> fresh_file s v q (concat (fst enc)) k) v"
        unfolding checkpoint_stream_def wp_seqM
        by (rule wp_mono [OF bounded_writes_fresh [OF v, simplified]])
          (auto simp: fresh_file_def split: sum.splits option.splits)
      show "wp (fsync k) (\<lambda>r u. case r of Inr _ \<Rightarrow> grows s u \<and> holds q (Some (concat (fst enc))) u | Inl _ \<Rightarrow> grows s u) u"
        if "fresh_file s u q (concat (fst enc)) k" for u
        using that unfolding fsync_def
        by (auto intro!: wp_callI simp: holds_def contents_def fresh_file_def grows_def durable_def nth_list_update)
    qed
  qed
  have un: "wp (unlink q) (\<lambda>r v. grows s v) u" if "grows s u" for u :: "'z disk_scheme"
    using gr.R_trans [OF that obeysD [OF same_grows [OF keeps_files_calls(10)]]] by (simp add: wp_def)
  show "wp (bindM (open_create True q CHECKPOINT_FILE_MODE) (\<lambda>fd.
      seqM (exceptM (?body fd) (\<lambda>e. seqM (unlink q) (raise e))) (ret q))) ?Q t"
  proof (rule wp_bindI [OF o])
    fix k u
    assume "fresh_file s u q [] k"
    from body [OF this] show "wp (seqM (exceptM (?body k) (\<lambda>e. seqM (unlink q) (raise e))) (ret q)) ?Q u"
      unfolding wp_seqM [of "exceptM (?body k) (\<lambda>e. seqM (unlink q) (raise e))"] wp_exceptM
      by (rule wp_mono) (auto split: sum.splits intro: wp_mono [OF un])
  qed
qed

section \<open>A whole write\<close>

text \<open>The parts that only keep the books of the manager do not touch the disk.\<close>

definition on_disk :: "manager \<Rightarrow> directory \<times> directory list \<times> inode list \<times> string \<times> string" where
  "on_disk m = (d_names m, d_past m, d_inodes m, m_checkpoint_file m, m_pid m)"

interpretation bk: frame "same on_disk"
  by (rule frame_same)

lemma finallyP_keeps: "obeys (same on_disk) k \<Longrightarrow> obeys (same on_disk) f \<Longrightarrow> obeys (same on_disk) (finallyP k f)"
  unfolding obeys_def same_def finallyP_def by (auto split: prod.splits sum.splits) (metis snd_conv)+

lemma books_primitive:
  "obeys (same on_disk) (set_world f)" "obeys (same on_disk) bump_revision" "obeys (same on_disk) next_sequence"
  "obeys (same on_disk) (note_failed n)" "obeys (same on_disk) notify_service"
  "obeys (same on_disk) (modify (\<lambda>m. m\<lparr>m_flushes := f1 m\<rparr>))"
  "obeys (same on_disk) (modify (\<lambda>m. m\<lparr>m_last_checkpoint_at := f2 m, m_last_success_sequence := f3 m\<rparr>))"
  "obeys (same on_disk) (modify (\<lambda>m. m\<lparr>m_last_outcome_sequence := f4 m, m_checkpoint_failure_reason := f5 m\<rparr>))"
  by (auto simp: obeys_def same_def on_disk_def prog_defs set_world_def bump_revision_def next_sequence_def note_failed_def
      notify_service_def split: prod.splits sum.splits)

lemma record_outcome_books: "obeys (same on_disk) (record_outcome n success published saved_at reason)"
  unfolding record_outcome_def apply_outcome_def Let_def
  by (intro bk.obeys_withState bk.obeys_seqM finallyP_keeps bk.obeys_whenM bk.obeys_if bk.obeys_ret bk.obeys_sum bk.obeys_raise
      books_primitive)

lemma fixed_failure_books: "obeys (same on_disk) (fixed_failure n e)"
  unfolding fixed_failure_def by (intro bk.obeys_seqM books_primitive record_outcome_books)

lemma books_settles: "obeys (same on_disk) k \<Longrightarrow> settles q C (after (k m)) = settles q C m"
  by (simp add: obeys_def same_def on_disk_def settles_def candidates_def durable_def)

definition sequences_ok :: "manager \<Rightarrow> bool" where
  "sequences_ok m \<longleftrightarrow> m_last_attempted_sequence m \<le> m_next_sequence m \<and> m_newer_failed_sequence m \<le> m_next_sequence m"

lemma publish_fresh:
  assumes "m_last_attempted_sequence m < n" and "m_newer_failed_sequence m < n"
    and "outcome (publish_prepared n p m) = Inr (success, published, reason)" and "success"
  shows "published \<and> reason = None"
proof -
  have "superseded n m = None" using assms(1,2) by (simp add: superseded_def)
  with assms(3,4) show ?thesis
    by (auto simp: publish_prepared_def Let_def withState_def outcome_ret
        dest!: outcome_seq outcome_bind outcome_except split: option.splits)
qed

lemma more_eq:
  assumes "same disk.more m t"
  shows "m_checkpoint_file t = m_checkpoint_file m" "m_pid t = m_pid m"
    "m_last_attempted_sequence t = m_last_attempted_sequence m" "m_newer_failed_sequence t = m_newer_failed_sequence m"
  using assms by (cases m; cases t; simp add: same_def)+

lemma bounded_writes_keeps [keeps]:
  "obeys (keeps_name q) (bounded_writes k chunks w)" "obeys (same disk.more) (bounded_writes k chunks w)"
  by (induction chunks arbitrary: w) (auto intro!: nm.disk_intros mo.disk_intros nm.obeys_raise mo.obeys_raise keeps)

lemma prepare_keeps:
  "q \<noteq> r \<Longrightarrow> obeys (keeps_name q) (prepare_fixed_version enc r)" "obeys (same disk.more) (prepare_fixed_version enc r)"
  unfolding prepare_fixed_version_def checkpoint_stream_def
  by (intro nm.disk_intros mo.disk_intros nm.obeys_raise mo.obeys_raise nm.obeys_option mo.obeys_option keeps; assumption)+

lemma prepare_ready:
  fixes m :: manager
  defines "file \<equiv> m_checkpoint_file m"
  assumes "ready m old b" and "inode_of m p = None" and "p \<notin> {file, backup_file file, temp_path (m_pid m) (backup_file file)}"
  shows "wp (prepare_fixed_version enc p) (\<lambda>r t. ready t old b \<and> same disk.more m t
    \<and> (\<forall>x. r = Inr x \<longrightarrow> holds p (Some (concat (fst enc))) t)) m"
proof -
  let ?t = "after (prepare_fixed_version enc p m)"
  have more: "same disk.more m ?t" by (rule obeysD [OF prepare_keeps(2)])
  have k: "keeps_name q m ?t" if "q \<noteq> p" for q by (rule obeysD [OF prepare_keeps(1) [OF that]])
  have e: "wp (prepare_fixed_version enc p) (\<lambda>r t. grows m t \<and> (\<forall>x. r = Inr x \<longrightarrow> holds p (Some (concat (fst enc))) t)) m"
    by (rule prepare_effect [OF assms(3)])
  then have g: "grows m ?t" by (simp add: wp_def)
  have "settles q C ?t" if "settles q C m" and "q \<noteq> p" for q C
    using settles_grows [OF that(1) k [OF that(2)] g] .
  moreover have "inode_of ?t q = inode_of m q" if "q \<noteq> p" for q
    using k [OF that] by (simp add: keeps_name_def)
  ultimately have "ready ?t old b"
    using assms(2,4) unfolding ready_def more_eq [OF more] file_def by auto
  with more e show ?thesis by (simp add: wp_def)
qed

lemma books_published:
  assumes "obeys (same on_disk) k"
  shows "published_safely file old b new d (after (k t)) = published_safely file old b new d t"
  using books_settles [OF assms] by (simp add: published_safely_def safe_def)

lemma publish_record_safe:
  fixes t :: manager
  defines "file \<equiv> m_checkpoint_file t"
  assumes "ready t old b" and "holds p (Some new) t" and "p \<notin> {file, backup_file file, temp_path (m_pid t) (backup_file file)}"
    and "m_last_attempted_sequence t < n" "m_newer_failed_sequence t < n"
  shows "wp (bindM (publish_prepared n p) (\<lambda>(success, published, reason).
        seqM (record_outcome n success published now reason) (ret success))) (\<lambda>r t. published_safely file old b new (r = Inr True) t) t"
proof (rule wp_bindI)
  let ?P = "published_safely file old b new"
  have ok: "wp (publish_prepared n p) (\<lambda>r t. ?P (r = Inr (True, True, None)) t) t"
    using publish_prepared_safe [OF assms(2,3)] assms(4) by (simp add: file_def)
  have fresh: "success \<Longrightarrow> published \<and> reason = None"
    if "outcome (publish_prepared n p t) = Inr (success, published, reason)" for success published reason
    using publish_fresh [OF assms(5,6) that] by blast
  show "wp (publish_prepared n p) (\<lambda>r t. case r of Inl e \<Rightarrow> ?P (Inl e = Inr True) t
      | Inr x \<Rightarrow> (case x of (success, published, reason) \<Rightarrow> ?P success t)) t"
    using ok fresh by (auto simp: wp_def published_safely_def split: sum.splits prod.splits)
  show "wp (case x of (success, published, reason) \<Rightarrow> seqM (record_outcome n success published now reason) (ret success))
      (\<lambda>r t. ?P (r = Inr True) t) u"
    if "case x of (success, published, reason) \<Rightarrow> ?P success u" for x u
  proof -
    obtain success published reason where x: "x = (success, published, reason)" by (cases x)
    have "?P success (after (seqM (record_outcome n success published now reason) (ret success) u))"
      using that x by (subst books_published) (auto intro: bk.obeys_seqM bk.obeys_ret record_outcome_books)
    then show ?thesis
      unfolding x prod.case wp_def by (auto simp: published_safely_def outcome_ret dest!: outcome_seq)
  qed
qed

lemma write_fixed_safe:
  fixes m :: manager and env
  defines "file \<equiv> m_checkpoint_file m"
  defines "p \<equiv> prepared_path file (m_pid m) (nat_digits (m_next_sequence m + 1)) (we_hex env)"
  assumes "ready m old b" and "sequences_ok m" and "we_pin env = Inr enc" and "inode_of m p = None"
  shows "wp (write_fixed env) (\<lambda>r t. published_safely file old b (concat (fst enc)) (r = Inr True) t) m"
proof -
  let ?n = "m_next_sequence m + 1" and ?P = "published_safely file old b (concat (fst enc))"
  let ?m = "m\<lparr>m_next_sequence := ?n\<rparr>"
  have r: "ready ?m old b" "inode_of ?m p = None"
    using assms(3,6) by (simp_all add: ready_def settles_def candidates_def durable_def)
  have p: "p \<notin> {file, backup_file file, temp_path (m_pid m) (backup_file file)}" by (simp add: p_def)
  have prep: "wp (prepare_fixed_version enc p) (\<lambda>r t. ready t old b \<and> same disk.more ?m t
      \<and> (\<forall>x. r = Inr x \<longrightarrow> holds p (Some (concat (fst enc))) t)) ?m"
    using prepare_ready [OF r(1,2), of enc] p by (simp add: file_def)
  have notyet: "?P False t" if "ready t old b" "same disk.more ?m t" for t
    using that safeI unfolding ready_def published_safely_def more_eq [OF that(2)] by (auto simp: file_def)
  have publish: "wp (bindM (publish_prepared ?n p) (\<lambda>(success, published, reason).
        seqM (record_outcome ?n success published (we_now env) reason) (ret success))) (\<lambda>r t. ?P (r = Inr True) t) t"
    if t: "ready t old b" "same disk.more ?m t" "holds p (Some (concat (fst enc))) t" for t
    using publish_record_safe [OF t(1,3), of ?n "we_now env"] p more_eq [OF t(2)] assms(4) by (simp add: file_def sequences_ok_def)
  have "wp (bindM (exceptM (seqM (prepare_fixed_version enc p) (ret None)) (\<lambda>e. seqM (fixed_failure ?n e) (ret (Some False))))
      (\<lambda>failed. case failed of Some result \<Rightarrow> ret result
        | None \<Rightarrow> bindM (publish_prepared ?n p) (\<lambda>(success, published, reason).
            seqM (record_outcome ?n success published (we_now env) reason) (ret success)))) (\<lambda>r t. ?P (r = Inr True) t) ?m"
  proof (rule wp_bindI)
    let ?A = "\<lambda>t. ready t old b \<and> same disk.more ?m t \<and> holds p (Some (concat (fst enc))) t"
    have "wp (exceptM (seqM (prepare_fixed_version enc p) (ret None)) (\<lambda>e. seqM (fixed_failure ?n e) (ret (Some False))))
        (\<lambda>r t. case r of Inl _ \<Rightarrow> ?P False t | Inr x \<Rightarrow> x = None \<and> ?A t \<or> x = Some False \<and> ?P False t) ?m"
    proof (rule wp_try)
      show "wp (prepare_fixed_version enc p) (\<lambda>r t. case r of Inr _ \<Rightarrow> ?A t | Inl _ \<Rightarrow> ?P False t) ?m"
        by (rule wp_mono [OF prep]) (auto split: sum.splits intro: notyet)
      show "wp (seqM (fixed_failure ?n e) (ret (Some False))) (\<lambda>r t. ?P False t \<and> (\<forall>x. r = Inr x \<longrightarrow> x = Some False)) t"
        if "?P False t" for e t
        using that books_published [OF bk.obeys_seqM [OF fixed_failure_books bk.obeys_ret, of ?n e "Some False"]]
        by (auto simp: wp_def outcome_ret dest!: outcome_seq)
    qed
    then show "wp (exceptM (seqM (prepare_fixed_version enc p) (ret None)) (\<lambda>e. seqM (fixed_failure ?n e) (ret (Some False))))
        (\<lambda>r t. case r of Inl e \<Rightarrow> ?P (Inl e = Inr True) t | Inr x \<Rightarrow> x = None \<and> ?A t \<or> x = Some False \<and> ?P False t) ?m"
      by (rule wp_mono) (auto split: sum.splits)
    show "wp (case x of Some result \<Rightarrow> ret result
        | None \<Rightarrow> bindM (publish_prepared ?n p) (\<lambda>(success, published, reason).
            seqM (record_outcome ?n success published (we_now env) reason) (ret success))) (\<lambda>r t. ?P (r = Inr True) t) t"
      if "x = None \<and> ?A t \<or> x = Some False \<and> ?P False t" for x t
      using that publish [of t] by (auto simp del: wp_bindM)
  qed
  moreover have "write_fixed env m = bindM (exceptM (seqM (prepare_fixed_version enc p) (ret None)) (\<lambda>e. seqM (fixed_failure ?n e) (ret (Some False))))
      (\<lambda>failed. case failed of Some result \<Rightarrow> ret result
        | None \<Rightarrow> bindM (publish_prepared ?n p) (\<lambda>(success, published, reason).
            seqM (record_outcome ?n success published (we_now env) reason) (ret success))) ?m"
    unfolding write_fixed_def pin_fixed_for_write_def next_sequence_def assms(5) p_def file_def
    by (simp cong del: option.case_cong_weak add: bindM_def [of "bindM _ _"] bindM_def [of "seqM _ _"] seqM_def [of "modify _"] bindM_def [of "modify _"] modify_def
        gets_def ret_def [of "(_, _, _)"] withState_def Let_def)
  ultimately show ?thesis unfolding wp_def by metis
qed

section \<open>The contract of a writer\<close>

text \<open>What the recovery relies on: a writer whose preconditions hold leaves both files safe. The writer of the server and
  the writer of a standalone manager both keep it.\<close>

locale atomic_writer =
  fixes pre :: "manager \<Rightarrow> bool" and writer :: "'r mprog" and text_of :: "manager \<Rightarrow> string"
  assumes atomic: "pre m \<Longrightarrow> ready m old b \<Longrightarrow> wp writer (\<lambda>r t. safe (m_checkpoint_file m) old b (text_of m) t) m"
begin

lemma survives_power_loss:
  assumes "pre m" and "ready m old b"
  shows "contents (power_loss n junk (after (writer m))) (m_checkpoint_file m) \<in> {old, Some (text_of m)}"
    and "contents (power_loss n junk (after (writer m))) (backup_file (m_checkpoint_file m)) \<in> backups b old"
  using atomic [OF assms] settles_power_loss [of _ _ "after (writer m)" n junk] by (simp_all only: wp_def safe_def)

lemma never_without_snapshot:
  assumes "pre m" and "ready m (Some old) b"
  shows "contents (power_loss n junk (after (writer m))) (m_checkpoint_file m) \<noteq> None"
  using survives_power_loss(1) [OF assms, of n junk] by auto

end

interpretation fixed_writer: atomic_writer
  "\<lambda>m. sequences_ok m \<and> we_pin env = Inr enc \<and> inode_of m (prepared_path (m_checkpoint_file m) (m_pid m)
     (nat_digits (m_next_sequence m + 1)) (we_hex env)) = None"
  "write_fixed env" "\<lambda>_. concat (fst enc)" for env enc
  by unfold_locales (rule wp_mono [OF write_fixed_safe], auto simp: published_safely_def)

interpretation captured_writer: atomic_writer
  "\<lambda>m. inode_of m (temp_path (m_pid m) (m_checkpoint_file m)) = None" "write_payload payload" "\<lambda>_. payload" for payload
  by unfold_locales (rule wp_mono [OF write_payload_safe], auto)

end
