(* ===== verification/Checkpoint_Restore.thy ===== *)
theory Checkpoint_Restore
  imports Checkpoint_Safety
begin

text \<open>
  The reading half of \<^verbatim>\<open>server/checkpoint.py\<close>: at startup the checkpoint file and then its backup are tried, the first
  usable one replaces the bunch, and the service starts halted for recovery. The decoder of the text, the validation of
  the document and the construction of the tree from it are fields of \<open>restore_env\<close>.
\<close>

section \<open>One snapshot\<close>

record restore_env =
  re_decode :: "string \<Rightarrow> json option"
  re_valid :: "json \<Rightarrow> bool"
  re_rebuild :: "json \<Rightarrow> world option"
  re_isoformat :: "string \<Rightarrow> string"

definition FORMAT_VERSION :: int where "FORMAT_VERSION = 3"

definition json_field :: "string \<Rightarrow> json \<Rightarrow> json option" where
  "json_field k j = (case j of JObj members \<Rightarrow> map_of members k | _ \<Rightarrow> None)"

definition json_text :: "json option \<Rightarrow> string option" where
  "json_text j = (case j of Some (JStr t) \<Rightarrow> Some t | _ \<Rightarrow> None)"

definition default_text :: "string option \<Rightarrow> string" where
  "default_text t = (case t of Some t \<Rightarrow> t | None \<Rightarrow> [])"

definition snapshot_path_present :: "string \<Rightarrow> bool mprog" where
  "snapshot_path_present path = exceptM (seqM (lstat path) (ret True)) (\<lambda>e. ret (e \<noteq> OSError ENOENT))"

definition read_text :: "string \<Rightarrow> string mprog" where
  "read_text path = bindM (open_read path) read_file"

definition usable_document :: "restore_env \<Rightarrow> json \<Rightarrow> bool" where
  "usable_document env j = (case j of
      JObj members \<Rightarrow> map_of members ''format_version'' = Some (JInt FORMAT_VERSION)
        \<and> (case map_of members ''definition'' of Some (JObj _) \<Rightarrow> True | _ \<Rightarrow> False) \<and> re_valid env j
    | _ \<Rightarrow> False)"

definition load_snapshot :: "restore_env \<Rightarrow> string \<Rightarrow> json option mprog" where
  "load_snapshot env path = bindM
     (exceptM (bindM (read_text path) (\<lambda>text. case re_decode env text of None \<Rightarrow> raise OtherError | Some j \<Rightarrow> ret (Some j)))
       (\<lambda>_. ret None))
     (\<lambda>parsed. ret (case parsed of Some j \<Rightarrow> if usable_document env j then Some j else None | None \<Rightarrow> None))"

section \<open>Restoring into the bunch\<close>

fun count_nodes :: "shape \<Rightarrow> nat" where
  "count_nodes (Shape ks) = 1 + sum_list (map count_nodes ks)"

text \<open>\<open>bunch.__dict__.update(vars(candidate))\<close> with the deployment of this process put back.\<close>

definition install_candidate :: "world \<Rightarrow> world \<Rightarrow> world" where
  "install_candidate c w = w\<lparr>w_shapes := w_shapes c, w_attrs := w_attrs c, w_flows := w_flows c,
     w_bunch_parameters := w_bunch_parameters c, w_server_state := w_server_state c,
     w_service_stopping := w_service_stopping c\<rparr>"

definition restore_into_bunch :: "restore_env \<Rightarrow> json \<Rightarrow> (nat \<times> nat) mprog" where
  "restore_into_bunch env snapshot = (case re_rebuild env snapshot of
      None \<Rightarrow> raise OtherError
    | Some c \<Rightarrow> seqM (set_world (install_candidate c)) (gets (\<lambda>m.
        (length (w_flows (m_world m)),
         sum_list (map (\<lambda>(_, k). count_nodes (subtree (m_world m) [k])) (w_flows (m_world m)))))))"

definition iter_restored_tasks :: "world \<Rightarrow> pos list" where
  "iter_restored_tasks w = concat (map (\<lambda>(_, k). filter (is_task w) (walk (subtree w [k]) [k])) (w_flows w))"

definition in_flight_tasks :: "world \<Rightarrow> pos list" where
  "in_flight_tasks w = filter (\<lambda>p. status_of w p \<in> {submitted, active}) (iter_restored_tasks w)"

datatype address_check = Address_same | Address_moved | Address_affects "string list"

definition verify_server_address :: "json \<Rightarrow> world \<Rightarrow> address_check" where
  "verify_server_address snapshot w =
     (let address = json_field ''source_address'' snapshot;
          part = (\<lambda>k. json_text (case address of Some a \<Rightarrow> json_field k a | None \<Rightarrow> None)) in
      if part ''host'' = Some (w_host w) \<and> part ''port'' = Some (w_port w) then Address_same
      else if in_flight_tasks w = [] then Address_moved
      else Address_affects (map (node_path w) (in_flight_tasks w)))"

definition with_recovery :: "halt_cause list \<Rightarrow> halt_cause list" where
  "with_recovery causes = (if recovery \<in> set causes then causes else causes @ [recovery])"

definition add_recovery :: "unit mprog" where
  "add_recovery = withState (\<lambda>m.
     let causes' = with_recovery (halt_causes_of m) in
     case from_causes causes' of
       Inl _ \<Rightarrow> raise OtherError
     | Inr st \<Rightarrow> seqM (set_world (\<lambda>w. w\<lparr>w_server_state := st\<rparr>))
         (modify (\<lambda>m. if checkpoint_failure \<in> set causes'
            then m\<lparr>m_checkpoint_failure_reason := Some ''previous checkpoint failure''\<rparr> else m)))"

definition note_restored :: "restore_env \<Rightarrow> json \<Rightarrow> bool \<Rightarrow> nat \<times> nat \<Rightarrow> unit mprog" where
  "note_restored env snapshot primary counts = modify (\<lambda>m.
     let saved_at = re_isoformat env (default_text (json_text (json_field ''saved_at'' snapshot)));
         state = Option.bind (json_field ''runtime'' snapshot) (json_field ''server_state'') in
     m\<lparr>m_last_checkpoint_at := Some saved_at,
       m_restore_summary := Some \<lparr>rs_primary = primary, rs_saved_at = saved_at, rs_flow_count = fst counts,
         rs_node_count = snd counts, rs_in_flight_count = length (in_flight_tasks (m_world m)),
         rs_snapshot_status = default_text (json_text (Option.bind state (json_field ''status''))),
         rs_snapshot_status_reason = json_text (Option.bind state (json_field ''status_reason'')),
         rs_effective = w_server_state (m_world m)\<rparr>\<rparr>)"

definition restore_from :: "restore_env \<Rightarrow> string \<Rightarrow> bool mprog" where
  "restore_from env path = bindM (snapshot_path_present path) (\<lambda>present.
     if \<not> present then ret False
     else bindM (load_snapshot env path) (\<lambda>snapshot. case snapshot of
        None \<Rightarrow> ret False
      | Some j \<Rightarrow> bindM (exceptM (bindM (restore_into_bunch env j) (\<lambda>counts. ret (Some counts))) (\<lambda>_. ret None)) (\<lambda>counts.
          case counts of
            None \<Rightarrow> ret False
          | Some counts \<Rightarrow> seqM add_recovery
              (withState (\<lambda>m. seqM (note_restored env j (path = m_checkpoint_file m) counts) (ret True))))))"

definition restore :: "restore_env \<Rightarrow> bool mprog" where
  "restore env =
     seqM (modify (\<lambda>m. m\<lparr>m_restore_summary := None, m_last_checkpoint_at := None, m_checkpoint_failure_reason := None\<rparr>))
     (withState (\<lambda>m. let file = m_checkpoint_file m; backup = backup_file file in
       bindM (bindM (snapshot_path_present file) (\<lambda>there. if there then ret True else snapshot_path_present backup)) (\<lambda>recovery_mode.
       bindM (restore_from env file) (\<lambda>restored. if restored then ret True else
       bindM (restore_from env backup) (\<lambda>restored. if restored then ret True else
         if recovery_mode then raise CheckpointRestoreError else ret False)))))"

section \<open>The fallback chain\<close>

definition usable_text :: "restore_env \<Rightarrow> string \<Rightarrow> (json \<times> world) option" where
  "usable_text env text = (case re_decode env text of
      None \<Rightarrow> None
    | Some j \<Rightarrow> if usable_document env j then map_option (\<lambda>c. (j, c)) (re_rebuild env j) else None)"

definition snapshot_at :: "restore_env \<Rightarrow> manager \<Rightarrow> string \<Rightarrow> (json \<times> world) option" where
  "snapshot_at env m q = Option.bind (contents m q) (usable_text env)"

definition recovered :: "world \<Rightarrow> world \<Rightarrow> world" where
  "recovered c w = (install_candidate c w)\<lparr>w_server_state := state_of_causes (with_recovery (ss_halt_causes (w_server_state c)))\<rparr>"

text \<open>A rebuilt bunch has a service state that passed \<open>ServerState.from_dict\<close>, which refuses repeated causes.\<close>

definition rebuild_ok :: "restore_env \<Rightarrow> bool" where
  "rebuild_ok env \<longleftrightarrow> (\<forall>j c. re_rebuild env j = Some c \<longrightarrow> distinct (ss_halt_causes (w_server_state c)))"

lemma call_quiet: "d_fates s = [] \<Longrightarrow> call torn act s = act s"
  by (simp add: call_def)

lemma present_quiet:
  "d_fates m = [] \<Longrightarrow> snapshot_path_present q m = (Inr (contents m q \<noteq> None), m)"
  by (simp add: snapshot_path_present_def lstat_def exceptM_def seqM_def bindM_def call_quiet liftE_def ret_def contents_def
      split: option.splits)

lemma load_quiet:
  "d_fates m = [] \<Longrightarrow> load_snapshot env q m = (Inr (Option.bind (contents m q) (\<lambda>t. Option.bind (re_decode env t)
     (\<lambda>j. if usable_document env j then Some j else None))), m)"
  by (simp add: load_snapshot_def read_text_def open_read_def read_file_def exceptM_def bindM_def call_quiet prog_defs
      contents_def split: option.splits)

lemma restore_into_quiet:
  "restore_into_bunch env j m = (case re_rebuild env j of None \<Rightarrow> (Inl OtherError, m)
     | Some c \<Rightarrow> (let w = install_candidate c (m_world m) in
         (Inr (length (w_flows w), sum_list (map (\<lambda>(_, k). count_nodes (subtree w [k])) (w_flows w))), m\<lparr>m_world := w\<rparr>)))"
  by (simp add: restore_into_bunch_def prog_defs set_world_def Let_def split: option.splits)

lemma add_recovery_effect:
  assumes "distinct (halt_causes_of m)"
  shows "add_recovery m = (Inr (), m\<lparr>m_world := (m_world m)\<lparr>w_server_state := state_of_causes (with_recovery (halt_causes_of m))\<rparr>,
     m_checkpoint_failure_reason := (if checkpoint_failure \<in> set (halt_causes_of m)
       then Some ''previous checkpoint failure'' else m_checkpoint_failure_reason m)\<rparr>)"
proof -
  let ?c = "with_recovery (halt_causes_of m)"
  have "from_causes ?c = Inr (state_of_causes ?c)"
    using assms from_causes_distinct [of ?c] by (auto simp: state_of_causes_def with_recovery_def)
  moreover have "checkpoint_failure \<in> set ?c \<longleftrightarrow> checkpoint_failure \<in> set (halt_causes_of m)"
    by (simp add: with_recovery_def)
  ultimately show ?thesis
    by (simp add: add_recovery_def Let_def prog_defs set_world_def)
qed

lemma restore_from_unusable:
  assumes "d_fates m = []" and "snapshot_at env m q = None"
  shows "restore_from env q m = (Inr False, m)"
  using assms
  by (auto simp: restore_from_def bindM_def present_quiet load_quiet snapshot_at_def usable_text_def ret_def exceptM_def
      restore_into_quiet split: option.splits if_splits bind_splits)

lemma restore_from_usable:
  assumes "d_fates m = []" and "snapshot_at env m q = Some (j, c)" and "rebuild_ok env"
  obtains t where "restore_from env q m = (Inr True, t)" and "m_world t = recovered c (m_world m)"
    and "\<exists>s. m_restore_summary t = Some s \<and> rs_primary s = (q = m_checkpoint_file m)"
proof -
  have c: "re_rebuild env j = Some c" and there: "contents m q \<noteq> None"
    and load: "load_snapshot env q m = (Inr (Some j), m)"
    using assms(1,2) by (auto simp: load_quiet snapshot_at_def usable_text_def split: option.splits if_splits bind_splits)
  let ?m = "m\<lparr>m_world := install_candidate c (m_world m)\<rparr>"
  have "distinct (halt_causes_of ?m)"
    using c assms(3) by (simp add: halt_causes_of_def install_candidate_def rebuild_ok_def)
  note rec = add_recovery_effect [OF this]
  have w: "(m_world ?m)\<lparr>w_server_state := state_of_causes (with_recovery (halt_causes_of ?m))\<rparr> = recovered c (m_world m)"
    by (simp add: recovered_def with_recovery_def halt_causes_of_def install_candidate_def)
  show ?thesis
    by (rule that [of "after (restore_from env q m)"])
      (simp_all add: restore_from_def bindM_def seqM_def present_quiet [OF assms(1)] there load exceptM_def restore_into_quiet c
        Let_def ret_def rec w [simplified] withState_def note_restored_def modify_def)
qed

lemma restore_result:
  fixes m :: manager
  defines "file \<equiv> m_checkpoint_file m"
  assumes "d_fates m = []" and "rebuild_ok env"
  shows "case (snapshot_at env m file, snapshot_at env m (backup_file file)) of
      (Some (j, c), _) \<Rightarrow> \<exists>t s. restore env m = (Inr True, t) \<and> m_world t = recovered c (m_world m)
         \<and> m_restore_summary t = Some s \<and> rs_primary s
    | (None, Some (j, c)) \<Rightarrow> \<exists>t s. restore env m = (Inr True, t) \<and> m_world t = recovered c (m_world m)
         \<and> m_restore_summary t = Some s \<and> \<not> rs_primary s
    | (None, None) \<Rightarrow> outcome (restore env m) =
         (if contents m file = None \<and> contents m (backup_file file) = None then Inr False else Inl CheckpointRestoreError)"
proof -
  let ?m = "m\<lparr>m_restore_summary := None, m_last_checkpoint_at := None, m_checkpoint_failure_reason := None\<rparr>"
  have q: "d_fates ?m = []" using assms(2) by simp
  have eq: "snapshot_at env ?m q = snapshot_at env m q" "contents ?m q = contents m q" for q
    by (simp_all add: snapshot_at_def contents_def)
  have r: "restore env m = bindM (restore_from env file) (\<lambda>restored. if restored then ret True else
      bindM (restore_from env (backup_file file)) (\<lambda>restored. if restored then ret True else
        if contents m file \<noteq> None \<or> contents m (backup_file file) \<noteq> None then raise CheckpointRestoreError else ret False)) ?m"
    unfolding restore_def
    by (simp add: seqM_def bindM_def [of "modify _"] modify_def withState_def Let_def bindM_def [of "bindM _ _"]
        bindM_def [of "snapshot_path_present _"] present_quiet [OF q] eq ret_def [of True] file_def cong: if_cong)
  show ?thesis
  proof (cases "snapshot_at env m file")
    case (Some jc)
    obtain j c where jc: "jc = (j, c)" by (cases jc)
    obtain t where "restore_from env file ?m = (Inr True, t)" "m_world t = recovered c (m_world ?m)"
      "\<exists>s. m_restore_summary t = Some s \<and> rs_primary s = (file = m_checkpoint_file ?m)"
      using restore_from_usable [OF q _ assms(3), of "file" j c] Some jc eq by auto
    with r Some jc show ?thesis by (auto simp: bindM_def ret_def file_def)
  next
    case None
    then have 1: "restore_from env file ?m = (Inr False, ?m)" using restore_from_unusable [OF q] eq by simp
    show ?thesis
    proof (cases "snapshot_at env m (backup_file file)")
      case (Some jc)
      obtain j c where jc: "jc = (j, c)" by (cases jc)
      obtain t where "restore_from env (backup_file file) ?m = (Inr True, t)" "m_world t = recovered c (m_world ?m)"
        "\<exists>s. m_restore_summary t = Some s \<and> rs_primary s = (backup_file file = m_checkpoint_file ?m)"
        using restore_from_usable [OF q _ assms(3), of "backup_file file" j c] Some jc eq by auto
      with r 1 Some None jc show ?thesis by (auto simp: bindM_def ret_def file_def)
    next
      case None2: None
      then have "restore_from env (backup_file file) ?m = (Inr False, ?m)" using restore_from_unusable [OF q] eq by simp
      with r 1 None None2 show ?thesis by (auto simp: bindM_def ret_def raise_def)
    qed
  qed
qed

section \<open>Whatever the disk does, a restore that does not succeed changes nothing\<close>

definition world_kept :: "manager \<Rightarrow> manager \<Rightarrow> bool" where
  "world_kept m t \<longleftrightarrow> m_world t = m_world m"

lemma world_kept_more: "same disk.more m t \<Longrightarrow> world_kept m t"
  by (cases m; cases t; simp add: same_def world_kept_def)

lemma present_more: "obeys (same disk.more) (snapshot_path_present q)"
  unfolding snapshot_path_present_def by (intro mo.disk_intros keeps)

lemma load_more: "obeys (same disk.more) (load_snapshot env q)"
  unfolding load_snapshot_def read_text_def by (intro mo.disk_intros mo.obeys_option mo.obeys_raise keeps)

lemma restore_from_all_or_nothing:
  assumes "rebuild_ok env" and "outcome (restore_from env q s) \<noteq> Inr True"
  shows "world_kept s (after (restore_from env q s))"
proof -
  obtain r1 s1 where 1: "snapshot_path_present q s = (r1, s1)" by fastforce
  obtain r2 s2 where 2: "load_snapshot env q s1 = (r2, s2)" by fastforce
  have w: "world_kept s s1" "world_kept s s2"
    using obeysD [OF present_more, of s q] obeysD [OF load_more, of s1 env q] 1 2 world_kept_more
    by (auto simp: world_kept_def)
  show ?thesis
  proof (cases "r1 = Inr True \<and> (\<exists>j c. r2 = Inr (Some j) \<and> re_rebuild env j = Some c)")
    case True
    then obtain j c where r: "r1 = Inr True" "r2 = Inr (Some j)" "re_rebuild env j = Some c" by blast
    have "distinct (halt_causes_of (s2\<lparr>m_world := install_candidate c (m_world s2)\<rparr>))"
      using r(3) assms(1) by (simp add: halt_causes_of_def install_candidate_def rebuild_ok_def)
    from add_recovery_effect [OF this] have "outcome (restore_from env q s) = Inr True"
      using 1 2 r by (simp add: restore_from_def bindM_def seqM_def exceptM_def restore_into_quiet Let_def ret_def withState_def
          note_restored_def modify_def)
    with assms(2) show ?thesis by contradiction
  next
    case False
    with 1 2 w show ?thesis
      by (auto simp: restore_from_def bindM_def ret_def exceptM_def restore_into_quiet split: sum.splits option.splits)
  qed
qed

lemma restore_all_or_nothing:
  assumes "rebuild_ok env" and "outcome (restore env m) \<noteq> Inr True"
  shows "m_world (after (restore env m)) = m_world m"
proof -
  let ?m = "m\<lparr>m_restore_summary := None, m_last_checkpoint_at := None, m_checkpoint_failure_reason := None\<rparr>"
  let ?f = "m_checkpoint_file m"
  let ?mode = "bindM (snapshot_path_present ?f) (\<lambda>there. if there then ret True else snapshot_path_present (backup_file ?f))"
  have mode: "obeys (same disk.more) ?mode" by (intro mo.disk_intros present_more)
  obtain r1 s1 where 1: "?mode ?m = (r1, s1)" by fastforce
  obtain r2 s2 where 2: "restore_from env ?f s1 = (r2, s2)" by fastforce
  obtain r3 s3 where 3: "restore_from env (backup_file ?f) s2 = (r3, s3)" by fastforce
  have w1: "m_world s1 = m_world m"
    using world_kept_more [OF obeysD [OF mode, of ?m]] 1 by (simp add: world_kept_def)
  have w2: "m_world s2 = m_world s1" if "r2 \<noteq> Inr True"
    using restore_from_all_or_nothing [OF assms(1), of ?f s1] 2 that by (simp add: world_kept_def)
  have w3: "m_world s3 = m_world s2" if "r3 \<noteq> Inr True"
    using restore_from_all_or_nothing [OF assms(1), of "backup_file ?f" s2] 3 that by (simp add: world_kept_def)
  have "restore env m = bindM ?mode (\<lambda>recovery_mode. bindM (restore_from env ?f) (\<lambda>restored. if restored then ret True else
       bindM (restore_from env (backup_file ?f)) (\<lambda>restored. if restored then ret True else
         if recovery_mode then raise CheckpointRestoreError else ret False))) ?m"
    by (simp add: restore_def seqM_def bindM_def [of "modify _"] modify_def withState_def Let_def cong: if_cong)
  with assms(2) w1 w2 w3 show ?thesis
    by (auto simp: bindM_def [of ?mode] 1 bindM_def [of "restore_from env _"] 2 3 ret_def raise_def split: sum.splits if_splits)
qed

text \<open>
  C34. The fallback chain of \<open>restore\<close>. Whatever the disk does, a restore that does not return \<open>True\<close> has left the
  bunch alone. If the disk answers: a usable checkpoint file is restored, else a usable backup; the service is then halted
  for recovery and keeps its own address. If there is no usable file it is a fresh start only if there is no file at all,
  otherwise it raises.
\<close>

theorem restore_chain:
  assumes "rebuild_ok env"
  shows "(outcome (restore env m) \<noteq> Inr True \<longrightarrow> m_world (after (restore env m)) = m_world m)
    \<and> (d_fates m = [] \<longrightarrow> (case (snapshot_at env m (m_checkpoint_file m), snapshot_at env m (backup_file (m_checkpoint_file m))) of
        (Some (j, c), _) \<Rightarrow> \<exists>t s. restore env m = (Inr True, t) \<and> m_world t = recovered c (m_world m)
           \<and> m_restore_summary t = Some s \<and> rs_primary s
      | (None, Some (j, c)) \<Rightarrow> \<exists>t s. restore env m = (Inr True, t) \<and> m_world t = recovered c (m_world m)
           \<and> m_restore_summary t = Some s \<and> \<not> rs_primary s
      | (None, None) \<Rightarrow> outcome (restore env m) = (if contents m (m_checkpoint_file m) = None
           \<and> contents m (backup_file (m_checkpoint_file m)) = None then Inr False else Inl CheckpointRestoreError)))
    \<and> (\<forall>c w. ss_status (w_server_state (recovered c w)) = halted
         \<and> set (ss_halt_causes (w_server_state (recovered c w))) = insert recovery (set (ss_halt_causes (w_server_state c)))
         \<and> w_host (recovered c w) = w_host w \<and> w_port (recovered c w) = w_port w)"
proof (intro conjI)
  show "outcome (restore env m) \<noteq> Inr True \<longrightarrow> m_world (after (restore env m)) = m_world m"
    using restore_all_or_nothing [OF assms] by blast
  show "d_fates m = [] \<longrightarrow> (case (snapshot_at env m (m_checkpoint_file m), snapshot_at env m (backup_file (m_checkpoint_file m))) of
        (Some (j, c), _) \<Rightarrow> \<exists>t s. restore env m = (Inr True, t) \<and> m_world t = recovered c (m_world m)
           \<and> m_restore_summary t = Some s \<and> rs_primary s
      | (None, Some (j, c)) \<Rightarrow> \<exists>t s. restore env m = (Inr True, t) \<and> m_world t = recovered c (m_world m)
           \<and> m_restore_summary t = Some s \<and> \<not> rs_primary s
      | (None, None) \<Rightarrow> outcome (restore env m) = (if contents m (m_checkpoint_file m) = None
           \<and> contents m (backup_file (m_checkpoint_file m)) = None then Inr False else Inl CheckpointRestoreError))"
    using restore_result [OF _ assms] by blast
qed (auto simp: recovered_def state_of_causes_def with_recovery_def install_candidate_def)

section \<open>A crash and a restart\<close>

text \<open>\<open>CheckpointManager.__init__\<close> of the next process, on the disk it finds.\<close>

definition new_manager :: "string \<Rightarrow> world \<Rightarrow> manager \<Rightarrow> manager" where
  "new_manager pid w m = m\<lparr>m_pid := pid, m_next_sequence := 0, m_last_attempted_sequence := 0,
     m_last_attempt_succeeded := False, m_can_link_backup := False, m_last_outcome_sequence := 0,
     m_last_success_sequence := 0, m_write_error_kind := None, m_newer_failed_sequence := 0,
     m_last_checkpoint_at := None, m_restore_summary := None, m_checkpoint_failure_reason := None,
     m_background_writes := [], m_background_reserved := 0, m_stopping := False, m_world := w\<rparr>"

lemma new_manager_simps [simp]:
  "contents (new_manager pid w m) q = contents m q" "d_fates (new_manager pid w m) = d_fates m"
  "m_checkpoint_file (new_manager pid w m) = m_checkpoint_file m" "m_world (new_manager pid w m) = w"
  "m_pid (new_manager pid w m) = pid" "inode_of (new_manager pid w m) q = inode_of m q"
  by (simp_all add: new_manager_def contents_def)

lemma power_loss_simps [simp]:
  "d_fates (power_loss n junk m) = []" "m_checkpoint_file (power_loss n junk m) = m_checkpoint_file m"
  "m_pid (power_loss n junk m) = m_pid m"
  by (simp_all add: power_loss_def)

text \<open>A restart after any power loss in a write: the file is the old or the new snapshot, so it is restored.\<close>

lemma restart_restores:
  assumes "contents d (m_checkpoint_file d) \<in> {Some old, Some new}" and "d_fates d = []" and "rebuild_ok env"
    and "usable_text env old = Some (j, c)" and "usable_text env new = Some (j', c')"
  shows "\<exists>t. restore env (new_manager pid w d) = (Inr True, t) \<and> m_world t \<in> {recovered c w, recovered c' w}"
proof -
  let ?m = "new_manager pid w d"
  have "snapshot_at env ?m (m_checkpoint_file ?m) \<in> {Some (j, c), Some (j', c')}"
    using assms(1,4,5) by (auto simp: snapshot_at_def)
  then show ?thesis using restore_result [of ?m env] assms(2,3) by auto
qed

interpretation cf: frame "same m_checkpoint_file"
  by (rule frame_same)

lemma more_file: "obeys (same disk.more) k \<Longrightarrow> obeys (same m_checkpoint_file) k"
  by (metis more_eq(1) obeys_def same_def)

lemma books_file: "obeys (same on_disk) k \<Longrightarrow> obeys (same m_checkpoint_file) k"
  by (simp add: obeys_def same_def on_disk_def)

lemma ignore_os_more: "obeys (same disk.more) (case e of OSError _ \<Rightarrow> ret x | _ \<Rightarrow> raise e)"
  by (cases e) (simp_all add: mo.obeys_ret mo.obeys_raise)

lemma files_more:
  "obeys (same disk.more) (cleanup_temp_files qs)" "obeys (same disk.more) (rotate_files f p bt can)"
  unfolding cleanup_temp_files_def rotate_files_def ensure_parent_directory_def copy_to_backup_temp_def copy_bytes_def
    link_backup_def open_restricted_def replace_backup_def replace_checkpoint_def
  by (intro mo.disk_intros mo.obeys_forM keeps ignore_os_more)+

lemma except_file:
  "obeys (same m_checkpoint_file) k \<Longrightarrow> (\<And>e. obeys (same m_checkpoint_file) (h e)) \<Longrightarrow> obeys (same m_checkpoint_file) (exceptM k h)"
  unfolding obeys_def same_def exceptM_def by (auto split: prod.splits sum.splits) (metis snd_conv)+

lemma note_file:
  "obeys (same m_checkpoint_file) (begin_attempt n)" "obeys (same m_checkpoint_file) (set_attempt_succeeded ok)"
  "obeys (same m_checkpoint_file) (set_write_error_kind e)" "obeys (same m_checkpoint_file) (modify (\<lambda>m. m\<lparr>m_can_link_backup := ok\<rparr>))"
  by (simp_all add: begin_attempt_def set_attempt_succeeded_def set_write_error_kind_def obeys_def same_def prog_defs)

lemma publish_prepared_file: "obeys (same m_checkpoint_file) (publish_prepared n p)"
  unfolding publish_prepared_def Let_def
  by (intro cf.obeys_withState cf.obeys_option cf.obeys_seqM cf.obeys_bindM cf.obeys_ret except_file note_file
      files_more [THEN more_file])

lemma write_fixed_file: "obeys (same m_checkpoint_file) (write_fixed env)"
  unfolding write_fixed_def pin_fixed_for_write_def Let_def
  by (intro cf.obeys_withState cf.obeys_option cf.obeys_seqM cf.obeys_bindM cf.obeys_ret cf.obeys_prod cf.obeys_sum cf.obeys_whenM
      except_file publish_prepared_file record_outcome_books [THEN books_file] fixed_failure_books [THEN books_file]
      books_primitive(3) [THEN books_file] prepare_keeps(2) [THEN more_file])


section \<open>A temporary file left over by a killed process\<close>

text \<open>A killed process can leave the link it was making for the backup. A process with the same id finds it, cannot link,
  and opens it for the copy, which empties the checkpoint file itself.\<close>

lemma leftover_effect:
  fixes m :: manager
  defines "file \<equiv> m_checkpoint_file m"
  defines "bt \<equiv> temp_path (m_pid m) (backup_file file)"
  assumes "inode_of m file = Some i" and "inode_of m bt = Some i" and "inode_of m (backup_file file) \<noteq> Some i"
    and "i < length (d_inodes m)" and "d_parent m" and "\<not> m_can_link_backup m"
    and "d_fates m = [Goes, Goes, Goes, Goes, Goes, Goes, Goes, Goes, Goes, Goes, Stops 0]" and "superseded n m = None"
  shows "outcome (publish_prepared n p m) = Inl Stopped"
    and "inode_of (after (publish_prepared n p m)) file = Some i"
    and "inode_of (after (publish_prepared n p m)) (backup_file file) = Some i"
    and "durable (after (publish_prepared n p m)) i" and "i_bytes (d_inodes (after (publish_prepared n p m)) ! i) = []"
proof -
  let ?m = "m\<lparr>m_last_attempted_sequence := n, m_write_error_kind := None\<rparr>"
  let ?c = "?m\<lparr>d_fates := [Goes, Goes, Stops 0], d_inodes := (d_inodes m)[i := (d_inodes m ! i)
      \<lparr>i_bytes := [], i_mode := CHECKPOINT_FILE_MODE, i_synced := True\<rparr>]\<rparr>"
  let ?d = "set_names (AList.update (backup_file file) i (AList.delete bt (d_names m))) ?c\<lparr>d_fates := []\<rparr>"
  have "rotate_files file p bt False ?m = (Inl Stopped, ?d)"
  proof -
    let ?e = "?m\<lparr>d_fates := [Goes, Goes, Goes, Goes, Goes, Goes, Goes, Goes, Goes, Stops 0]\<rparr>"
    have "ensure_parent_directory ?m = (Inr (), ?e)"
      using assms by (simp add: ensure_parent_directory_def call_defs call_def prog_defs)
    moreover have "copy_to_backup_temp file bt False ?e = (Inr (), ?c)"
      using assms by (simp add: copy_to_backup_temp_def copy_bytes_def open_restricted_def call_defs call_def prog_defs set_inode_def)
    moreover have "replace_backup file bt ?c = (Inr (), set_names (AList.update (backup_file file) i (AList.delete bt (d_names m))) ?c\<lparr>d_fates := [Stops 0]\<rparr>)"
      using assms by (simp add: replace_backup_def call_defs call_def prog_defs set_names_def)
    ultimately show ?thesis
      by (simp add: rotate_files_def seqM_def bindM_def replace_checkpoint_def replace_def call_def)
  qed
  then have "publish_prepared n p m = (Inl Stopped, ?d)"
    using assms by (simp add: publish_prepared_def withState_def Let_def bindM_def seqM_def begin_attempt_def modify_def exceptM_def)
  then show "outcome (publish_prepared n p m) = Inl Stopped"
    "inode_of (after (publish_prepared n p m)) file = Some i" "inode_of (after (publish_prepared n p m)) (backup_file file) = Some i"
    "durable (after (publish_prepared n p m)) i" "i_bytes (d_inodes (after (publish_prepared n p m)) ! i) = []"
    using assms by (simp_all add: durable_def update_conv' delete_conv)
qed

text \<open>
  C38. Finding: a process killed between linking the next backup and renaming it leaves a second name of the checkpoint
  file. If the next process has the same process id, as in a container, its first write opens that name for the copy and so
  empties the checkpoint file, installs the empty file as the backup, and only then renames the new snapshot. If the machine
  stops just before that rename, both files are empty and the service refuses to start.
\<close>

theorem leftover_link_loses_snapshots:
  assumes "inode_of m (m_checkpoint_file m) = Some i"
    and "inode_of m (temp_path (m_pid m) (backup_file (m_checkpoint_file m))) = Some i"
    and "inode_of m (backup_file (m_checkpoint_file m)) \<noteq> Some i"
    and "i < length (d_inodes m)" and "d_parent m" and "\<not> m_can_link_backup m"
    and "d_fates m = [Goes, Goes, Goes, Goes, Goes, Goes, Goes, Goes, Goes, Goes, Stops 0]" and "superseded n m = None"
    and "re_decode env [] = None" and "rebuild_ok env"
  shows "outcome (restore env (new_manager pid w (power_loss 0 junk (after (publish_prepared n p m))))) = Inl CheckpointRestoreError"
proof -
  note eff = leftover_effect [OF assms(1-8)]
  let ?a = "after (publish_prepared n p m)"
  let ?m = "new_manager pid w (power_loss 0 junk ?a)"
  have "m_checkpoint_file ?a = m_checkpoint_file m"
    using obeysD [OF publish_prepared_file, of m n p] by (simp add: same_def)
  moreover have "contents (power_loss 0 junk ?a) q = Some []" if "inode_of ?a q = Some i" for q
    using that power_loss_inode [OF eff(4)] eff(5) by (simp add: contents_def) (simp add: power_loss_def)
  ultimately have c: "contents ?m (m_checkpoint_file ?m) = Some []" "contents ?m (backup_file (m_checkpoint_file ?m)) = Some []"
    using eff(2,3) by simp_all
  then have "snapshot_at env ?m (m_checkpoint_file ?m) = None" "snapshot_at env ?m (backup_file (m_checkpoint_file ?m)) = None"
    using assms(9) by (simp_all add: snapshot_at_def usable_text_def)
  with c restore_result [of ?m env] assms(10) show ?thesis by simp
qed

end
