(* ===== verification/Checkpoint_Order.thy ===== *)
theory Checkpoint_Order
  imports Checkpoint_Restore
begin

text \<open>
  Checkpoint writes overlap: a view is numbered when it is captured, published under a lock later, and reported on
  the event loop later still. This theory shows that the disk never goes back to an older view, that the reported state
  is the one of the newest view in whatever order the reports arrive, and that the work in flight stays bounded.
\<close>

section \<open>Publication\<close>

datatype publication = Prepared nat string | Captured nat string

fun publication_sequence :: "publication \<Rightarrow> nat" where
  "publication_sequence (Prepared n _) = n"
| "publication_sequence (Captured n _) = n"

fun publish :: "publication \<Rightarrow> (bool \<times> bool \<times> string option) mprog" where
  "publish (Prepared n p) = publish_prepared n p"
| "publish (Captured n payload) = publish_captured n payload"

primrec publish_log :: "publication list \<Rightarrow> nat list mprog" where
  "publish_log [] = ret []"
| "publish_log (x # xs) = bindM (publish x) (\<lambda>(_, published, _).
     bindM (publish_log xs) (\<lambda>ns. ret (if published then publication_sequence x # ns else ns)))"

interpretation la: frame "same m_last_attempted_sequence"
  by (rule frame_same)

lemma more_attempted: "obeys (same disk.more) k \<Longrightarrow> obeys (same m_last_attempted_sequence) k"
  by (metis more_eq(3) obeys_def same_def)

lemma except_attempted:
  "obeys (same m_last_attempted_sequence) k \<Longrightarrow> (\<And>e. obeys (same m_last_attempted_sequence) (h e)) \<Longrightarrow>
   obeys (same m_last_attempted_sequence) (exceptM k h)"
  unfolding obeys_def same_def exceptM_def by (auto split: prod.splits sum.splits) (metis snd_conv)+

lemma note_attempted:
  "obeys (same m_last_attempted_sequence) (set_attempt_succeeded ok)" "obeys (same m_last_attempted_sequence) (set_write_error_kind e)"
  "obeys (same m_last_attempted_sequence) (modify (\<lambda>m. m\<lparr>m_can_link_backup := ok\<rparr>))"
  by (simp_all add: set_attempt_succeeded_def set_write_error_kind_def obeys_def same_def prog_defs)

lemma write_payload_attempted: "obeys (same m_last_attempted_sequence) (write_payload payload)"
proof -
  have "obeys (same m_last_attempted_sequence) (run_write_steps temps steps)"
    if "\<forall>step \<in> set steps. obeys (same m_last_attempted_sequence) (snd step)" for temps steps
    using that
    by (induction steps) (simp_all add: la.obeys_ret la.obeys_bindM la.obeys_seqM except_attempted note_attempted
        files_more(1) [THEN more_attempted])
  moreover have "obeys (same disk.more) (snd step)" if "step \<in> set (write_steps f payload mt bt can)" for step :: "string \<times> unit mprog" and f mt bt can
  proof -
    have "obeys (same disk.more) ensure_parent_directory" "obeys (same disk.more) (write_temp_file mt payload)"
      "obeys (same disk.more) (copy_to_backup_temp f bt can)" "obeys (same disk.more) (replace_backup f bt)"
      "obeys (same disk.more) (replace_checkpoint f mt)"
      unfolding ensure_parent_directory_def copy_to_backup_temp_def copy_bytes_def write_temp_file_def
        link_backup_def open_restricted_def replace_backup_def replace_checkpoint_def
      by (intro mo.disk_intros keeps ignore_os_more)+
    with that show ?thesis by (auto simp: write_steps_def)
  qed
  ultimately show ?thesis
    unfolding write_payload_def Let_def by (intro la.obeys_withState) (blast intro: more_attempted)
qed

text \<open>A publisher reports \<open>published\<close> only for a view newer than every one attempted before.\<close>

lemma publish_attempt:
  "m_last_attempted_sequence (after (publish x m)) =
     (if superseded (publication_sequence x) m = None then publication_sequence x else m_last_attempted_sequence m)"
proof -
  have quiet: "m_last_attempted_sequence (after (seqM (begin_attempt n) k m)) = n" if "obeys (same m_last_attempted_sequence) k"
    for n and k :: "'a mprog"
    using obeys_same_wp [OF that, of "m\<lparr>m_last_attempted_sequence := n, m_write_error_kind := None\<rparr>"]
    by (simp add: seqM_def bindM_def begin_attempt_def modify_def)
  note quiet_intros = la.obeys_withState la.obeys_bindM la.obeys_seqM la.obeys_ret la.obeys_option la.obeys_gets except_attempted
    note_attempted files_more [THEN more_attempted] write_payload_attempted
  show ?thesis
  proof (cases x)
    case (Prepared n p)
    show ?thesis
    proof (cases "superseded n m")
      case None
      with Prepared show ?thesis
        unfolding publish.simps Prepared publish_prepared_def Let_def withState_def publication_sequence.simps None option.case
        by simp (rule quiet, intro quiet_intros)
    next
      case (Some r)
      have "obeys (same m_last_attempted_sequence) (seqM (cleanup_temp_files [p]) (ret r))" by (intro quiet_intros)
      from obeys_same_wp [OF this, of m] Prepared Some show ?thesis by (simp add: publish_prepared_def withState_def Let_def)
    qed
  next
    case (Captured n payload)
    show ?thesis
    proof (cases "superseded n m")
      case None
      with Captured show ?thesis
        unfolding publish.simps Captured publish_captured_def withState_def publication_sequence.simps None option.case
        by simp (rule quiet, intro quiet_intros)
    next
      case (Some r)
      with Captured show ?thesis by (simp add: publish_captured_def withState_def ret_def)
    qed
  qed
qed

lemma publish_published:
  assumes "outcome (publish x m) = Inr (ok, True, r)"
  shows "m_last_attempted_sequence m < publication_sequence x \<and> superseded (publication_sequence x) m = None"
proof -
  have "superseded (publication_sequence x) m = None"
  proof (cases "superseded (publication_sequence x) m")
    case (Some res)
    from superseded_unpublished [OF Some] assms Some show ?thesis
      by (cases x) (auto simp: publish_prepared_def publish_captured_def withState_def Let_def outcome_ret dest!: outcome_seq)
  qed simp
  then show ?thesis by (auto simp: superseded_def not_le split: if_splits)
qed


section \<open>Reports\<close>

record report =
  r_sequence :: nat
  r_success :: bool
  r_published :: bool
  r_saved_at :: string
  r_reason :: "string option"

definition report_outcome :: "report \<Rightarrow> unit mprog" where
  "report_outcome r = record_outcome (r_sequence r) (r_success r) (r_published r) (r_saved_at r) (r_reason r)"

definition decisive :: "report \<Rightarrow> bool" where
  "decisive r \<longleftrightarrow> r_published r \<or> \<not> r_success r"

lemma apply_outcome_effect:
  assumes "service_ok (m_world m)"
  shows "\<exists>t. apply_outcome n success published saved_at reason m = (Inr (), t)
    \<and> service_ok (m_world t) \<and> m_has_scheduler t = m_has_scheduler m
    \<and> m_last_success_sequence t = (if success \<and> published then max n (m_last_success_sequence m) else m_last_success_sequence m)
    \<and> m_last_checkpoint_at t = (if success \<and> published \<and> m_last_success_sequence m < n then Some saved_at else m_last_checkpoint_at m)
    \<and> (if (published \<or> \<not> success) \<and> m_last_outcome_sequence m \<le> n
       then m_last_outcome_sequence t = n \<and> (checkpoint_failure \<in> set (halt_causes_of t) \<longleftrightarrow> \<not> success)
         \<and> m_checkpoint_failure_reason t = (if success then None else Some (failure_text reason))
       else m_last_outcome_sequence t = m_last_outcome_sequence m
         \<and> (checkpoint_failure \<in> set (halt_causes_of t) \<longleftrightarrow> checkpoint_failure \<in> set (halt_causes_of m))
         \<and> m_checkpoint_failure_reason t = m_checkpoint_failure_reason m)"
proof -
  let ?c = "causes_after success (halt_causes_of m)"
  have "distinct (halt_causes_of m)" using service_okD [OF assms] by (simp add: halt_causes_of_def)
  then have d: "distinct ?c" by (simp add: causes_after_def)
  then have "from_causes ?c = Inr (state_of_causes ?c)" by (simp add: from_causes_distinct state_of_causes_def)
  moreover have "service_ok ((m_world m)\<lparr>w_server_state := state_of_causes ?c\<rparr>)"
    using d by (auto simp: service_ok_def consistent_def state_of_causes_def expected_reason_def)
  moreover have "checkpoint_failure \<in> set ?c \<longleftrightarrow> \<not> success" by (simp add: causes_after_def)
  ultimately show ?thesis
    using assms
    by (auto simp: apply_outcome_def prog_defs set_world_def Let_def halt_causes_of_def state_of_causes_def max_def)
qed

text \<open>What the service knows of its checkpoints, as one value; a report moves it by a pure step.\<close>

record status_view =
  v_last_success :: nat
  v_last_at :: "string option"
  v_last_outcome :: nat
  v_failed :: bool
  v_reason :: "string option"

definition view_of :: "manager \<Rightarrow> status_view" where
  "view_of m = \<lparr>v_last_success = m_last_success_sequence m, v_last_at = m_last_checkpoint_at m,
     v_last_outcome = m_last_outcome_sequence m, v_failed = (checkpoint_failure \<in> set (halt_causes_of m)),
     v_reason = m_checkpoint_failure_reason m\<rparr>"

definition report_view :: "report \<Rightarrow> status_view \<Rightarrow> status_view" where
  "report_view r v =
     (let v' = (if r_success r \<and> r_published r \<and> v_last_success v < r_sequence r
          then v\<lparr>v_last_success := r_sequence r, v_last_at := Some (r_saved_at r)\<rparr> else v) in
      if decisive r \<and> v_last_outcome v \<le> r_sequence r
      then v'\<lparr>v_last_outcome := r_sequence r, v_failed := \<not> r_success r,
             v_reason := (if r_success r then None else Some (failure_text (r_reason r)))\<rparr>
      else v')"

lemma report_view_sel:
  "v_last_outcome (report_view r v) = (if decisive r \<and> v_last_outcome v \<le> r_sequence r then r_sequence r else v_last_outcome v)"
  "v_failed (report_view r v) = (if decisive r \<and> v_last_outcome v \<le> r_sequence r then \<not> r_success r else v_failed v)"
  "v_reason (report_view r v) = (if decisive r \<and> v_last_outcome v \<le> r_sequence r
     then if r_success r then None else Some (failure_text (r_reason r)) else v_reason v)"
  "v_last_success (report_view r v) = (if r_success r \<and> r_published r \<and> v_last_success v < r_sequence r then r_sequence r else v_last_success v)"
  "v_last_at (report_view r v) = (if r_success r \<and> r_published r \<and> v_last_success v < r_sequence r then Some (r_saved_at r) else v_last_at v)"
  by (simp_all add: report_view_def Let_def)

lemma notify_service_effect: "\<exists>t. notify_service m = (Inr (), m\<lparr>m_world := (m_world m)\<lparr>w_tracker := t\<rparr>\<rparr>)"
  using mark_service [of "m_world m"] by (auto simp: notify_service_def set_world_def prog_defs)

lemma report_outcome_effect:
  assumes "service_ok (m_world m)"
  shows "\<exists>t. report_outcome r m = (Inr (), t) \<and> service_ok (m_world t) \<and> view_of t = report_view r (view_of m)"
proof -
  obtain m1 where b: "bump_revision m = (Inr (), m1)" "m_world m1 = m_world m" "view_of m1 = view_of m"
    by (cases "m_has_scheduler m") (simp_all add: bump_revision_def prog_defs view_of_def halt_causes_of_def)
  then have "service_ok (m_world m1)" using assms by simp
  from apply_outcome_effect [OF this, of "r_sequence r" "r_success r" "r_published r" "r_saved_at r" "r_reason r"]
  obtain t where t: "apply_outcome (r_sequence r) (r_success r) (r_published r) (r_saved_at r) (r_reason r) m1 = (Inr (), t)"
    and ok: "service_ok (m_world t)" and v: "view_of t = report_view r (view_of m1)"
    by (auto simp: view_of_def report_view_def decisive_def max_def Let_def split: if_splits)
  let ?fin = "seqM (withState (\<lambda>k. whenM (m_has_scheduler k \<and> outcome_view m \<noteq> outcome_view k)
             (seqM notify_service (modify (\<lambda>m. m\<lparr>m_flushes := m_flushes m + 1\<rparr>))))) bump_revision"
  obtain x where "notify_service t = (Inr (), t\<lparr>m_world := (m_world t)\<lparr>w_tracker := x\<rparr>\<rparr>)"
    using notify_service_effect by blast
  then have "\<exists>u. ?fin t = (Inr (), u) \<and> w_server_state (m_world u) = w_server_state (m_world t) \<and> view_of u = view_of t"
    by (auto simp: prog_defs bump_revision_def view_of_def halt_causes_of_def)
  then obtain u where "?fin t = (Inr (), u)" "w_server_state (m_world u) = w_server_state (m_world t)" "view_of u = view_of t" by blast
  moreover have "report_outcome r m = (Inr (), u)" if "?fin t = (Inr (), u)"
    using that t b(1) unfolding report_outcome_def record_outcome_def withState_def seqM_def [of bump_revision]
    by (simp add: bindM_def [of bump_revision] finallyP_def)
  ultimately show ?thesis using b v ok by (auto simp: service_ok_def)
qed

lemma report_all_effect:
  assumes "service_ok (m_world m)"
  shows "\<exists>t. forM rs report_outcome m = (Inr (), t) \<and> service_ok (m_world t) \<and> view_of t = fold report_view rs (view_of m)"
  using assms
proof (induction rs arbitrary: m)
  case Nil
  then show ?case by (simp add: ret_def)
next
  case (Cons r rs)
  obtain t where "report_outcome r m = (Inr (), t)" "service_ok (m_world t)" "view_of t = report_view r (view_of m)"
    using report_outcome_effect [OF Cons.prems] by blast
  with Cons.IH [of t] show ?case by (auto simp: seqM_def bindM_def)
qed

text \<open>The final view is the one of the newest report that decides, whatever the order.\<close>

lemma fold_last_outcome:
  assumes "distinct (map r_sequence rs)"
    and "r \<in> set rs" "decisive r" "v_last_outcome v \<le> r_sequence r" "\<forall>x \<in> set rs. decisive x \<longrightarrow> r_sequence x \<le> r_sequence r"
  shows "v_failed (fold report_view rs v) = (\<not> r_success r)
    \<and> v_reason (fold report_view rs v) = (if r_success r then None else Some (failure_text (r_reason r)))
    \<and> v_last_outcome (fold report_view rs v) = r_sequence r"
  using assms
proof (induction rs rule: rev_induct)
  case Nil
  then show ?case by simp
next
  case (snoc y rs)
  have le: "v_last_outcome (fold report_view xs v) \<le> r_sequence r"
    if "\<forall>x \<in> set xs. decisive x \<longrightarrow> r_sequence x \<le> r_sequence r" for xs
    using that snoc.prems(4) by (induction xs rule: rev_induct) (auto simp: report_view_sel)
  show ?case
  proof (cases "y = r")
    case True
    with le [of rs] snoc.prems(3,5) show ?thesis by (simp add: report_view_sel)
  next
    case False
    then have r: "r \<in> set rs" using snoc.prems(2) by simp
    have "r_sequence y \<noteq> r_sequence r" using r snoc.prems(1) by auto
    then have "\<not> (decisive y \<and> r_sequence r \<le> r_sequence y)" using snoc.prems(5) by auto
    moreover have IH: "v_failed (fold report_view rs v) = (\<not> r_success r)
        \<and> v_reason (fold report_view rs v) = (if r_success r then None else Some (failure_text (r_reason r)))
        \<and> v_last_outcome (fold report_view rs v) = r_sequence r"
      using snoc r by auto
    ultimately show ?thesis by (auto simp: report_view_sel)
  qed
qed

lemma fold_last_success:
  assumes "distinct (map r_sequence rs)"
    and "r \<in> set rs" "r_success r" "r_published r" "v_last_success v < r_sequence r"
      "\<forall>x \<in> set rs. r_success x \<and> r_published x \<longrightarrow> r_sequence x \<le> r_sequence r"
  shows "v_last_at (fold report_view rs v) = Some (r_saved_at r) \<and> v_last_success (fold report_view rs v) = r_sequence r"
  using assms
proof (induction rs rule: rev_induct)
  case Nil
  then show ?case by simp
next
  case (snoc y rs)
  show ?case
  proof (cases "y = r")
    case True
    have "\<forall>x \<in> set rs. r_success x \<and> r_published x \<longrightarrow> r_sequence x < r_sequence r"
      using snoc.prems(1,6) True by (auto simp: order.strict_iff_order) (metis image_eqI)
    then have "v_last_success (fold report_view rs v) < r_sequence r"
      using snoc.prems(5) by (induction rs rule: rev_induct) (auto simp: report_view_sel)
    with True snoc.prems(3,4) show ?thesis by (simp add: report_view_sel)
  next
    case False
    then have "r \<in> set rs" using snoc.prems(2) by simp
    with snoc have "v_last_at (fold report_view rs v) = Some (r_saved_at r) \<and> v_last_success (fold report_view rs v) = r_sequence r" by auto
    with snoc.prems(6) show ?thesis by (auto simp: report_view_sel)
  qed
qed

text \<open>
  C36. The outcomes of overlapping checkpoint writes may be reported in any order. The service is halted for a
  checkpoint failure afterwards if and only if the newest write that decides (it failed, or its own view reached the
  disk) failed, the reason given is the one of that write, and the time of the last checkpoint is the time of the newest
  view that reached the disk. A consistent service state stays consistent.
\<close>

theorem newest_outcome_wins:
  assumes "service_ok (m_world m)" and "distinct (map r_sequence rs)" and "forM rs report_outcome m = (x, t)"
    and "r \<in> set rs" "decisive r" "m_last_outcome_sequence m \<le> r_sequence r" "\<forall>y \<in> set rs. decisive y \<longrightarrow> r_sequence y \<le> r_sequence r"
    and "s \<in> set rs" "r_success s" "r_published s" "m_last_success_sequence m < r_sequence s"
      "\<forall>y \<in> set rs. r_success y \<and> r_published y \<longrightarrow> r_sequence y \<le> r_sequence s"
  shows "x = Inr () \<and> service_ok (m_world t)
    \<and> (checkpoint_failure \<in> set (halt_causes_of t) \<longleftrightarrow> \<not> r_success r)
    \<and> m_checkpoint_failure_reason t = (if r_success r then None else Some (failure_text (r_reason r)))
    \<and> m_last_checkpoint_at t = Some (r_saved_at s)"
proof -
  have v: "x = Inr ()" "service_ok (m_world t)" "view_of t = fold report_view rs (view_of m)"
    using report_all_effect [OF assms(1), of rs] assms(3) by auto
  have "v_failed (view_of t) = (\<not> r_success r)"
    "v_reason (view_of t) = (if r_success r then None else Some (failure_text (r_reason r)))"
    "v_last_at (view_of t) = Some (r_saved_at s)"
    using fold_last_outcome [OF assms(2,4,5) _ assms(7), of "view_of m"] fold_last_success [OF assms(2,8-10) _ assms(12), of "view_of m"]
      assms(6,11) v(3) by (simp_all add: view_of_def)
  with v(1,2) show ?thesis by (simp add: view_of_def)
qed

section \<open>Work in flight\<close>

text \<open>The event loop starts writes and takes their results; a worker prepares and publishes one in between. Sizes are not
  negative.\<close>

inductive background_step :: "manager \<times> job list \<Rightarrow> manager \<times> job list \<Rightarrow> bool" where
  started: "start_fixed_write pin now m = (Inr (Some j), m') \<Longrightarrow> (\<forall>v. pin = Inr v \<longrightarrow> 0 \<le> snd v) \<Longrightarrow>
     background_step (m, js) (m', js @ [j])"
| refused: "start_fixed_write pin now m = (Inr None, m') \<Longrightarrow> background_step (m, js) (m', js)"
| worked: "j \<in> set js \<Longrightarrow> write_fixed_background (j_sequence j) (j_encoder j) hex m = (r, m') \<Longrightarrow>
     background_step (m, js) (m', js)"
| finished: "j \<in> set js \<Longrightarrow> finish_fixed_write j result m = (Inr (), m') \<Longrightarrow> background_step (m, js) (m', remove1 j js)"

inductive_cases background_stepE: "background_step s t"

definition background_ok :: "manager \<times> job list \<Rightarrow> bool" where
  "background_ok s \<longleftrightarrow> (case s of (m, js) \<Rightarrow>
     m_background_writes m = map j_sequence js \<and> distinct (map j_sequence js) \<and> length js \<le> MAX_BACKGROUND_WRITES
     \<and> m_background_reserved m = sum_list (map j_reservation js) \<and> m_background_reserved m \<le> MAX_BACKGROUND_BYTES
     \<and> (\<forall>j \<in> set js. 0 \<le> j_reservation j \<and> j_sequence j \<le> m_next_sequence m) \<and> sequences_ok m)"

definition books :: "manager \<Rightarrow> nat list \<times> int \<times> nat \<times> nat \<times> nat" where
  "books m = (m_background_writes m, m_background_reserved m, m_next_sequence m, m_last_attempted_sequence m, m_newer_failed_sequence m)"

interpretation bo: frame "same books"
  by (rule frame_same)

lemma more_books: "same disk.more m t \<Longrightarrow> same books m t"
  by (cases m; cases t; simp add: same_def books_def)

lemma obeys_more_books: "obeys (same disk.more) k \<Longrightarrow> obeys (same books) k"
  by (simp add: obeys_def more_books)

lemma except_books:
  "obeys (same books) k \<Longrightarrow> (\<And>e. obeys (same books) (h e)) \<Longrightarrow> obeys (same books) (exceptM k h)"
  unfolding obeys_def same_def exceptM_def by (auto split: prod.splits sum.splits) (metis snd_conv)+

lemma finallyP_books: "obeys (same books) k \<Longrightarrow> obeys (same books) f \<Longrightarrow> obeys (same books) (finallyP k f)"
  unfolding obeys_def same_def finallyP_def by (auto split: prod.splits sum.splits) (metis snd_conv)+

lemma primitive_books:
  "obeys (same books) (set_world f)" "obeys (same books) bump_revision" "obeys (same books) notify_service"
  "obeys (same books) (modify (\<lambda>m. m\<lparr>m_flushes := f1 m\<rparr>))"
  "obeys (same books) (modify (\<lambda>m. m\<lparr>m_last_checkpoint_at := f2 m, m_last_success_sequence := f3 m\<rparr>))"
  "obeys (same books) (modify (\<lambda>m. m\<lparr>m_last_outcome_sequence := f4 m, m_checkpoint_failure_reason := f5 m\<rparr>))"
  "obeys (same books) (set_attempt_succeeded ok)" "obeys (same books) (set_write_error_kind e)"
  "obeys (same books) (modify (\<lambda>m. m\<lparr>m_can_link_backup := ok\<rparr>))"
  by (auto simp: obeys_def same_def books_def prog_defs set_world_def bump_revision_def set_attempt_succeeded_def
      set_write_error_kind_def notify_service_def split: prod.splits sum.splits)

lemma record_outcome_keeps_books: "obeys (same books) (record_outcome n success published saved_at reason)"
  unfolding record_outcome_def apply_outcome_def Let_def
  by (intro bo.obeys_withState bo.obeys_seqM finallyP_books bo.obeys_whenM bo.obeys_if bo.obeys_ret bo.obeys_sum bo.obeys_raise
      primitive_books)

text \<open>A write moves the counters to its own number at most.\<close>

definition advances :: "nat \<Rightarrow> manager \<Rightarrow> manager \<Rightarrow> bool" where
  "advances n s t \<longleftrightarrow> m_background_writes t = m_background_writes s \<and> m_background_reserved t = m_background_reserved s
     \<and> m_next_sequence t = m_next_sequence s \<and> m_last_attempted_sequence t \<le> max n (m_last_attempted_sequence s)
     \<and> m_newer_failed_sequence t \<le> max n (m_newer_failed_sequence s)"

interpretation av: frame "advances n" for n
  by unfold_locales (auto simp: advances_def)

lemma books_advances: "obeys (same books) k \<Longrightarrow> obeys (advances n) k"
  by (simp add: obeys_def same_def books_def advances_def)

lemma except_advances:
  assumes "obeys (advances n) k" and "\<And>e. obeys (advances n) (h e)"
  shows "obeys (advances n) (exceptM k h)"
  unfolding obeys_def
proof
  fix s
  have "advances n s (after (k s))" and "\<And>e. advances n (after (k s)) (after (h e (after (k s))))"
    using assms by (simp_all add: obeys_def)
  then show "advances n s (after (exceptM k h s))"
    by (cases "k s"; cases "fst (k s)") (auto simp: exceptM_def intro: av.R_trans)
qed

lemma own_advances: "obeys (advances n) (begin_attempt n)" "obeys (advances n) (note_failed n)"
  by (simp_all add: begin_attempt_def note_failed_def obeys_def advances_def prog_defs)

lemmas advance_intros = av.obeys_withState av.obeys_option av.obeys_seqM av.obeys_bindM av.obeys_ret av.obeys_prod av.obeys_sum
  except_advances own_advances primitive_books [THEN books_advances] files_more [THEN obeys_more_books, THEN books_advances]
  prepare_keeps(2) [THEN obeys_more_books, THEN books_advances] record_outcome_keeps_books [THEN books_advances]

lemma publish_prepared_advances: "obeys (advances n) (publish_prepared n p)"
  unfolding publish_prepared_def Let_def by (intro advance_intros)

lemma background_advances: "obeys (advances n) (write_fixed_background n enc hex)"
  unfolding write_fixed_background_def Let_def by (intro advance_intros publish_prepared_advances)

lemma fixed_failure_advances: "obeys (advances n) (fixed_failure n e)"
  unfolding fixed_failure_def by (intro advance_intros)

lemma finish_async_advances: "obeys (advances n) (finish_async_write result n saved_at)"
  unfolding finish_async_write_def by (intro advance_intros)

lemma background_ok_advances:
  assumes "background_ok (m, js)" and "advances n m t" and "n \<le> m_next_sequence m"
  shows "background_ok (t, js)"
  using assms by (auto simp: background_ok_def advances_def sequences_ok_def)

text \<open>Starting a write: the number is new, and the reservation fits.\<close>

lemma next_sequence_effect: "next_sequence m = (Inr (m_next_sequence m + 1), m\<lparr>m_next_sequence := m_next_sequence m + 1\<rparr>)"
  by (simp add: next_sequence_def prog_defs)

lemma background_ok_next: "background_ok (m, js) \<Longrightarrow> background_ok (m\<lparr>m_next_sequence := m_next_sequence m + 1\<rparr>, js)"
  by (auto simp: background_ok_def sequences_ok_def)

lemma pin_effect:
  assumes "background_ok (m, js)" and "pin_fixed_for_write pin now m = (Inr (n, version, at), t)"
  shows "n = m_next_sequence m + 1 \<and> background_ok (t, js) \<and> m_next_sequence t = n \<and> (\<forall>j \<in> set js. j_sequence j < n)
    \<and> (\<forall>enc. version = Some enc \<longrightarrow> pin = Inr enc)"
proof -
  let ?m = "m\<lparr>m_next_sequence := m_next_sequence m + 1\<rparr>"
  have adv: "advances (m_next_sequence m + 1) ?m (after (whenM b (fixed_failure (m_next_sequence m + 1) e) ?m))" for b e
    by (rule obeysD) (intro av.obeys_whenM fixed_failure_advances)
  have "\<forall>j \<in> set js. j_sequence j < m_next_sequence m + 1" using assms(1) by (auto simp: background_ok_def)
  with assms(2) show ?thesis
  proof (cases pin)
    case (Inl e)
    obtain r u where u: "whenM (e \<noteq> VersionUnavailable ''state_changing'') (fixed_failure (m_next_sequence m + 1) e) ?m = (r, u)"
      by fastforce
    have "advances (m_next_sequence m + 1) ?m u" using adv u by (metis snd_conv)
    with Inl u assms background_ok_next [OF assms(1)] \<open>\<forall>j \<in> set js. j_sequence j < m_next_sequence m + 1\<close> show ?thesis
      by (auto simp: pin_fixed_for_write_def bindM_def next_sequence_effect seqM_def ret_def split: sum.splits
          dest: background_ok_advances) (simp_all add: advances_def)
  qed (use background_ok_next [OF assms(1)] in \<open>auto simp: pin_fixed_for_write_def bindM_def next_sequence_effect ret_def\<close>)
qed

lemma background_ok_started:
  assumes "background_ok (m, js)" and "\<forall>j \<in> set js. j_sequence j < j_sequence k" and "m_next_sequence m = j_sequence k"
    and "0 \<le> j_reservation k" and "length js < MAX_BACKGROUND_WRITES" and "m_background_reserved m + j_reservation k \<le> MAX_BACKGROUND_BYTES"
  shows "background_ok (m\<lparr>m_background_reserved := m_background_reserved m + j_reservation k,
     m_background_writes := m_background_writes m @ [j_sequence k]\<rparr>, js @ [k])"
  using assms by (auto simp: background_ok_def sequences_ok_def)

lemma start_effect:
  assumes "background_ok (m, js)" and "start_fixed_write pin now m = (Inr r, t)" and "r = None \<or> (\<forall>v. pin = Inr v \<longrightarrow> 0 \<le> snd v)"
  shows "background_ok (t, case r of None \<Rightarrow> js | Some j \<Rightarrow> js @ [j])"
proof (cases "m_stopping m")
  case True
  with assms show ?thesis by (simp add: start_fixed_write_def withState_def ret_def)
next
  case False
  obtain n version at m1 where pin: "pin_fixed_for_write (map_sum id fst pin) now m = (Inr (n, version, at), m1)"
    using assms(2) False by (auto simp: start_fixed_write_def withState_def bindM_def split: prod.splits sum.splits)
  note p = pin_effect [OF assms(1) pin]
  show ?thesis
  proof (cases "version = None \<or> (\<exists>e. pin = Inl e)")
    case True
    with assms(2) False pin p show ?thesis
      by (auto simp: start_fixed_write_def withState_def bindM_def ret_def split: option.splits sum.splits)
  next
    case False2: False
    then obtain enc retained where v: "version = Some enc" "pin = Inr (enc, retained)"
      using p by (cases pin) auto
    let ?k = "\<lparr>j_sequence = n, j_reservation = (retained * 5 + 1) div 2, j_encoder = enc, j_saved_at = at\<rparr>"
    have "advances n m1 (after (fixed_failure n CheckpointResourceError m1))" by (rule obeysD [OF fixed_failure_advances])
    then have full: "x = None \<and> background_ok (u, js)"
      if "seqM (fixed_failure n CheckpointResourceError) (ret None) m1 = (Inr x, u)" for x :: "job option" and u
      using background_ok_advances [of m1 js n] p that by (auto simp: seqM_def bindM_def ret_def split: prod.splits sum.splits)
    have "background_ok (m1\<lparr>m_background_reserved := m_background_reserved m1 + j_reservation ?k,
        m_background_writes := m_background_writes m1 @ [j_sequence ?k]\<rparr>, js @ [?k])"
      if "length (m_background_writes m1) < MAX_BACKGROUND_WRITES"
        "m_background_reserved m1 + (retained * 5 + 1) div 2 \<le> MAX_BACKGROUND_BYTES" "0 \<le> retained"
      by (rule background_ok_started) (use p that in \<open>auto simp: background_ok_def\<close>)
    then show ?thesis
      using assms(2,3) False pin v
      by (auto simp: start_fixed_write_def withState_def bindM_def [of "pin_fixed_for_write _ _"] Let_def seqM_def [of "modify _"]
          bindM_def [of "modify _"] modify_def ret_def [of "Some _"] not_le not_less split: if_splits option.splits dest!: full)
  qed
qed

lemma map_remove1_distinct: "distinct (map f xs) \<Longrightarrow> x \<in> set xs \<Longrightarrow> map f (remove1 x xs) = remove1 (f x) (map f xs)"
  by (induction xs) (auto, metis image_eqI)

lemma finish_effect:
  assumes "background_ok (m, js)" and "j \<in> set js" and "finish_fixed_write j result m = (r, t)"
  shows "background_ok (t, remove1 j js)"
proof -
  let ?m = "m\<lparr>m_background_writes := remove1 (j_sequence j) (m_background_writes m),
      m_background_reserved := m_background_reserved m - j_reservation j\<rparr>"
  have "map j_sequence (remove1 j js) = remove1 (j_sequence j) (map j_sequence js)"
    using assms(1,2) by (intro map_remove1_distinct) (auto simp: background_ok_def)
  moreover have "sum_list (map j_reservation (remove1 j js)) = sum_list (map j_reservation js) - j_reservation j"
    using assms(2) by (simp add: sum_list_map_remove1)
  ultimately have ok: "background_ok (?m, remove1 j js)"
    using assms(1,2) set_remove1_subset [of j js] length_remove1 [of j js]
    by (auto simp: background_ok_def sequences_ok_def distinct_remove1)
  have "advances (j_sequence j) ?m t"
    using obeysD [OF finish_async_advances, of "j_sequence j" ?m result "j_saved_at j"] assms(3)
    by (simp add: finish_fixed_write_def seqM_def bindM_def modify_def)
  moreover have "j_sequence j \<le> m_next_sequence ?m" using assms(1,2) by (simp add: background_ok_def)
  ultimately show ?thesis using background_ok_advances [OF ok] by simp
qed

lemma background_step_ok:
  assumes "background_step s t" and "background_ok s"
  shows "background_ok t"
  using assms
proof cases
  case (started pin now m j m' js)
  with start_effect [of m js pin now "Some j" m'] assms(2) show ?thesis by simp
next
  case (refused pin now m m' js)
  with start_effect [of m js pin now None m'] assms(2) show ?thesis by simp
next
  case (worked j js hex m r m')
  moreover have "advances (j_sequence j) m m'"
    using obeysD [OF background_advances, of "j_sequence j" m "j_encoder j" hex] worked(4) by simp
  ultimately show ?thesis
    using background_ok_advances [of m js "j_sequence j" m'] assms(2) by (auto simp: background_ok_def)
next
  case (finished j js result m m')
  with finish_effect [of m js j result] assms(2) show ?thesis by simp
qed

text \<open>
  C37. The background work of the checkpoint manager stays bounded: in every state reachable by starting writes, working
  on them and taking their results in any order, at most three writes are in flight, the memory reserved for them is
  exactly the sum of their reservations and within the budget, and no counter is ahead of the last number given out.
\<close>

theorem background_bounded:
  assumes "background_step\<^sup>*\<^sup>* s t" and "background_ok s"
  shows "background_ok t \<and> length (m_background_writes (fst t)) \<le> 3 \<and> m_background_reserved (fst t) \<le> 1610612736
    \<and> m_background_reserved (fst t) = sum_list (map j_reservation (snd t)) \<and> sequences_ok (fst t)"
proof -
  have "background_ok t" using assms by (induction rule: rtranclp_induct) (auto intro: background_step_ok)
  then show ?thesis by (auto simp: background_ok_def MAX_BACKGROUND_WRITES_def MAX_BACKGROUND_BYTES_def split: prod.splits)
qed

end
