(* ===== verification/Checkpoint_Applications.thy ===== *)
theory Checkpoint_Applications
  imports Checkpoint_Order Applications
begin

text \<open>The theorems on checkpoints, applied to a concrete disk with a snapshot and its backup.\<close>

definition sample_document :: "string \<Rightarrow> json" where
  "sample_document t = JObj [(''format_version'', JInt 3), (''saved_at'', JStr t), (''definition'', JObj [])]"

definition sample_restore :: restore_env where
  "sample_restore = \<lparr>re_decode = (\<lambda>t. if t \<in> {''old'', ''new''} then Some (sample_document t) else None),
     re_valid = (\<lambda>_. True), re_rebuild = (\<lambda>_. Some sample), re_isoformat = id\<rparr>"

definition sample_write :: write_env where
  "sample_write = \<lparr>we_pin = Inr ([''ne'', ''w''], None), we_capture = Inl OtherError, we_now = ''10:00'', we_hex = ''ff''\<rparr>"

definition sample_manager :: "directory \<Rightarrow> inode list \<Rightarrow> fate list \<Rightarrow> manager" where
  "sample_manager names inodes fates = \<lparr>d_parent = True, d_names = names, d_past = [], d_inodes = inodes, d_umask = 18, d_fates = fates,
     m_checkpoint_file = ''c'', m_pid = ''1'', m_next_sequence = 0, m_last_attempted_sequence = 0,
     m_last_attempt_succeeded = False, m_can_link_backup = False, m_last_outcome_sequence = 0, m_last_success_sequence = 0,
     m_write_error_kind = None, m_newer_failed_sequence = 0, m_last_checkpoint_at = None, m_restore_summary = None,
     m_checkpoint_failure_reason = None, m_background_writes = [], m_background_reserved = 0, m_stopping = False,
     m_has_scheduler = True, m_query_revision = 0, m_flushes = 0, m_world = sample\<rparr>"

definition sample_inodes :: "inode list" where
  "sample_inodes = [\<lparr>i_bytes = ''old'', i_synced = True, i_mode = 384\<rparr>, \<lparr>i_bytes = ''older'', i_synced = True, i_mode = 384\<rparr>]"

definition sample_disk :: "fate list \<Rightarrow> manager" where
  "sample_disk = sample_manager [(''c'', 0), (''c.b'', 1)] sample_inodes"

lemmas sample_checkpoint_defs = sample_disk_def sample_manager_def sample_inodes_def sample_write_def

lemma sample_service_ok: "service_ok sample"
  by (simp add: service_ok_def consistent_def sample_fields ServerState_def)

lemma sample_rebuild_ok: "rebuild_ok sample_restore"
  using service_okD [OF sample_service_ok] by (simp add: rebuild_ok_def sample_restore_def)

lemma sample_ready: "ready (sample_disk fs) (Some ''old'') (Some ''older'')"
  by (simp add: ready_def settles_def candidates_def durable_def sample_checkpoint_defs temp_path_def backup_file_def
      BACKUP_SUFFIX_def TEMP_SUFFIX_def)

lemma sample_usable: "usable_text sample_restore ''old'' = Some (sample_document ''old'', sample)"
  "usable_text sample_restore ''new'' = Some (sample_document ''new'', sample)"
  by (simp_all add: usable_text_def sample_restore_def usable_document_def sample_document_def FORMAT_VERSION_def)


theorem restore_chain_witness:
  "outcome (restore sample_restore (sample_manager [(''c'', 1), (''c.b'', 0)] sample_inodes [])) = Inr True
   \<and> ss_status (w_server_state (recovered sample sample)) = halted"
proof -
  let ?m = "sample_manager [(''c'', 1), (''c.b'', 0)] sample_inodes []"
  have "snapshot_at sample_restore ?m (m_checkpoint_file ?m) = None"
    "snapshot_at sample_restore ?m (backup_file (m_checkpoint_file ?m)) = Some (sample_document ''old'', sample)" "d_fates ?m = []"
    by (simp_all add: snapshot_at_def contents_def usable_text_def sample_restore_def usable_document_def sample_document_def
        FORMAT_VERSION_def sample_manager_def sample_inodes_def backup_file_def BACKUP_SUFFIX_def)
  with restore_chain [OF sample_rebuild_ok, of ?m] show ?thesis by fastforce
qed

text \<open>The state the finding starts from is the one a killed process leaves.\<close>

definition killed :: manager where
  "killed = after (publish_prepared 1 ''c.tmp.1.1.ff''
     ((sample_manager [(''c'', 0), (''c.b'', 1), (''c.tmp.1.1.ff'', 2)]
         (sample_inodes @ [\<lparr>i_bytes = ''new'', i_synced = True, i_mode = 384\<rparr>]) [Goes, Goes, Goes, Goes, Stops 0])
       \<lparr>m_can_link_backup := True\<rparr>))"

definition respawned :: manager where
  "respawned = (new_manager ''1'' sample (power_loss 0 (\<lambda>_. []) killed))
     \<lparr>d_fates := [Goes, Goes, Goes, Goes, Goes, Goes, Goes, Goes, Goes, Goes, Stops 0]\<rparr>"

lemma respawned_state:
  "inode_of respawned ''c'' = Some 0 \<and> inode_of respawned ''c.b.tmp.1'' = Some 0 \<and> inode_of respawned ''c.b'' = Some 1
    \<and> length (d_inodes respawned) = 3 \<and> d_parent respawned \<and> \<not> m_can_link_backup respawned
    \<and> m_checkpoint_file respawned = ''c'' \<and> m_pid respawned = ''1'' \<and> superseded 1 respawned = None"
  by code_simp

theorem leftover_link_loses_snapshots_witness:
  "outcome (restore sample_restore (new_manager ''2'' sample (power_loss 0 (\<lambda>_. ''junk'')
     (after (publish_prepared 1 ''c.tmp.1.1.fe'' respawned))))) = Inl CheckpointRestoreError"
proof (rule leftover_link_loses_snapshots)
  show "inode_of respawned (m_checkpoint_file respawned) = Some 0"
    "inode_of respawned (temp_path (m_pid respawned) (backup_file (m_checkpoint_file respawned))) = Some 0"
    "inode_of respawned (backup_file (m_checkpoint_file respawned)) \<noteq> Some 0" "0 < length (d_inodes respawned)"
    "d_parent respawned" "\<not> m_can_link_backup respawned" "superseded 1 respawned = None"
    using respawned_state by (simp_all add: temp_path_def backup_file_def BACKUP_SUFFIX_def TEMP_SUFFIX_def)
  show "d_fates respawned = [Goes, Goes, Goes, Goes, Goes, Goes, Goes, Goes, Goes, Goes, Stops 0]"
    by (simp add: respawned_def)
  show "re_decode sample_restore [] = None" by (simp add: sample_restore_def)
qed (rule sample_rebuild_ok)


definition sample_reports :: "report list" where
  "sample_reports = [\<lparr>r_sequence = 3, r_success = False, r_published = False, r_saved_at = [], r_reason = Some ''storage full''\<rparr>,
     \<lparr>r_sequence = 2, r_success = True, r_published = True, r_saved_at = ''10:02'', r_reason = None\<rparr>,
     \<lparr>r_sequence = 1, r_success = True, r_published = True, r_saved_at = ''10:01'', r_reason = None\<rparr>]"

theorem newest_outcome_wins_witness:
  "checkpoint_failure \<in> set (halt_causes_of (after (forM sample_reports report_outcome (sample_disk []))))
   \<and> m_last_checkpoint_at (after (forM sample_reports report_outcome (sample_disk []))) = Some ''10:02''"
proof -
  let ?r = "sample_reports ! 0" and ?s = "sample_reports ! 1"
  have "service_ok (m_world (sample_disk []))" "distinct (map r_sequence sample_reports)"
    "?r \<in> set sample_reports" "decisive ?r" "m_last_outcome_sequence (sample_disk []) \<le> r_sequence ?r"
    "\<forall>y \<in> set sample_reports. decisive y \<longrightarrow> r_sequence y \<le> r_sequence ?r"
    "?s \<in> set sample_reports" "r_success ?s" "r_published ?s" "m_last_success_sequence (sample_disk []) < r_sequence ?s"
    "\<forall>y \<in> set sample_reports. r_success y \<and> r_published y \<longrightarrow> r_sequence y \<le> r_sequence ?s"
    by (simp_all add: sample_reports_def sample_checkpoint_defs sample_service_ok decisive_def)
  from newest_outcome_wins [OF this(1,2) prod.collapse [symmetric] this(3-)] show ?thesis
    by (simp add: sample_reports_def)
qed

definition sample_job :: job where
  "sample_job = \<lparr>j_sequence = 1, j_reservation = 2500, j_encoder = ([''new''], None), j_saved_at = ''10:00''\<rparr>"

lemma sample_start: "start_fixed_write (Inr (([''new''], None), 1000)) ''10:00'' (sample_disk [])
   = (Inr (Some sample_job), (sample_disk [])\<lparr>m_next_sequence := 1, m_background_reserved := 2500, m_background_writes := [1]\<rparr>)"
  by (simp add: start_fixed_write_def withState_def bindM_def pin_fixed_for_write_def next_sequence_def seqM_def modify_def gets_def
      ret_def sample_checkpoint_defs sample_job_def MAX_BACKGROUND_WRITES_def MAX_BACKGROUND_BYTES_def)

theorem background_bounded_witness:
  "background_ok ((sample_disk [])\<lparr>m_next_sequence := 1, m_background_reserved := 2500, m_background_writes := [1]\<rparr>, [sample_job])"
proof -
  have "background_step (sample_disk [], [])
      ((sample_disk [])\<lparr>m_next_sequence := 1, m_background_reserved := 2500, m_background_writes := [1]\<rparr>, [sample_job])"
    using started [OF sample_start, of "[]"] by simp
  then have "background_step\<^sup>*\<^sup>* (sample_disk [], [])
      ((sample_disk [])\<lparr>m_next_sequence := 1, m_background_reserved := 2500, m_background_writes := [1]\<rparr>, [sample_job])"
    by (rule r_into_rtranclp)
  moreover have "background_ok (sample_disk [], [])"
    by (simp add: background_ok_def sample_checkpoint_defs sequences_ok_def MAX_BACKGROUND_BYTES_def)
  ultimately show ?thesis using background_bounded [of "(sample_disk [], [])"] by blast
qed

end
