(* ===== verification/Checkpoint_Documents.thy ===== *)
theory Checkpoint_Documents
  imports Definition_Loading Py_Json
begin

text \<open>
  The document a snapshot holds, and how it is captured (\<^verbatim>\<open>serialization/checkpoint.py\<close>, with the
  validators of \<^verbatim>\<open>serialization/runtime.py\<close>): the definitions of the flows, the runtime of every node under its path, and
  the passwords of the jobs in flight. The live bunch is given as its trees, which \<open>place\<close> puts into the store.
  Built-in types only; the bunch has no node attributes of its own, as in the world. What Python's time zone, UUID and time
  stamp functions answer, and the two parsers of expressions, are fields of \<open>checkpoint_env\<close>.
\<close>

section \<open>Documents\<close>

type_synonym aware_time = "datetime \<times> int"

record limit_usage =
  lu_value :: int
  lu_node_paths :: "string list"

record runtime_calendar =
  rc_initial_time :: "aware_time option"
  rc_flow_time :: "aware_time option"
  rc_duration :: "timedelta option"
  rc_increment :: "timedelta option"
  rc_initial_real_time :: "aware_time option"
  rc_last_real_time :: "aware_time option"

record flow_runtime =
  fr_begun :: bool
  fr_calendar :: runtime_calendar
  fr_definition_generation :: "string option"

record task_runtime =
  tr_task_id :: "string option"
  tr_try_no :: int
  tr_aborted_reason :: "string option"
  tr_submission_unknown_reason :: "string option"
  tr_definition_generation :: "string option"
  tr_attempt_id :: "string option"
  tr_submitted_at :: "string option"
  tr_started_at :: "string option"
  tr_ended_at :: "string option"
  tr_job_path :: "string option"
  tr_jobout_path :: "string option"
  tr_orvix_info_path :: "string option"

record node_runtime =
  nr_kind :: entry_kind
  nr_state :: node_state
  nr_trigger_free :: bool
  nr_complete_trigger_free :: bool
  nr_is_complete_triggered :: bool
  nr_event_values :: "bool dict"
  nr_meter_values :: "int dict"
  nr_limit_usage :: "limit_usage dict"
  nr_repeat_value :: "int option"
  nr_time_free :: "bool dict"
  nr_flow :: "flow_runtime option"
  nr_task :: "task_runtime option"

record job_secret =
  js_attempt_id :: string
  js_password :: string

record checkpoint_document =
  cd_saved_at :: string
  cd_source_address :: "string \<times> string"
  cd_definition :: definition_root
  cd_server_state :: server_state
  cd_nodes :: "node_runtime dict"
  cd_job_passwords :: "job_secret dict"

record checkpoint_env =
  ce_to_aware :: "datetime \<Rightarrow> aware_time"
  ce_to_local :: "aware_time \<Rightarrow> datetime"
  ce_canonical_uuid :: "string \<Rightarrow> bool"
  ce_aware_text :: "string \<Rightarrow> bool"
  ce_fast_parse :: parser
  ce_parse :: parser

section \<open>Validators of the runtime models\<close>

text \<open>A validator that fails makes the whole document fail with one code.\<close>

definition optional_ok :: "(string \<Rightarrow> bool) \<Rightarrow> string option \<Rightarrow> bool" where
  "optional_ok ok x = (case x of None \<Rightarrow> True | Some v \<Rightarrow> ok v)"

definition task_runtime_ok :: "checkpoint_env \<Rightarrow> node_status \<Rightarrow> task_runtime \<Rightarrow> bool" where
  "task_runtime_ok env st t \<longleftrightarrow> 0 \<le> tr_try_no t
     \<and> optional_ok (ce_canonical_uuid env) (tr_attempt_id t) \<and> optional_ok (ce_canonical_uuid env) (tr_definition_generation t)
     \<and> optional_ok (ce_aware_text env) (tr_submitted_at t) \<and> optional_ok (ce_aware_text env) (tr_started_at t)
     \<and> optional_ok (ce_aware_text env) (tr_ended_at t)
     \<and> tr_definition_generation t \<noteq> None \<and> \<not> (tr_try_no t = 0 \<and> tr_attempt_id t \<noteq> None)
     \<and> (in_flight st \<longrightarrow> tr_attempt_id t \<noteq> None)
     \<and> (case tr_submission_unknown_reason t of None \<Rightarrow> True
        | Some r \<Rightarrow> r \<noteq> [] \<and> st = submitted \<and> tr_attempt_id t \<noteq> None)"

definition flow_runtime_ok :: "checkpoint_env \<Rightarrow> flow_runtime \<Rightarrow> bool" where
  "flow_runtime_ok env f \<longleftrightarrow> fr_definition_generation f \<noteq> None
     \<and> optional_ok (ce_canonical_uuid env) (fr_definition_generation f)"

definition node_runtime_ok :: "checkpoint_env \<Rightarrow> node_runtime \<Rightarrow> bool" where
  "node_runtime_ok env r \<longleftrightarrow>
     list_all (\<lambda>(_, u). 0 \<le> lu_value u \<and> distinct (lu_node_paths u)) (nr_limit_usage r)
     \<and> (nr_kind r = EFlow \<longleftrightarrow> nr_flow r \<noteq> None) \<and> (nr_kind r = ETask \<longleftrightarrow> nr_task r \<noteq> None)
     \<and> (case nr_flow r of None \<Rightarrow> True | Some f \<Rightarrow> flow_runtime_ok env f)
     \<and> (case nr_task r of None \<Rightarrow> True | Some t \<Rightarrow> task_runtime_ok env (node_status (nr_state r)) t)"

section \<open>Capturing a node\<close>

definition capture_calendar :: "checkpoint_env \<Rightarrow> calendar \<Rightarrow> runtime_calendar" where
  "capture_calendar env c = \<lparr>rc_initial_time = map_option (ce_to_aware env) (cal_initial_time c),
     rc_flow_time = map_option (ce_to_aware env) (cal_flow_time c), rc_duration = cal_duration c,
     rc_increment = cal_increment c, rc_initial_real_time = map_option (ce_to_aware env) (cal_initial_real_time c),
     rc_last_real_time = map_option (ce_to_aware env) (cal_last_real_time c)\<rparr>"

definition restore_calendar :: "checkpoint_env \<Rightarrow> runtime_calendar \<Rightarrow> calendar" where
  "restore_calendar env r = \<lparr>cal_initial_time = map_option (ce_to_local env) (rc_initial_time r),
     cal_flow_time = map_option (ce_to_local env) (rc_flow_time r), cal_duration = rc_duration r,
     cal_increment = rc_increment r, cal_initial_real_time = map_option (ce_to_local env) (rc_initial_real_time r),
     cal_last_real_time = map_option (ce_to_local env) (rc_last_real_time r)\<rparr>"

definition capture_task :: "task_data \<Rightarrow> task_runtime" where
  "capture_task t = \<lparr>tr_task_id = task_id t, tr_try_no = try_no t, tr_aborted_reason = aborted_reason t,
     tr_submission_unknown_reason = submission_unknown_reason t, tr_definition_generation = task_generation t,
     tr_attempt_id = attempt_id t, tr_submitted_at = submitted_at t, tr_started_at = started_at t, tr_ended_at = ended_at t,
     tr_job_path = job_path t, tr_jobout_path = jobout_path t, tr_orvix_info_path = orvix_info_path t\<rparr>"

definition is_free :: "expression option \<Rightarrow> bool" where
  "is_free e = (case e of None \<Rightarrow> False | Some e \<Rightarrow> ex_free e)"

definition runtime_of :: "checkpoint_env \<Rightarrow> entry_kind \<Rightarrow> node_attrs \<Rightarrow> node_runtime" where
  "runtime_of env k a = \<lparr>nr_kind = k, nr_state = n_state a, nr_trigger_free = is_free (n_trigger a),
     nr_complete_trigger_free = is_free (n_complete_trigger a), nr_is_complete_triggered = n_is_complete_triggered a,
     nr_event_values = map (\<lambda>e. (ev_name e, ev_value e)) (n_events a),
     nr_meter_values = map (\<lambda>m. (mt_name m, mt_value m)) (n_meters a),
     nr_limit_usage = map (\<lambda>l. (lm_name l, \<lparr>lu_value = lm_value l, lu_node_paths = sorted_list_of_set (lm_node_paths l)\<rparr>)) (n_limits a),
     nr_repeat_value = Option.bind (n_repeat a) (\<lambda>r. map_option repeat_value (rp_r r)),
     nr_time_free = map (\<lambda>t. (time_text t, ta_free t)) (n_times a),
     nr_flow = (if k = EFlow then Some \<lparr>fr_begun = begun (n_flow a), fr_calendar = capture_calendar env (flow_calendar (n_flow a)),
        fr_definition_generation = flow_generation (n_flow a)\<rparr> else None),
     nr_task = (if k = ETask then Some (capture_task (n_task a)) else None)\<rparr>"

text \<open>\<open>node.repeat.r.value\<close> of an empty repeat raises.\<close>

definition capture_node :: "checkpoint_env \<Rightarrow> string \<Rightarrow> node_attrs \<Rightarrow> string + node_runtime" where
  "capture_node env ty a = (case map_of builtin_registry ty of
      None \<Rightarrow> Inl ''unknown_type''
    | Some k \<Rightarrow> if (case n_repeat a of None \<Rightarrow> False | Some r \<Rightarrow> rp_r r = None) then Inl ''invalid_checkpoint''
        else if node_runtime_ok env (runtime_of env k a) then Inr (runtime_of env k a) else Inl ''invalid_checkpoint'')"

section \<open>Nodes under their paths\<close>

fun tree_nodes :: "string \<Rightarrow> tree \<Rightarrow> (string \<times> string \<times> node_attrs) list" where
  "tree_nodes pre (Tree ty script a ts) =
     (pre @ ''/'' @ n_name a, ty, a) # concat (map (tree_nodes (pre @ ''/'' @ n_name a)) ts)"

fun definition_nodes :: "string \<Rightarrow> node_definition \<Rightarrow> (string \<times> node_fields) list" where
  "definition_nodes pre (NodeDefinition f cs) =
     (pre @ ''/'' @ nd_name f, f) # concat (map (definition_nodes (pre @ ''/'' @ nd_name f)) cs)"

section \<open>The bunch in the store\<close>

record bunch_tree =
  bt_name :: string
  bt_parameters :: "parameter dict"
  bt_server_state :: server_state
  bt_flows :: "tree list"

definition flow_names :: "tree list \<Rightarrow> string list" where
  "flow_names ts = map (n_name \<circ> t_attrs) ts"

text \<open>The flows get the identities 0, 1, ...; the bunch itself is the empty position.\<close>

definition place :: "bunch_tree \<Rightarrow> world \<Rightarrow> world" where
  "place b w = w\<lparr>w_shapes := map tree_shape (bt_flows b),
     w_attrs := (\<lambda>p. if p = [] then new_node KContainer (bt_name b) else
       (case nth_opt (bt_flows b) (last p) of
          None \<Rightarrow> w_attrs w p
        | Some t \<Rightarrow> (case tree_attrs (rev (butlast p)) t of None \<Rightarrow> w_attrs w p | Some a \<Rightarrow> a))),
     w_flows := zip (flow_names (bt_flows b)) [0..<length (bt_flows b)],
     w_bunch_parameters := bt_parameters b, w_server_state := bt_server_state b\<rparr>"

text \<open>\<open>nodes.get\<close> with the key \<open>node_path\<close>, and \<open>live_nodes\<close> with the key \<open>_path\<close>.\<close>

definition nodes_at :: "string \<Rightarrow> world \<Rightarrow> string \<Rightarrow> pos option" where
  "nodes_at bunch_path w = map_of (rev ((bunch_path, []) # map (\<lambda>q. (node_path w q, q)) (bunch_walk w)))"

definition bunch_reference :: finder where
  "bunch_reference w owner path =
     (if startswith path ''/'' then Inr (nodes_at (path_str (pure_path [name_of w []])) w path) else find_node w owner path)"

definition bunch_variable :: variables where
  "bunch_variable w q x = (if q = [] then Inr (map_option VarParameter (bunch_find_parameter w x)) else find_variable w q x)"

section \<open>The cross-check of a document\<close>

text \<open>\<open>posixpath.dirname\<close> and \<open>posixpath.normpath\<close>\<close>

definition dirname :: "string \<Rightarrow> string" where
  "dirname p = (let head = rev (dropWhile (\<lambda>c. c \<noteq> slash) (rev p)) in
     if list_all (\<lambda>c. c = slash) head then head else rev (dropWhile (\<lambda>c. c = slash) (rev head)))"

definition norm_step :: "bool \<Rightarrow> string \<Rightarrow> string list \<Rightarrow> string list" where
  "norm_step absolute part parts =
     (if part = [] \<or> part = ''.'' then parts
      else if part \<noteq> ''..'' \<or> (\<not> absolute \<and> parts = []) \<or> (parts \<noteq> [] \<and> last parts = ''..'') then parts @ [part]
      else butlast parts)"

definition normpath :: "string \<Rightarrow> string" where
  "normpath p = (let root = fst (splitroot p);
       res = root @ py_join ''/'' (fold (norm_step (root \<noteq> [])) (py_split slash p) []) in
     if res = [] then ''.'' else res)"

definition parent_path :: "string \<Rightarrow> string" where
  "parent_path p = (if dirname p = [] then ''/'' else dirname p)"

text \<open>A path and those above it, up to the bunch. Every step shortens the path, so that its length is enough steps.\<close>

fun up_paths :: "nat \<Rightarrow> string \<Rightarrow> string list" where
  "up_paths 0 p = [p]"
| "up_paths (Suc n) p = p # (if p = ''/'' then [] else up_paths n (parent_path p))"

definition same_names :: "string list \<Rightarrow> string list \<Rightarrow> code" where
  "same_names actual saved = fails (set actual \<noteq> set saved) ''invalid_runtime''"

record view =
  vw_bunch :: string
  vw_definitions :: "(string \<times> node_fields) list"
  vw_runtime :: "node_runtime dict"
  vw_live :: "world option"

text \<open>The path has to be known; in a live bunch a relative one also has to lead there.\<close>

definition live_reference :: "world \<Rightarrow> string \<Rightarrow> string \<Rightarrow> string \<Rightarrow> code" where
  "live_reference w owner rf target = (case nodes_at ''/'' w owner of
      None \<Rightarrow> Some ''invalid_checkpoint''
    | Some q \<Rightarrow> (case find_node w q rf of
        Inl e \<Rightarrow> Some ''invalid_checkpoint''
      | Inr None \<Rightarrow> Some ''unresolved_reference''
      | Inr (Some n) \<Rightarrow> fails (node_path w n \<noteq> target) ''unresolved_reference''))"

definition referenced_path :: "view \<Rightarrow> string \<Rightarrow> string \<Rightarrow> string + string" where
  "referenced_path v owner rf =
     (let known = (\<lambda>q. q = ''/'' \<or> q \<in> fst ` set (vw_definitions v));
          direct = normpath (if startswith rf ''/'' then rf else dirname owner @ ''/'' @ rf);
          target = (if direct = ''/'' @ vw_bunch v \<and> \<not> known direct then ''/'' else direct) in
      if \<not> known target then Inl ''unresolved_reference''
      else (case vw_live v of
          None \<Rightarrow> Inr target
        | Some w \<Rightarrow> if startswith rf ''/'' then Inr target
            else (case live_reference w owner rf target of None \<Rightarrow> Inr target | Some c \<Rightarrow> Inl c)))"

definition live_variable :: "view \<Rightarrow> string \<Rightarrow> string \<Rightarrow> code" where
  "live_variable v target x = (case vw_live v of
      None \<Rightarrow> None
    | Some w \<Rightarrow> (case nodes_at ''/'' w target of
        None \<Rightarrow> Some ''invalid_checkpoint''
      | Some q \<Rightarrow> (case bunch_variable w q x of
          Inl e \<Rightarrow> Some ''invalid_checkpoint''
        | Inr None \<Rightarrow> Some ''unresolved_reference''
        | Inr (Some _) \<Rightarrow> None)))"

fun check_expression :: "view \<Rightarrow> string \<Rightarrow> ast \<Rightarrow> code" where
  "check_expression v owner (AstVariablePath np x) = (case referenced_path v owner (np_node_path np) of
      Inl c \<Rightarrow> Some c | Inr q \<Rightarrow> live_variable v q x)"
| "check_expression v owner (AstNodePath np) = (case referenced_path v owner (np_node_path np) of
      Inl c \<Rightarrow> Some c | Inr _ \<Rightarrow> None)"
| "check_expression v owner (AstOpEq l r) = first_code [check_expression v owner l, check_expression v owner r]"
| "check_expression v owner (AstOpGt l r) = first_code [check_expression v owner l, check_expression v owner r]"
| "check_expression v owner (AstOpGe l r) = first_code [check_expression v owner l, check_expression v owner r]"
| "check_expression v owner (AstOpLt l r) = first_code [check_expression v owner l, check_expression v owner r]"
| "check_expression v owner (AstOpLe l r) = first_code [check_expression v owner l, check_expression v owner r]"
| "check_expression v owner (AstOpAnd l r) = first_code [check_expression v owner l, check_expression v owner r]"
| "check_expression v owner (AstOpOr l r) = first_code [check_expression v owner l, check_expression v owner r]"
| "check_expression v owner (AstMathAdd l r) = first_code [check_expression v owner l, check_expression v owner r]"
| "check_expression v owner (AstInteger _) = None"
| "check_expression v owner (AstNodeStatus _) = None"

text \<open>\<open>_parse_checkpoint_expression\<close>: the fast parser, then the full one.\<close>

definition parse_checkpoint_expression :: "checkpoint_env \<Rightarrow> string \<Rightarrow> string + ast" where
  "parse_checkpoint_expression env text = (case ce_fast_parse env text of
      Inr a \<Rightarrow> Inr a
    | Inl _ \<Rightarrow> (case ce_parse env text of Inr a \<Rightarrow> Inr a | Inl _ \<Rightarrow> Inl ''expression_syntax''))"

definition check_expression_text :: "checkpoint_env \<Rightarrow> view \<Rightarrow> string \<Rightarrow> string option \<Rightarrow> code" where
  "check_expression_text env v owner text = (case text of None \<Rightarrow> None
     | Some t \<Rightarrow> (case parse_checkpoint_expression env t of Inl c \<Rightarrow> Some c | Inr a \<Rightarrow> check_expression v owner a))"

text \<open>\<open>RuntimeMeter\<close>, \<open>RuntimeLimit\<close>, \<open>RuntimeRepeat\<close>: a value that does not fit its definition.\<close>

definition meter_value_ok :: "meter_definition \<Rightarrow> int \<Rightarrow> bool" where
  "meter_value_ok d x \<longleftrightarrow> md_min_value d \<le> x \<and> x \<le> md_max_value d"

definition limit_usage_ok :: "limit_definition \<Rightarrow> limit_usage \<Rightarrow> bool" where
  "limit_usage_ok d u \<longleftrightarrow> 0 \<le> lu_value u \<and> lu_value u \<le> ld_limit d \<and> distinct (lu_node_paths u)"

text \<open>
  \<open>strptime(text, "%Y%m%d")\<close> on digits: a year of four, then month and day of one or two each, the month as long as
  possible.
\<close>

definition split_month_day :: "int list \<Rightarrow> (int \<times> int) option" where
  "split_month_day ds = (case ds of
      [a, b, c, d] \<Rightarrow> if 1 \<le> 10 * a + b \<and> 10 * a + b \<le> 12 \<and> 1 \<le> 10 * c + d \<and> 10 * c + d \<le> 31 then Some (10 * a + b, 10 * c + d) else None
    | [a, b, c] \<Rightarrow> if 1 \<le> 10 * a + b \<and> 10 * a + b \<le> 12 \<and> 1 \<le> c then Some (10 * a + b, c)
        else if 1 \<le> a \<and> 1 \<le> 10 * b + c \<and> 10 * b + c \<le> 31 then Some (a, 10 * b + c) else None
    | [a, b] \<Rightarrow> if 1 \<le> a \<and> 1 \<le> b then Some (a, b) else None
    | _ \<Rightarrow> None)"

definition strptime_date :: "string \<Rightarrow> int option" where
  "strptime_date s = (if \<not> list_all is_digit s then None else
     (case map digit_value s of
        a # b # c # d # rest \<Rightarrow> (let y = 1000 * a + 100 * b + 10 * c + d in
          case split_month_day rest of
            Some (m, dd) \<Rightarrow> if valid_ymd y m dd then Some (ymd2ord y m dd) else None
          | None \<Rightarrow> None)
      | _ \<Rightarrow> None))"

definition repeat_value_ok :: "repeat_definition \<Rightarrow> int \<Rightarrow> bool" where
  "repeat_value_ok d x = (case (read_date (rf_start_date d), read_date (rf_end_date d), strptime_date (int_text x)) of
      (Some s, Some e, Some y) \<Rightarrow> s \<le> y \<and> y \<le> e \<and> rf_step d dvd (y - s)
    | _ \<Rightarrow> False)"

definition node_view_error :: "checkpoint_env \<Rightarrow> view \<Rightarrow> string \<times> node_fields \<Rightarrow> code" where
  "node_view_error env v node = (case node of (path, f) \<Rightarrow> (case map_of (vw_runtime v) path of
      None \<Rightarrow> Some ''invalid_checkpoint''
    | Some r \<Rightarrow> first_code
       [fails (map_of builtin_registry (nd_type_id f) \<noteq> Some (nr_kind r)) ''invalid_runtime'',
        same_names (map ed_name (nd_events f)) (map fst (nr_event_values r)),
        same_names (map md_name (nd_meters f)) (map fst (nr_meter_values r)),
        same_names (map ld_name (nd_limits f)) (map fst (nr_limit_usage r)),
        same_names (nd_times f) (map fst (nr_time_free r)),
        fails ((nd_repeat f = None) \<noteq> (nr_repeat_value r = None)) ''invalid_runtime'',
        fails (nr_trigger_free r \<and> nd_trigger f = None) ''invalid_runtime'',
        fails (nr_complete_trigger_free r \<and> nd_complete_trigger f = None) ''invalid_runtime'',
        check_expression_text env v path (nd_trigger f),
        check_expression_text env v path (nd_complete_trigger f),
        fails (\<not> list_all (\<lambda>d. case map_of (nr_meter_values r) (md_name d) of Some x \<Rightarrow> meter_value_ok d x | None \<Rightarrow> False)
          (nd_meters f)) ''invalid_checkpoint'',
        fails (\<not> list_all (\<lambda>d. case map_of (nr_limit_usage r) (ld_name d) of Some u \<Rightarrow> limit_usage_ok d u | None \<Rightarrow> False)
          (nd_limits f)) ''invalid_checkpoint'',
        (case (nd_repeat f, nr_repeat_value r) of (Some d, Some x) \<Rightarrow> fails (\<not> repeat_value_ok d x) ''invalid_checkpoint'' | _ \<Rightarrow> None)]))"

section \<open>Limits and their holders\<close>

type_synonym limit_place = "string \<times> string"

definition view_limits :: "view \<Rightarrow> (limit_place \<times> int \<times> limit_usage) list" where
  "view_limits v = concat (map (\<lambda>(path, f). case map_of (vw_runtime v) path of None \<Rightarrow> []
     | Some r \<Rightarrow> map (\<lambda>d. ((path, ld_name d), ld_limit d, case map_of (nr_limit_usage r) (ld_name d) of
          Some u \<Rightarrow> u | None \<Rightarrow> \<lparr>lu_value = 0, lu_node_paths = []\<rparr>)) (nd_limits f)) (vw_definitions v))"

definition bad_limit_reference :: "string \<Rightarrow> bool" where
  "bad_limit_reference p \<longleftrightarrow> p = [] \<or> p = ''/'' \<or> list_ex (\<lambda>i. take 2 (drop i p) = ''//'') [0..<length p]
     \<or> endswith p ''/'' \<or> CHR '':'' \<in> set p \<or> list_ex (\<lambda>c. char_code c = 0) p"

definition resolve_limit :: "view \<Rightarrow> string \<Rightarrow> in_limit_definition \<Rightarrow> string + limit_place" where
  "resolve_limit v owner i =
     (let limits = view_limits v;
          found = (case id_node_path i of
            None \<Rightarrow> (case filter (\<lambda>q. map_of limits (q, id_limit_name i) \<noteq> None) (up_paths (length owner) owner) of
                [] \<Rightarrow> Inl ''unresolved_reference'' | q # _ \<Rightarrow> Inr q)
          | Some p \<Rightarrow> if bad_limit_reference p then Inl ''invalid_reference''
              else (case referenced_path v owner p of Inl c \<Rightarrow> Inl c
                | Inr q \<Rightarrow> if map_of limits (q, id_limit_name i) = None then Inl ''unresolved_reference'' else Inr q)) in
      case found of Inl c \<Rightarrow> Inl c
      | Inr q \<Rightarrow> (case map_of limits (q, id_limit_name i) of
            Some (limit, _) \<Rightarrow> if limit < id_tokens i then Inl ''invalid_reference'' else Inr (q, id_limit_name i)
          | None \<Rightarrow> Inl ''unresolved_reference''))"

definition resolved_limits :: "view \<Rightarrow> string \<times> node_fields \<Rightarrow> string + (limit_place \<times> int) list" where
  "resolved_limits v node = list_outcome (map (\<lambda>i. case resolve_limit v (fst node) i of
      Inl c \<Rightarrow> Inl c | Inr key \<Rightarrow> Inr (key, id_tokens i)) (nd_in_limits (snd node)))"

definition task_view_error :: "view \<Rightarrow> string \<times> node_runtime \<Rightarrow> code" where
  "task_view_error v node = (case node of (path, r) \<Rightarrow> (case nr_task r of
      None \<Rightarrow> None
    | Some t \<Rightarrow> first_code
       [(case map_of (vw_runtime v) (''/'' @ (py_split slash path ! 1)) of
           None \<Rightarrow> Some ''invalid_checkpoint''
         | Some fl \<Rightarrow> fails (tr_definition_generation t \<noteq> Option.bind (nr_flow fl) fr_definition_generation) ''invalid_runtime''),
        fails (in_flight (node_status (nr_state r)) \<and> (tr_attempt_id t = None \<or> tr_attempt_id t = Some [] \<or> tr_try_no t = 0))
          ''invalid_runtime'']))"

definition flying :: "view \<Rightarrow> string list" where
  "flying v = map fst (filter (\<lambda>(_, r). nr_kind r = ETask \<and> in_flight (node_status (nr_state r))) (vw_runtime v))"

text \<open>A task holds every limit named on its way up once, with the tokens of the nearest name.\<close>

definition held_by :: "(string \<times> (limit_place \<times> int) list) list \<Rightarrow> string \<Rightarrow> (limit_place \<times> int) list" where
  "held_by links path = AList.clearjunk (concat (map (\<lambda>q. case map_of links q of None \<Rightarrow> [] | Some ks \<Rightarrow> ks)
     (up_paths (length path) path)))"

definition holders :: "(string \<times> (limit_place \<times> int) list) list \<Rightarrow> view \<Rightarrow> limit_place \<Rightarrow> int dict" where
  "holders links v key = concat (map (\<lambda>path. case map_of (held_by links path) key of
      None \<Rightarrow> [] | Some tokens \<Rightarrow> [(path, tokens)]) (flying v))"

definition occupancy_error :: "(string \<times> (limit_place \<times> int) list) list \<Rightarrow> view \<Rightarrow> code" where
  "occupancy_error links v = fails (\<not> list_all (\<lambda>(key, _, u).
      set (lu_node_paths u) = fst ` set (holders links v key) \<and> lu_value u = sum_list (map snd (holders links v key)))
     (view_limits v)) ''invalid_runtime''"

definition secrets_error :: "view \<Rightarrow> job_secret dict \<Rightarrow> code" where
  "secrets_error v secrets = first_code
     [same_names (flying v) (map fst secrets),
      fails (\<not> list_all (\<lambda>path. case (map_of secrets path, Option.bind (map_of (vw_runtime v) path) nr_task) of
          (Some s, Some t) \<Rightarrow> tr_attempt_id t = Some (js_attempt_id s) | _ \<Rightarrow> False) (flying v)) ''invalid_secret'']"

definition validate_checkpoint_view :: "checkpoint_env \<Rightarrow> view \<Rightarrow> job_secret dict \<Rightarrow> code" where
  "validate_checkpoint_view env v secrets = first_code
     [fails (\<not> distinct (map fst (vw_definitions v))) ''invalid_structure'',
      same_names (map fst (vw_definitions v)) (map fst (vw_runtime v)),
      first_code (map (node_view_error env v) (vw_definitions v)),
      (case list_outcome (map (\<lambda>node. case resolved_limits v node of Inl c \<Rightarrow> Inl c | Inr ks \<Rightarrow> Inr (fst node, ks))
           (vw_definitions v)) of
         Inl c \<Rightarrow> Some c
       | Inr links \<Rightarrow> first_code
          [first_code (map (task_view_error v) (vw_runtime v)), occupancy_error links v, secrets_error v secrets])]"

section \<open>Capturing a checkpoint\<close>

definition job_secret_of :: "checkpoint_env \<Rightarrow> string \<times> string \<times> node_attrs \<Rightarrow> string + job_secret dict" where
  "job_secret_of env node = (case node of (path, _, a) \<Rightarrow>
     if n_kind a = KTask \<and> in_flight (node_status (n_state a))
     then (case (attempt_id (n_task a), job_password (n_task a)) of
        (Some att, Some pw) \<Rightarrow> if att = [] \<or> pw = [] then Inl ''incomplete_checkpoint''
          else if \<not> ce_canonical_uuid env att then Inl ''invalid_checkpoint''
          else Inr [(path, \<lparr>js_attempt_id = att, js_password = pw\<rparr>)]
      | _ \<Rightarrow> Inl ''incomplete_checkpoint'')
     else Inr [])"

definition bunch_nodes :: "bunch_tree \<Rightarrow> (string \<times> string \<times> node_attrs) list" where
  "bunch_nodes b = concat (map (tree_nodes []) (bt_flows b))"

definition bunch_definition :: "bunch_tree \<Rightarrow> definition_root" where
  "bunch_definition b = BunchRoot (bt_name b)
     (map (\<lambda>(k, p). \<lparr>pd_name = pa_name p, pd_value = pa_value p\<rparr>) (bt_parameters b)) (map project (bt_flows b))"

definition view_of_root :: "definition_root \<Rightarrow> node_runtime dict \<Rightarrow> world option \<Rightarrow> view" where
  "view_of_root root nodes live = (case root of
      BunchRoot name ps flows \<Rightarrow> \<lparr>vw_bunch = name, vw_definitions = concat (map (definition_nodes []) flows),
        vw_runtime = nodes, vw_live = live\<rparr>
    | FlowRoot d \<Rightarrow> \<lparr>vw_bunch = [], vw_definitions = definition_nodes [] d, vw_runtime = nodes, vw_live = live\<rparr>)"

definition captured_nodes :: "checkpoint_env \<Rightarrow> bunch_tree \<Rightarrow> string + node_runtime dict" where
  "captured_nodes env b = list_outcome (map (\<lambda>(path, ty, a). case capture_node env ty a of Inl c \<Rightarrow> Inl c | Inr r \<Rightarrow> Inr (path, r))
     (bunch_nodes b))"

definition captured_secrets :: "checkpoint_env \<Rightarrow> bunch_tree \<Rightarrow> string + job_secret dict" where
  "captured_secrets env b = (case list_outcome (map (job_secret_of env) (bunch_nodes b)) of
      Inl c \<Rightarrow> Inl c | Inr ss \<Rightarrow> Inr (concat ss))"

text \<open>The last argument is the store the bunch is in, for the clocks and the address of the service.\<close>

definition capture_checkpoint :: "checkpoint_env \<Rightarrow> string \<Rightarrow> bunch_tree \<Rightarrow> world \<Rightarrow> string + checkpoint_document" where
  "capture_checkpoint env saved_at b w = (case root_error (bunch_definition b) of
      Some c \<Rightarrow> Inl c
    | None \<Rightarrow> (case captured_nodes env b of
        Inl c \<Rightarrow> Inl c
      | Inr nodes \<Rightarrow> (case captured_secrets env b of
          Inl c \<Rightarrow> Inl c
        | Inr secrets \<Rightarrow> (case consistent (bt_server_state b) of
            Inl _ \<Rightarrow> Inl ''invalid_checkpoint''
          | Inr st \<Rightarrow> if \<not> ce_aware_text env saved_at then Inl ''invalid_checkpoint''
             else (case validate_checkpoint_view env (view_of_root (bunch_definition b) nodes (Some (place b w))) secrets of
                Some c \<Rightarrow> Inl c
              | None \<Rightarrow> Inr \<lparr>cd_saved_at = saved_at, cd_source_address = (w_host w, w_port w), cd_definition = bunch_definition b,
                  cd_server_state = st, cd_nodes = nodes, cd_job_passwords = secrets\<rparr>)))))"

end
