(* ===== verification/Checkpoint_Decoding.thy ===== *)
theory Checkpoint_Decoding
  imports Checkpoint_Documents
begin

text \<open>
  Restoring a bunch from a checkpoint document (\<open>restore_checkpoint\<close> of \<^verbatim>\<open>serialization/checkpoint.py\<close>): the
  definitions are built and linked, the document is checked against them, the runtime of every node is put back, and the
  bunch is linked once more, its limits are counted, and the passwords of the jobs in flight are put back.
\<close>

section \<open>Restoring\<close>

definition restored_task :: "task_runtime \<Rightarrow> task_data \<Rightarrow> task_data" where
  "restored_task t d = d\<lparr>task_id := tr_task_id t, try_no := tr_try_no t, aborted_reason := tr_aborted_reason t,
     submission_unknown_reason := tr_submission_unknown_reason t, task_generation := tr_definition_generation t,
     attempt_id := tr_attempt_id t, submitted_at := tr_submitted_at t, started_at := tr_started_at t, ended_at := tr_ended_at t,
     job_path := tr_job_path t, jobout_path := tr_jobout_path t, orvix_info_path := tr_orvix_info_path t\<rparr>"

definition restored_flow :: "checkpoint_env \<Rightarrow> flow_runtime \<Rightarrow> flow_data \<Rightarrow> flow_data" where
  "restored_flow env f d = d\<lparr>begun := fr_begun f, flow_calendar := restore_calendar env (fr_calendar f),
     flow_generation := fr_definition_generation f\<rparr>"

definition from_saved :: "'v dict \<Rightarrow> string \<Rightarrow> 'v \<Rightarrow> 'v" where
  "from_saved d k x = (case map_of d k of Some v \<Rightarrow> v | None \<Rightarrow> x)"

definition meter_fits :: "node_runtime \<Rightarrow> meter \<Rightarrow> bool" where
  "meter_fits r m \<longleftrightarrow> (let x = from_saved (nr_meter_values r) (mt_name m) 0 in mt_min_value m \<le> x \<and> x \<le> mt_max_value m)"

definition limit_fits :: "node_runtime \<Rightarrow> limit \<Rightarrow> bool" where
  "limit_fits r l \<longleftrightarrow> lu_value (from_saved (nr_limit_usage r) (lm_name l) \<lparr>lu_value = 0, lu_node_paths = []\<rparr>) \<le> lm_limit l"

text \<open>\<open>node.repeat.r.value = runtime.repeat_value\<close>, once \<open>RuntimeRepeat\<close> has passed it.\<close>

definition restored_repeat :: "int option \<Rightarrow> repeat option \<Rightarrow> (repeat option) option" where
  "restored_repeat x rp = (case (x, rp) of
      (Some x, Some rp) \<Rightarrow> (case (rp_r rp, strptime_date (int_text x)) of
          (Some d, Some y) \<Rightarrow> if rd_start d \<le> y \<and> y \<le> rd_end d \<and> rd_step d dvd (y - rd_start d)
             then Some (Some (rp\<lparr>rp_r := Some (d\<lparr>rd_value := y\<rparr>)\<rparr>)) else None
        | _ \<Rightarrow> None)
    | _ \<Rightarrow> Some rp)"

definition apply_node :: "checkpoint_env \<Rightarrow> string \<Rightarrow> node_runtime \<Rightarrow> node_attrs \<Rightarrow> string + node_attrs" where
  "apply_node env ty r a = (case first_code
       [fails (map_of builtin_registry ty \<noteq> Some (nr_kind r)) ''invalid_runtime'',
        same_names (map ev_name (n_events a)) (map fst (nr_event_values r)),
        same_names (map mt_name (n_meters a)) (map fst (nr_meter_values r)),
        same_names (map lm_name (n_limits a)) (map fst (nr_limit_usage r)),
        same_names (map time_text (n_times a)) (map fst (nr_time_free r)),
        fails ((n_repeat a = None) \<noteq> (nr_repeat_value r = None)) ''invalid_runtime'',
        fails (nr_trigger_free r \<and> n_trigger a = None) ''invalid_runtime'',
        fails (nr_complete_trigger_free r \<and> n_complete_trigger a = None) ''invalid_runtime'',
        fails (\<not> list_all (meter_fits r) (n_meters a)) ''invalid_checkpoint'',
        fails (\<not> list_all (limit_fits r) (n_limits a)) ''invalid_runtime'',
        fails (restored_repeat (nr_repeat_value r) (n_repeat a) = None) ''invalid_checkpoint''] of
      Some c \<Rightarrow> Inl c
    | None \<Rightarrow> Inr (a\<lparr>n_state := nr_state r,
        n_trigger := map_option (\<lambda>e. e\<lparr>ex_free := nr_trigger_free r\<rparr>) (n_trigger a),
        n_complete_trigger := map_option (\<lambda>e. e\<lparr>ex_free := nr_complete_trigger_free r\<rparr>) (n_complete_trigger a),
        n_is_complete_triggered := nr_is_complete_triggered r,
        n_events := map (\<lambda>e. e\<lparr>ev_value := from_saved (nr_event_values r) (ev_name e) (ev_value e)\<rparr>) (n_events a),
        n_meters := map (\<lambda>m. m\<lparr>mt_value := from_saved (nr_meter_values r) (mt_name m) (mt_value m)\<rparr>) (n_meters a),
        n_limits := map (\<lambda>l. let u = from_saved (nr_limit_usage r) (lm_name l) \<lparr>lu_value = 0, lu_node_paths = []\<rparr> in
           l\<lparr>lm_value := lu_value u, lm_node_paths := set (lu_node_paths u)\<rparr>) (n_limits a),
        n_repeat := the (restored_repeat (nr_repeat_value r) (n_repeat a)),
        n_times := map (\<lambda>t. t\<lparr>ta_free := from_saved (nr_time_free r) (time_text t) (ta_free t)\<rparr>) (n_times a),
        n_flow := (case nr_flow r of Some f \<Rightarrow> restored_flow env f (n_flow a) | None \<Rightarrow> n_flow a),
        n_task := (case nr_task r of Some t \<Rightarrow> restored_task t (n_task a) | None \<Rightarrow> n_task a)\<rparr>))"

text \<open>The loop over the nodes, by their paths.\<close>

fun apply_tree :: "checkpoint_env \<Rightarrow> node_runtime dict \<Rightarrow> string \<Rightarrow> tree \<Rightarrow> string + tree" where
  "apply_tree env nodes pre (Tree ty script a ts) = (case map_of nodes (pre @ ''/'' @ n_name a) of
      None \<Rightarrow> Inl ''invalid_runtime''
    | Some r \<Rightarrow> (case apply_node env ty r a of
        Inl c \<Rightarrow> Inl c
      | Inr a' \<Rightarrow> (case list_outcome (map (apply_tree env nodes (pre @ ''/'' @ n_name a)) ts) of
          Inl c \<Rightarrow> Inl c
        | Inr ts' \<Rightarrow> Inr (Tree ty script a' ts'))))"

section \<open>Linking a bunch\<close>

definition bunch_bind_expressions :: "parser \<Rightarrow> unit dprog" where
  "bunch_bind_expressions parse = withState (\<lambda>w. forM (bunch_walk w) (bind_node parse bunch_reference bunch_variable))"

definition bunch_validate_references :: "unit dprog" where
  "bunch_validate_references = withState (\<lambda>w. forM (bunch_walk w) (check_references bunch_reference))"

text \<open>\<open>validate_occupancy\<close>: what the tasks in flight hold, limit by limit, against what each limit has counted.\<close>

definition held_limits :: "world \<Rightarrow> pos \<Rightarrow> (lref option \<times> int) list" where
  "held_limits w q = AList.clearjunk (concat (map (\<lambda>n. map (\<lambda>il. (il_limit il, il_tokens il)) (n_in_limits (attr w n))) (ups q)))"

definition flying_positions :: "world \<Rightarrow> pos list" where
  "flying_positions w = filter (\<lambda>q. kind_of w q = KTask \<and> in_flight (status_of w q)) (bunch_walk w)"

definition limit_holders :: "world \<Rightarrow> lref \<Rightarrow> int dict" where
  "limit_holders w r = concat (map (\<lambda>q. case map_of (held_limits w q) (Some r) of
      None \<Rightarrow> [] | Some tokens \<Rightarrow> [(node_path w q, tokens)]) (flying_positions w))"

definition limit_counted :: "world \<Rightarrow> lref \<Rightarrow> bool" where
  "limit_counted w r \<longleftrightarrow> fst ` set (limit_holders w r) = lm_node_paths (get_limit w r)
     \<and> sum_list (map snd (limit_holders w r)) = lm_value (get_limit w r)"

definition validate_occupancy :: "unit dprog" where
  "validate_occupancy = withState (\<lambda>w. case first_code
       [fails (\<not> list_all (\<lambda>q. kind_of w q = KTask \<longrightarrow> kind_of w (get_root q) = KFlow \<longrightarrow>
           task_generation (n_task (attr w q)) = flow_generation (n_flow (attr w (get_root q)))) (bunch_walk w)) ''invalid_runtime'',
        fails (\<not> distinct (map (node_path w) (bunch_walk w))) ''invalid_structure'',
        fails (\<not> list_all (\<lambda>q. list_all (\<lambda>i. limit_counted w (q, i)) [0..<length (n_limits (attr w q))]) (bunch_walk w))
          ''invalid_runtime''] of
      Some c \<Rightarrow> raise c | None \<Rightarrow> ret ())"

section \<open>Restoring\<close>

text \<open>\<open>Bunch.add_flow\<close> during construction: a generation for the flow and its tasks, and the flow belongs to the bunch.\<close>

definition new_generation :: "string \<Rightarrow> node_attrs \<Rightarrow> node_attrs" where
  "new_generation u a = (case n_kind a of
      KTask \<Rightarrow> if task_generation (n_task a) = None then a\<lparr>n_task := (n_task a)\<lparr>task_generation := Some u\<rparr>\<rparr> else a
    | KFlow \<Rightarrow> a\<lparr>n_flow := (n_flow a)\<lparr>in_bunch := True,
        flow_generation := (if flow_generation (n_flow a) = None then Some u else flow_generation (n_flow a))\<rparr>\<rparr>
    | KContainer \<Rightarrow> a)"

fun map_tree :: "(node_attrs \<Rightarrow> node_attrs) \<Rightarrow> tree \<Rightarrow> tree" where
  "map_tree f (Tree ty script a ts) = Tree ty script (f a) (map (map_tree f) ts)"

definition adopted :: "world \<Rightarrow> tree list \<Rightarrow> tree list" where
  "adopted w ts = map (\<lambda>(i, t). map_tree (new_generation (w_uuid w (w_uuid_next w + i))) t) (enumerate 0 ts)"

definition take_uuids :: "nat \<Rightarrow> world \<Rightarrow> world" where
  "take_uuids n w = w\<lparr>w_uuid_next := w_uuid_next w + n\<rparr>"

definition document_ok :: "checkpoint_env \<Rightarrow> checkpoint_document \<Rightarrow> bool" where
  "document_ok env doc \<longleftrightarrow> ce_aware_text env (cd_saved_at doc) \<and> consistent (cd_server_state doc) = Inr (cd_server_state doc)
     \<and> list_all (\<lambda>(_, r). node_runtime_ok env r) (cd_nodes doc)
     \<and> list_all (\<lambda>(_, s). ce_canonical_uuid env (js_attempt_id s) \<and> js_password s \<noteq> []) (cd_job_passwords doc)"

definition secret_matches :: "world \<Rightarrow> job_secret dict \<Rightarrow> pos \<Rightarrow> bool" where
  "secret_matches w secrets q \<longleftrightarrow> map_option js_attempt_id (map_of secrets (node_path w q)) = attempt_id (n_task (attr w q))"

definition put_password :: "job_secret dict \<Rightarrow> pos \<Rightarrow> unit dprog" where
  "put_password secrets q = withState (\<lambda>w. if \<not> secret_matches w secrets q then raise ''invalid_secret''
     else modify (upd q (\<lambda>a. a\<lparr>n_task := (n_task a)\<lparr>job_password := map_option js_password (map_of secrets (node_path w q))\<rparr>\<rparr>)))"

definition put_passwords :: "job_secret dict \<Rightarrow> unit dprog" where
  "put_passwords secrets = withState (\<lambda>w. case same_names (map (node_path w) (flying_positions w)) (map fst secrets) of
      Some c \<Rightarrow> raise c | None \<Rightarrow> forM (flying_positions w) (put_password secrets))"

definition relink :: "checkpoint_env \<Rightarrow> unit dprog" where
  "relink env = seqM bunch_validate_references (seqM (bunch_bind_expressions (ce_parse env)) validate_occupancy)"

definition restored_bunch :: "definition_root \<Rightarrow> server_state \<Rightarrow> tree list \<Rightarrow> bunch_tree" where
  "restored_bunch root st ts = (case root of
      BunchRoot name ps _ \<Rightarrow> \<lparr>bt_name = name, bt_parameters = map (\<lambda>p. (pd_name p, Parameter (pd_name p) (pd_value p))) ps,
        bt_server_state = st, bt_flows = ts\<rparr>
    | FlowRoot _ \<Rightarrow> \<lparr>bt_name = [], bt_parameters = [], bt_server_state = st, bt_flows = ts\<rparr>)"

text \<open>
  \<open>build_definition\<close> of the document: its flows, constructed, added to the bunch and linked for the first time. Only that
  this succeeds is kept, because the bunch is linked again with its runtime, which binds everything anew.
\<close>

definition built_flows :: "checkpoint_env \<Rightarrow> definition_root \<Rightarrow> world \<Rightarrow> string + tree list" where
  "built_flows env root w = (case root_error root of
      Some c \<Rightarrow> Inl c
    | None \<Rightarrow> (case root of
        FlowRoot _ \<Rightarrow> Inl ''invalid_structure''
      | BunchRoot name ps flows \<Rightarrow> (case list_outcome (map construct flows) of
          Inl c \<Rightarrow> Inl c
        | Inr ts \<Rightarrow> (case seqM (bunch_bind_expressions (ce_parse env)) bunch_validate_references
              (place (restored_bunch root ServerState (adopted w ts)) w) of
            (Inl c, _) \<Rightarrow> Inl c | (Inr _, _) \<Rightarrow> Inr (adopted w ts)))))"

definition applied_flows :: "checkpoint_env \<Rightarrow> checkpoint_document \<Rightarrow> tree list \<Rightarrow> string + tree list" where
  "applied_flows env doc ts = (case first_code
       [validate_checkpoint_view env (view_of_root (cd_definition doc) (cd_nodes doc) None) (cd_job_passwords doc),
        same_names (map fst (concat (map (tree_nodes []) ts))) (map fst (cd_nodes doc))] of
      Some c \<Rightarrow> Inl c
    | None \<Rightarrow> list_outcome (map (apply_tree env (cd_nodes doc) []) ts))"

text \<open>The world is the store of the new process, which the restored bunch is put into.\<close>

definition restore_checkpoint :: "checkpoint_env \<Rightarrow> checkpoint_document \<Rightarrow> world \<Rightarrow> string + world" where
  "restore_checkpoint env doc w =
     (if \<not> document_ok env doc then Inl ''invalid_checkpoint''
      else case built_flows env (cd_definition doc) w of
        Inl c \<Rightarrow> Inl c
      | Inr ts \<Rightarrow> (case applied_flows env doc ts of
          Inl c \<Rightarrow> Inl c
        | Inr ts' \<Rightarrow> (case seqM (relink env) (put_passwords (cd_job_passwords doc))
              (place (restored_bunch (cd_definition doc) (cd_server_state doc) ts') (take_uuids (length ts') w)) of
            (Inl c, _) \<Rightarrow> Inl c | (Inr _, w') \<Rightarrow> Inr w')))"

end
