(* ===== verification/Checkpoint_Linking.thy ===== *)
theory Checkpoint_Linking
  imports Checkpoint_Decoding
begin

text \<open>
  Linking a bunch, that is binding its expressions and its in-limits, reads only the names in the trees. The outcome is the same
  for the tree a definition builds and for the tree with its runtime, and nothing but the bindings changes.
\<close>

section \<open>Programs whose outcome a view decides\<close>

definition decided_by :: "('s \<Rightarrow> 'v) \<Rightarrow> ('s, 'e, 'a) prog \<Rightarrow> bool" where
  "decided_by f m \<longleftrightarrow> (\<forall>s t. f s = f t \<longrightarrow> outcome (m s) = outcome (m t))"

lemma decided_byD: "decided_by f m \<Longrightarrow> f s = f t \<Longrightarrow> outcome (m s) = outcome (m t)"
  unfolding decided_by_def by blast

lemma decided_seqM:
  assumes "decided_by f m" "obeys (same f) m" "decided_by f n"
  shows "decided_by f (seqM m n)"
  unfolding decided_by_def
proof (intro allI impI)
  fix s t assume st: "f s = f t"
  obtain r s1 t1 where m: "m s = (r, s1)" "m t = (r, t1)"
    using decided_byD [OF assms(1) st] by (metis prod.collapse)
  have "f s1 = f t1"
    using obeys_same_wp [OF assms(2), of s] obeys_same_wp [OF assms(2), of t] by (simp add: m st)
  then show "outcome (seqM m n s) = outcome (seqM m n t)"
    using decided_byD [OF assms(3), of s1 t1] m by (cases r) (simp_all add: seqM_def bindM_def)
qed

lemma decided_forM:
  assumes "\<And>x. decided_by f (g x)" "\<And>x. obeys (same f) (g x)"
  shows "decided_by f (forM xs g)"
proof (induction xs)
  case Nil
  then show ?case by (simp add: decided_by_def ret_def)
next
  case (Cons x xs)
  then show ?case unfolding forM.simps by (intro decided_seqM assms)
qed

lemma decided_withState_forM:
  assumes "\<And>s t. f s = f t \<Longrightarrow> xs s = xs t" "\<And>x. decided_by f (g x)" "\<And>x. obeys (same f) (g x)"
  shows "decided_by f (withState (\<lambda>s. forM (xs s) g))"
  unfolding decided_by_def withState_def
  using assms(1) decided_byD [OF decided_forM [of f g, OF assms(2,3)]] by metis

section \<open>The names in the trees\<close>

definition node_names :: "node_attrs \<Rightarrow> _" where
  "node_names a = (n_kind a, n_name a, n_user_parameters a, map ev_name (n_events a), map mt_name (n_meters a),
     map (\<lambda>l. (lm_name l, lm_limit l)) (n_limits a), map (\<lambda>i. (il_limit_name i, il_tokens i, il_node_path i)) (n_in_limits a),
     map_option ex_expression_str (n_trigger a), map_option ex_expression_str (n_complete_trigger a),
     map_option (\<lambda>rp. map_option rd_name (rp_r rp)) (n_repeat a))"

definition names_view :: "world \<Rightarrow> _" where
  "names_view w = (w_shapes w, w_flows w, w_bunch_parameters w, \<lambda>p. node_names (attr w p))"

interpretation names: frame "same names_view" by (rule frame_same)

lemma names_viewD:
  assumes "names_view w = names_view w'"
  shows "w_shapes w = w_shapes w'" "w_flows w = w_flows w'" "w_bunch_parameters w = w_bunch_parameters w'"
    "node_names (attr w p) = node_names (attr w' p)"
  using assms by (auto simp: names_view_def fun_eq_iff)

lemma node_namesD:
  assumes "node_names a = node_names b"
  shows "n_kind a = n_kind b" "n_name a = n_name b" "n_user_parameters a = n_user_parameters b"
    "map ev_name (n_events a) = map ev_name (n_events b)" "map mt_name (n_meters a) = map mt_name (n_meters b)"
    "map (\<lambda>l. (lm_name l, lm_limit l)) (n_limits a) = map (\<lambda>l. (lm_name l, lm_limit l)) (n_limits b)"
    "map (\<lambda>i. (il_limit_name i, il_tokens i, il_node_path i)) (n_in_limits a) = map (\<lambda>i. (il_limit_name i, il_tokens i, il_node_path i)) (n_in_limits b)"
    "map_option ex_expression_str (n_trigger a) = map_option ex_expression_str (n_trigger b)"
    "map_option ex_expression_str (n_complete_trigger a) = map_option ex_expression_str (n_complete_trigger b)"
    "map_option (\<lambda>rp. map_option rd_name (rp_r rp)) (n_repeat a) = map_option (\<lambda>rp. map_option rd_name (rp_r rp)) (n_repeat b)"
  using assms by (simp_all add: node_names_def)

lemma find_index_map: "map f xs = map g ys \<Longrightarrow> (\<And>x. P x = P' (f x)) \<Longrightarrow> (\<And>y. Q y = P' (g y)) \<Longrightarrow> find_index P xs = find_index Q ys"
proof (induction xs arbitrary: ys)
  case (Cons x xs)
  then show ?case by (cases ys) auto
qed simp

lemma names_lookup:
  assumes "names_view w = names_view w'"
  shows "node_path w = node_path w'" "subtree w = subtree w'" "bunch_walk w = bunch_walk w'" "find_node w = find_node w'"
    "bunch_reference w = bunch_reference w'" "find_limit w = find_limit w'" "find_limit_up w = find_limit_up w'"
proof -
  note v = names_viewD [OF assms]
  have n: "name_of w p = name_of w' p" for p using node_namesD(2) [OF v(4)] .
  then have names: "path_names w = path_names w'" by (simp add: path_names_def fun_eq_iff)
  then show path: "node_path w = node_path w'" by (simp add: node_path_def fun_eq_iff)
  show sub: "subtree w = subtree w'" by (simp add: subtree_def v(1) fun_eq_iff)
  show walk: "bunch_walk w = bunch_walk w'" by (simp add: bunch_walk_def sub v(2))
  have child: "find_child_index w p x = find_child_index w' p x" for p x
    by (simp add: find_child_index_def children_def arity_def sub n)
  have "follow w p ts = follow w' p ts" for p ts
    by (induction ts arbitrary: p) (simp_all add: child split: option.splits)
  then show find: "find_node w = find_node w'" by (simp add: find_node_def path n fun_eq_iff Let_def split: list.splits)
  show "bunch_reference w = bunch_reference w'"
    by (simp add: bunch_reference_def nodes_at_def path walk find n fun_eq_iff)
  show limit: "find_limit w = find_limit w'"
  proof (intro ext)
    fix p x
    have "find_index (\<lambda>l. lm_name l = x) (n_limits (attr w p)) = find_index (\<lambda>l. lm_name l = x) (n_limits (attr w' p))"
      by (rule find_index_map [OF node_namesD(6) [OF v(4)], where P' = "\<lambda>(n, _). n = x"]) simp_all
    then show "find_limit w p x = find_limit w' p x" by (simp add: find_limit_def)
  qed
  show "find_limit_up w = find_limit_up w'" by (simp add: find_limit_up_def limit fun_eq_iff)
qed

section \<open>Linking changes bindings only\<close>

definition unlinked_world :: "world \<Rightarrow> world" where
  "unlinked_world w = w\<lparr>w_attrs := (\<lambda>p. unlinked_node (attr w p))\<rparr>"

interpretation unl: frame "same unlinked_world" by (rule frame_same)

lemma node_names_unlinked: "node_names (unlinked_node a) = node_names a"
  by (cases "n_trigger a"; cases "n_complete_trigger a")
     (simp_all add: node_names_def unlinked_node_def unbound_expression_def unlinked_def comp_def)

lemma names_of_unlinked: "unlinked_world w = unlinked_world w' \<Longrightarrow> names_view w = names_view w'"
proof -
  have "names_view (unlinked_world w) = names_view w" for w
    by (simp add: names_view_def unlinked_world_def node_names_unlinked)
  then show "unlinked_world w = unlinked_world w' \<Longrightarrow> names_view w = names_view w'" by metis
qed

lemma unlinked_worldD: "unlinked_world w = unlinked_world w' \<Longrightarrow> unlinked_node (attr w q) = unlinked_node (attr w' q)"
proof -
  have "attr (unlinked_world w) q = unlinked_node (attr w q)" for w by (simp add: unlinked_world_def)
  then show "unlinked_world w = unlinked_world w' \<Longrightarrow> unlinked_node (attr w q) = unlinked_node (attr w' q)" by metis
qed

lemma unlinked_world_rest:
  assumes "unlinked_world w = unlinked_world w'"
  shows "w_shapes w = w_shapes w'" "w_flows w = w_flows w'" "w_bunch_parameters w = w_bunch_parameters w'" "w_server_state w = w_server_state w'"
proof -
  have "w_shapes (unlinked_world w) = w_shapes w" "w_flows (unlinked_world w) = w_flows w"
    "w_bunch_parameters (unlinked_world w) = w_bunch_parameters w" "w_server_state (unlinked_world w) = w_server_state w" for w
    by (simp_all add: unlinked_world_def)
  then show "w_shapes w = w_shapes w'" "w_flows w = w_flows w'" "w_bunch_parameters w = w_bunch_parameters w'"
    "w_server_state w = w_server_state w'" using assms by metis+
qed

lemma unlinked_upd:
  assumes "unlinked_node (f (attr w q)) = unlinked_node (attr w q)"
  shows "unlinked_world (upd q f w) = unlinked_world w"
  using assms by (simp add: unlinked_world_def upd_def fun_eq_iff)

lemma bind_node_unlinked: "obeys (same unlinked_world) (bind_node parse look var q)"
proof -
  have e: "map_option unbound_expression ex' = map_option unbound_expression ex" if "bind_expression parse look var w q ex = Inr ex'" for w ex ex'
    using that by (auto simp: bind_expression_def unbound_expression_def split: option.splits sum.splits)
  have 1: "obeys (same unlinked_world) (withState (\<lambda>w. case bind_expression parse look var w q (n_trigger (attr w q)) of
         Inl c \<Rightarrow> raise c | Inr e \<Rightarrow> modify (upd q (\<lambda>a. a\<lparr>n_trigger := e\<rparr>))))"
    using e by (auto simp: obeys_def same_def prog_defs unlinked_node_def intro!: unlinked_upd split: sum.splits)
  have 2: "obeys (same unlinked_world) (withState (\<lambda>w. case bind_expression parse look var w q (n_complete_trigger (attr w q)) of
         Inl c \<Rightarrow> raise c | Inr e \<Rightarrow> modify (upd q (\<lambda>a. a\<lparr>n_complete_trigger := e\<rparr>))))"
    using e by (auto simp: obeys_def same_def prog_defs unlinked_node_def intro!: unlinked_upd split: sum.splits)
  show ?thesis unfolding bind_node_def by (intro unl.obeys_seqM 1 2)
qed

lemma check_reference_unlinked: "obeys (same unlinked_world) (check_reference look q i)"
proof -
  have "unlinked_node (set_limit i r a) = unlinked_node a" for r a
    by (auto simp: set_limit_def unlinked_node_def nth_opt_conv map_update unlinked_def list_update_same_conv split: option.splits)
  then have "obeys (same unlinked_world) (modify (upd q (set_limit i r)))" for r
    by (simp add: obeys_def same_def modify_def unlinked_upd)
  then show ?thesis
    unfolding check_reference_def
    by (intro unl.obeys_withState unl.obeys_sum unl.obeys_option unl.obeys_if unl.obeys_raise unl.obeys_ret)
qed

lemma check_references_unlinked: "obeys (same unlinked_world) (check_references look q)"
  unfolding check_references_def by (intro unl.obeys_withState unl.obeys_forM check_reference_unlinked)

lemma linking_unlinked:
  "obeys (same unlinked_world) (bunch_bind_expressions parse)" "obeys (same unlinked_world) bunch_validate_references"
  unfolding bunch_bind_expressions_def bunch_validate_references_def
  by (intro unl.obeys_withState unl.obeys_forM bind_node_unlinked check_references_unlinked)+

lemma names_of_obeys: "obeys (same unlinked_world) m \<Longrightarrow> obeys (same names_view) m"
  unfolding obeys_def same_def using names_of_unlinked by blast

section \<open>Linking reads names only\<close>

fun found :: "exc + 'a option \<Rightarrow> bool option" where
  "found (Inl e) = None"
| "found (Inr x) = Some (x \<noteq> None)"

lemma dict_get_update_None: "dict_get (dict_update d ps) x = None \<longleftrightarrow> dict_get d x = None \<and> x \<notin> fst ` set ps"
  by (induction ps arbitrary: d) (auto simp: dict_get_set)

lemma repeat_names:
  assumes "node_names a = node_names b"
  shows "(case repeat_parameters a of Inl e \<Rightarrow> None | Inr d \<Rightarrow> Some (map fst d)) = (case repeat_parameters b of Inl e \<Rightarrow> None | Inr d \<Rightarrow> Some (map fst d))"
  using node_namesD(10) [OF assms]
  by (cases "n_repeat a"; cases "n_repeat b") (auto simp: repeat_parameters_def Repeat_generated_parameters_def repeat_generated_parameters_def dest!: sym [of "Some _"] split: option.splits)

lemma found_generated:
  assumes "names_view w = names_view w'"
  shows "found (find_generated_parameter w q x) = found (find_generated_parameter w' q x)"
proof -
  note n = node_namesD [OF names_viewD(4) [OF assms, of q]]
  have cls: "fst ` set (class_parameters (attr w q)) = fst ` set (class_parameters (attr w' q))"
    by (simp add: class_parameters_def n(1) task_generated_parameters_def flow_generated_parameters_def split: node_kind.splits)
  have g: "found (Node_find_generated_parameter w q x) = found (Node_find_generated_parameter w' q x)"
  proof (cases "repeat_parameters (attr w q)")
    case (Inl e)
    then obtain e' where "repeat_parameters (attr w' q) = Inl e'"
      using repeat_names [OF names_viewD(4) [OF assms, of q]] by (auto split: sum.splits)
    with Inl show ?thesis by (simp add: Node_find_generated_parameter_def generated_parameters_only_def)
  next
    case (Inr d)
    then obtain d' where d': "repeat_parameters (attr w' q) = Inr d'" "map fst d = map fst d'"
      using repeat_names [OF names_viewD(4) [OF assms, of q]] by (auto split: sum.splits)
    then have "dict_get d x = None \<longleftrightarrow> dict_get d' x = None" by (metis map_of_eq_None_iff set_map)
    with Inr d'(1) show ?thesis
      using dict_get_update_None [of d "class_parameters (attr w q)" x] dict_get_update_None [of d' "class_parameters (attr w' q)" x]
      by (simp add: Node_find_generated_parameter_def generated_parameters_only_def cls)
  qed
  have t: "(task_find_generated a x = None) = (task_find_generated b x = None)" for a b by (simp add: task_find_generated_def)
  have f: "(flow_find_generated a x = None) = (flow_find_generated b x = None)" for a b by (simp add: flow_find_generated_def)
  show ?thesis
    using t [of "n_task (attr w q)" "n_task (attr w' q)"] f [of "n_flow (attr w q)" "n_flow (attr w' q)"] g
    by (cases "kind_of w' q") (auto simp: find_generated_parameter_def n(1) split: option.splits)
qed

lemma found_variable:
  assumes "names_view w = names_view w'"
  shows "found (bunch_variable w q x) = found (bunch_variable w' q x)"
proof -
  note n = node_namesD [OF names_viewD(4) [OF assms, of q]]
  have e: "find_event w q x = find_event w' q x" unfolding find_event_def by (rule find_index_map [OF n(4)]) simp_all
  have m: "find_meter w q x = find_meter w' q x" unfolding find_meter_def by (rule find_index_map [OF n(5)]) simp_all
  have p: "found (find_parameter w q x) = found (find_parameter w' q x)"
    using found_generated [OF assms, of q x]
    by (simp add: find_parameter_def find_user_parameter_def n(3) split: option.splits)
  have "found (find_variable w q x) = found (find_variable w' q x)"
    using p by (auto simp: find_variable_def e m split: option.splits sum.splits)
  moreover have "(bunch_find_parameter w x = None) = (bunch_find_parameter w' x = None)"
    by (simp add: bunch_find_parameter_def names_viewD(3) [OF assms] server_parameters_def split: option.splits)
  ultimately show ?thesis by (simp add: bunch_variable_def)
qed

lemma bind_names:
  assumes "names_view w = names_view w'"
  shows "bind bunch_reference bunch_variable w q e = bind bunch_reference bunch_variable w' q e"
proof (induction e)
  case (AstVariablePath np x)
  have "bunch_variable w r x = Inl y \<Longrightarrow> \<exists>z. bunch_variable w' r x = Inl z" "bunch_variable w r x = Inr o1 \<Longrightarrow>
      \<exists>o2. bunch_variable w' r x = Inr o2 \<and> (o1 = None) = (o2 = None)" for r y o1
    using found_variable [OF assms, of r x] by (cases "bunch_variable w' r x"; auto)+
  then show ?case by (fastforce simp: bind_path_def names_lookup [OF assms] split: sum.splits option.splits)
qed (simp_all add: bind_path_def names_lookup [OF assms])

lemma bind_expression_names:
  assumes "names_view w = names_view w'" "map_option ex_expression_str ex = map_option ex_expression_str ex'"
  shows "(case bind_expression parse bunch_reference bunch_variable w q ex of Inl c \<Rightarrow> Inl c | Inr _ \<Rightarrow> Inr ())
    = (case bind_expression parse bunch_reference bunch_variable w' q ex' of Inl c \<Rightarrow> Inl c | Inr _ \<Rightarrow> Inr ())"
  using assms(2) bind_names [OF assms(1)]
  by (cases ex; cases ex') (auto simp: bind_expression_def split: sum.splits)

lemma outcome_case_modify:
  "outcome ((case x of Inl c \<Rightarrow> raise c | Inr e \<Rightarrow> modify (f e)) w) = (case x of Inl c \<Rightarrow> Inl c | Inr _ \<Rightarrow> Inr ())"
  by (cases x) (simp_all add: prog_defs)

lemma bind_node_names: "decided_by names_view (bind_node parse bunch_reference bunch_variable q)"
proof -
  let ?b = "bind_expression parse bunch_reference bunch_variable"
  have 1: "decided_by names_view (withState (\<lambda>w. case ?b w q (n_trigger (attr w q)) of
         Inl c \<Rightarrow> raise c | Inr e \<Rightarrow> modify (upd q (\<lambda>a. a\<lparr>n_trigger := e\<rparr>))))"
    unfolding decided_by_def withState_def outcome_case_modify
    using bind_expression_names node_namesD(8) names_viewD(4) by blast
  have 2: "decided_by names_view (withState (\<lambda>w. case ?b w q (n_complete_trigger (attr w q)) of
         Inl c \<Rightarrow> raise c | Inr e \<Rightarrow> modify (upd q (\<lambda>a. a\<lparr>n_complete_trigger := e\<rparr>))))"
    unfolding decided_by_def withState_def outcome_case_modify
    using bind_expression_names node_namesD(9) names_viewD(4) by blast
  have u: "unlinked_node (a\<lparr>n_trigger := e\<rparr>) = unlinked_node a" if "map_option unbound_expression e = map_option unbound_expression (n_trigger a)" for a e
    using that by (simp add: unlinked_node_def)
  have "obeys (same unlinked_world) (withState (\<lambda>w. case ?b w q (n_trigger (attr w q)) of
         Inl c \<Rightarrow> raise c | Inr e \<Rightarrow> modify (upd q (\<lambda>a. a\<lparr>n_trigger := e\<rparr>))))"
    by (auto simp: obeys_def same_def prog_defs bind_expression_def unbound_expression_def intro!: unlinked_upd u split: sum.splits option.splits)
  then show ?thesis unfolding bind_node_def by (intro decided_seqM 1 2 names_of_obeys)
qed

lemma found_limit_range: "find_limit w p x = Some r \<Longrightarrow> snd r < length (n_limits (attr w (fst r)))"
  by (auto simp: find_limit_def dest: find_index_SomeD)

lemma reference_limit_range: "reference_limit look w q il = Inr (Some r) \<Longrightarrow> snd r < length (n_limits (attr w (fst r)))"
  by (auto simp: reference_limit_def find_limit_up_def dest!: first_some_SomeD dest: found_limit_range split: option.splits sum.splits if_splits)

lemma reference_limit_names:
  assumes "names_view w = names_view w'" "(il_limit_name i, il_tokens i, il_node_path i) = (il_limit_name j, il_tokens j, il_node_path j)"
  shows "reference_limit bunch_reference w q i = reference_limit bunch_reference w' q j"
proof -
  have "il_limit_name i = il_limit_name j" "il_node_path i = il_node_path j" using assms(2) by simp_all
  then show ?thesis unfolding reference_limit_def names_lookup [OF assms(1)] by (simp only:)
qed

lemma nth_map_eq: "map f xs = map f ys \<Longrightarrow> i < length xs \<Longrightarrow> f (xs ! i) = f (ys ! i)"
  by (metis length_map nth_map)

lemma check_reference_names: "decided_by names_view (check_reference bunch_reference q i)"
  unfolding decided_by_def
proof (intro allI impI)
  fix w w' :: world assume vw: "names_view w = names_view w'"
  note n = node_namesD(7) [OF names_viewD(4) [OF vw, of q]]
  show "outcome (check_reference bunch_reference q i w) = outcome (check_reference bunch_reference q i w')"
  proof (cases "i < length (n_in_limits (attr w q))")
    case True
    let ?il = "n_in_limits (attr w q) ! i" and ?jl = "n_in_limits (attr w' q) ! i"
    have len: "length (n_in_limits (attr w q)) = length (n_in_limits (attr w' q))" using n by (rule map_eq_imp_length_eq)
    have il: "(il_limit_name ?il, il_tokens ?il, il_node_path ?il) = (il_limit_name ?jl, il_tokens ?jl, il_node_path ?jl)"
      using nth_map_eq [OF n True] .
    note r = reference_limit_names [OF vw il, of q]
    have "lm_limit (get_limit w x) = lm_limit (get_limit w' x)" if "reference_limit bunch_reference w q ?il = Inr (Some x)" for x
      unfolding get_limit_def using nth_map_eq [OF node_namesD(6) [OF names_viewD(4) [OF vw]] reference_limit_range [OF that]] by simp
    then show ?thesis using True len il r
      by (auto simp: check_reference_def nth_opt_conv prog_defs split: sum.splits option.splits)
  next
    case False
    moreover have "length (n_in_limits (attr w q)) = length (n_in_limits (attr w' q))" using n by (rule map_eq_imp_length_eq)
    ultimately show ?thesis by (simp add: check_reference_def nth_opt_conv prog_defs)
  qed
qed

lemma linking_names: "decided_by names_view (bunch_bind_expressions parse)" "decided_by names_view bunch_validate_references"
proof -
  have len: "[0..<length (n_in_limits (attr s q))] = [0..<length (n_in_limits (attr t q))]" if "names_view s = names_view t" for s t q
    using map_eq_imp_length_eq [OF node_namesD(7) [OF names_viewD(4) [OF that, of q]]] by (simp only:)
  have r: "decided_by names_view (check_references bunch_reference q)" for q
    unfolding check_references_def
    by (intro decided_withState_forM check_reference_names names_of_obeys check_reference_unlinked len)
  show "decided_by names_view (bunch_bind_expressions parse)"
    unfolding bunch_bind_expressions_def
    by (intro decided_withState_forM names_lookup(3) bind_node_names names_of_obeys bind_node_unlinked)
  show "decided_by names_view bunch_validate_references"
    unfolding bunch_validate_references_def
    by (intro decided_withState_forM names_lookup(3) r names_of_obeys check_references_unlinked)
qed

end
