(* ===== verification/Checkpoint_Nodes.thy ===== *)
theory Checkpoint_Nodes
  imports Checkpoint_Linking
begin

text \<open>
  What of a node a checkpoint keeps, for one node: its dates and times read back from their texts, the part of the node
  that is durable, and the runtime of a node applied to the fresh node its definition builds, which gives the durable part.
\<close>

section \<open>Dates and times read back\<close>

definition date_ok :: "int \<Rightarrow> bool" where
  "date_ok v = (case ord2ymd v of (y, m, d) \<Rightarrow> 1000 \<le> y \<and> valid_ymd y m d \<and> ymd2ord y m d = v)"

lemma days_in_month_le: "days_in_month y m \<le> 31"
  by (simp add: days_in_month_def)

lemma four_digits: "(y :: int) = 10 * (10 * (10 * (y div 1000) + y div 100 mod 10) + y div 10 mod 10) + y mod 10"
proof -
  have "y div 100 = y div 10 div 10" "y div 1000 = y div 10 div 10 div 10" by (simp_all add: zdiv_zmult2_eq [symmetric])
  then show ?thesis by (metis add.commute mod_div_decomp mult.commute)
qed

lemma int_text_snoc:
  assumes "1 \<le> a" "0 \<le> b" "b \<le> 9"
  shows "int_text (10 * a + b) = int_text a @ [digit_char b]"
proof -
  have "nat (10 * a + b) div 10 = nat a" "nat (10 * a + b) mod 10 = nat b" "\<not> nat (10 * a + b) < 10"
    using assms by (simp_all add: nat_add_distrib nat_mult_distrib)
  then show ?thesis using assms by (simp add: int_text_def nat_digits.simps [of "nat (10 * a + b)"])
qed

lemma int_text_digit: "1 \<le> d \<Longrightarrow> d \<le> 9 \<Longrightarrow> int_text d = [digit_char d]"
  by (simp add: int_text_def nat_digits.simps [of "nat d"] nat_less_iff)

lemma int_text_year:
  assumes "1000 \<le> y" "y \<le> 9999"
  shows "int_text y = fmt4 y"
proof -
  have t: "int_text (10 * (10 * (10 * a + b) + c) + d) = [digit_char a, digit_char b, digit_char c, digit_char d]"
    if "1 \<le> a" "a \<le> 9" "0 \<le> b" "b \<le> 9" "0 \<le> c" "c \<le> 9" "0 \<le> d" "d \<le> 9" for a b c d
    using that int_text_snoc [of "10 * (10 * a + b) + c" d] int_text_snoc [of "10 * a + b" c] int_text_snoc [of a b]
      int_text_digit [of a] by simp
  have "1 \<le> y div 1000" "y div 1000 \<le> 9" using assms by linarith+
  then show ?thesis
    unfolding fmt4_def by (subst four_digits [of y], intro t) simp_all
qed

lemma int_text_date:
  assumes "1000 \<le> y" "valid_ymd y m d"
  shows "int_text (y * 10000 + m * 100 + d) = fmt4 y @ fmt2 m @ fmt2 d"
proof -
  have r: "1 \<le> m" "m \<le> 12" "1 \<le> d" "d \<le> 31" "y \<le> 9999"
    using assms days_in_month_le [of y m] by (auto simp: valid_ymd_def)
  have e: "y * 10000 + m * 100 + d = 10 * (10 * (10 * (10 * y + m div 10) + m mod 10) + d div 10) + d mod 10"
    using mult_div_mod_eq [of 10 m] mult_div_mod_eq [of 10 d] by (simp add: algebra_simps)
  have b: "0 \<le> m div 10" "m div 10 \<le> 9" "0 \<le> d div 10" "d div 10 \<le> 9" using r by auto
  have t: "int_text (10 * (10 * (10 * (10 * y + a) + b) + c) + e) = int_text y @ [digit_char a, digit_char b, digit_char c, digit_char e]"
    if "0 \<le> a" "a \<le> 9" "0 \<le> b" "b \<le> 9" "0 \<le> c" "c \<le> 9" "0 \<le> e" "e \<le> 9" for a b c e
    using that assms(1) int_text_snoc [of "10 * (10 * (10 * y + a) + b) + c" e] int_text_snoc [of "10 * (10 * y + a) + b" c]
      int_text_snoc [of "10 * y + a" b] int_text_snoc [of y a] by simp
  show ?thesis
    unfolding e fmt2_def int_text_year [OF assms(1) r(5), symmetric] append.simps by (intro t) (use b in simp_all)
qed

lemma digits2_fmt: "0 \<le> v \<Longrightarrow> v < 100 \<Longrightarrow> digits2 (digit_char (v div 10)) (digit_char (v mod 10)) = v"
  by (simp add: digits2_def digit_char_value)

lemma fmt4_obtain:
  assumes "0 \<le> y" "y \<le> 9999"
  obtains a b c e where "fmt4 y = [digit_char a, digit_char b, digit_char c, digit_char e]" "y = 1000 * a + 100 * b + 10 * c + e"
    "0 \<le> a" "a \<le> 9" "0 \<le> b" "b \<le> 9" "0 \<le> c" "c \<le> 9" "0 \<le> e" "e \<le> 9"
proof
  show "y = 1000 * (y div 1000) + 100 * (y div 100 mod 10) + 10 * (y div 10 mod 10) + y mod 10"
    using four_digits [of y, symmetric] by (simp add: distrib_left)
  show "0 \<le> y div 1000" "y div 1000 \<le> 9" using assms by linarith+
qed (simp_all add: fmt4_def)

lemma fmt2_obtain:
  assumes "0 \<le> v" "v < 100"
  obtains a b where "fmt2 v = [digit_char a, digit_char b]" "v = 10 * a + b" "0 \<le> a" "a \<le> 9" "0 \<le> b" "b \<le> 9"
proof (rule that [of "v div 10" "v mod 10"])
  show "v div 10 \<le> 9" using assms by linarith
qed (use assms in \<open>simp_all add: fmt2_def\<close>)

lemma date_text:
  assumes "date_ok v"
  shows "read_date (fmt8 (date_int v)) = Some v" "strptime_date (int_text (date_int v)) = Some v"
proof -
  obtain y m d where o: "ord2ymd v = (y, m, d)" by (cases "ord2ymd v")
  have v: "1000 \<le> y" "valid_ymd y m d" "ymd2ord y m d = v" using assms by (simp_all add: date_ok_def o)
  have r: "1 \<le> m" "m \<le> 12" "1 \<le> d" "d \<le> 31" "y \<le> 9999"
    using v(2) days_in_month_le [of y m] by (auto simp: valid_ymd_def)
  have n: "date_int v = y * 10000 + m * 100 + d" by (simp add: date_int_def o)
  have t8: "fmt8 (date_int v) = fmt4 y @ fmt2 m @ fmt2 d"
    unfolding n fmt8_def using split_date [of m d y] r by simp
  obtain a b c e where Y: "fmt4 y = [digit_char a, digit_char b, digit_char c, digit_char e]" "y = 1000 * a + 100 * b + 10 * c + e"
    and y: "0 \<le> a" "a \<le> 9" "0 \<le> b" "b \<le> 9" "0 \<le> c" "c \<le> 9" "0 \<le> e" "e \<le> 9"
    by (rule fmt4_obtain [of y]) (use v(1) r(5) in auto)
  obtain m1 m2 where M: "fmt2 m = [digit_char m1, digit_char m2]" "m = 10 * m1 + m2" "0 \<le> m1" "m1 \<le> 9" "0 \<le> m2" "m2 \<le> 9"
    by (rule fmt2_obtain [of m]) (use r in auto)
  obtain d1 d2 where D: "fmt2 d = [digit_char d1, digit_char d2]" "d = 10 * d1 + d2" "0 \<le> d1" "d1 \<le> 9" "0 \<le> d2" "d2 \<le> 9"
    by (rule fmt2_obtain [of d]) (use r in auto)
  note dv = digit_char_value [OF y(1,2)] digit_char_value [OF y(3,4)] digit_char_value [OF y(5,6)] digit_char_value [OF y(7,8)]
    digit_char_value [OF M(3,4)] digit_char_value [OF M(5,6)] digit_char_value [OF D(3,4)] digit_char_value [OF D(5,6)]
  have yr: "100 * (10 * a + b) + (10 * c + e) = y" using Y(2) by simp
  show "read_date (fmt8 (date_int v)) = Some v"
    unfolding t8 Y(1) M(1) D(1) using v(2,3)
    by (simp add: read_date_def digits2_def dv yr M(2) [symmetric] D(2) [symmetric] del: distrib_left_numeral)
  have "strptime_date (fmt4 y @ fmt2 m @ fmt2 d) = Some v"
    unfolding Y(1) M(1) D(1) using v(2,3) r
    by (simp add: strptime_date_def split_month_day_def dv Y(2) [symmetric] M(2) [symmetric] D(2) [symmetric])
  then show "strptime_date (int_text (date_int v)) = Some v" unfolding n int_text_date [OF v(1,2)] .
qed

lemma time_text_reads:
  assumes "0 \<le> ta_hour t" "ta_hour t < 24" "0 \<le> ta_minute t" "ta_minute t < 60"
  shows "read_time (time_text t) = Some (ta_hour t, ta_minute t)"
proof -
  have 1: "ta_hour t div 10 \<le> 9" "0 \<le> ta_hour t div 10" "ta_minute t div 10 \<le> 5" "0 \<le> ta_minute t div 10" using assms by linarith+
  then have "ta_minute t div 10 \<le> 9" by linarith
  with 1 assms show ?thesis
    by (simp add: read_time_def time_text_def fmt2_def digits2_fmt digit_char_value)
qed

section \<open>What of a node is durable\<close>

text \<open>
  Bindings, caches and generated parameters are made again; a password is kept for a job in flight.
\<close>

definition durable_task :: "node_status \<Rightarrow> task_data \<Rightarrow> task_data" where
  "durable_task s t = t\<lparr>run_identity_prepared := False, job_password := (if in_flight s then job_password t else None),
     gp_task := PNone, gp_takler_name := PNone, gp_takler_rid := PNone, gp_takler_attempt_id := PNone, gp_takler_try_no := PNone,
     gp_takler_pass := PNone\<rparr>"

definition durable_flow :: "flow_data \<Rightarrow> flow_data" where
  "durable_flow f = f\<lparr>calendar_nodes := None, gp_date := PNone, gp_time := PNone\<rparr>"

definition durable_node :: "node_attrs \<Rightarrow> node_attrs" where
  "durable_node a = (unlinked_node a)\<lparr>n_status_counts := None, n_status_child_count := 0,
     n_task := (if n_kind a = KTask then durable_task (node_status (n_state a)) (n_task a) else new_task_data),
     n_flow := (if n_kind a = KFlow then durable_flow (n_flow a) else new_flow_data)\<rparr>"

definition without_password :: "node_attrs \<Rightarrow> node_attrs" where
  "without_password a = a\<lparr>n_task := (n_task a)\<lparr>job_password := None\<rparr>\<rparr>"

text \<open>A node whose attributes the document can express, of the registered type \<open>k\<close>.\<close>

definition zone_ok :: "checkpoint_env \<Rightarrow> datetime option \<Rightarrow> bool" where
  "zone_ok env d = (case d of None \<Rightarrow> True | Some x \<Rightarrow> ce_to_local env (ce_to_aware env x) = x)"

definition repeat_storable :: "repeat option \<Rightarrow> bool" where
  "repeat_storable r = (case r of None \<Rightarrow> True | Some rp \<Rightarrow> (case rp_r rp of None \<Rightarrow> False
     | Some d \<Rightarrow> date_ok (rd_start d) \<and> date_ok (rd_end d) \<and> date_ok (rd_value d)))"

definition time_storable :: "time_attr \<Rightarrow> bool" where
  "time_storable t \<longleftrightarrow> 0 \<le> ta_hour t \<and> ta_hour t < 24 \<and> 0 \<le> ta_minute t \<and> ta_minute t < 60"

definition storable :: "checkpoint_env \<Rightarrow> entry_kind \<Rightarrow> node_attrs \<Rightarrow> bool" where
  "storable env k a \<longleftrightarrow> n_kind a = node_kind_of k
     \<and> list_all (\<lambda>(key, p). key = pa_name p) (n_user_parameters a) \<and> list_all time_storable (n_times a)
     \<and> repeat_storable (n_repeat a) \<and> list_all (\<lambda>l. finite (lm_node_paths l)) (n_limits a)
     \<and> (k = EFlow \<longrightarrow> in_bunch (n_flow a)
        \<and> zone_ok env (cal_initial_time (flow_calendar (n_flow a))) \<and> zone_ok env (cal_flow_time (flow_calendar (n_flow a)))
        \<and> zone_ok env (cal_initial_real_time (flow_calendar (n_flow a))) \<and> zone_ok env (cal_last_real_time (flow_calendar (n_flow a))))"

section \<open>One node\<close>

lemma from_saved_map:
  assumes "distinct (map f xs)" "x \<in> set xs"
  shows "from_saved (map (\<lambda>x. (f x, g x)) xs) (f x) d = g x"
  using assms by (auto simp: from_saved_def map_of_eq_None_iff image_iff split: option.splits
    dest!: map_of_SomeD) (metis distinct_map inj_onD)

lemma restored_events:
  assumes "distinct (map ev_name es)"
  shows "map ((\<lambda>e. e\<lparr>ev_value := from_saved (map (\<lambda>e. (ev_name e, ev_value e)) es) (ev_name e) (ev_value e)\<rparr>)
    \<circ> (\<lambda>e. Event (ed_name e) (ed_initial_value e)) \<circ> (\<lambda>e. \<lparr>ed_name = ev_name e, ed_initial_value = ev_initial_value e\<rparr>)) es = es"
  using from_saved_map [OF assms, of _ ev_value] by (intro map_idI) (simp add: Event_def)

lemma restored_meters:
  assumes "distinct (map mt_name ms)"
  shows "map ((\<lambda>m. m\<lparr>mt_value := from_saved (map (\<lambda>m. (mt_name m, mt_value m)) ms) (mt_name m) (mt_value m)\<rparr>)
    \<circ> (\<lambda>m. Meter (md_name m) (md_min_value m) (md_max_value m))
    \<circ> (\<lambda>m. \<lparr>md_name = mt_name m, md_min_value = mt_min_value m, md_max_value = mt_max_value m\<rparr>)) ms = ms"
  using from_saved_map [OF assms, of _ mt_value] by (intro map_idI) (simp add: Meter_def)

definition usage :: "limit \<Rightarrow> limit_usage" where
  "usage l = \<lparr>lu_value = lm_value l, lu_node_paths = sorted_list_of_set (lm_node_paths l)\<rparr>"

lemma restored_limits:
  assumes "distinct (map lm_name ls)" "list_all (\<lambda>l. finite (lm_node_paths l)) ls"
  shows "map ((\<lambda>l. let u = from_saved (map (\<lambda>l. (lm_name l, usage l)) ls) (lm_name l) d in
      l\<lparr>lm_value := lu_value u, lm_node_paths := set (lu_node_paths u)\<rparr>)
    \<circ> (\<lambda>l. Limit (ld_name l) (ld_limit l)) \<circ> (\<lambda>l. \<lparr>ld_name = lm_name l, ld_limit = lm_limit l\<rparr>)) ls = ls"
  using from_saved_map [OF assms(1), of _ usage] assms(2) by (intro map_idI) (simp add: Limit_def list_all_iff, simp add: usage_def)

lemma restored_times:
  assumes "distinct (map time_text ts)" "list_all time_storable ts"
  shows "map ((\<lambda>t. t\<lparr>ta_free := from_saved (map (\<lambda>t. (time_text t, ta_free t)) ts) (time_text t) (ta_free t)\<rparr>) \<circ> time_of \<circ> time_text) ts = ts"
proof (intro map_idI)
  fix t assume t: "t \<in> set ts"
  then have "read_time (time_text t) = Some (ta_hour t, ta_minute t)"
    using assms(2) time_text_reads by (auto simp: list_all_iff time_storable_def)
  then have "time_of (time_text t) = t\<lparr>ta_free := False\<rparr>" "time_text (t\<lparr>ta_free := False\<rparr>) = time_text t"
    by (simp_all add: time_of_def TimeAttribute_def time_text_def)
  then show "((\<lambda>t. t\<lparr>ta_free := from_saved (map (\<lambda>t. (time_text t, ta_free t)) ts) (time_text t) (ta_free t)\<rparr>) \<circ> time_of \<circ> time_text) t = t"
    using from_saved_map [OF assms(1) t, of ta_free] by simp
qed

definition node_fits :: "node_attrs \<Rightarrow> bool" where
  "node_fits a \<longleftrightarrow> list_all meter_ok (n_meters a) \<and> list_all (\<lambda>l. lm_value l \<le> lm_limit l) (n_limits a)
     \<and> (case n_repeat a of None \<Rightarrow> True | Some rp \<Rightarrow> (case rp_r rp of None \<Rightarrow> True
        | Some d \<Rightarrow> rd_start d \<le> rd_value d \<and> rd_value d \<le> rd_end d \<and> rd_step d dvd (rd_value d - rd_start d)))"

definition fresh_of :: "string \<Rightarrow> string option \<Rightarrow> entry_kind \<Rightarrow> node_attrs \<Rightarrow> node_attrs" where
  "fresh_of ty script k a = fresh_attrs (node_kind_of k) (project_attrs ty script a)"

lemma fresh_of_simps [simp]:
  "n_kind (fresh_of ty script k a) = node_kind_of k" "n_name (fresh_of ty script k a) = n_name a"
  "n_default_status (fresh_of ty script k a) = n_default_status a"
  "n_events (fresh_of ty script k a) = map ((\<lambda>e. Event (ed_name e) (ed_initial_value e)) \<circ> (\<lambda>e. \<lparr>ed_name = ev_name e, ed_initial_value = ev_initial_value e\<rparr>)) (n_events a)"
  "n_meters (fresh_of ty script k a) = map ((\<lambda>m. Meter (md_name m) (md_min_value m) (md_max_value m))
     \<circ> (\<lambda>m. \<lparr>md_name = mt_name m, md_min_value = mt_min_value m, md_max_value = mt_max_value m\<rparr>)) (n_meters a)"
  "n_limits (fresh_of ty script k a) = map ((\<lambda>l. Limit (ld_name l) (ld_limit l)) \<circ> (\<lambda>l. \<lparr>ld_name = lm_name l, ld_limit = lm_limit l\<rparr>)) (n_limits a)"
  "n_times (fresh_of ty script k a) = map (time_of \<circ> time_text) (n_times a)"
  "n_trigger (fresh_of ty script k a) = map_option (Expression \<circ> ex_expression_str) (n_trigger a)"
  "n_complete_trigger (fresh_of ty script k a) = map_option (Expression \<circ> ex_expression_str) (n_complete_trigger a)"
  "n_is_complete_triggered (fresh_of ty script k a) = False"
  "n_status_counts (fresh_of ty script k a) = None" "n_status_child_count (fresh_of ty script k a) = 0"
  "n_task (fresh_of ty script k a) = new_task_data" "n_flow (fresh_of ty script k a) = new_flow_data"
  by (simp_all add: fresh_of_def fresh_attrs_def project_attrs_def new_node_def option.map_comp)

lemma fresh_of_in_limits [simp]: "n_in_limits (fresh_of ty script k a) = map unlinked (n_in_limits a)"
  by (simp add: fresh_of_def fresh_attrs_def project_attrs_def new_node_def InLimit_def unlinked_def)

lemma fresh_of_parameters:
  "list_all (\<lambda>(key, p). key = pa_name p) (n_user_parameters a) \<Longrightarrow> n_user_parameters (fresh_of ty script k a) = n_user_parameters a"
  by (auto simp: fresh_of_def fresh_attrs_def project_attrs_def new_node_def Parameter_def list_all_iff intro!: map_idI)

lemma fresh_of_repeat:
  assumes "repeat_storable (n_repeat a)"
  shows "n_repeat (fresh_of ty script k a) = map_option (\<lambda>rp. rp\<lparr>rp_r := map_option (\<lambda>d. d\<lparr>rd_value := rd_start d\<rparr>) (rp_r rp)\<rparr>) (n_repeat a)"
  using assms
  by (auto simp: fresh_of_def fresh_attrs_def project_attrs_def new_node_def project_repeat_def repeat_of_def RepeatDate_def
      repeat_storable_def repeat_start_def repeat_end_def date_text split: option.splits)

lemma restored_repeat_of:
  assumes "repeat_storable (n_repeat a)" "node_fits a"
  shows "restored_repeat (Option.bind (n_repeat a) (\<lambda>r. map_option repeat_value (rp_r r))) (n_repeat (fresh_of ty script k a)) = Some (n_repeat a)"
  using assms by (auto simp: fresh_of_repeat restored_repeat_def repeat_storable_def repeat_value_def date_text node_fits_def split: option.splits)

lemma restored_calendar:
  assumes "storable env EFlow a"
  shows "restore_calendar env (capture_calendar env (flow_calendar (n_flow a))) = flow_calendar (n_flow a)"
  using assms by (auto simp: storable_def zone_ok_def restore_calendar_def capture_calendar_def option.map_comp comp_def
      split: option.splits intro!: calendar.equality)

lemma new_generation_simps [simp]:
  "n_kind (new_generation u a) = n_kind a" "n_name (new_generation u a) = n_name a" "n_state (new_generation u a) = n_state a"
  "n_default_status (new_generation u a) = n_default_status a" "n_user_parameters (new_generation u a) = n_user_parameters a"
  "n_trigger (new_generation u a) = n_trigger a" "n_complete_trigger (new_generation u a) = n_complete_trigger a"
  "n_is_complete_triggered (new_generation u a) = n_is_complete_triggered a" "n_events (new_generation u a) = n_events a"
  "n_meters (new_generation u a) = n_meters a" "n_limits (new_generation u a) = n_limits a"
  "n_in_limits (new_generation u a) = n_in_limits a" "n_repeat (new_generation u a) = n_repeat a"
  "n_times (new_generation u a) = n_times a" "n_status_counts (new_generation u a) = n_status_counts a"
  "n_status_child_count (new_generation u a) = n_status_child_count a"
  by (simp_all add: new_generation_def split: node_kind.splits)

lemma runtime_of_simps [simp]:
  "nr_kind (runtime_of env k a) = k" "nr_state (runtime_of env k a) = n_state a"
  "nr_trigger_free (runtime_of env k a) = is_free (n_trigger a)"
  "nr_complete_trigger_free (runtime_of env k a) = is_free (n_complete_trigger a)"
  "nr_is_complete_triggered (runtime_of env k a) = n_is_complete_triggered a"
  "nr_event_values (runtime_of env k a) = map (\<lambda>e. (ev_name e, ev_value e)) (n_events a)"
  "nr_meter_values (runtime_of env k a) = map (\<lambda>m. (mt_name m, mt_value m)) (n_meters a)"
  "nr_limit_usage (runtime_of env k a) = map (\<lambda>l. (lm_name l, usage l)) (n_limits a)"
  "nr_repeat_value (runtime_of env k a) = Option.bind (n_repeat a) (\<lambda>r. map_option repeat_value (rp_r r))"
  "nr_time_free (runtime_of env k a) = map (\<lambda>t. (time_text t, ta_free t)) (n_times a)"
  "nr_task (runtime_of env k a) = (if k = ETask then Some (capture_task (n_task a)) else None)"
  by (simp_all add: runtime_of_def usage_def)

definition names_distinct :: "node_attrs \<Rightarrow> bool" where
  "names_distinct a \<longleftrightarrow> distinct (map ev_name (n_events a)) \<and> distinct (map mt_name (n_meters a))
     \<and> distinct (map lm_name (n_limits a)) \<and> distinct (map time_text (n_times a))"

lemma names_distinct_of:
  "node_error (NodeDefinition (project_attrs ty script a) cs) = None \<Longrightarrow> names_distinct a"
  by (simp add: names_distinct_def project_attrs_def comp_def)

lemma fresh_fits:
  assumes "names_distinct a" "node_fits a"
  shows "list_all (meter_fits (runtime_of env k a)) (n_meters (fresh_of ty script k a))"
    and "list_all (limit_fits (runtime_of env k a)) (n_limits (fresh_of ty script k a))"
proof -
  show "list_all (meter_fits (runtime_of env k a)) (n_meters (fresh_of ty script k a))"
    using assms from_saved_map [of mt_name "n_meters a" _ mt_value]
    by (simp add: list_all_iff node_fits_def names_distinct_def meter_fits_def meter_ok_def Meter_def)
  show "list_all (limit_fits (runtime_of env k a)) (n_limits (fresh_of ty script k a))"
    using assms from_saved_map [of lm_name "n_limits a" _ usage]
    by (simp add: list_all_iff node_fits_def names_distinct_def limit_fits_def Limit_def) (simp add: usage_def)
qed

lemma time_names:
  assumes "list_all time_storable ts"
  shows "map (time_text \<circ> (time_of \<circ> time_text)) ts = map time_text ts"
  using assms time_text_reads
  by (intro map_cong refl) (auto simp: list_all_iff time_storable_def time_of_def TimeAttribute_def time_text_def)

lemma trigger_kept:
  "map_option (\<lambda>e. e\<lparr>ex_free := is_free t\<rparr>) (map_option (Expression \<circ> ex_expression_str) t) = map_option unbound_expression t"
  by (cases t) (simp_all add: Expression_def unbound_expression_def is_free_def)

lemma apply_runtime:
  assumes reg: "map_of builtin_registry ty = Some k" and k: "k \<noteq> EBunch" and st: "storable env k a" and nd: "names_distinct a" and f: "node_fits a"
  shows "apply_node env ty (runtime_of env k a) (new_generation u (fresh_of ty script k a)) = Inr (without_password (durable_node a))"
proof -
  let ?r = "runtime_of env k a" and ?a = "fresh_of ty script k a"
  have s: "list_all time_storable (n_times a)" "repeat_storable (n_repeat a)" "n_kind a = node_kind_of k"
    "list_all (\<lambda>(key, p). key = pa_name p) (n_user_parameters a)" "list_all (\<lambda>l. finite (lm_node_paths l)) (n_limits a)"
    using st by (simp_all add: storable_def)
  have rep: "(n_repeat ?a = None) = (nr_repeat_value ?r = None)"
    using s(2) by (auto simp: fresh_of_repeat repeat_storable_def split: option.splits)
  have ok: "first_code
       [fails (map_of builtin_registry ty \<noteq> Some (nr_kind ?r)) ''invalid_runtime'',
        same_names (map ev_name (n_events ?a)) (map fst (nr_event_values ?r)),
        same_names (map mt_name (n_meters ?a)) (map fst (nr_meter_values ?r)),
        same_names (map lm_name (n_limits ?a)) (map fst (nr_limit_usage ?r)),
        same_names (map time_text (n_times ?a)) (map fst (nr_time_free ?r)),
        fails ((n_repeat ?a = None) \<noteq> (nr_repeat_value ?r = None)) ''invalid_runtime'',
        fails (nr_trigger_free ?r \<and> n_trigger ?a = None) ''invalid_runtime'',
        fails (nr_complete_trigger_free ?r \<and> n_complete_trigger ?a = None) ''invalid_runtime'',
        fails (\<not> list_all (meter_fits ?r) (n_meters ?a)) ''invalid_checkpoint'',
        fails (\<not> list_all (limit_fits ?r) (n_limits ?a)) ''invalid_runtime'',
        fails (restored_repeat (nr_repeat_value ?r) (n_repeat ?a) = None) ''invalid_checkpoint''] = None"
    using reg fresh_fits [OF nd f] restored_repeat_of [OF s(2) f] rep time_names [OF s(1)]
    by (simp add: same_names_def comp_def Event_def Meter_def Limit_def is_free_def split: option.splits)
  have flow: "(case nr_flow ?r of Some f \<Rightarrow> restored_flow env f (n_flow (new_generation u ?a)) | None \<Rightarrow> n_flow (new_generation u ?a))
      = (if n_kind a = KFlow then durable_flow (n_flow a) else new_flow_data)"
    using st k restored_calendar [of env a]
    by (cases k) (auto simp: runtime_of_def new_generation_def node_kind_of_def storable_def restored_flow_def durable_flow_def
        new_flow_data_def intro!: flow_data.equality)
  have task: "(case nr_task ?r of Some t \<Rightarrow> restored_task t (n_task (new_generation u ?a)) | None \<Rightarrow> n_task (new_generation u ?a))
      = n_task (without_password (durable_node a))"
    using s(3) k
    by (cases k) (auto simp: new_generation_def node_kind_of_def restored_task_def durable_node_def unlinked_node_def durable_task_def without_password_def
        capture_task_def new_task_data_def intro!: task_data.equality)
  have app: "apply_node env ty ?r (new_generation u ?a) = Inr ((new_generation u ?a)\<lparr>n_state := nr_state ?r,
        n_trigger := map_option (\<lambda>e. e\<lparr>ex_free := nr_trigger_free ?r\<rparr>) (n_trigger ?a),
        n_complete_trigger := map_option (\<lambda>e. e\<lparr>ex_free := nr_complete_trigger_free ?r\<rparr>) (n_complete_trigger ?a),
        n_is_complete_triggered := nr_is_complete_triggered ?r,
        n_events := n_events a, n_meters := n_meters a, n_limits := n_limits a, n_repeat := n_repeat a, n_times := n_times a,
        n_flow := (if n_kind a = KFlow then durable_flow (n_flow a) else new_flow_data),
        n_task := n_task (without_password (durable_node a))\<rparr>)"
    unfolding apply_node_def new_generation_simps ok flow task
    using restored_events [of "n_events a"] restored_meters [of "n_meters a"] restored_limits [of "n_limits a"] nd s
      restored_times [of "n_times a"] restored_repeat_of [OF s(2) f]
    by (simp add: names_distinct_def comp_assoc)
  show ?thesis
    unfolding app using s(3,4)
    by (auto simp: durable_node_def unlinked_node_def without_password_def trigger_kept fresh_of_parameters intro!: node_attrs.equality)
qed

text \<open>What the cross-check of the document says about the values of a node.\<close>

lemma map_of_saved:
  assumes "distinct (map f xs)" "x \<in> set xs"
  shows "map_of (map (\<lambda>x. (f x, g x)) xs) (f x) = Some (g x)"
  using assms by (auto simp: map_of_eq_Some_iff comp_def)

lemma view_fits:
  assumes v: "node_view_error env v (path, project_attrs ty script a) = None" "map_of (vw_runtime v) path = Some (runtime_of env k a)"
    and nd: "names_distinct a" and st: "storable env k a"
  shows "node_fits a"
proof -
  have m: "list_all (\<lambda>d. case map_of (map (\<lambda>m. (mt_name m, mt_value m)) (n_meters a)) (md_name d) of Some x \<Rightarrow> meter_value_ok d x | None \<Rightarrow> False)
      (nd_meters (project_attrs ty script a))"
    and l: "list_all (\<lambda>d. case map_of (map (\<lambda>l. (lm_name l, usage l)) (n_limits a)) (ld_name d) of Some u \<Rightarrow> limit_usage_ok d u | None \<Rightarrow> False)
      (nd_limits (project_attrs ty script a))"
    and r: "(case (nd_repeat (project_attrs ty script a), nr_repeat_value (runtime_of env k a)) of
      (Some d, Some x) \<Rightarrow> fails (\<not> repeat_value_ok d x) ''invalid_checkpoint'' | _ \<Rightarrow> None) = None"
    using v by (simp_all add: node_view_error_def)
  have "list_all meter_ok (n_meters a)"
    using m nd map_of_saved [of mt_name "n_meters a" _ mt_value]
    by (simp add: list_all_iff project_attrs_def names_distinct_def meter_value_ok_def meter_ok_def)
  moreover have "list_all (\<lambda>l. lm_value l \<le> lm_limit l) (n_limits a)"
    using l nd map_of_saved [of lm_name "n_limits a" _ usage]
    by (simp add: list_all_iff project_attrs_def names_distinct_def limit_usage_ok_def) (simp add: usage_def)
  moreover have "case n_repeat a of None \<Rightarrow> True | Some rp \<Rightarrow> (case rp_r rp of None \<Rightarrow> True
        | Some d \<Rightarrow> rd_start d \<le> rd_value d \<and> rd_value d \<le> rd_end d \<and> rd_step d dvd (rd_value d - rd_start d))"
    using r st
    by (auto simp: project_attrs_def project_repeat_def storable_def repeat_storable_def repeat_value_ok_def repeat_start_def repeat_end_def
        repeat_value_def date_text split: option.splits)
  ultimately show ?thesis by (simp add: node_fits_def)
qed

end
