(* ===== verification/Checkpoint_Building.thy ===== *)
theory Checkpoint_Building
  imports Checkpoint_Nodes
begin

text \<open>
  The document of a captured bunch read again: the trees its definitions build, the cross-check without the live store, the
  walk over the placed bunch in step with the nodes under their paths, what a successful capture wrote, the runtimes
  applied to the trees, and the passwords put back.
\<close>

section \<open>The trees\<close>

fun storable_tree :: "checkpoint_env \<Rightarrow> tree \<Rightarrow> bool" where
  "storable_tree env (Tree ty script a ts) \<longleftrightarrow> (case map_of builtin_registry ty of None \<Rightarrow> False | Some k \<Rightarrow> storable env k a)
     \<and> (ty \<noteq> ''takler.shell'' \<longrightarrow> script = None) \<and> list_all (storable_tree env) ts"

definition stripped :: "tree \<Rightarrow> tree" where
  "stripped = map_tree (without_password \<circ> durable_node)"

lemma map_tree_nodes:
  assumes "\<And>a. n_name (f a) = n_name a"
  shows "tree_nodes pre (map_tree f t) = map (\<lambda>(path, ty, a). (path, ty, f a)) (tree_nodes pre t)"
proof (induction t arbitrary: pre)
  case (Tree ty script a ts)
  then show ?case by (auto simp: assms map_concat comp_def intro!: arg_cong [of _ _ concat])
qed

lemma map_tree_paths: "(\<And>a. n_name (f a) = n_name a) \<Longrightarrow> map fst (tree_nodes pre (map_tree f t)) = map fst (tree_nodes pre t)"
  by (simp add: map_tree_nodes case_prod_unfold)

lemma fresh_tree_nodes: "map fst (tree_nodes pre (fresh_tree (project t))) = map fst (tree_nodes pre t)"
proof (induction t arbitrary: pre)
  case (Tree ty script a ts)
  have "n_name (fresh_attrs k (project_attrs ty script a)) = n_name a" for k
    by (simp add: fresh_attrs_def project_attrs_def new_node_def)
  moreover have "nd_type_id (project_attrs ty script a) = ty" by (simp add: project_attrs_def)
  ultimately show ?case using Tree by (auto simp: map_concat comp_def intro!: arg_cong [of _ _ concat])
qed

lemma definition_paths: "map fst (definition_nodes pre (project t)) = map fst (tree_nodes pre t)"
proof (induction t arbitrary: pre)
  case (Tree ty script a ts)
  have "nd_name (project_attrs ty script a) = n_name a" by (simp add: project_attrs_def)
  then show ?case using Tree by (auto simp: map_concat comp_def intro!: arg_cong [of _ _ concat])
qed

lemma project_fields [simp]:
  "nd_type_id (project_attrs ty script a) = ty" "nd_name (project_attrs ty script a) = n_name a"
  "nd_script_path (project_attrs ty script a) = (if ty = ''takler.shell'' then script else None)"
  by (simp_all add: project_attrs_def)

lemma apply_tree_stripped:
  assumes "node_error (project t) = None" "check_types kinds (project t) = None" "EBunch \<notin> kinds" "storable_tree env t"
    and "\<forall>x \<in> set (definition_nodes pre (project t)). node_view_error env v x = None"
    and "\<forall>(path, ty, a) \<in> set (tree_nodes pre t). map_of (vw_runtime v) path = Some (runtime_of env (the (map_of builtin_registry ty)) a)"
  shows "apply_tree env (vw_runtime v) pre (map_tree (new_generation u) (fresh_tree (project t))) = Inr (stripped t)"
  using assms
proof (induction t arbitrary: pre kinds)
  case (Tree ty script a ts)
  let ?path = "pre @ ''/'' @ n_name a" and ?p = "project_attrs ty script a"
  obtain k where k: "map_of builtin_registry ty = Some k" "k \<in> kinds" "storable env k a"
    using Tree.prems(2,4) by (auto split: option.splits if_splits)
  have nd: "names_distinct a" using Tree.prems(1) names_distinct_of [of ty script a "map project ts"] by simp
  have r: "map_of (vw_runtime v) ?path = Some (runtime_of env k a)" using Tree.prems(6) k(1) by simp
  have "node_view_error env v (?path, ?p) = None" using Tree.prems(5) by simp
  then have f: "node_fits a" using view_fits [OF _ r nd k(3)] by simp
  have here: "apply_node env ty (runtime_of env k a) (new_generation u (fresh_of ty script k a)) = Inr (without_password (durable_node a))"
    using apply_runtime [OF k(1) _ k(3) nd f] k(2) Tree.prems(3) by blast
  have below: "apply_tree env (vw_runtime v) ?path (map_tree (new_generation u) (fresh_tree (project t))) = Inr (stripped t)"
    if t: "t \<in> set ts" for t
  proof (rule Tree.IH [OF t])
    show "node_error (project t) = None" using Tree.prems(1) t by simp
    show "check_types {ETask, EContainer} (project t) = None" using Tree.prems(2) k t by simp
    show "storable_tree env t" using Tree.prems(4) t by (simp add: list_all_iff)
    show "\<forall>x \<in> set (definition_nodes ?path (project t)). node_view_error env v x = None" using Tree.prems(5) t by simp
    show "\<forall>(path, ty, a) \<in> set (tree_nodes ?path t). map_of (vw_runtime v) path = Some (runtime_of env (the (map_of builtin_registry ty)) a)"
      using Tree.prems(6) t by auto
  qed simp
  have kids: "list_outcome (map (apply_tree env (vw_runtime v) ?path) (map (map_tree (new_generation u)) (map (fresh_tree \<circ> project) ts)))
      = Inr (map stripped ts)"
    unfolding map_map using below by (intro list_outcome_Inr) simp
  have "fresh_tree (project (Tree ty script a ts)) = Tree ty script (fresh_of ty script k a) (map (fresh_tree \<circ> project) ts)"
    using Tree.prems(4) k(1) by (cases "ty = ''takler.shell''") (simp_all add: fresh_of_def)
  then show ?case using r here kids by (simp add: stripped_def)
qed

section \<open>The document\<close>

text \<open>A document that passes against the live bunch passes without it.\<close>

definition offline :: "view \<Rightarrow> view" where
  "offline v = v\<lparr>vw_live := None\<rparr>"

lemma offline_simps [simp]:
  "vw_bunch (offline v) = vw_bunch v" "vw_definitions (offline v) = vw_definitions v" "vw_runtime (offline v) = vw_runtime v"
  "vw_live (offline v) = None" "view_limits (offline v) = view_limits v" "flying (offline v) = flying v"
  by (simp_all add: offline_def view_limits_def flying_def)

lemma offline_referenced: "referenced_path v owner rf = Inr q \<Longrightarrow> referenced_path (offline v) owner rf = Inr q"
  by (auto simp: referenced_path_def Let_def split: if_splits option.splits)

lemma offline_expression: "check_expression v owner e = None \<Longrightarrow> check_expression (offline v) owner e = None"
proof (induction e)
  case (AstNodePath np)
  then show ?case using offline_referenced by (fastforce split: sum.splits)
next
  case (AstVariablePath np x)
  then show ?case using offline_referenced by (fastforce simp: live_variable_def [of "offline v"] split: sum.splits)
qed simp_all

lemma offline_expression_text: "check_expression_text env v owner t = None \<Longrightarrow> check_expression_text env (offline v) owner t = None"
  using offline_expression by (auto simp: check_expression_text_def split: option.splits sum.splits)

lemma offline_node: "node_view_error env v (path, f) = None \<Longrightarrow> node_view_error env (offline v) (path, f) = None"
  using offline_expression_text by (cases "map_of (vw_runtime v) path") (simp_all add: node_view_error_def)

lemma offline_limit: "resolve_limit v owner i = Inr key \<Longrightarrow> resolve_limit (offline v) owner i = Inr key"
  using offline_referenced [of v owner]
  by (auto simp: resolve_limit_def Let_def split: sum.splits option.splits if_splits list.splits)

lemma list_outcome_InrD: "list_outcome (map f xs) = Inr ys \<Longrightarrow> ys = map (\<lambda>x. projr (f x)) xs \<and> (\<forall>x \<in> set xs. \<exists>y. f x = Inr y)"
  by (induction xs arbitrary: ys) (auto split: sum.splits)

lemma list_outcome_mono:
  assumes "list_outcome (map f xs) = Inr ys" and "\<And>x y. x \<in> set xs \<Longrightarrow> f x = Inr y \<Longrightarrow> g x = Inr y"
  shows "list_outcome (map g xs) = Inr ys"
  using assms by (induction xs arbitrary: ys) (auto split: sum.splits)

lemma offline_limits: "resolved_limits v node = Inr ks \<Longrightarrow> resolved_limits (offline v) node = Inr ks"
  unfolding resolved_limits_def by (erule list_outcome_mono) (auto split: sum.splits dest: offline_limit)

lemma offline_valid:
  assumes "validate_checkpoint_view env v secrets = None"
  shows "validate_checkpoint_view env (offline v) secrets = None"
proof -
  let ?links = "\<lambda>v. list_outcome (map (\<lambda>node. case resolved_limits v node of Inl c \<Rightarrow> Inl c | Inr ks \<Rightarrow> Inr (fst node, ks)) (vw_definitions v))"
  obtain links where l: "?links v = Inr links" using assms by (auto simp: validate_checkpoint_view_def split: sum.splits)
  then have "?links (offline v) = Inr links"
    unfolding offline_simps by (rule list_outcome_mono) (auto split: sum.splits dest: offline_limits)
  moreover have "task_view_error (offline v) = task_view_error v" by (rule ext) (simp only: task_view_error_def offline_simps)
  moreover have "occupancy_error links (offline v) = occupancy_error links v"
    "secrets_error (offline v) secrets = secrets_error v secrets"
    by (simp_all add: task_view_error_def occupancy_error_def holders_def secrets_error_def fun_eq_iff)
  ultimately show ?thesis using assms l offline_node [of env v] by (auto simp: validate_checkpoint_view_def)
qed

section \<open>The bunch in the store\<close>

lemma tree_shape_map [simp]: "tree_shape (map_tree f t) = tree_shape t"
  by (induction t) simp

lemma tree_shape_fresh [simp]: "tree_shape (fresh_tree (project t)) = tree_shape t"
  by (induction t) simp

lemma nth_opt_map: "nth_opt (map f xs) i = map_option f (nth_opt xs i)"
  by (simp add: nth_opt_conv)

lemma tree_attrs_map: "tree_attrs is (map_tree f t) = map_option f (tree_attrs is t)"
proof (induction "is" arbitrary: t)
  case Nil
  then show ?case by (cases t) simp
next
  case (Cons i "is")
  then show ?case by (cases t) (simp add: nth_opt_map split: option.splits)
qed

lemma names_new_generation: "node_names (new_generation u a) = node_names a"
  by (simp add: node_names_def)

lemma names_durable: "node_names (without_password (durable_node a)) = node_names a"
  using node_names_unlinked [of a] by (simp add: node_names_def durable_node_def without_password_def)

lemma names_fresh:
  assumes "storable env k a"
  shows "node_names (fresh_of ty script k a) = node_names a"
proof -
  have s: "n_kind a = node_kind_of k" "list_all (\<lambda>(key, p). key = pa_name p) (n_user_parameters a)" "repeat_storable (n_repeat a)"
    using assms by (simp_all add: storable_def)
  have "map_option (\<lambda>rp. map_option rd_name (rp_r rp)) (n_repeat (fresh_of ty script k a)) = map_option (\<lambda>rp. map_option rd_name (rp_r rp)) (n_repeat a)"
    unfolding fresh_of_repeat [OF s(3)] by (simp add: option.map_comp comp_def)
  then show ?thesis
    using s by (simp add: node_names_def fresh_of_parameters comp_def Event_def Meter_def Limit_def unlinked_def Expression_def option.map_comp)
qed

lemma tree_attrs_fresh:
  assumes "storable_tree env t"
  shows "map_option node_names (tree_attrs is (fresh_tree (project t))) = map_option node_names (tree_attrs is t)"
  using assms
proof (induction "is" arbitrary: t)
  case Nil
  then show ?case by (cases t) (auto simp: names_fresh fresh_of_def [symmetric] split: option.splits)
next
  case (Cons i "is")
  obtain ty script a ts where t: "t = Tree ty script a ts" by (cases t)
  have "nth_opt ts i = Some u \<Longrightarrow> storable_tree env u" for u
    using Cons.prems by (auto simp: t nth_opt_conv list_all_iff split: if_splits)
  then show ?case using Cons.IH by (auto simp: t nth_opt_map split: option.splits)
qed

lemma place_simps [simp]:
  "w_shapes (place b w) = map tree_shape (bt_flows b)" "w_flows (place b w) = zip (flow_names (bt_flows b)) [0..<length (bt_flows b)]"
  "w_bunch_parameters (place b w) = bt_parameters b" "w_server_state (place b w) = bt_server_state b"
  by (simp_all add: place_def)

lemma place_attr:
  assumes "k < length (bt_flows b)" "tree_attrs is (bt_flows b ! k) = Some a"
  shows "attr (place b w) (rev is @ [k]) = a"
  using assms by (simp add: place_def nth_opt_conv)

lemma place_subtree: "k < length (bt_flows b) \<Longrightarrow> subtree (place b w) [k] = tree_shape (bt_flows b ! k)"
  by (simp add: subtree_def nth_opt_conv)

text \<open>Two bunches of trees with the same shapes and names look the same to linking.\<close>

definition alike :: "tree \<Rightarrow> tree \<Rightarrow> bool" where
  "alike t u \<longleftrightarrow> tree_shape t = tree_shape u \<and> (\<forall>is. map_option node_names (tree_attrs is t) = map_option node_names (tree_attrs is u))"

lemma alike_name: "alike t u \<Longrightarrow> n_name (t_attrs t) = n_name (t_attrs u)"
proof -
  assume "alike t u"
  then have "map_option node_names (tree_attrs [] t) = map_option node_names (tree_attrs [] u)" unfolding alike_def by blast
  then have "node_names (t_attrs t) = node_names (t_attrs u)" by (simp only: tree_attrs.simps option.map option.inject)
  then show ?thesis by (rule node_namesD)
qed

lemma alike_flows:
  assumes "list_all2 alike ts us"
  shows "map tree_shape ts = map tree_shape us" "flow_names ts = flow_names us"
proof -
  have "\<And>t u. alike t u \<Longrightarrow> tree_shape t = tree_shape u" unfolding alike_def by blast
  with assms show "map tree_shape ts = map tree_shape us" by (induction rule: list_all2_induct) simp_all
  from assms show "flow_names ts = flow_names us" unfolding flow_names_def by (induction rule: list_all2_induct) (simp_all add: alike_name)
qed

lemma place_alike:
  assumes "list_all2 alike (bt_flows b) (bt_flows c)" "bt_name b = bt_name c" "bt_parameters b = bt_parameters c" "w_attrs v = w_attrs w"
  shows "names_view (place b v) = names_view (place c w)"
proof -
  have len: "length (bt_flows b) = length (bt_flows c)" using assms(1) by (rule list_all2_lengthD)
  have al: "alike (bt_flows b ! k) (bt_flows c ! k)" if "k < length (bt_flows b)" for k
    using assms(1) that by (simp add: list_all2_conv_all_nth)
  have "node_names (attr (place b v) p) = node_names (attr (place c w) p)" for p
  proof (cases "p \<noteq> [] \<and> last p < length (bt_flows b)")
    case True
    then have "map_option node_names (tree_attrs (rev (butlast p)) (bt_flows b ! last p))
        = map_option node_names (tree_attrs (rev (butlast p)) (bt_flows c ! last p))"
      using al unfolding alike_def by blast
    then show ?thesis using True len assms(4) by (auto simp: place_def nth_opt_conv split: option.splits)
  next
    case False
    then show ?thesis using len assms(2,4) by (auto simp: place_def nth_opt_conv)
  qed
  then show ?thesis using assms(3) len alike_flows [OF assms(1)] by (simp add: names_view_def)
qed

definition stripped_bunch :: "bunch_tree \<Rightarrow> bunch_tree" where
  "stripped_bunch b = b\<lparr>bt_flows := map stripped (bt_flows b)\<rparr>"

lemma stripped_alike: "alike (stripped t) t"
  by (simp add: alike_def stripped_def tree_attrs_map option.map_comp comp_def names_durable)

lemma fresh_alike: "storable_tree env t \<Longrightarrow> alike (map_tree (new_generation u) (fresh_tree (project t))) t"
  by (simp add: alike_def tree_attrs_map option.map_comp comp_def names_new_generation tree_attrs_fresh)

lemma alike_sym: "alike t u \<Longrightarrow> alike u t" and alike_trans: "alike t u \<Longrightarrow> alike u v \<Longrightarrow> alike t v"
  by (simp_all add: alike_def)

text \<open>The nodes of a tree in the store, in the order of \<open>walk\<close>, under their paths.\<close>

definition clean_nodes :: "(string \<times> string \<times> node_attrs) list \<Rightarrow> bool" where
  "clean_nodes xs = list_all (\<lambda>(_, _, a). clean_name (n_name a)) xs"

definition slash_path :: "string list \<Rightarrow> string" where
  "slash_path ns = concat (map (\<lambda>n. ''/'' @ n) ns)"

lemma walk_tree:
  assumes "\<And>is a. tree_attrs is t = Some a \<Longrightarrow> attr W (rev is @ p) = a" and "path_names W p = ns @ [n_name (t_attrs t)]"
    and "\<forall>n \<in> set ns. clean_name n" and "clean_nodes (tree_nodes (slash_path ns) t)"
  shows "map (\<lambda>q. (node_path W q, attr W q)) (walk (tree_shape t) p)
    = map (\<lambda>(path, _, a). (path, a)) (tree_nodes (slash_path ns) t)"
  using assms
proof (induction t arbitrary: p ns)
  case (Tree ty script a ts)
  let ?names = "ns @ [n_name a]" and ?F = "\<lambda>q. (node_path W q, attr W q)" and ?G = "\<lambda>(path, _ :: string, a). (path, a)"
  let ?path = "slash_path ns @ ''/'' @ n_name a"
  have clean: "\<forall>n \<in> set ?names. clean_name n" using Tree.prems(3,4) by (simp add: clean_nodes_def)
  have path: "slash_path ?names = ?path" by (simp add: slash_path_def)
  have here: "?F p = (?path, a)"
    using Tree.prems(1) [of "[]"] Tree.prems(2) path_str_clean [OF clean] slash_join [of ?names] path by (simp add: node_path_def slash_path_def)
  have kid: "map ?F (walk (tree_shape (ts ! i)) (i # p)) = map ?G (tree_nodes ?path (ts ! i))" if i: "i < length ts" for i
  proof -
    have at: "attr W (rev is @ i # p) = b" if "tree_attrs is (ts ! i) = Some b" for "is" b
      using Tree.prems(1) [of "i # is" b] that i by (simp add: nth_opt_conv)
    have "path_names W (i # p) = ?names @ [n_name (t_attrs (ts ! i))]"
      using at [of "[]"] Tree.prems(2) by (simp add: path_names_def)
    moreover have "clean_nodes (tree_nodes (slash_path ?names) (ts ! i))"
      using Tree.prems(4) i unfolding path by (auto simp: clean_nodes_def list_all_iff)
    ultimately show ?thesis
      using Tree.IH [of "ts ! i" "i # p" ?names] at clean i unfolding path by simp
  qed
  have "map (\<lambda>(i, s). map ?F (walk s (i # p))) (enumerate 0 (map tree_shape ts)) = map (\<lambda>t. map ?G (tree_nodes ?path t)) ts"
    by (intro nth_equalityI) (simp_all add: nth_enumerate_eq kid)
  then have "map ?F (concat (map (\<lambda>(i, s). walk s (i # p)) (enumerate 0 (map tree_shape ts)))) = map ?G (concat (map (tree_nodes ?path) ts))"
    by (simp add: map_concat comp_def prod.case_distrib)
  then show ?case using here by simp
qed

lemma bunch_walk_nodes:
  assumes "clean_nodes (bunch_nodes b)"
  shows "map (\<lambda>q. (node_path (place b w) q, attr (place b w) q)) (bunch_walk (place b w)) = map (\<lambda>(path, _, a). (path, a)) (bunch_nodes b)"
proof -
  let ?W = "place b w" and ?G = "\<lambda>(path, _ :: string, a). (path, a)"
  let ?F = "\<lambda>q. (node_path ?W q, attr ?W q)"
  have flow: "map ?F (walk (subtree ?W [k]) [k]) = map ?G (tree_nodes [] (bt_flows b ! k))" if k: "k < length (bt_flows b)" for k
  proof -
    have at: "attr ?W (rev is @ [k]) = a" if "tree_attrs is (bt_flows b ! k) = Some a" for "is" a using place_attr [OF k that] .
    have "clean_nodes (tree_nodes [] (bt_flows b ! k))"
      using assms k by (auto simp: clean_nodes_def bunch_nodes_def list_all_iff)
    then show ?thesis
      using walk_tree [of "bt_flows b ! k" ?W "[k]" "[]"] at at [of "[]"] place_subtree [OF k, of w] by (simp add: path_names_def slash_path_def)
  qed
  have "map (\<lambda>(_, k). map ?F (walk (subtree ?W [k]) [k])) (w_flows ?W) = map (\<lambda>t. map ?G (tree_nodes [] t)) (bt_flows b)"
    by (intro nth_equalityI) (simp_all add: flow_names_def flow)
  then show ?thesis by (simp add: bunch_walk_def bunch_nodes_def map_concat comp_def prod.case_distrib)
qed

section \<open>What a capture writes\<close>

definition registered :: "string \<Rightarrow> entry_kind" where
  "registered ty = the (map_of builtin_registry ty)"

lemma captured_nodes_Inr:
  assumes "captured_nodes env b = Inr nodes"
  shows "nodes = map (\<lambda>(path, ty, a). (path, runtime_of env (registered ty) a)) (bunch_nodes b)"
    and "list_all (\<lambda>(_, r). node_runtime_ok env r) nodes"
proof -
  note d = list_outcome_InrD [OF assms [unfolded captured_nodes_def]]
  have c: "capture_node env ty a = Inr r \<Longrightarrow> r = runtime_of env (registered ty) a \<and> node_runtime_ok env r" for ty a r
    by (auto simp: capture_node_def registered_def split: option.splits if_splits)
  have ok: "\<exists>r. capture_node env ty a = Inr r" if "(path, ty, a) \<in> set (bunch_nodes b)" for path ty a
    using d that by (fastforce split: sum.splits)
  show n: "nodes = map (\<lambda>(path, ty, a). (path, runtime_of env (registered ty) a)) (bunch_nodes b)"
    unfolding d [THEN conjunct1] using c ok by (fastforce intro!: map_cong split: sum.splits)
  show "list_all (\<lambda>(_, r). node_runtime_ok env r) nodes"
    unfolding n list_all_iff using c ok by fastforce
qed

definition flies :: "node_attrs \<Rightarrow> bool" where
  "flies a \<longleftrightarrow> n_kind a = KTask \<and> in_flight (node_status (n_state a))"

definition secret_at :: "node_attrs \<Rightarrow> job_secret" where
  "secret_at a = \<lparr>js_attempt_id = the (attempt_id (n_task a)), js_password = the (job_password (n_task a))\<rparr>"

definition has_secret :: "checkpoint_env \<Rightarrow> node_attrs \<Rightarrow> bool" where
  "has_secret env a \<longleftrightarrow> attempt_id (n_task a) = Some (js_attempt_id (secret_at a)) \<and> job_password (n_task a) = Some (js_password (secret_at a))
     \<and> ce_canonical_uuid env (js_attempt_id (secret_at a)) \<and> js_password (secret_at a) \<noteq> []"

lemma job_secrets_Inr:
  assumes "list_outcome (map (job_secret_of env) xs) = Inr yss"
  shows "concat yss = map (\<lambda>(path, _, a). (path, secret_at a)) (filter (\<lambda>(_, _, a). flies a) xs)
    \<and> (\<forall>(_, _, a) \<in> set xs. flies a \<longrightarrow> has_secret env a)"
  using assms
proof (induction xs arbitrary: yss)
  case (Cons x xs)
  obtain path ty a where x: "x = (path, ty, a)" by (cases x)
  obtain ys zss where y: "job_secret_of env x = Inr ys" "list_outcome (map (job_secret_of env) xs) = Inr zss" "yss = ys # zss"
    using Cons.prems by (auto split: sum.splits)
  have "ys = (if flies a then [(path, secret_at a)] else []) \<and> (flies a \<longrightarrow> has_secret env a)"
    using y(1) by (auto simp: x job_secret_of_def flies_def has_secret_def secret_at_def split: if_splits option.splits)
  then show ?case using Cons.IH [OF y(2)] y(3) by (simp add: x)
qed simp

lemma consistent_same: "consistent s = Inr s' \<Longrightarrow> s' = s"
  by (auto simp: consistent_def split: if_splits)

lemma clean_tree: "node_error (project t) = None \<Longrightarrow> clean_nodes (tree_nodes pre t)"
proof (induction t arbitrary: pre)
  case (Tree ty script a ts)
  have "clean_name (n_name a)"
    using Tree.prems by (auto simp: clean_name_def bad_node_name_def list_ex_iff)
  moreover have "clean_nodes (tree_nodes (pre @ ''/'' @ n_name a) t)" if "t \<in> set ts" for t
    using Tree.IH [OF that] Tree.prems that by simp
  ultimately show ?case by (auto simp: clean_nodes_def list_all_iff)
qed

lemma bunch_definition_valid:
  assumes "root_error (bunch_definition b) = None"
  shows "\<forall>t \<in> set (bt_flows b). node_error (project t) = None \<and> check_types {EFlow} (project t) = None" and "clean_nodes (bunch_nodes b)"
proof -
  show v: "\<forall>t \<in> set (bt_flows b). node_error (project t) = None \<and> check_types {EFlow} (project t) = None"
    using assms by (simp add: bunch_definition_def)
  then have "clean_nodes (tree_nodes [] t)" if "t \<in> set (bt_flows b)" for t using clean_tree that by blast
  then show "clean_nodes (bunch_nodes b)" by (auto simp: clean_nodes_def bunch_nodes_def list_all_iff)
qed

lemma capture_Inr:
  assumes "capture_checkpoint env saved_at b w = Inr doc"
  defines "v \<equiv> view_of_root (bunch_definition b) (cd_nodes doc) (Some (place b w))"
  shows "root_error (bunch_definition b) = None" "cd_definition doc = bunch_definition b" "cd_server_state doc = bt_server_state b"
    "captured_nodes env b = Inr (cd_nodes doc)" "captured_secrets env b = Inr (cd_job_passwords doc)"
    "consistent (bt_server_state b) = Inr (bt_server_state b)" "ce_aware_text env (cd_saved_at doc)"
    "validate_checkpoint_view env v (cd_job_passwords doc) = None"
  using assms consistent_same
  by (auto simp: capture_checkpoint_def split: option.splits sum.splits if_splits)

lemma captured_secrets_Inr:
  assumes "captured_secrets env b = Inr ss"
  shows "ss = map (\<lambda>(path, _, a). (path, secret_at a)) (filter (\<lambda>(_, _, a). flies a) (bunch_nodes b))"
    and "\<forall>(_, _, a) \<in> set (bunch_nodes b). flies a \<longrightarrow> has_secret env a"
  using assms job_secrets_Inr by (auto simp: captured_secrets_def split: sum.splits)

lemma captured_document_ok:
  assumes "capture_checkpoint env saved_at b w = Inr doc"
  shows "document_ok env doc"
proof -
  note c = capture_Inr [OF assms]
  have "list_all (\<lambda>(_, s). ce_canonical_uuid env (js_attempt_id s) \<and> js_password s \<noteq> []) (cd_job_passwords doc)"
    unfolding captured_secrets_Inr(1) [OF c(5)] list_all_iff using captured_secrets_Inr(2) [OF c(5)] by (auto simp: has_secret_def)
  then show ?thesis using c captured_nodes_Inr(2) [OF c(4)] by (simp add: document_ok_def)
qed

section \<open>Building and applying\<close>

lemma list_outcome_all2: "list_all2 (\<lambda>x y. f x = Inr y) xs ys \<Longrightarrow> list_outcome (map f xs) = Inr ys"
  by (induction rule: list_all2_induct) simp_all

lemma adopted_all2:
  assumes "\<And>u t. t \<in> set ts \<Longrightarrow> P (map_tree (new_generation u) (f t)) (g t)"
  shows "list_all2 P (adopted w (map f ts)) (map g ts)"
  using assms by (auto simp: adopted_def list_all2_conv_all_nth nth_enumerate_eq)

lemma adopted_alike:
  assumes "list_all (storable_tree env) ts"
  shows "list_all2 alike (adopted w (map (fresh_tree \<circ> project) ts)) ts"
proof -
  have "list_all2 alike (adopted w (map (fresh_tree \<circ> project) ts)) (map (\<lambda>t. t) ts)"
    using assms by (intro adopted_all2) (auto simp: list_all_iff intro: fresh_alike)
  then show ?thesis by simp
qed

lemma linking_outcome:
  assumes "names_view v = names_view w" and "relink env w = (Inr (), w')"
  shows "\<exists>v'. seqM (bunch_bind_expressions (ce_parse env)) bunch_validate_references v = (Inr (), v')"
proof -
  let ?b = "bunch_bind_expressions (ce_parse env)"
  obtain w1 w2 where w: "bunch_validate_references w = (Inr (), w1)" "?b w1 = (Inr (), w2)"
    using assms(2) unfolding relink_def by (auto elim!: seqM_InrE)
  have keep: "names_view (after (m s)) = names_view s" if "obeys (same unlinked_world) m" for m :: "unit dprog" and s
    using obeys_same_wp [OF names_of_obeys [OF that]] .
  have w1: "names_view w1 = names_view w" using keep [OF linking_unlinked(2), of w] w(1) by simp
  have "outcome (?b v) = outcome (?b w1)" using decided_byD [OF linking_names(1)] assms(1) w1 by metis
  then obtain v1 where v1: "?b v = (Inr (), v1)" using w(2) by (cases "?b v") simp
  then have "names_view v1 = names_view w" using keep [OF linking_unlinked(1), of "ce_parse env" v] assms(1) by simp
  then have "outcome (bunch_validate_references v1) = outcome (bunch_validate_references w)"
    using decided_byD [OF linking_names(2)] by metis
  then show ?thesis using w(1) v1 by (cases "bunch_validate_references v1") (simp add: seqM_def bindM_def)
qed

lemma restored_bunch_of:
  assumes "list_all (\<lambda>(key, p). key = pa_name p) (bt_parameters b)"
  shows "restored_bunch (bunch_definition b) st ts = b\<lparr>bt_server_state := st, bt_flows := ts\<rparr>"
proof -
  have "map ((\<lambda>p. (pd_name p, Parameter (pd_name p) (pd_value p))) \<circ> (\<lambda>(k, p). \<lparr>pd_name = pa_name p, pd_value = pa_value p\<rparr>)) (bt_parameters b) = bt_parameters b"
    using assms by (intro map_idI) (auto simp: list_all_iff Parameter_def)
  then show ?thesis by (simp add: restored_bunch_def bunch_definition_def)
qed

lemma built_flows_linking:
  fixes w :: world
  assumes "root_error (bunch_definition b) = None" "list_all (\<lambda>(key, p). key = pa_name p) (bt_parameters b)"
  defines "fresh \<equiv> adopted w (map (fresh_tree \<circ> project) (bt_flows b))"
  shows "built_flows env (bunch_definition b) w = (case seqM (bunch_bind_expressions (ce_parse env)) bunch_validate_references
      (place (b\<lparr>bt_server_state := ServerState, bt_flows := fresh\<rparr>) w) of (Inl c, _) \<Rightarrow> Inl c | (Inr _, _) \<Rightarrow> Inr fresh)"
proof -
  have "list_outcome (map construct (map project (bt_flows b))) = Inr (map (fresh_tree \<circ> project) (bt_flows b))"
    using bunch_definition_valid(1) [OF assms(1)] construct_fresh by (auto simp: comp_def intro!: list_outcome_Inr)
  then show ?thesis
    using assms(1) restored_bunch_of [OF assms(2)] unfolding fresh_def
    by (simp add: built_flows_def bunch_definition_def del: root_error.simps)
qed

lemma built_fresh:
  assumes "root_error (bunch_definition b) = None" "list_all (storable_tree env) (bt_flows b)"
    "list_all (\<lambda>(key, p). key = pa_name p) (bt_parameters b)"
    and "relink env (place (stripped_bunch b) (take_uuids n w)) = (Inr (), w')"
  shows "built_flows env (bunch_definition b) w = Inr (adopted w (map (fresh_tree \<circ> project) (bt_flows b)))"
proof -
  let ?fresh = "adopted w (map (fresh_tree \<circ> project) (bt_flows b))"
  have "list_all2 alike ?fresh (map stripped (bt_flows b))"
    unfolding list.rel_map
    by (rule list_all2_mono [OF adopted_alike [OF assms(2)]]) (rule alike_trans [OF _ alike_sym [OF stripped_alike]])
  then have "names_view (place (b\<lparr>bt_server_state := ServerState, bt_flows := ?fresh\<rparr>) w) = names_view (place (stripped_bunch b) (take_uuids n w))"
    by (intro place_alike) (simp_all add: stripped_bunch_def take_uuids_def)
  then obtain v' where "seqM (bunch_bind_expressions (ce_parse env)) bunch_validate_references
      (place (b\<lparr>bt_server_state := ServerState, bt_flows := ?fresh\<rparr>) w) = (Inr (), v')"
    using linking_outcome assms(4) by blast
  then show ?thesis by (simp add: built_flows_linking [OF assms(1,3)])
qed

lemma applied_stripped:
  assumes c: "capture_checkpoint env saved_at b w = Inr doc" and st: "list_all (storable_tree env) (bt_flows b)"
  shows "applied_flows env doc (adopted w0 (map (fresh_tree \<circ> project) (bt_flows b))) = Inr (map stripped (bt_flows b))"
proof -
  note d = capture_Inr [OF c]
  let ?v = "view_of_root (bunch_definition b) (cd_nodes doc) (Some (place b w))" and ?fresh = "adopted w0 (map (fresh_tree \<circ> project) (bt_flows b))"
  have off: "view_of_root (bunch_definition b) (cd_nodes doc) None = offline ?v"
    by (simp add: view_of_root_def bunch_definition_def offline_def)
  have v: "validate_checkpoint_view env (offline ?v) (cd_job_passwords doc) = None" using offline_valid [OF d(8)] .
  have vs: "vw_definitions ?v = concat (map (definition_nodes [] \<circ> project) (bt_flows b))" "vw_runtime ?v = cd_nodes doc"
    by (simp_all add: view_of_root_def bunch_definition_def)
  have paths: "map fst (cd_nodes doc) = map fst (bunch_nodes b)" unfolding captured_nodes_Inr(1) [OF d(4)] by auto
  have "map fst (concat (map (definition_nodes [] \<circ> project) (bt_flows b))) = map fst (bunch_nodes b)"
    by (simp add: bunch_nodes_def map_concat comp_def definition_paths)
  then have dist: "distinct (map fst (bunch_nodes b))" using d(8) vs(1) by (simp add: validate_checkpoint_view_def)
  have fresh_paths: "map fst (concat (map (tree_nodes []) ?fresh)) = map fst (bunch_nodes b)"
  proof -
    have "list_all2 (\<lambda>t u. map fst (tree_nodes [] t) = map fst (tree_nodes [] u)) ?fresh (map (\<lambda>t. t) (bt_flows b))"
      by (intro adopted_all2) (simp add: map_tree_paths fresh_tree_nodes)
    then have "map (map fst \<circ> tree_nodes []) ?fresh = map (map fst \<circ> tree_nodes []) (bt_flows b)"
      unfolding list.map_ident by (induction rule: list_all2_induct) simp_all
    then show ?thesis by (simp add: bunch_nodes_def map_concat comp_def)
  qed
  have "list_all2 (\<lambda>t u. apply_tree env (cd_nodes doc) [] t = Inr u) ?fresh (map stripped (bt_flows b))"
  proof (intro adopted_all2)
    fix u t assume t: "t \<in> set (bt_flows b)"
    have run: "map_of (cd_nodes doc) path = Some (runtime_of env (the (map_of builtin_registry ty)) a)" if "(path, ty, a) \<in> set (tree_nodes [] t)" for path ty a
    proof -
      have "(path, ty, a) \<in> set (bunch_nodes b)" using that t by (auto simp: bunch_nodes_def)
      then have "(path, runtime_of env (registered ty) a) \<in> set (cd_nodes doc)"
        unfolding captured_nodes_Inr(1) [OF d(4)] by force
      then show ?thesis using dist paths by (simp add: map_of_eq_Some_iff registered_def)
    qed
    then have run': "\<forall>(path, ty, a) \<in> set (tree_nodes [] t). map_of (cd_nodes doc) path = Some (runtime_of env (the (map_of builtin_registry ty)) a)"
      by blast
    have "\<forall>x \<in> set (vw_definitions ?v). node_view_error env ?v x = None" using d(8) by (simp add: validate_checkpoint_view_def)
    then have "\<forall>x \<in> set (definition_nodes [] (project t)). node_view_error env ?v x = None" using t by (auto simp: vs(1))
    then show "apply_tree env (cd_nodes doc) [] (map_tree (new_generation u) ((fresh_tree \<circ> project) t)) = Inr (stripped t)"
      using apply_tree_stripped [of t "{EFlow}" env "[]" ?v u] bunch_definition_valid(1) [OF d(1)] t st run'
      by (simp add: vs(2) list_all_iff)
  qed
  note applied = list_outcome_all2 [OF this]
  have code: "first_code [validate_checkpoint_view env (offline ?v) (cd_job_passwords doc),
      same_names (map fst (concat (map (tree_nodes []) ?fresh))) (map fst (cd_nodes doc))] = None"
    using v fresh_paths paths by (simp add: same_names_def)
  show ?thesis unfolding applied_flows_def d(2) off code by (simp add: applied)
qed

section \<open>The passwords\<close>

lemma flies_stripped [simp]: "flies (without_password (durable_node a)) = flies a"
  by (simp add: flies_def without_password_def durable_node_def unlinked_node_def)

lemma stripped_nodes: "bunch_nodes (stripped_bunch b) = map (\<lambda>(path, ty, a). (path, ty, without_password (durable_node a))) (bunch_nodes b)"
proof -
  have "n_name ((without_password \<circ> durable_node) a) = n_name a" for a by (simp add: without_password_def durable_node_def unlinked_node_def)
  then show ?thesis by (simp add: bunch_nodes_def stripped_bunch_def stripped_def map_concat comp_def map_tree_nodes)
qed

definition with_password :: "string option \<Rightarrow> node_attrs \<Rightarrow> node_attrs" where
  "with_password pw = (\<lambda>a. a\<lparr>n_task := (n_task a)\<lparr>job_password := pw\<rparr>\<rparr>)"

lemma with_password_path: "node_path (upd q (with_password pw) w) = node_path w"
proof -
  have "name_of (upd q (with_password pw) w) = name_of w" by (rule ext) (simp add: attr_upd with_password_def)
  then show ?thesis by (simp add: node_path_def path_names_def fun_eq_iff)
qed

lemma put_password_run:
  assumes "distinct qs" "\<forall>q \<in> set qs. secret_matches w secrets q"
  shows "forM qs (put_password secrets) w = (Inr (), w\<lparr>w_attrs := (\<lambda>q. if q \<in> set qs
    then with_password (map_option js_password (map_of secrets (node_path w q))) (attr w q) else attr w q)\<rparr>)"
  using assms
proof (induction qs arbitrary: w)
  case (Cons q qs)
  let ?w = "upd q (with_password (map_option js_password (map_of secrets (node_path w q)))) w"
  have "put_password secrets q w = (Inr (), ?w)"
    using Cons.prems(2) by (simp add: put_password_def prog_defs with_password_def)
  moreover have "\<forall>r \<in> set qs. secret_matches ?w secrets r"
    using Cons.prems by (auto simp: secret_matches_def with_password_path attr_upd)
  then have "forM qs (put_password secrets) ?w = (Inr (), ?w\<lparr>w_attrs := (\<lambda>r. if r \<in> set qs
      then with_password (map_option js_password (map_of secrets (node_path w r))) (attr ?w r) else attr ?w r)\<rparr>)"
    using Cons.IH [of ?w, unfolded with_password_path] Cons.prems(1) by simp
  ultimately show ?case
    using Cons.prems(1) by (auto simp: seqM_def bindM_def upd_def fun_eq_iff)
qed (simp add: ret_def)

end
