(* ===== verification/Checkpoint_Roundtrip.thy ===== *)
theory Checkpoint_Roundtrip
  imports Checkpoint_Building
begin

text \<open>
  A checkpoint that was captured restores what it was taken from: the restored bunch linked in the store, the theorem
  of the round trip, and the absolute references that a capture accepts and a restore refuses.
\<close>

section \<open>The restored bunch\<close>

lemma unlinked_fields:
  assumes "unlinked_node a = unlinked_node c"
  shows "n_kind a = n_kind c" "n_state a = n_state c" "n_task a = n_task c" "n_name a = n_name c"
  using assms
proof -
  have f: "n_kind (unlinked_node a) = n_kind a" "n_state (unlinked_node a) = n_state a" "n_task (unlinked_node a) = n_task a"
    "n_name (unlinked_node a) = n_name a" for a by (simp_all add: unlinked_node_def)
  show "n_kind a = n_kind c" "n_state a = n_state c" "n_task a = n_task c" "n_name a = n_name c"
    using assms f by metis+
qed

lemma unlink_idem [simp]: "unbound_expression \<circ> unbound_expression = unbound_expression" "unlinked \<circ> unlinked = unlinked"
  by (simp_all add: fun_eq_iff unbound_expression_def unlinked_def)

lemma durable_of_unlinked: "durable_node (unlinked_node a) = durable_node a"
  by (simp add: durable_node_def unlinked_node_def option.map_comp)

lemma durable_unlinked: "unlinked_node a = unlinked_node c \<Longrightarrow> durable_node a = durable_node c"
  using durable_of_unlinked by metis

lemma unlinked_with_password: "unlinked_node (with_password pw a) = with_password pw (unlinked_node a)"
  by (simp add: unlinked_node_def with_password_def)

lemma durable_stripped:
  "\<not> flies a \<Longrightarrow> durable_node (without_password (durable_node a)) = durable_node a"
  "flies a \<Longrightarrow> durable_node (with_password (job_password (n_task a)) (without_password (durable_node a))) = durable_node a"
  by (auto simp: durable_node_def unlinked_node_def without_password_def with_password_def flies_def durable_task_def durable_flow_def
      new_task_data_def new_flow_data_def option.map_comp)

definition in_limits_view :: "world \<Rightarrow> pos \<Rightarrow> in_limit list" where
  "in_limits_view w = (\<lambda>q. n_in_limits (attr w q))"

interpretation inl: frame "same in_limits_view" by (rule frame_same)

lemma bind_keeps_limits: "obeys (same in_limits_view) (bunch_bind_expressions parse)"
proof -
  have u: "obeys (same in_limits_view) (modify (upd q f))" if "\<And>a. n_in_limits (f a) = n_in_limits a" for q f
    using that by (auto simp: obeys_def same_def modify_def in_limits_view_def attr_upd fun_eq_iff)
  show ?thesis unfolding bunch_bind_expressions_def bind_node_def
    by (intro inl.obeys_withState inl.obeys_forM inl.obeys_seqM inl.obeys_sum inl.obeys_raise u) simp_all
qed

lemma relink_Inr:
  assumes "relink env w = (Inr (), w')"
  shows "unlinked_world w' = unlinked_world w" and "\<forall>q \<in> set (bunch_walk w). linked (attr w' q)"
proof -
  let ?b = "bunch_bind_expressions (ce_parse env)"
  obtain w1 w2 where w: "bunch_validate_references w = (Inr (), w1)" "?b w1 = (Inr (), w2)" "validate_occupancy w2 = (Inr (), w')"
    using assms unfolding relink_def by (auto elim!: seqM_InrE)
  have w2: "w2 = w'" using w(3) by (auto simp: validate_occupancy_def prog_defs split: option.splits)
  have u1: "unlinked_world w1 = unlinked_world w" using obeys_same_wp [OF linking_unlinked(2), of w] w(1) by simp
  moreover have "unlinked_world w2 = unlinked_world w1" using obeys_same_wp [OF linking_unlinked(1), of "ce_parse env" w1] w(2) by simp
  ultimately show "unlinked_world w' = unlinked_world w" using w2 by simp
  have walk: "bunch_walk w1 = bunch_walk w" using names_lookup(3) [OF names_of_unlinked [OF u1]] .
  have "forM (bunch_walk w) (check_references bunch_reference) w = (Inr (), w1)"
    using w(1) by (simp add: bunch_validate_references_def withState_def)
  then have r: "\<forall>q \<in> set (bunch_walk w). resolved q w1"
    using forM_establishes [where P = resolved and f = "check_references bunch_reference"] check_references_effect by blast
  have "forM (bunch_walk w1) (bind_node (ce_parse env) bunch_reference bunch_variable) w1 = (Inr (), w2)"
    using w(2) by (simp add: bunch_bind_expressions_def withState_def)
  then have t: "\<forall>q \<in> set (bunch_walk w1). bound_triggers q w2"
    using forM_establishes [where P = bound_triggers and f = "bind_node (ce_parse env) bunch_reference bunch_variable"] bind_node_effect by blast
  have "in_limits_view w2 = in_limits_view w1" using obeys_same_wp [OF bind_keeps_limits, of "ce_parse env" w1] w(2) by simp
  then have "resolved q w2 = resolved q w1" for q by (simp add: resolved_def in_limits_view_def fun_eq_iff)
  then show "\<forall>q \<in> set (bunch_walk w). linked (attr w' q)"
    using r t w2 walk by (simp add: linked_def resolved_def bound_triggers_def)
qed

text \<open>The stripped bunch in its store beside the live one: the same positions and paths.\<close>

lemma stripped_walk: "bunch_walk (place (stripped_bunch b) v) = bunch_walk (place b w)"
proof -
  have "map tree_shape (map stripped (bt_flows b)) = map tree_shape (bt_flows b)" "flow_names (map stripped (bt_flows b)) = flow_names (bt_flows b)"
    using alike_flows [of "map stripped (bt_flows b)" "bt_flows b"] stripped_alike by (simp_all add: list_all2_conv_all_nth)
  then have "w_shapes (place (stripped_bunch b) v) = w_shapes (place b w)" "w_flows (place (stripped_bunch b) v) = w_flows (place b w)"
    by (simp_all add: stripped_bunch_def)
  then show ?thesis by (simp add: bunch_walk_def subtree_def)
qed

lemma stripped_walk_nodes:
  assumes "clean_nodes (bunch_nodes b)"
  shows "map (\<lambda>q. (node_path (place (stripped_bunch b) v) q, attr (place (stripped_bunch b) v) q)) (bunch_walk (place b w))
    = map (\<lambda>(path, _, a). (path, without_password (durable_node a))) (bunch_nodes b)"
proof -
  have "clean_nodes (bunch_nodes (stripped_bunch b))"
    using assms unfolding stripped_nodes clean_nodes_def list_all_iff
    by (auto simp: without_password_def durable_node_def unlinked_node_def)
  from bunch_walk_nodes [OF this, of v] show ?thesis
    by (simp add: stripped_walk [of b v w] stripped_nodes comp_def case_prod_unfold)
qed

lemma stripped_at:
  assumes "clean_nodes (bunch_nodes b)" "q \<in> set (bunch_walk (place b w))"
  obtains path ty where "(path, ty, attr (place b w) q) \<in> set (bunch_nodes b)" "node_path (place (stripped_bunch b) v) q = path"
    "attr (place (stripped_bunch b) v) q = without_password (durable_node (attr (place b w) q))"
proof -
  let ?W = "place b w" and ?P = "place (stripped_bunch b) v"
  note live = bunch_walk_nodes [OF assms(1), of w] and strip = stripped_walk_nodes [OF assms(1), of v w]
  obtain i where i: "i < length (bunch_walk ?W)" "q = bunch_walk ?W ! i" using assms(2) by (metis in_set_conv_nth)
  have len: "length (bunch_walk ?W) = length (bunch_nodes b)" using arg_cong [OF live, of length] by simp
  obtain path ty a where n: "bunch_nodes b ! i = (path, ty, a)" by (cases "bunch_nodes b ! i")
  have "(node_path ?W q, attr ?W q) = (path, a)" using arg_cong [OF live, of "\<lambda>xs. xs ! i"] i len n by simp
  moreover have "(node_path ?P q, attr ?P q) = (path, without_password (durable_node a))"
    using arg_cong [OF strip, of "\<lambda>xs. xs ! i"] i len n by simp
  moreover have "(path, ty, a) \<in> set (bunch_nodes b)" using i len n by (metis nth_mem)
  ultimately show thesis using that by simp
qed

lemma put_passwords_run:
  assumes c: "capture_checkpoint env saved_at b w = Inr doc" and run: "relink env (place (stripped_bunch b) v) = (Inr (), w2)"
    and dist: "distinct (map fst (bunch_nodes b))"
  shows "\<exists>w'. put_passwords (cd_job_passwords doc) w2 = (Inr (), w') \<and> w' = w2\<lparr>w_attrs := w_attrs w'\<rparr>
    \<and> (\<forall>q \<in> set (bunch_walk (place b w)). attr w' q = (if flies (attr (place b w) q)
        then with_password (job_password (n_task (attr (place b w) q))) (attr w2 q) else attr w2 q))"
proof -
  note d = capture_Inr [OF c]
  let ?W = "place b w" and ?P = "place (stripped_bunch b) v" and ?ss = "cd_job_passwords doc"
  note clean = bunch_definition_valid(2) [OF d(1)] and s = captured_secrets_Inr [OF d(5)]
  note strip = stripped_walk_nodes [OF clean, of v w]
  have u: "unlinked_world w2 = unlinked_world ?P" by (rule relink_Inr [OF run])
  note names = names_lookup [OF names_of_unlinked [OF u]] and at = unlinked_fields [OF unlinked_worldD [OF u]]
  have walk: "bunch_walk w2 = bunch_walk ?W" using names(3) stripped_walk by metis
  have fp: "flying_positions w2 = filter (\<lambda>q. flies (attr ?P q)) (bunch_walk ?W)"
    unfolding flying_positions_def walk by (simp add: flies_def at(1,2))
  have paths: "map (node_path ?P) (filter (\<lambda>q. flies (attr ?P q)) (bunch_walk ?W)) = map fst ?ss"
    using arg_cong [OF strip, of "\<lambda>xs. map fst (filter (\<lambda>(_, a). flies a) xs)"] unfolding s(1)
    by (simp add: filter_map comp_def case_prod_unfold)
  have "map (node_path ?P) (bunch_walk ?W) = map fst (bunch_nodes b)"
    using arg_cong [OF strip, of "map fst"] by (simp add: comp_def case_prod_unfold)
  then have dw: "distinct (bunch_walk ?W)" using dist by (metis distinct_map)
  have look: "map_of ?ss path = Some (secret_at a)" if "(path, ty, a) \<in> set (bunch_nodes b)" "flies a" for path ty a
  proof -
    have "distinct (map fst ?ss)" using dist unfolding s(1) by (simp add: comp_def case_prod_unfold distinct_map_filter)
    then show ?thesis using that unfolding s(1) by (force simp: map_of_eq_Some_iff)
  qed
  have here: "flies (attr ?P q) = flies (attr ?W q) \<and> (flies (attr ?W q) \<longrightarrow> secret_matches w2 ?ss q
      \<and> map_option js_password (map_of ?ss (node_path w2 q)) = job_password (n_task (attr ?W q)))" if "q \<in> set (bunch_walk ?W)" for q
  proof -
    obtain path ty where q: "(path, ty, attr ?W q) \<in> set (bunch_nodes b)" "node_path ?P q = path"
      "attr ?P q = without_password (durable_node (attr ?W q))" using stripped_at [OF clean \<open>q \<in> set (bunch_walk ?W)\<close>] .
    have "has_secret env (attr ?W q)" if "flies (attr ?W q)" using s(2) q(1) that by blast
    moreover have "attempt_id (n_task (attr w2 q)) = attempt_id (n_task (attr ?W q))" if "flies (attr ?W q)"
      using that by (simp add: at(3) q(3) flies_def without_password_def durable_node_def durable_task_def)
    ultimately show ?thesis
      using look [OF q(1)] q by (simp add: secret_matches_def names(1) has_secret_def)
  qed
  have "same_names (map (node_path w2) (flying_positions w2)) (map fst ?ss) = None"
    unfolding fp names(1) paths by (simp add: same_names_def)
  then have "put_passwords ?ss w2 = forM (flying_positions w2) (put_password ?ss) w2"
    by (simp add: put_passwords_def withState_def)
  also have "\<dots> = (Inr (), w2\<lparr>w_attrs := (\<lambda>q. if q \<in> set (flying_positions w2)
      then with_password (map_option js_password (map_of ?ss (node_path w2 q))) (attr w2 q) else attr w2 q)\<rparr>)"
    using dw here by (intro put_password_run) (auto simp: fp)
  finally show ?thesis using here by (intro exI conjI) (assumption, simp, auto simp: fp)
qed

lemma restored_node:
  assumes "unlinked_node y = unlinked_node (without_password (durable_node a))" and "linked y"
  shows "durable_node (if flies a then with_password (job_password (n_task a)) y else y) = durable_node a
    \<and> linked (if flies a then with_password (job_password (n_task a)) y else y)"
proof -
  have "unlinked_node (with_password pw y) = unlinked_node (with_password pw (without_password (durable_node a)))" for pw
    using assms(1) by (simp only: unlinked_with_password)
  then have "durable_node (with_password pw y) = durable_node (with_password pw (without_password (durable_node a)))" for pw by (rule durable_unlinked)
  moreover have "linked (with_password pw y)" for pw using assms(2) by (simp add: linked_def with_password_def)
  ultimately show ?thesis using durable_stripped [of a] durable_unlinked [OF assms(1)] assms(2) by simp
qed


section \<open>References that a restore cannot bind\<close>

fun reference_paths :: "ast \<Rightarrow> string list" where
  "reference_paths (AstOpEq l r) = reference_paths l @ reference_paths r"
| "reference_paths (AstOpGt l r) = reference_paths l @ reference_paths r"
| "reference_paths (AstOpGe l r) = reference_paths l @ reference_paths r"
| "reference_paths (AstOpLt l r) = reference_paths l @ reference_paths r"
| "reference_paths (AstOpLe l r) = reference_paths l @ reference_paths r"
| "reference_paths (AstOpAnd l r) = reference_paths l @ reference_paths r"
| "reference_paths (AstOpOr l r) = reference_paths l @ reference_paths r"
| "reference_paths (AstMathAdd l r) = reference_paths l @ reference_paths r"
| "reference_paths (AstNodePath np) = [np_node_path np]"
| "reference_paths (AstVariablePath np _) = [np_node_path np]"
| "reference_paths _ = []"

lemma bind_paths: "bind look var w owner e = Inr e' \<Longrightarrow> x \<in> set (reference_paths e) \<Longrightarrow> \<exists>q. look w owner x = Inr (Some q)"
  by (induction e arbitrary: e') (auto dest!: bind_both_bound simp: bind_path_def split: sum.splits option.splits)

lemma bind_expressions_binds:
  assumes "bunch_bind_expressions parse v = (Inr (), v')" and "q \<in> set (bunch_walk v)"
    and "map_option ex_expression_str (n_trigger (attr v q)) = Some text" "parse text = Inr e" "x \<in> set (reference_paths e)"
  shows "\<exists>n. bunch_reference v q x = Inr (Some n)"
proof -
  let ?f = "bind_node parse bunch_reference bunch_variable"
  obtain xs ys where walk: "bunch_walk v = xs @ q # ys" using split_list [OF assms(2)] by blast
  have "forM (xs @ q # ys) ?f v = (Inr (), v')" using assms(1) by (simp add: bunch_bind_expressions_def withState_def walk)
  then obtain s s' where s: "forM xs ?f v = (Inr (), s)" "?f q s = (Inr (), s')"
    unfolding forM_append forM.simps by (auto elim!: seqM_InrE)
  have "obeys (same names_view) (forM xs ?f)" by (intro names.obeys_forM names_of_obeys bind_node_unlinked)
  then have names: "names_view s = names_view v" using obeys_same_wp [of names_view "forM xs ?f" v] s(1) by simp
  then have "map_option ex_expression_str (n_trigger (attr s q)) = Some text"
    using node_namesD(8) [OF names_viewD(4) [OF names, of q]] assms(3) by simp
  then obtain ex where ex: "n_trigger (attr s q) = Some ex" "ex_expression_str ex = text" by auto
  obtain e' where "bind bunch_reference bunch_variable s q e = Inr e'"
    using s(2) ex assms(4)
    by (auto simp: bind_node_def seqM_def bindM_def withState_def raise_def bind_expression_def split: sum.splits)
  then have "bind bunch_reference bunch_variable v q e = Inr e'" using bind_names [OF names] by simp
  then show ?thesis using bind_paths assms(5) by blast
qed

text \<open>
  C40. Finding: a capture accepts absolute references that a restore refuses. The cross-check of a capture normalises the path
  of a reference, the restore looks the path up as it is written. Whenever a trigger of the captured bunch names an
  absolute path that is not literally the path of a node, as \<^verbatim>\<open>/flow/./task\<close> is not, the checkpoint that was written
  without complaint cannot be restored in any store.
\<close>

theorem unnormalised_reference_lost:
  assumes "capture_checkpoint env saved_at b w = Inr doc" and "list_all (storable_tree env) (bt_flows b)"
    and "list_all (\<lambda>(key, p). key = pa_name p) (bt_parameters b)"
    and "(path, ty, a) \<in> set (bunch_nodes b)" "n_trigger a = Some ex" "ce_parse env (ex_expression_str ex) = Inr e"
    and "x \<in> set (reference_paths e)" "startswith x ''/''" "x \<notin> fst ` set (bunch_nodes b)" "x \<noteq> path_str (pure_path [bt_name b])"
  shows "\<exists>c. restore_checkpoint env doc w0 = Inl c"
proof -
  note d = capture_Inr [OF assms(1)]
  let ?fresh = "adopted w0 (map (fresh_tree \<circ> project) (bt_flows b))"
  let ?F = "b\<lparr>bt_server_state := ServerState, bt_flows := ?fresh\<rparr>"
  let ?v = "place ?F w0" and ?l = "place b w0"
  have names: "names_view ?v = names_view ?l"
    using adopted_alike [OF assms(2)] by (intro place_alike) simp_all
  note look = names_lookup [OF names] and live = bunch_walk_nodes [OF bunch_definition_valid(2) [OF d(1)], of w0]
  have "(path, a) \<in> set (map (\<lambda>(path, _, a). (path, a)) (bunch_nodes b))" using assms(4) by force
  then obtain q where q: "q \<in> set (bunch_walk ?v)" "attr ?l q = a" unfolding live [symmetric] look(3) by auto
  have "map (node_path ?l) (bunch_walk ?l) = map fst (bunch_nodes b)"
    using arg_cong [OF live, of "map fst"] by (simp add: comp_def case_prod_unfold)
  then have "node_path ?l ` set (bunch_walk ?l) = fst ` set (bunch_nodes b)" by (metis set_map)
  moreover have "name_of ?v [] = bt_name b" by (simp add: place_def new_node_def)
  ultimately have "nodes_at (path_str (pure_path [name_of ?v []])) ?v x = None"
    using assms(9,10) unfolding nodes_at_def look(1,3) map_of_eq_None_iff by auto
  then have "\<nexists>n. bunch_reference ?v q x = Inr (Some n)" using assms(8) by (simp add: bunch_reference_def)
  moreover have "map_option ex_expression_str (n_trigger (attr ?v q)) = Some (ex_expression_str ex)"
    using node_namesD(8) [OF names_viewD(4) [OF names, of q]] q(2) assms(5) by simp
  ultimately have "\<nexists>v'. bunch_bind_expressions (ce_parse env) ?v = (Inr (), v')"
    using bind_expressions_binds q(1) assms(6,7) by metis
  then have "\<exists>c. outcome (bunch_bind_expressions (ce_parse env) ?v) = Inl c"
    by (cases "bunch_bind_expressions (ce_parse env) ?v"; cases "outcome (bunch_bind_expressions (ce_parse env) ?v)") auto
  then obtain c v' where "bunch_bind_expressions (ce_parse env) ?v = (Inl c, v')" by (metis prod.collapse)
  then have "built_flows env (bunch_definition b) w0 = Inl c"
    by (simp add: built_flows_linking [OF d(1) assms(3)] seqM_def bindM_def)
  then show ?thesis using captured_document_ok [OF assms(1)] d(2) by (simp add: restore_checkpoint_def)
qed

end
