(* ===== verification/Document_Applications.thy ===== *)
theory Document_Applications
  imports Checkpoint_Roundtrip Sample_World
begin

text \<open>
  The theorems about checkpoint documents, applied to a bunch with a flow, a task in flight that holds a limit, and a
  suspended shell task with a trigger and a time.
\<close>

definition ck_np :: "string \<Rightarrow> ast_node_path" where
  "ck_np p = \<lparr>np_node_path = p, np_parent_node = None, np_reference_node = None\<rparr>"

definition ck_parse :: parser where
  "ck_parse t = (if t = ''./t1 == complete'' then Inr (AstOpEq (AstNodePath (ck_np ''./t1'')) (AstNodeStatus complete))
     else if t = ''/f/./t1:e == set'' then Inr (AstOpEq (AstVariablePath (ck_np ''/f/./t1'') ''e'') (AstInteger 1))
     else Inl (PyError PyValueError))"

definition ck_env :: checkpoint_env where
  "ck_env = \<lparr>ce_to_aware = (\<lambda>d. (d - 8, 8)), ce_to_local = (\<lambda>(d, off). d + 8), ce_canonical_uuid = (\<lambda>s. s \<in> {''u1'', ''u2''}),
     ce_aware_text = (\<lambda>s. s = ''now''), ce_fast_parse = ck_parse, ce_parse = ck_parse\<rparr>"

definition ck_t1 :: tree where
  "ck_t1 = Tree ''takler.task'' None ((new_node KTask ''t1'')\<lparr>n_state := \<lparr>node_status = active, suspended = False\<rparr>,
     n_events := [\<lparr>ev_name = ''e'', ev_initial_value = False, ev_value = True\<rparr>],
     n_meters := [\<lparr>mt_name = ''m'', mt_min_value = 0, mt_max_value = 10, mt_value = 7\<rparr>],
     n_in_limits := [\<lparr>il_limit_name = ''l'', il_tokens = 1, il_node_path = None, il_limit = Some ([0], 0)\<rparr>],
     n_task := new_task_data\<lparr>try_no := 1, task_generation := Some ''u1'', attempt_id := Some ''u2'', task_id := Some ''17'',
       job_password := Some ''pw'', run_identity_prepared := True\<rparr>\<rparr>) []"

definition ck_t2 :: "string \<Rightarrow> tree" where
  "ck_t2 t = Tree ''takler.shell'' (Some ''run.sh'') ((new_node KTask ''t2'')\<lparr>n_state := \<lparr>node_status = queued, suspended = True\<rparr>,
     n_trigger := Some \<lparr>ex_free = False, ex_ast = None, ex_expression_str = t\<rparr>,
     n_times := [\<lparr>ta_hour = 9, ta_minute = 30, ta_free = True\<rparr>],
     n_task := new_task_data\<lparr>task_generation := Some ''u1''\<rparr>\<rparr>) []"

definition ck_bunch :: "string \<Rightarrow> bunch_tree" where
  "ck_bunch t = \<lparr>bt_name = ''b'', bt_parameters = [(''X'', Parameter ''X'' (PInt 3))],
     bt_server_state = ServerState,
     bt_flows = [Tree ''takler.flow'' None ((new_node KFlow ''f'')\<lparr>n_state := \<lparr>node_status = active, suspended = False\<rparr>,
       n_user_parameters := [(''Y'', Parameter ''Y'' (PStr ''y''))],
       n_limits := [\<lparr>lm_name = ''l'', lm_limit = 2, lm_value = 1, lm_node_paths = {''/f/t1''}\<rparr>],
       n_flow := new_flow_data\<lparr>in_bunch := True, flow_generation := Some ''u1'', begun := True, flow_calendar := calendar_begin 100 200 Calendar\<rparr>\<rparr>)
       [ck_t1, ck_t2 t]]\<rparr>"

lemmas ck_defs = ck_bunch_def ck_t1_def ck_t2_def new_node_def new_task_data_def new_flow_data_def new_state_def

lemma ck_capture: "case capture_checkpoint ck_env ''now'' (ck_bunch ''./t1 == complete'') sample of Inl _ \<Rightarrow> False | Inr _ \<Rightarrow> True"
  by code_simp

lemma ck_relink: "case relink ck_env (place (stripped_bunch (ck_bunch ''./t1 == complete'')) (take_uuids 1 sample)) of (Inl _, _) \<Rightarrow> False | (Inr _, _) \<Rightarrow> True"
  by code_simp

lemma ck_capture_lost: "case capture_checkpoint ck_env ''now'' (ck_bunch ''/f/./t1:e == set'') sample of Inl _ \<Rightarrow> False | Inr _ \<Rightarrow> True"
  by code_simp

lemma ck_storable: "list_all (storable_tree ck_env) (bt_flows (ck_bunch t))"
  by (simp add: ck_defs builtin_registry_def storable_def zone_ok_def repeat_storable_def time_storable_def ck_env_def calendar_begin_def
    Calendar_def node_kind_of_def Parameter_def)

lemma ck_keys: "list_all (\<lambda>(key, p). key = pa_name p) (bt_parameters (ck_bunch t))"
  by (simp add: ck_bunch_def Parameter_def)

lemma ck_walk: "bunch_walk (place (ck_bunch t) w) = [[0], [0, 0], [1, 0]]"
  by (simp add: bunch_walk_def place_def ck_defs flow_names_def subtree_def)

lemma ck_running: "attr (place (ck_bunch t) w) [0, 0] = t_attrs ck_t1"
  by (simp add: place_def ck_bunch_def)


lemma ck_trigger: "(''/f/t2'', ''takler.shell'', t_attrs (ck_t2 t)) \<in> set (bunch_nodes (ck_bunch t))"
  "''/f/./t1'' \<notin> fst ` set (bunch_nodes (ck_bunch t))"
  by (simp_all add: bunch_nodes_def ck_defs)

theorem unnormalised_reference_lost_witness:
  "\<exists>doc c. capture_checkpoint ck_env ''now'' (ck_bunch ''/f/./t1:e == set'') sample = Inr doc \<and> restore_checkpoint ck_env doc sample = Inl c"
proof -
  let ?t = "''/f/./t1:e == set''"
  obtain doc where doc: "capture_checkpoint ck_env ''now'' (ck_bunch ?t) sample = Inr doc"
    using ck_capture_lost by (auto split: sum.splits)
  have "n_trigger (t_attrs (ck_t2 ?t)) = Some \<lparr>ex_free = False, ex_ast = None, ex_expression_str = ?t\<rparr>"
    by (simp add: ck_t2_def)
  moreover have "ce_parse ck_env ?t = Inr (AstOpEq (AstVariablePath (ck_np ''/f/./t1'') ''e'') (AstInteger 1))"
    by (simp add: ck_env_def ck_parse_def)
  moreover have "''/f/./t1'' \<noteq> path_str (pure_path [bt_name (ck_bunch ?t)])" by code_simp
  ultimately show ?thesis
    using doc unnormalised_reference_lost [OF doc ck_storable ck_keys ck_trigger(1) _ _ _ _ ck_trigger(2)]
    by (simp add: ck_np_def startswith_def)
qed

end
