(* ===== verification/Flow_Replacement.thy ===== *)
theory Flow_Replacement
  imports Definition_Loading Handlers
begin

text \<open>
  Replacing a flow of the running bunch (\<^verbatim>\<open>server/flow_replace.py\<close>, and \<open>run_command_replace\<close> of
  \<^verbatim>\<open>server/scheduler.py\<close>): the new flow is built and begun off the tree, the references of the other flows to
  the old one are looked up in the new one, and only when all of this has succeeded, and the old flow is idle, are
  the flows exchanged.
\<close>

section \<open>The target\<close>

definition replace_target :: "world \<Rightarrow> string \<Rightarrow> exc + pos" where
  "replace_target w path =
     (if \<not> startswith path ''/'' \<or> list_ex (\<lambda>part. part = [] \<or> part = ''.'' \<or> part = ''..'') (py_split slash (tl path))
         \<or> list_ex (\<lambda>c. c = CHR '':'' \<or> char_code c = 0) path then Inl InvalidNodePathError
      else case bunch_find_node w path of
        Inl e \<Rightarrow> Inl e
      | Inr None \<Rightarrow> Inl NodeNotFoundError
      | Inr (Some q) \<Rightarrow> if kind_of w q \<noteq> KFlow then Inl NodeTypeError else Inr q)"

text \<open>\<open>_check_idle\<close>: nothing runs in the old flow, and nothing is reserved in it or by it.\<close>

definition in_flow :: "world \<Rightarrow> pos \<Rightarrow> string \<Rightarrow> bool" where
  "in_flow w old path \<longleftrightarrow> path = node_path w old \<or> startswith path (node_path w old @ ''/'')"

definition idle :: "world \<Rightarrow> pos \<Rightarrow> bool" where
  "idle w old \<longleftrightarrow> list_all (\<lambda>q. \<not> in_flight (status_of w q)
        \<and> list_all (\<lambda>l. lm_value l = 0 \<and> lm_node_paths l = {}) (n_limits (attr w q))) (walk (subtree w old) old)
     \<and> list_all (\<lambda>q. list_all (\<lambda>l. \<forall>p \<in> lm_node_paths l. \<not> in_flow w old p) (n_limits (attr w q))) (bunch_walk w)"

section \<open>References of the other flows\<close>

datatype update = LimitUpdate pos nat lref | TriggerUpdate pos ast | CompleteUpdate pos ast

text \<open>The node a path leads to, and whether it is one of the flow that is replaced.\<close>

definition replace_resolve :: "world \<Rightarrow> pos \<Rightarrow> pos \<Rightarrow> pos \<Rightarrow> string \<Rightarrow> exc + pos option \<times> bool" where
  "replace_resolve w old new owner path =
     (if startswith path ''/'' then
        (if in_flow w old path then Inr (candidate_nodes w new path, True)
         else (case bunch_find_node w path of Inl e \<Rightarrow> Inl e | Inr q \<Rightarrow> Inr (q, False)))
      else (case find_node w owner path of
          Inl e \<Rightarrow> Inl e
        | Inr None \<Rightarrow> Inr (None, False)
        | Inr (Some q) \<Rightarrow> if in_flow w old (node_path w q) then Inr (candidate_nodes w new (node_path w q), True)
            else Inr (Some q, False)))"

definition rebind_path :: "world \<Rightarrow> pos \<Rightarrow> pos \<Rightarrow> pos \<Rightarrow> ast_node_path \<Rightarrow> exc + bool \<times> ast_node_path" where
  "rebind_path w old new owner np = (case replace_resolve w old new owner (np_node_path np) of
      Inl e \<Rightarrow> Inl e
    | Inr (target, affected) \<Rightarrow> if affected \<and> target = None then Inl InvalidRequestError
        else Inr (affected, np\<lparr>np_parent_node := Some owner, np_reference_node := target\<rparr>))"

definition rebind_both :: "(ast \<Rightarrow> ast \<Rightarrow> ast) \<Rightarrow> exc + bool \<times> ast \<Rightarrow> exc + bool \<times> ast \<Rightarrow> exc + bool \<times> ast" where
  "rebind_both f l r = (case l of Inl e \<Rightarrow> Inl e
     | Inr (x, l') \<Rightarrow> (case r of Inl e \<Rightarrow> Inl e | Inr (y, r') \<Rightarrow> Inr (x \<or> y, f l' r')))"

fun rebind :: "world \<Rightarrow> pos \<Rightarrow> pos \<Rightarrow> pos \<Rightarrow> ast \<Rightarrow> exc + bool \<times> ast" where
  "rebind w old new owner (AstOpEq l r) = rebind_both AstOpEq (rebind w old new owner l) (rebind w old new owner r)"
| "rebind w old new owner (AstOpGt l r) = rebind_both AstOpGt (rebind w old new owner l) (rebind w old new owner r)"
| "rebind w old new owner (AstOpGe l r) = rebind_both AstOpGe (rebind w old new owner l) (rebind w old new owner r)"
| "rebind w old new owner (AstOpLt l r) = rebind_both AstOpLt (rebind w old new owner l) (rebind w old new owner r)"
| "rebind w old new owner (AstOpLe l r) = rebind_both AstOpLe (rebind w old new owner l) (rebind w old new owner r)"
| "rebind w old new owner (AstOpAnd l r) = rebind_both AstOpAnd (rebind w old new owner l) (rebind w old new owner r)"
| "rebind w old new owner (AstOpOr l r) = rebind_both AstOpOr (rebind w old new owner l) (rebind w old new owner r)"
| "rebind w old new owner (AstMathAdd l r) = rebind_both AstMathAdd (rebind w old new owner l) (rebind w old new owner r)"
| "rebind w old new owner (AstNodePath np) = (case rebind_path w old new owner np of
      Inl e \<Rightarrow> Inl e | Inr (affected, np') \<Rightarrow> Inr (affected, AstNodePath np'))"
| "rebind w old new owner (AstVariablePath np name) = (case rebind_path w old new owner np of
      Inl e \<Rightarrow> Inl e
    | Inr (affected, np') \<Rightarrow> (case np_reference_node np' of
        None \<Rightarrow> Inr (affected, AstVariablePath np' name)
      | Some q \<Rightarrow> (case find_variable w q name of
          Inl e \<Rightarrow> Inl e
        | Inr v \<Rightarrow> if affected \<and> v = None then Inl InvalidRequestError else Inr (affected, AstVariablePath np' name))))"
| "rebind w old new owner (AstInteger n) = Inr (False, AstInteger n)"
| "rebind w old new owner (AstNodeStatus s) = Inr (False, AstNodeStatus s)"

text \<open>An in-limit without a path refers to an ancestor, which is never in another flow.\<close>

definition limit_updates :: "world \<Rightarrow> pos \<Rightarrow> pos \<Rightarrow> pos \<Rightarrow> nat \<times> in_limit \<Rightarrow> exc + update list" where
  "limit_updates w old new q item = (case item of (i, il) \<Rightarrow> (case il_node_path il of
      None \<Rightarrow> Inr []
    | Some path \<Rightarrow> (case replace_resolve w old new q path of
        Inl e \<Rightarrow> Inl e
      | Inr (target, affected) \<Rightarrow> if \<not> affected then Inr []
          else (case Option.bind target (\<lambda>t. find_limit w t (il_limit_name il)) of
              None \<Rightarrow> Inl InvalidRequestError
            | Some r \<Rightarrow> if il_tokens il > lm_limit (get_limit w r) then Inl InvalidRequestError else Inr [LimitUpdate q i r]))))"

definition expression_updates :: "parser \<Rightarrow> (pos \<Rightarrow> ast \<Rightarrow> update) \<Rightarrow> world \<Rightarrow> pos \<Rightarrow> pos \<Rightarrow> pos \<Rightarrow> expression option
    \<Rightarrow> exc + update list" where
  "expression_updates parse mk w old new q ex = (case ex of
      None \<Rightarrow> Inr []
    | Some e \<Rightarrow> (case parse (ex_expression_str e) of
        Inl _ \<Rightarrow> Inr []
      | Inr a \<Rightarrow> (case rebind w old new q a of
          Inl x \<Rightarrow> Inl x
        | Inr (affected, a') \<Rightarrow> Inr (if affected then [mk q a'] else []))))"

definition concat_outcome :: "('e + 'a list) list \<Rightarrow> 'e + 'a list" where
  "concat_outcome rs = (case list_outcome rs of Inl e \<Rightarrow> Inl e | Inr xss \<Rightarrow> Inr (concat xss))"

definition node_updates :: "parser \<Rightarrow> world \<Rightarrow> pos \<Rightarrow> pos \<Rightarrow> pos \<Rightarrow> exc + update list" where
  "node_updates parse w old new q = concat_outcome
     (map (limit_updates w old new q) (List.enumerate 0 (n_in_limits (attr w q)))
      @ [expression_updates parse TriggerUpdate w old new q (n_trigger (attr w q)),
         expression_updates parse CompleteUpdate w old new q (n_complete_trigger (attr w q))])"

definition reference_updates :: "parser \<Rightarrow> world \<Rightarrow> pos \<Rightarrow> pos \<Rightarrow> exc + update list" where
  "reference_updates parse w old new =
     concat_outcome (map (node_updates parse w old new) (filter (\<lambda>q. get_root q \<noteq> old) (bunch_walk w)))"

section \<open>The exchange\<close>

definition set_ast :: "ast \<Rightarrow> expression option \<Rightarrow> expression option" where
  "set_ast a = map_option (\<lambda>e. e\<lparr>ex_ast := Some a\<rparr>)"

fun apply_update :: "update \<Rightarrow> world \<Rightarrow> world" where
  "apply_update (LimitUpdate q i r) w = upd q (set_limit i r) w"
| "apply_update (TriggerUpdate q a) w = upd q (\<lambda>n. n\<lparr>n_trigger := set_ast a (n_trigger n)\<rparr>) w"
| "apply_update (CompleteUpdate q a) w = upd q (\<lambda>n. n\<lparr>n_complete_trigger := set_ast a (n_complete_trigger n)\<rparr>) w"

text \<open>The assignments of the commit, in their order; they go to the backing dictionaries, so that nothing is notified.\<close>

definition exchange :: "pos \<Rightarrow> pos \<Rightarrow> update list \<Rightarrow> world \<Rightarrow> world" where
  "exchange old new updates w =
     (let w1 = upd new (\<lambda>a. a\<lparr>n_state := (n_state a)\<lparr>suspended := suspended (n_state (attr w old))\<rparr>\<rparr>) w;
          w2 = upd new (upd_flow (\<lambda>f. f\<lparr>in_bunch := True\<rparr>)) w1;
          w3 = w2\<lparr>w_flows := dict_set (name_of w old) (hd new) (w_flows w2)\<rparr>;
          w4 = upd old (upd_flow (\<lambda>f. f\<lparr>in_bunch := False\<rparr>)) w3 in
      fold apply_update updates w4)"

section \<open>The command\<close>

definition replace_initialize :: "pos \<Rightarrow> pos \<Rightarrow> unit dprog" where
  "replace_initialize old root = withState (\<lambda>w. if name_of w root \<noteq> name_of w old then raise ''name_mismatch''
     else mapError (\<lambda>_. ''initialization_failed'') (flow_begin root False))"

definition replace_error :: "string \<Rightarrow> exc" where
  "replace_error c =
     (if c \<in> {''unknown_type'', ''unregistered_type'', ''unsupported_version'', ''missing_codec''} then UnsupportedValueError
      else if c = ''expression_syntax'' then ExpressionSyntaxError
      else if c \<in> {''construction_failed'', ''initialization_failed''} then PyError PyRuntimeError
      else InvalidRequestError)"

definition replace_flow :: "decoder \<Rightarrow> parser \<Rightarrow> string \<Rightarrow> string \<Rightarrow> unit wprog" where
  "replace_flow decode parse path bytes = bindM (liftE (\<lambda>w. replace_target w path)) (\<lambda>old.
     bindM (mapError replace_error (build_definition decode parse True (replace_initialize old) bytes)) (\<lambda>r. case r of
         None \<Rightarrow> raise InvalidRequestError
       | Some new \<Rightarrow> bindM (liftE (\<lambda>w. reference_updates parse w old new)) (\<lambda>updates.
           seqM (ensure_definition_generation new None)
             (withState (\<lambda>w. if find_flow w (name_of w old) \<noteq> Some old then raise FlowStateError
                else if \<not> idle w old then raise FlowStateError
                else modify (exchange old new updates))))))"

definition run_command_replace :: "decoder \<Rightarrow> parser \<Rightarrow> string \<Rightarrow> string \<Rightarrow> service_response wprog" where
  "run_command_replace decode parse path bytes =
     seqM (replace_flow decode parse path bytes) (seqM (mark path {} True)
       (ret \<lparr>sv_flag = 0, sv_message = ''flow replaced in memory; checkpoint pending''\<rparr>))"

end
