(* ===== verification/Candidate_Begin.thy ===== *)
theory Candidate_Begin
  imports Flow_Replacement
begin

text \<open>
  A flow that is not in the bunch and whose in-limits are bound inside it keeps everything to itself: beginning it, and
  giving it a generation, changes nothing outside the tree and leaves no hint in the journal.
\<close>

section \<open>Trees that keep to themselves\<close>

definition inside :: "shape list \<Rightarrow> nat \<Rightarrow> pos \<Rightarrow> bool" where
  "inside ss k q \<longleftrightarrow> shape_at ss q \<noteq> None \<and> last q = k"

definition own :: "shape list \<Rightarrow> nat \<Rightarrow> world \<Rightarrow> bool" where
  "own ss k w \<longleftrightarrow> w_shapes w = ss \<and> (\<forall>q. inside ss k q \<longrightarrow> \<not> in_bunch (n_flow (attr w q))
     \<and> (\<forall>il \<in> set (n_in_limits (attr w q)). \<forall>r. il_limit il = Some r \<longrightarrow> inside ss k (fst r)))"

definition own_only :: "shape list \<Rightarrow> nat \<Rightarrow> world \<Rightarrow> world \<Rightarrow> bool" where
  "own_only ss k w w' \<longleftrightarrow> own ss k w \<longrightarrow> own ss k w' \<and> candidate_only k w w'"

interpretation ownf: frame "own_only ss k" for ss k
proof
  show "own_only ss k w w" for w by (simp add: own_only_def cand.R_refl)
  show "own_only ss k w u" if "own_only ss k w v" "own_only ss k v u" for w v u
    using that cand.R_trans [of k w v u] unfolding own_only_def by blast
qed

lemma insideD: "inside ss k q \<Longrightarrow> q \<noteq> [] \<and> last q = k"
  unfolding inside_def using shape_at_last [of ss q] by blast

lemma own_shapes: "own ss k w \<Longrightarrow> w_shapes w = ss"
  by (simp only: own_def)

lemma inside_valid: "own ss k w \<Longrightarrow> inside ss k q \<longleftrightarrow> valid w q \<and> last q = k"
  by (simp add: inside_def valid_def own_shapes)

lemma inside_ups: "inside ss k p \<Longrightarrow> q \<in> set (ups p) \<Longrightarrow> inside ss k q"
  using valid_ups [of "(undefined :: world)\<lparr>w_shapes := ss\<rparr>" p q] get_root_ups [of q p]
  by (simp add: inside_def valid_def get_root_def)

lemma follow_inside: "valid w p \<Longrightarrow> p \<noteq> [] \<Longrightarrow> follow w p toks = Some q \<Longrightarrow> valid w q \<and> last q = last p"
proof (induction toks arbitrary: p)
  case (Cons t ts)
  show ?case
  proof (cases "t = ''.''")
    case True
    then show ?thesis using Cons by simp
  next
    case False
    note dot = this
    show ?thesis
    proof (cases "t = ''..''")
      case True
      then obtain r where r: "parent p = Some r" "follow w r ts = Some q" using Cons.prems dot by (auto split: option.splits)
      then have "valid w r" "r \<noteq> []" "last r = last p"
        using Cons.prems(1) valid_parent by (cases p rule: parent.cases; force)+
      then show ?thesis using Cons.IH [of r] r(2) by simp
    next
      case False
      then obtain i where i: "find_child_index w p t = Some i" "follow w (i # p) ts = Some q"
        using Cons.prems dot by (auto split: option.splits)
      then have "i < arity w p"
        using find_index_SomeD [of _ "children w p" i] by (simp add: find_child_index_def children_def)
      then have "valid w (i # p)" using Cons.prems(1,2) valid_child by blast
      then show ?thesis using Cons.IH [of "i # p"] i Cons.prems(2) by simp
    qed
  qed
qed simp


lemma find_node_inside:
  assumes "own ss k w" "inside ss k p" "find_node w p path = Inr (Some q)"
  shows "inside ss k q"
proof -
  have root: "valid w (get_root p)" "get_root p = [k]"
    using assms(1,2) inside_ups [of ss k p "get_root p"] insideD [of ss k p] own_shapes [of ss k w]
    by (simp_all add: get_root_def set_ups inside_def valid_def) (metis append_butlast_last_id)
  obtain toks where "follow w (get_root p) toks = Some q"
    using assms(3) by (auto simp: find_node_def Let_def split: list.splits if_splits)
  from follow_inside [OF root(1) _ this] show ?thesis using assms(1) root(2) by (simp add: inside_valid)
qed

lemma ownD:
  assumes "own ss k w" "inside ss k q"
  shows "\<not> in_bunch (n_flow (attr w q))" "il \<in> set (n_in_limits (attr w q)) \<Longrightarrow> il_limit il = Some r \<Longrightarrow> inside ss k (fst r)"
  using assms unfolding own_def by blast+

lemma own_detached:
  assumes "own ss k w" "inside ss k p"
  shows "\<not> has_bunch w p"
proof (cases "find (\<lambda>q. kind_of w q = KFlow) (ups p)")
  case (Some q)
  then have "q \<in> set (ups p)" by (auto simp: find_Some_iff)
  then show ?thesis using Some ownD(1) [OF assms(1) inside_ups [OF assms(2)]] by (simp add: has_bunch_def)
qed (simp add: has_bunch_def)

lemma lookup_inside:
  assumes "own ss k w" "inside ss k p" "lookup_in_limit w p il = Inr (Some r)"
  shows "inside ss k (fst r)"
proof (cases "il_node_path il")
  case None
  then obtain q where "q \<in> set (ups p)" "find_limit w q (il_limit_name il) = Some r"
    using assms(3) first_some_SomeD by (fastforce simp: lookup_in_limit_def find_limit_up_def)
  then show ?thesis using inside_ups [OF assms(2)] by (auto simp: find_limit_def)
next
  case (Some path)
  then obtain q where "reference_node w p path = Inr (Some q)" "fst r = q"
    using assms(3) by (auto simp: lookup_in_limit_def find_limit_def split: sum.splits option.splits)
  then show ?thesis using find_node_inside [OF assms(1,2)] own_detached [OF assms(1,2)]
    by (auto simp: reference_node_def split: if_splits)
qed

section \<open>Programs that keep to the tree\<close>

lemma own_upd:
  assumes "inside ss k p" and "\<And>a. in_bunch (n_flow (f a)) = in_bunch (n_flow a)"
    and "\<And>il r. il \<in> set (n_in_limits (f (attr w p))) \<Longrightarrow> il_limit il = Some r \<Longrightarrow> il \<notin> set (n_in_limits (attr w p)) \<Longrightarrow> inside ss k (fst r)"
  shows "own_only ss k w (upd p f w)"
  unfolding own_only_def
proof (intro impI conjI)
  assume o: "own ss k w"
  show "candidate_only k w (upd p f w)" using insideD [OF assms(1)] by (auto simp: candidate_only_def upd_def)
  show "own ss k (upd p f w)" unfolding own_def
  proof (intro conjI allI impI ballI)
    show "w_shapes (upd p f w) = ss" using own_shapes [OF o] by (simp add: upd_def)
    fix q assume q: "inside ss k q"
    show "\<not> in_bunch (n_flow (attr (upd p f w) q))" using ownD(1) [OF o q] assms(2) by (auto simp: attr_upd)
    fix il r assume il: "il \<in> set (n_in_limits (attr (upd p f w) q))" "il_limit il = Some r"
    show "inside ss k (fst r)"
    proof (cases "il \<in> set (n_in_limits (attr w q))")
      case True
      then show ?thesis using ownD(2) [OF o q] il(2) by blast
    next
      case False
      then show ?thesis using il assms(3) by (auto simp: attr_upd split: if_splits)
    qed
  qed
qed

lemma own_updN:
  assumes "inside ss k p" and "\<And>a. in_bunch (n_flow (f a)) = in_bunch (n_flow a) \<and> n_in_limits (f a) = n_in_limits a"
  shows "obeys (own_only ss k) (updN p f)"
  using own_upd [of ss k p f] assms by (simp add: obeys_def updN_def modify_def)

lemma own_notify:
  assumes "inside ss k p"
  shows "obeys (own_only ss k) (notify_query_change p groups ivd)"
  unfolding obeys_def
proof
  fix w
  show "own_only ss k w (after (notify_query_change p groups ivd w))"
  proof (cases "own ss k w")
    case True
    have "get_root p \<in> set (ups p)" using insideD [OF assms] by (auto simp: set_ups get_root_def) (metis append_butlast_last_id)
    then have "\<not> has_bunch w (get_root p)" using own_detached [OF True] inside_ups [OF assms] by blast
    then show ?thesis by (simp add: notify_detached ownf.R_refl)
  qed (simp add: own_only_def)
qed

lemma own_write_status:
  assumes "inside ss k p"
  shows "obeys (own_only ss k) (modify (write_status p s))"
proof -
  have 1: "own_only ss k w (upd p (write_state s) w)" for w
    by (rule own_upd [OF assms]) (simp_all add: write_state_def)
  have "own_only ss k v (upd q (child_status_changed o' s) v)" if "inside ss k q" for v q o'
    by (rule own_upd [OF that]) (simp_all add: child_status_changed_def)
  note up = this
  have par: "inside ss k q" if "parent_of w p = Some q" for q w
    using that assms inside_ups [OF assms] by (cases p rule: parent.cases) (auto simp: parent_of_def split: if_splits)
  have "own_only ss k w (write_status p s w)" for w
  proof (cases "parent_of w p")
    case None
    then show ?thesis using 1 by (simp add: write_status_def)
  next
    case (Some q)
    then show ?thesis using 1 [of w] ownf.R_trans [OF 1 up [OF par [OF Some]]] by (simp add: write_status_def Let_def)
  qed
  then show ?thesis by (simp add: obeys_def modify_def)
qed

lemmas own_base = ownf.obeys_ret ownf.obeys_raise ownf.obeys_withState ownf.obeys_bindM ownf.obeys_seqM ownf.obeys_gets
  ownf.obeys_whenM ownf.obeys_if ownf.obeys_option ownf.obeys_sum ownf.obeys_prod own_notify own_updN

lemma own_status_only: "inside ss k q \<Longrightarrow> obeys (own_only ss k) (set_node_status_only q s)"
  unfolding set_node_status_only_def Task_set_node_status_only_def Node_set_node_status_only_def
  by (intro own_base own_write_status) (simp_all add: upd_task_def)

lemma own_resolve_in_limit:
  assumes "inside ss k p"
  shows "obeys (own_only ss k) (resolve_in_limit p i)"
  unfolding obeys_def
proof
  fix w
  show "own_only ss k w (after (resolve_in_limit p i w))"
  proof (cases "\<exists>il r. own ss k w \<and> item_at w p i = Some il \<and> lookup_in_limit w p il = Inr (Some r) \<and> il_limit il = None")
    case True
    then obtain il r where r: "own ss k w" "item_at w p i = Some il" "lookup_in_limit w p il = Inr (Some r)" "il_limit il = None" by blast
    have "own_only ss k w (upd p (set_limit i r) w)"
      by (rule own_upd [OF assms])
         (use lookup_inside [OF r(1) assms r(3)] in \<open>auto simp: set_limit_def in_set_conv_nth nth_opt_conv nth_list_update split: option.splits if_splits\<close>)
    then show ?thesis using r by (simp add: resolve_in_limit_def withState_def updN_def modify_def)
  next
    case False
    then have "\<not> own ss k w \<or> after (resolve_in_limit p i w) = w"
      by (auto simp: resolve_in_limit_def withState_def ret_def raise_def split: option.splits sum.splits)
    then show ?thesis by (auto simp: own_only_def intro: cand.R_refl)
  qed
qed

lemma own_resolve: "inside ss k p \<Longrightarrow> obeys (own_only ss k) (resolve_in_limit_references p)"
  unfolding resolve_in_limit_references_def by (intro ownf.obeys_withState ownf.obeys_forM own_resolve_in_limit)

lemma own_change_limit:
  assumes "inside ss k (fst r)"
  shows "obeys (own_only ss k) (Limit_increment r tokens path)" "obeys (own_only ss k) (Limit_decrement r tokens path)"
proof -
  have "obeys (own_only ss k) (modify (upd_limit r g))" for g
    using own_upd [OF assms, of "\<lambda>a. a\<lparr>n_limits := (n_limits a)[snd r := g (n_limits a ! snd r)]\<rparr>"]
    by (simp add: obeys_def modify_def upd_limit_def)
  then show "obeys (own_only ss k) (Limit_increment r tokens path)" "obeys (own_only ss k) (Limit_decrement r tokens path)"
    unfolding Limit_increment_def Limit_decrement_def using assms by (auto intro!: own_base)
qed

lemma own_manager_step:
  assumes "inside ss k p" and "\<And>r t. inside ss k (fst r) \<Longrightarrow> obeys (own_only ss k) (change r t path)"
  shows "obeys (own_only ss k) (manager_step change p path i ls)"
  unfolding obeys_def
proof
  fix w
  show "own_only ss k w (after (manager_step change p path i ls w))"
  proof (cases "\<exists>il r. own ss k w \<and> item_at w p i = Some il \<and> il_limit il = Some r \<and> r \<notin> set ls")
    case True
    then obtain il r where r: "own ss k w" "item_at w p i = Some il" "il_limit il = Some r" "r \<notin> set ls" by blast
    then have "inside ss k (fst r)" using ownD(2) [OF r(1) assms(1) _ r(3)] by (auto simp: nth_opt_conv split: if_splits)
    then have "obeys (own_only ss k) (seqM (change r (il_tokens il) path) (ret (limit_set_add w r ls)))"
      using assms(2) by (intro own_base)
    then show ?thesis using r by (simp add: manager_step_def withState_def obeys_def)
  next
    case False
    then have "\<not> own ss k w \<or> after (manager_step change p path i ls w) = w"
      by (auto simp: manager_step_def withState_def ret_def split: option.splits)
    then show ?thesis by (auto simp: own_only_def intro: cand.R_refl)
  qed
qed


lemma own_manager:
  assumes "inside ss k p"
  shows "obeys (own_only ss k) (manager_increment path p ls)" "obeys (own_only ss k) (manager_decrement path p ls)"
    "obeys (own_only ss k) (validate_references p)"
proof -
  show v: "obeys (own_only ss k) (validate_references p)"
    unfolding validate_references_def by (intro own_base own_resolve assms)
  show "obeys (own_only ss k) (manager_increment path p ls)" "obeys (own_only ss k) (manager_decrement path p ls)"
    unfolding manager_increment_def manager_decrement_def
    by (intro own_base v own_resolve assms ownf.obeys_foldM own_manager_step own_change_limit; assumption)+
qed

lemma own_update_limits:
  assumes "inside ss k p"
  shows "obeys (own_only ss k) (update_limits p)"
proof -
  note up = inside_ups [OF assms]
  show ?thesis
    unfolding update_limits_def increment_in_limit_def decrement_in_limit_def unresolved_limits_up_def
    by (intro own_base ownf.obeys_collectM_in ownf.obeys_foldM_in own_manager up; assumption)
qed

section \<open>Begin\<close>

lemma own_Node_requeue: "inside ss k q \<Longrightarrow> obeys (own_only ss k) (Node_requeue q r)"
  unfolding Node_requeue_def reset_node_meters_def reset_node_repeat_def Let_def
  by (intro own_base own_status_only) (auto simp: reset_latches_def reset_trigger_def)

lemma own_Task_requeue: "inside ss k q \<Longrightarrow> obeys (own_only ss k) (Task_requeue q r)"
  unfolding Task_requeue_def clear_current_attempt_def
  by (intro own_base own_Node_requeue own_update_limits) (auto simp: upd_task_def)

lemma own_sink_only: "\<forall>q \<in> set (walk t p). inside ss k q \<Longrightarrow> obeys (own_only ss k) (sink_only s t p)"
proof (induction t p rule: subtree_induct)
  case (Shape us p)
  have p: "inside ss k p" using Shape.prems by (simp add: walk_Shape)
  have "obeys (own_only ss k) (forM (List.enumerate 0 us) (\<lambda>(i, t). sink_only s t (i # p)))"
    by (rule ownf.obeys_forM) (use Shape in \<open>auto simp: walk_Shape\<close>)
  then show ?case unfolding sink_only.simps by (intro own_base own_status_only p)
qed

lemma own_requeue: "\<forall>q \<in> set (walk t p). inside ss k q \<Longrightarrow> obeys (own_only ss k) (requeue r t p)"
proof (induction t p rule: subtree_induct)
  case (Shape us p)
  have p: "inside ss k p" using Shape.prems by (simp add: walk_Shape)
  have "obeys (own_only ss k) (forM (List.enumerate 0 us) (\<lambda>(i, t). requeue r t (i # p)))"
    by (rule ownf.obeys_forM) (use Shape in \<open>auto simp: walk_Shape\<close>)
  then show ?case
    unfolding requeue.simps by (intro own_base own_Node_requeue own_Task_requeue own_sink_only p Shape.prems)
qed

lemma obeys_own_withState: "(\<And>w. own ss k w \<Longrightarrow> obeys (own_only ss k) (f w)) \<Longrightarrow> obeys (own_only ss k) (withState f)"
  by (simp add: obeys_def withState_def own_only_def)

lemma walk_valid: "valid w p \<Longrightarrow> q \<in> set (walk (subtree w p) p) \<Longrightarrow> valid w q"
proof -
  have "t = subtree w p \<Longrightarrow> valid w p \<Longrightarrow> q \<in> set (walk t p) \<Longrightarrow> valid w q" for t
  proof (induction t p rule: subtree_induct)
    case (Shape us p)
    consider "q = p" | i t where "(i, t) \<in> set (List.enumerate 0 us)" "q \<in> set (walk t (i # p))"
      using Shape.prems(3) by (auto simp: walk_Shape)
    then show ?case
    proof cases
      case 1
      then show ?thesis using Shape.prems(2) by simp
    next
      case (2 i t)
      then have it: "(i, t) \<in> set (List.enumerate 0 (kids (subtree w p)))" by (simp add: Shape.prems(1) [symmetric])
      then have "i < arity w p" by (auto simp: arity_def in_set_enumerate_eq)
      then have "valid w (i # p)" using Shape.prems(2) valid_child valid_last [OF Shape.prems(2)] by blast
      then show ?thesis using Shape.IH [OF 2(1)] 2(2) subtree_kid [OF Shape.prems(2) it] by simp
    qed
  qed
  then show "valid w p \<Longrightarrow> q \<in> set (walk (subtree w p) p) \<Longrightarrow> valid w q" by blast
qed

lemma own_requeue_node:
  assumes "inside ss k p"
  shows "obeys (own_only ss k) (requeue_node p r)"
  unfolding requeue_node_def
proof (rule obeys_own_withState, rule own_requeue, rule ballI)
  fix w q assume w: "own ss k w" and q: "q \<in> set (walk (subtree w p) p)"
  then show "inside ss k q" using assms walk_valid [of w p q] walk_suffix [OF q] insideD [OF assms]
    by (auto simp: inside_valid)
qed

lemma own_flow_begin: "inside ss k p \<Longrightarrow> obeys (own_only ss k) (flow_begin p force)"
  unfolding flow_begin_def requeue_calendar_def Let_def
  by (intro own_base own_requeue_node) (auto simp: upd_flow_def set_calendar_def)

section \<open>A fresh candidate\<close>

fun tree_sub :: "nat list \<Rightarrow> tree \<Rightarrow> tree option" where
  "tree_sub [] t = Some t"
| "tree_sub (i # is) t = (case nth_opt (t_kids t) i of None \<Rightarrow> None | Some u \<Rightarrow> tree_sub is u)"

lemma tree_sub_append: "tree_sub (is @ [i]) t = Option.bind (tree_sub is t) (\<lambda>u. nth_opt (t_kids u) i)"
  by (induction "is" t rule: tree_sub.induct) (auto split: option.splits)

lemma tree_attrs_sub: "tree_attrs is t = map_option t_attrs (tree_sub is t)"
  by (induction "is" t rule: tree_sub.induct) (auto split: option.splits)

lemma shape_at_sub:
  assumes "nth_opt ss k = Some (tree_shape t)"
  shows "shape_at ss (rev is @ [k]) = map_option tree_shape (tree_sub is t)"
proof (induction "is" rule: rev_induct)
  case (snoc i "is")
  obtain j p where jp: "rev is @ [k] = j # p" by (cases "rev is @ [k]") auto
  have "nth_opt (kids (tree_shape u)) i = map_option tree_shape (nth_opt (t_kids u) i)" for u
    by (cases u) (simp add: nth_opt_conv)
  then show ?case using snoc jp by (cases "tree_sub is t") (simp_all add: tree_sub_append)
qed (simp add: assms)

lemma fresh_sub: "tree_sub is (fresh_tree d) = Some u \<Longrightarrow> \<exists>e. u = fresh_tree e"
proof (induction "is" arbitrary: d)
  case (Cons i "is")
  then show ?case by (cases d) (auto simp: nth_opt_conv split: option.splits if_splits)
qed auto

lemma own_fresh:
  fixes w :: world and d :: node_definition
  defines "v \<equiv> install (fresh_tree d) w"
  shows "own (w_shapes v) (length (w_shapes w)) v" "inside (w_shapes v) (length (w_shapes w)) [length (w_shapes w)]"
proof -
  let ?k = "length (w_shapes w)"
  have root: "nth_opt (w_shapes v) ?k = Some (tree_shape (fresh_tree d))" by (simp add: v_def install_def Let_def nth_opt_conv)
  then show "inside (w_shapes v) ?k [?k]" by (simp add: inside_def)
  have "\<exists>kd f. attr v q = fresh_attrs kd f" if "inside (w_shapes v) ?k q" for q
  proof -
    have q: "q \<noteq> []" "last q = ?k" using insideD [OF that] by simp_all
    then have eq: "q = rev (rev (butlast q)) @ [?k]" by (metis append_butlast_last_id rev_rev_ident)
    have "tree_sub (rev (butlast q)) (fresh_tree d) \<noteq> None"
      using shape_at_sub [OF root, of "rev (butlast q)"] that unfolding inside_def by (metis eq option.map_disc_iff)
    then obtain u where u: "tree_sub (rev (butlast q)) (fresh_tree d) = Some u" by blast
    then have "attr v q = t_attrs u" using q by (simp add: v_def install_def Let_def tree_attrs_sub)
    moreover obtain e where "u = fresh_tree e" using fresh_sub [OF u] by blast
    ultimately show ?thesis by (cases e) auto
  qed
  then show "own (w_shapes v) ?k v"
    by (fastforce simp: own_def fresh_attrs_def new_node_def new_flow_data_def InLimit_def)
qed

lemma replace_initialize_only:
  "candidate_only (length (w_shapes w)) (install (fresh_tree d) w)
    (after (replace_initialize old [length (w_shapes w)] (install (fresh_tree d) w)))"
proof -
  let ?k = "length (w_shapes w)" and ?v = "install (fresh_tree d) w"
  have "candidate_only ?k ?v (after (flow_begin [?k] False ?v))"
    using obeysD [OF own_flow_begin [OF own_fresh(2)]] own_fresh(1) unfolding own_only_def by blast
  then show ?thesis
    by (auto simp: replace_initialize_def withState_def mapError_def raise_def cand.R_refl split: prod.splits sum.splits)
qed

end
