(* ===== verification/Replacement_Safety.thy ===== *)
theory Replacement_Safety
  imports Candidate_Begin
begin

text \<open>
  What a replacement guarantees: that it exchanges the flows completely or leaves the bunch as it was, and that no
  reference of another flow still leads into the flow that was replaced.
\<close>

section \<open>Lookups beside a candidate\<close>

text \<open>The registry names flows that exist, under the names they have.\<close>

definition registry_ok :: "world \<Rightarrow> bool" where
  "registry_ok w \<longleftrightarrow> distinct (map fst (w_flows w))
     \<and> (\<forall>(n, j) \<in> set (w_flows w). j < length (w_shapes w) \<and> name_of w [j] = n \<and> clean_name n)"

lemma registry_find: "registry_ok w \<Longrightarrow> find_flow w n = Some p \<Longrightarrow> \<exists>j. p = [j] \<and> j < length (w_shapes w) \<and> name_of w [j] = n \<and> clean_name n"
  by (auto simp: registry_ok_def find_flow_def dest!: map_of_SomeD)

lemma valid_root: "j < length (w_shapes w) \<Longrightarrow> valid w [j]"
  by (simp add: valid_def nth_opt_conv)

lemma onlineD: "online w w' \<Longrightarrow> valid w p \<Longrightarrow> attr w' p = attr w p \<and> valid w' p \<and> subtree w' p = subtree w p"
  by (simp add: online_def)

lemma online_node_path: "online w w' \<Longrightarrow> valid w p \<Longrightarrow> node_path w' p = node_path w p"
proof -
  assume "online w w'" "valid w p"
  then have "map (name_of w') (rev (ups p)) = map (name_of w) (rev (ups p))" using onlineD valid_ups [of w p] by auto
  then show ?thesis by (simp only: node_path_def path_names_def)
qed

lemma find_index_cong: "(\<And>x. x \<in> set xs \<Longrightarrow> P x = Q x) \<Longrightarrow> find_index P xs = find_index Q xs"
  by (induction xs) auto

lemma online_follow: "online w w' \<Longrightarrow> valid w p \<Longrightarrow> follow w' p toks = follow w p toks"
proof (induction toks arbitrary: p)
  case (Cons t ts)
  have v: "\<forall>q \<in> set (children w p). valid w q" using children_valid [OF Cons.prems(2)] by blast
  have "children w' p = children w p" using onlineD [OF Cons.prems] by (simp add: children_def arity_def)
  then have "find_child_index w' p t = find_child_index w p t"
    using v onlineD [OF Cons.prems(1)] unfolding find_child_index_def by (auto intro: find_index_cong)
  moreover have "valid w (i # p)" if "find_child_index w p t = Some i" for i
    using that v find_index_SomeD [of _ "children w p" i] by (force simp: find_child_index_def children_def)
  moreover have "valid w q" if "parent p = Some q" for q
    using that Cons.prems(2) valid_parent by (cases p rule: parent.cases) force+
  ultimately show ?case using Cons by (auto split: option.splits)
qed simp

lemma online_find_node: "online w w' \<Longrightarrow> valid w p \<Longrightarrow> find_node w' p path = find_node w p path"
proof -
  assume o: "online w w'" and v: "valid w p"
  have "get_root p \<in> set (ups p)" using valid_last [OF v] by (auto simp: set_ups get_root_def) (metis append_butlast_last_id)
  then have r: "valid w (get_root p)" using valid_ups [OF v] by blast
  then have "follow w' (get_root p) = follow w (get_root p)" using online_follow [OF o r] by blast
  then show ?thesis using online_node_path [OF o v] onlineD [OF o r] by (simp add: find_node_def Let_def split: list.splits)
qed

lemma online_bunch:
  assumes "online w w'" "w_flows w' = w_flows w" "registry_ok w"
  shows "bunch_find_node w' path = bunch_find_node w path" "bunch_walk w' = bunch_walk w"
proof -
  have "find_node w' p path = find_node w p path" if "find_flow w n = Some p" for n p
    using registry_find [OF assms(3) that] valid_root online_find_node [OF assms(1)] by blast
  moreover have "find_flow w' n = find_flow w n" for n by (simp add: find_flow_def assms(2))
  ultimately show "bunch_find_node w' path = bunch_find_node w path" by (simp add: bunch_find_node_def split: option.splits)
  have "subtree w' [j] = subtree w [j]" if "(n, j) \<in> set (w_flows w)" for n j
    using that assms(3) onlineD [OF assms(1)] valid_root by (auto simp: registry_ok_def)
  then have "map (\<lambda>(n, j). walk (subtree w' [j]) [j]) (w_flows w) = map (\<lambda>(n, j). walk (subtree w [j]) [j]) (w_flows w)" by auto
  then show "bunch_walk w' = bunch_walk w" by (simp only: bunch_walk_def assms(2))
qed

lemma walk_bunch_valid: "registry_ok w \<Longrightarrow> q \<in> set (bunch_walk w) \<Longrightarrow> valid w q"
  using walk_valid valid_root by (fastforce simp: bunch_walk_def registry_ok_def)

lemma online_idle:
  assumes "online w w'" "w_flows w' = w_flows w" "registry_ok w" "valid w old"
  shows "idle w' old = idle w old"
proof -
  have f: "in_flow w' old p = in_flow w old p" for p using online_node_path [OF assms(1,4)] by (simp add: in_flow_def)
  have a: "attr w' q = attr w q" if "q \<in> set (walk (subtree w old) old) \<or> q \<in> set (bunch_walk w)" for q
    using that onlineD [OF assms(1)] walk_valid [OF assms(4)] walk_bunch_valid [OF assms(3)] by blast
  show ?thesis using onlineD [OF assms(1,4)] online_bunch(2) [OF assms(1-3)] a by (simp add: idle_def list_all_iff f)
qed

section \<open>The generation of a candidate\<close>

definition unseen :: "nat \<Rightarrow> world \<Rightarrow> world \<Rightarrow> bool" where
  "unseen k w w' \<longleftrightarrow> \<not> has_bunch w [k] \<longrightarrow> \<not> has_bunch w' [k] \<and> w_flows w' = w_flows w \<and> w_tracker w' = w_tracker w"

interpretation uns: frame "unseen k" for k
  by unfold_locales (auto simp: unseen_def)

lemma unseen_upd: "(\<And>a. n_kind (f a) = n_kind a \<and> in_bunch (n_flow (f a)) = in_bunch (n_flow a)) \<Longrightarrow> obeys (unseen k) (updN q f)"
  by (auto simp: obeys_def updN_def modify_def unseen_def has_bunch_root attr_upd upd_def)

lemma unseen_notify: "get_root q = [k] \<Longrightarrow> obeys (unseen k) (notify_query_change q groups ivd)"
  by (auto simp: obeys_def unseen_def notify_detached)

lemma generation_detached:
  assumes "\<not> has_bunch w [k]" "ensure_definition_generation [k] None w = (r, w')"
  shows "r = Inr ()" "w_flows w' = w_flows w" "w_tracker w' = w_tracker w" "registers k w w'" "\<not> has_bunch w' [k]"
proof -
  show "r = Inr ()" using generation_total [OF assms(1)] assms(2) by auto
  show "registers k w w'" using obeysD [OF registers_generation, of k w] assms(2) by simp
  have g: "get_root q = [k]" if "q \<in> set (pending_children v [k])" for q v
    using that set_pending_children [of "[k]" v] root_of_walk by blast
  have u: "obeys (unseen k) fresh_uuid" by (simp add: obeys_def unseen_def fresh_uuid_def prog_defs has_bunch_root)
  have "obeys (unseen k) (ensure_definition_generation [k] None)"
    unfolding ensure_definition_generation_def option.simps
    by (intro uns.obeys_seqM uns.obeys_withState uns.obeys_whenM uns.obeys_bindM uns.obeys_forM u unseen_notify unseen_upd)
       (auto simp: upd_flow_def upd_task_def get_root_def [of "[k]"] dest: g)
  from obeysD [OF this, of w] show "w_flows w' = w_flows w" "w_tracker w' = w_tracker w" "\<not> has_bunch w' [k]"
    using assms by (simp_all add: unseen_def)
qed

section \<open>The updates\<close>

lemma concat_outcome_Inr:
  assumes "concat_outcome rs = Inr us"
  shows "(\<forall>r \<in> set rs. \<exists>u. r = Inr u \<and> set u \<subseteq> set us) \<and> (\<forall>x \<in> set us. \<exists>u. Inr u \<in> set rs \<and> x \<in> set u)"
proof -
  have "list_outcome rs = Inr xss \<Longrightarrow> rs = map Inr xss" for xss
    by (induction rs arbitrary: xss) (auto split: sum.splits)
  then obtain xss where "rs = map Inr xss" "us = concat xss" using assms by (auto simp: concat_outcome_def split: sum.splits)
  then show ?thesis by force
qed

fun update_at :: "update \<Rightarrow> pos" where
  "update_at (LimitUpdate q _ _) = q"
| "update_at (TriggerUpdate q _) = q"
| "update_at (CompleteUpdate q _) = q"

lemma unlinked_set_limit: "unlinked_node (set_limit i r a) = unlinked_node a"
proof (cases "nth_opt (n_in_limits a) i")
  case (Some il)
  then have "map unlinked ((n_in_limits a)[i := il\<lparr>il_limit := Some r\<rparr>]) = map unlinked (n_in_limits a)"
    by (auto simp: nth_opt_conv unlinked_def nth_list_update split: if_splits intro!: nth_equalityI)
  then show ?thesis using Some by (simp add: set_limit_def unlinked_node_def)
qed (simp add: set_limit_def)

lemma unbound_set_ast: "map_option unbound_expression (set_ast a ex) = map_option unbound_expression ex"
  by (cases ex) (simp_all add: set_ast_def unbound_expression_def)

lemma apply_update_world: "apply_update u w = w\<lparr>w_attrs := w_attrs (apply_update u w)\<rparr>"
  by (cases u) (simp_all add: upd_def)

lemma apply_update_other: "q \<noteq> update_at u \<Longrightarrow> attr (apply_update u w) q = attr w q"
  by (cases u) (simp_all add: upd_def)

lemma apply_update_unlinked: "unlinked_node (attr (apply_update u w) q) = unlinked_node (attr w q)"
proof (cases u)
  case (LimitUpdate p i r)
  then show ?thesis by (simp add: attr_upd unlinked_set_limit)
qed (simp_all add: attr_upd unlinked_node_def unbound_set_ast)

lemma updates_rest:
  "fold apply_update us w = w\<lparr>w_attrs := w_attrs (fold apply_update us w)\<rparr>"
  "unlinked_node (attr (fold apply_update us w) q) = unlinked_node (attr w q)"
  "q \<notin> update_at ` set us \<Longrightarrow> attr (fold apply_update us w) q = attr w q"
proof (induction us arbitrary: w)
  case (Cons u us)
  {
    case 1
    have "fold apply_update us (apply_update u w) = (apply_update u w)\<lparr>w_attrs := w_attrs (fold apply_update us (apply_update u w))\<rparr>"
      by (rule Cons.IH(1))
    also have "\<dots> = w\<lparr>w_attrs := w_attrs (fold apply_update us (apply_update u w))\<rparr>"
      by (subst apply_update_world) simp
    finally show ?case by simp
  next
    case 2
    then show ?case using Cons.IH(2) apply_update_unlinked by simp
  next
    case 3
    then show ?case using Cons.IH(3) apply_update_other by simp
  }
qed simp_all

lemma updates_limit:
  assumes "i < length (n_in_limits (attr w q))"
  shows "length (n_in_limits (attr (fold apply_update us w) q)) = length (n_in_limits (attr w q))
    \<and> (if \<exists>r. LimitUpdate q i r \<in> set us
       then \<exists>r. LimitUpdate q i r \<in> set us \<and> il_limit (n_in_limits (attr (fold apply_update us w) q) ! i) = Some r
       else n_in_limits (attr (fold apply_update us w) q) ! i = n_in_limits (attr w q) ! i)"
proof (induction us rule: rev_induct)
  case (snoc u us)
  show ?case
  proof (cases u)
    case (LimitUpdate p m r)
    then show ?thesis using snoc assms
      by (cases r) (auto simp: attr_upd set_limit_def nth_opt_conv nth_list_update split: if_splits)
  qed (use snoc in \<open>auto simp: attr_upd split: if_splits\<close>)
qed simp

lemma updates_trigger:
  "if \<exists>a. TriggerUpdate q a \<in> set us
   then \<exists>a. TriggerUpdate q a \<in> set us \<and> n_trigger (attr (fold apply_update us w) q) = set_ast a (n_trigger (attr w q))
   else n_trigger (attr (fold apply_update us w) q) = n_trigger (attr w q)"
proof (induction us rule: rev_induct)
  case (snoc u us)
  have over: "set_ast a (set_ast b ex) = set_ast a ex" for a b ex by (cases ex) (simp_all add: set_ast_def)
  show ?case
  proof (cases u)
    case (LimitUpdate p m r)
    then show ?thesis using snoc by (auto simp: attr_upd set_limit_def split: if_splits option.splits)
  qed (use snoc in \<open>auto simp: attr_upd over split: if_splits\<close>)
qed simp

lemma updates_complete:
  "if \<exists>a. CompleteUpdate q a \<in> set us
   then \<exists>a. CompleteUpdate q a \<in> set us \<and> n_complete_trigger (attr (fold apply_update us w) q) = set_ast a (n_complete_trigger (attr w q))
   else n_complete_trigger (attr (fold apply_update us w) q) = n_complete_trigger (attr w q)"
proof (induction us rule: rev_induct)
  case (snoc u us)
  have over: "set_ast a (set_ast b ex) = set_ast a ex" for a b ex by (cases ex) (simp_all add: set_ast_def)
  show ?case
  proof (cases u)
    case (LimitUpdate p m r)
    then show ?thesis using snoc by (auto simp: attr_upd set_limit_def split: if_splits option.splits)
  qed (use snoc in \<open>auto simp: attr_upd over split: if_splits\<close>)
qed simp

section \<open>Where references lead\<close>

definition ast_targets :: "ast \<Rightarrow> pos list" where
  "ast_targets a = List.map_filter np_reference_node (ast_paths a)"

definition expression_targets :: "expression option \<Rightarrow> pos list" where
  "expression_targets ex = (case Option.bind ex ex_ast of None \<Rightarrow> [] | Some a \<Rightarrow> ast_targets a)"

definition node_targets :: "node_attrs \<Rightarrow> pos list" where
  "node_targets a = map fst (List.map_filter il_limit (n_in_limits a))
     @ expression_targets (n_trigger a) @ expression_targets (n_complete_trigger a)"

text \<open>A node whose bindings are what its paths lead to, in its own flow or from the bunch.\<close>

definition leads :: "world \<Rightarrow> pos \<Rightarrow> string \<Rightarrow> pos \<Rightarrow> bool" where
  "leads w q x t \<longleftrightarrow> find_node w q x = Inr (Some t) \<or> bunch_find_node w x = Inr (Some t)"

definition faithful_expression :: "parser \<Rightarrow> world \<Rightarrow> pos \<Rightarrow> expression option \<Rightarrow> bool" where
  "faithful_expression parse w q ex = (case ex of None \<Rightarrow> True | Some e \<Rightarrow> (case ex_ast e of None \<Rightarrow> True
     | Some a \<Rightarrow> (case parse (ex_expression_str e) of Inl _ \<Rightarrow> False
        | Inr a0 \<Rightarrow> list_all (\<lambda>t. list_ex (\<lambda>np. leads w q (np_node_path np) t) (ast_paths a0)) (ast_targets a))))"

definition faithful :: "parser \<Rightarrow> world \<Rightarrow> pos \<Rightarrow> bool" where
  "faithful parse w q \<longleftrightarrow> list_all (\<lambda>il. case il_limit il of None \<Rightarrow> True
       | Some r \<Rightarrow> (case il_node_path il of None \<Rightarrow> get_root (fst r) = get_root q | Some x \<Rightarrow> leads w q x (fst r)))
      (n_in_limits (attr w q))
     \<and> faithful_expression parse w q (n_trigger (attr w q)) \<and> faithful_expression parse w q (n_complete_trigger (attr w q))"

lemma find_node_last: "valid w q \<Longrightarrow> find_node w q x = Inr (Some t) \<Longrightarrow> last t = last q"
proof -
  assume v: "valid w q" and f: "find_node w q x = Inr (Some t)"
  have "get_root q \<in> set (ups q)" using valid_last [OF v] by (auto simp: set_ups get_root_def) (metis append_butlast_last_id)
  then have r: "valid w (get_root q)" using valid_ups [OF v] by blast
  obtain toks where "follow w (get_root q) toks = Some t"
    using f by (auto simp: find_node_def Let_def split: list.splits if_splits)
  then have "last t = last (get_root q)" using follow_inside [OF r, of toks t] by (simp add: get_root_def)
  then show ?thesis by (simp add: get_root_def)
qed

lemma py_split_Cons: "\<exists>n ys. py_split c x = n # ys"
  by (cases x) (auto split: list.splits)

lemma split_first: "py_split slash x = n # ys \<Longrightarrow> x = n \<or> startswith x (n @ ''/'')"
proof (induction x arbitrary: n ys)
  case (Cons c x)
  obtain m zs where "py_split slash x = m # zs" using py_split_Cons by blast
  then show ?case using Cons by (auto simp: startswith_def split: if_splits)
qed simp

lemma leads_into:
  assumes "registry_ok w" "valid w q" "last q \<noteq> j" "leads w q x t" "last t = j"
  shows "startswith x ''/''" "in_flow w [j] x"
proof -
  have b: "bunch_find_node w x = Inr (Some t)" using assms(2-5) find_node_last [OF assms(2)] by (auto simp: leads_def)
  then obtain p where p: "check_absolute_node_path x" "find_flow w (py_split slash x ! 1) = Some p" "find_node w p x = Inr (Some t)"
    by (auto simp: bunch_find_node_def split: if_splits option.splits)
  obtain i where i: "p = [i]" "i < length (w_shapes w)" "name_of w [i] = py_split slash x ! 1" "clean_name (name_of w [i])"
    using registry_find [OF assms(1) p(2)] by auto
  have "i = j" using find_node_last [OF valid_root [OF i(2)]] p(3) i(1) assms(5) by simp
  show s: "startswith x ''/''" using p(1) by (simp add: check_absolute_node_path_def)
  then obtain y where y: "x = CHR ''/'' # y" by (cases x) (auto simp: startswith_def)
  obtain n ys where n: "py_split slash y = n # ys" using py_split_Cons by blast
  then have "name_of w [j] = n" using i(3) \<open>i = j\<close> y by simp
  moreover have "node_path w [j] = ''/'' @ name_of w [j]"
    using i(4) \<open>i = j\<close> unfolding node_path_def by (subst path_str_clean) (auto simp: path_names_def)
  ultimately show "in_flow w [j] x" using split_first [OF n] y by (auto simp: in_flow_def)
qed

section \<open>Rebinding\<close>

text \<open>A result of rebinding: what became of the paths, and whether one of them led into the flow.\<close>

definition rebound :: "world \<Rightarrow> pos \<Rightarrow> pos \<Rightarrow> pos \<Rightarrow> ast \<Rightarrow> bool \<Rightarrow> ast \<Rightarrow> bool" where
  "rebound w old new q a0 affected a \<longleftrightarrow>
     (\<forall>t \<in> set (ast_targets a). \<exists>x b. replace_resolve w old new q x = Inr (Some t, b))
     \<and> (\<not> affected \<longrightarrow> (\<forall>np \<in> set (ast_paths a0). \<exists>t. replace_resolve w old new q (np_node_path np) = Inr (t, False)))"

lemma rebind_both_Inr: "rebind_both f l r = Inr (b, a) \<Longrightarrow> \<exists>x l' y r'. l = Inr (x, l') \<and> r = Inr (y, r') \<and> b = (x \<or> y) \<and> a = f l' r'"
  by (cases l; cases r) (fastforce simp: rebind_both_def)+

lemma map_filter_append: "List.map_filter f (xs @ ys) = List.map_filter f xs @ List.map_filter f ys"
  by (simp add: List.map_filter_def)

lemma rebound_join:
  assumes "rebind_both f (rebind w old new q l) (rebind w old new q r) = Inr (b, a)"
    and "\<And>b a. rebind w old new q l = Inr (b, a) \<Longrightarrow> rebound w old new q l b a"
    and "\<And>b a. rebind w old new q r = Inr (b, a) \<Longrightarrow> rebound w old new q r b a"
    and "\<And>l r. ast_paths (f l r) = ast_paths l @ ast_paths r"
  shows "rebound w old new q (f l r) b a"
proof -
  obtain x l' y r' where "rebind w old new q l = Inr (x, l')" "rebind w old new q r = Inr (y, r')" "b = (x \<or> y)" "a = f l' r'"
    using rebind_both_Inr [OF assms(1)] by blast
  then show ?thesis using assms(2) [of x l'] assms(3) [of y r'] assms(4)
    by (auto simp: rebound_def ast_targets_def map_filter_append)
qed

lemma rebind_rebound: "rebind w old new q a0 = Inr (b, a) \<Longrightarrow> rebound w old new q a0 b a"
proof (induction a0 arbitrary: b a)
  case (AstInteger n)
  then show ?case by (auto simp: rebound_def ast_targets_def List.map_filter_def)
next
  case (AstNodeStatus n)
  then show ?case by (auto simp: rebound_def ast_targets_def List.map_filter_def)
next
  case (AstNodePath np)
  then show ?case
    by (auto simp: rebound_def ast_targets_def List.map_filter_def rebind_path_def split: sum.splits if_splits prod.splits; blast)
next
  case (AstVariablePath np x)
  then show ?case
    by (auto simp: rebound_def ast_targets_def List.map_filter_def rebind_path_def split: sum.splits if_splits prod.splits option.splits; blast)
qed (rule rebound_join; simp)+

lemma candidate_last: "candidate_nodes w [k] x = Some t \<Longrightarrow> last t = k"
  using walk_candidate by (auto simp: candidate_nodes_def dest!: map_of_SomeD)

lemma resolve_away:
  assumes "registry_ok w" "valid w q" "last q \<noteq> j" "j \<noteq> k" "replace_resolve w [j] [k] q x = Inr (Some t, b)"
  shows "last t \<noteq> j"
proof
  assume t: "last t = j"
  have "leads w q x t \<and> \<not> (startswith x ''/'' \<and> in_flow w [j] x)"
    using assms(4,5) t candidate_last [of w k] by (auto simp: replace_resolve_def leads_def split: if_splits sum.splits option.splits)
  then show False using leads_into [OF assms(1-3) _ t] by blast
qed

lemma unaffected_away:
  assumes "registry_ok w" "valid w q" "last q \<noteq> j" "leads w q x t" "replace_resolve w [j] [k] q x = Inr (u, False)"
  shows "last t \<noteq> j"
  using leads_into [OF assms(1-4)] assms(5) by (auto simp: replace_resolve_def split: if_splits)

lemma expression_updates_set:
  assumes "expression_updates parse mk w old new q ex = Inr us"
  shows "\<forall>u \<in> set us. \<exists>a. u = mk q a"
  using assms by (auto simp: expression_updates_def split: option.splits sum.splits if_splits)

lemma limit_updates_set: "limit_updates w old new q (i, il) = Inr us \<Longrightarrow> \<forall>u \<in> set us. \<exists>r. u = LimitUpdate q i r"
  by (auto simp: limit_updates_def split: option.splits sum.splits if_splits)

section \<open>No reference into the old flow\<close>

lemma expression_away:
  assumes "registry_ok w" "valid w q" "last q \<noteq> j" "j \<noteq> k"
    and run: "expression_updates parse mk w [j] [k] q ex = Inr us" and "faithful_expression parse w q ex"
    and "(\<exists>a. mk q a \<in> set us \<and> ex' = set_ast a ex) \<or> (us = [] \<and> ex' = ex)" and inj: "\<And>a b. mk q a = mk q b \<Longrightarrow> a = b"
  shows "\<forall>t \<in> set (expression_targets ex'). last t \<noteq> j"
proof (cases ex)
  case (Some e)
  show ?thesis
  proof (cases "parse (ex_expression_str e)")
    case (Inl x)
    then have "us = []" "ex' = ex" using run Some assms(7) by (auto simp: expression_updates_def)
    moreover have "ex_ast e = None" using assms(6) Some Inl by (auto simp: faithful_expression_def split: option.splits)
    ultimately show ?thesis by (simp add: expression_targets_def Some)
  next
    case (Inr a0)
    then obtain b a where a: "rebind w [j] [k] q a0 = Inr (b, a)" "us = (if b then [mk q a] else [])"
      using run Some by (auto simp: expression_updates_def split: sum.splits)
    note r = rebind_rebound [OF a(1), unfolded rebound_def]
    show ?thesis
    proof (cases b)
      case True
      then have "ex' = set_ast a ex" using a(2) assms(7) inj by auto
      then have "expression_targets ex' = ast_targets a" by (simp add: Some set_ast_def expression_targets_def)
      then show ?thesis using r resolve_away [OF assms(1-4)] by fastforce
    next
      case False
      then have "ex' = ex" using a(2) assms(7) by auto
      moreover have "last t \<noteq> j" if t: "ex_ast e = Some a1" "t \<in> set (ast_targets a1)" for a1 t
      proof -
        obtain np where np: "np \<in> set (ast_paths a0)" "leads w q (np_node_path np) t"
          using assms(6) Some Inr t by (auto simp: faithful_expression_def list_all_iff list_ex_iff)
        then obtain u where "replace_resolve w [j] [k] q (np_node_path np) = Inr (u, False)" using r False by blast
        then show ?thesis using unaffected_away [OF assms(1-3) np(2)] by blast
      qed
      ultimately show ?thesis by (cases "ex_ast e") (auto simp: Some expression_targets_def)
    qed
  qed
qed (use assms(7) in \<open>auto simp: expression_targets_def set_ast_def\<close>)

lemma limit_away:
  assumes "registry_ok w" "valid w q" "last q \<noteq> j" "j \<noteq> k"
    and run: "limit_updates w [j] [k] q (i, il) = Inr us" and il: "il_limit il = Some r"
      "case il_node_path il of None \<Rightarrow> get_root (fst r) = get_root q | Some x \<Rightarrow> leads w q x (fst r)"
    and "us = []"
  shows "last (fst r) \<noteq> j"
proof (cases "il_node_path il")
  case None
  then show ?thesis using il(2) assms(3) by (simp add: get_root_def)
next
  case (Some x)
  then obtain u b where u: "replace_resolve w [j] [k] q x = Inr (u, b)"
    using run by (auto simp: limit_updates_def split: sum.splits)
  then have "\<not> b" using run Some \<open>us = []\<close> by (auto simp: limit_updates_def split: option.splits if_splits)
  then show ?thesis using unaffected_away [OF assms(1-3)] il(2) Some u by auto
qed

lemma limit_update_new: "limit_updates w [j] [k] q (i, il) = Inr us \<Longrightarrow> LimitUpdate q i r \<in> set us \<Longrightarrow> last (fst r) = k"
  using candidate_last
  by (auto simp: limit_updates_def replace_resolve_def find_limit_def bind_eq_Some_conv split: option.splits sum.splits if_splits)

lemma node_updates_parts:
  assumes "node_updates parse w old new q = Inr us"
  obtains ut uc where "expression_updates parse TriggerUpdate w old new q (n_trigger (attr w q)) = Inr ut"
    "expression_updates parse CompleteUpdate w old new q (n_complete_trigger (attr w q)) = Inr uc"
    "\<And>i. i < length (n_in_limits (attr w q)) \<Longrightarrow>
       \<exists>ui. limit_updates w old new q (i, n_in_limits (attr w q) ! i) = Inr ui \<and> (\<forall>r. LimitUpdate q i r \<in> set us \<longleftrightarrow> LimitUpdate q i r \<in> set ui)"
    "\<And>a. TriggerUpdate q a \<in> set us \<longleftrightarrow> TriggerUpdate q a \<in> set ut" "\<And>a. CompleteUpdate q a \<in> set us \<longleftrightarrow> CompleteUpdate q a \<in> set uc"
    "\<forall>u \<in> set us. update_at u = q"
proof -
  let ?ls = "map (limit_updates w old new q) (List.enumerate 0 (n_in_limits (attr w q)))"
  note c = concat_outcome_Inr [OF assms [unfolded node_updates_def]]
  obtain ut uc where ut: "expression_updates parse TriggerUpdate w old new q (n_trigger (attr w q)) = Inr ut"
    and uc: "expression_updates parse CompleteUpdate w old new q (n_complete_trigger (attr w q)) = Inr uc"
    and sub: "set ut \<subseteq> set us" "set uc \<subseteq> set us" using c by auto
  note st = expression_updates_set [OF ut] and sc = expression_updates_set [OF uc]
  have src: "x \<in> set ut \<or> x \<in> set uc \<or> (\<exists>i ui. i < length (n_in_limits (attr w q))
      \<and> limit_updates w old new q (i, n_in_limits (attr w q) ! i) = Inr ui \<and> x \<in> set ui)" if "x \<in> set us" for x
    using c that ut uc by (fastforce simp: in_set_enumerate_eq)
  have kinds: "(\<exists>a. x = TriggerUpdate q a \<and> x \<in> set ut) \<or> (\<exists>a. x = CompleteUpdate q a \<and> x \<in> set uc) \<or> (\<exists>i r. x = LimitUpdate q i r)"
    if "x \<in> set us" for x
    using src [OF that]
  proof (elim disjE exE conjE)
    fix i ui assume "limit_updates w old new q (i, n_in_limits (attr w q) ! i) = Inr ui" "x \<in> set ui"
    then show ?thesis using bspec [OF limit_updates_set] by blast
  qed (use bspec [OF st] bspec [OF sc] in blast)+
  have lim: "\<exists>ui. limit_updates w old new q (i, n_in_limits (attr w q) ! i) = Inr ui \<and> set ui \<subseteq> set us"
    if "i < length (n_in_limits (attr w q))" for i
  proof -
    have "(i, n_in_limits (attr w q) ! i) \<in> set (List.enumerate 0 (n_in_limits (attr w q)))" using that by (simp add: in_set_enumerate_eq)
    then show ?thesis using c by auto
  qed
  show thesis
  proof (rule that [OF ut uc])
    fix i assume i: "i < length (n_in_limits (attr w q))"
    then obtain ui where ui: "limit_updates w old new q (i, n_in_limits (attr w q) ! i) = Inr ui" "set ui \<subseteq> set us" using lim by blast
    have "LimitUpdate q i r \<in> set ui" if r: "LimitUpdate q i r \<in> set us" for r
    proof -
      obtain m um where m: "limit_updates w old new q (m, n_in_limits (attr w q) ! m) = Inr um" "LimitUpdate q i r \<in> set um"
        using src [OF r] st sc by (metis update.distinct(1,3))
      have "m = i" using bspec [OF limit_updates_set [OF m(1)] m(2)] by simp
      then show ?thesis using m ui(1) by simp
    qed
    then show "\<exists>ui. limit_updates w old new q (i, n_in_limits (attr w q) ! i) = Inr ui
        \<and> (\<forall>r. LimitUpdate q i r \<in> set us \<longleftrightarrow> LimitUpdate q i r \<in> set ui)" using ui by blast
  next
    show "TriggerUpdate q a \<in> set us \<longleftrightarrow> TriggerUpdate q a \<in> set ut" for a
      using kinds [of "TriggerUpdate q a"] sub(1) by (simp add: subset_iff) blast
    show "CompleteUpdate q a \<in> set us \<longleftrightarrow> CompleteUpdate q a \<in> set uc" for a
      using kinds [of "CompleteUpdate q a"] sub(2) by (simp add: subset_iff) blast
    show "\<forall>u \<in> set us. update_at u = q" using kinds by force
  qed
qed

lemma reference_updates_parts:
  assumes "reference_updates parse w old new = Inr us"
  shows "update_at ` set us \<subseteq> {q \<in> set (bunch_walk w). get_root q \<noteq> old}"
    "q \<in> set (bunch_walk w) \<Longrightarrow> get_root q \<noteq> old \<Longrightarrow>
      \<exists>uq. node_updates parse w old new q = Inr uq \<and> (\<forall>u. update_at u = q \<longrightarrow> (u \<in> set us \<longleftrightarrow> u \<in> set uq))"
proof -
  note c = concat_outcome_Inr [OF assms [unfolded reference_updates_def]]
  have src: "node_updates parse w old new (update_at u) = Inr uq \<longrightarrow> u \<in> set uq"
    and mem: "update_at u \<in> set (bunch_walk w)" "get_root (update_at u) \<noteq> old" if u: "u \<in> set us" for u uq
  proof -
    obtain v where v: "Inr v \<in> set (map (node_updates parse w old new) (filter (\<lambda>q. get_root q \<noteq> old) (bunch_walk w)))" "u \<in> set v"
      using c u by blast
    then obtain p where p: "p \<in> set (bunch_walk w)" "get_root p \<noteq> old" "node_updates parse w old new p = Inr v" by auto
    have "update_at u = p" using node_updates_parts [OF p(3)] v(2) by metis
    then show "update_at u \<in> set (bunch_walk w)" "get_root (update_at u) \<noteq> old"
      "node_updates parse w old new (update_at u) = Inr uq \<longrightarrow> u \<in> set uq" using p v(2) by auto
  qed
  show "update_at ` set us \<subseteq> {q \<in> set (bunch_walk w). get_root q \<noteq> old}" using mem by blast
  assume q: "q \<in> set (bunch_walk w)" "get_root q \<noteq> old"
  then have "node_updates parse w old new q \<in> set (map (node_updates parse w old new) (filter (\<lambda>q. get_root q \<noteq> old) (bunch_walk w)))"
    by simp
  then obtain uq where "node_updates parse w old new q = Inr uq" "set uq \<subseteq> set us" using c by blast
  then show "\<exists>uq. node_updates parse w old new q = Inr uq \<and> (\<forall>u. update_at u = q \<longrightarrow> (u \<in> set us \<longleftrightarrow> u \<in> set uq))"
    using src by blast
qed

lemma references_away:
  assumes reg: "registry_ok w" and us: "reference_updates parse w [j] [k] = Inr us" and q: "q \<in> set (bunch_walk w)" "last q \<noteq> j"
    and jk: "j \<noteq> k" and f: "faithful parse w q" and v: "attr v q = attr w q"
  shows "\<forall>t \<in> set (node_targets (attr (fold apply_update us v) q)). last t \<noteq> j"
proof -
  let ?a = "attr (fold apply_update us v) q"
  note val = walk_bunch_valid [OF reg q(1)]
  obtain uq where uq: "node_updates parse w [j] [k] q = Inr uq" and same: "\<And>u. update_at u = q \<Longrightarrow> u \<in> set us \<longleftrightarrow> u \<in> set uq"
    using reference_updates_parts(2) [OF us q(1)] q(2) by (auto simp: get_root_def)
  from uq obtain ut uc where ut: "expression_updates parse TriggerUpdate w [j] [k] q (n_trigger (attr w q)) = Inr ut"
    and uc: "expression_updates parse CompleteUpdate w [j] [k] q (n_complete_trigger (attr w q)) = Inr uc"
    and ui: "\<And>i. i < length (n_in_limits (attr w q)) \<Longrightarrow> \<exists>ui. limit_updates w [j] [k] q (i, n_in_limits (attr w q) ! i) = Inr ui
        \<and> (\<forall>r. LimitUpdate q i r \<in> set uq \<longleftrightarrow> LimitUpdate q i r \<in> set ui)"
    and mt: "\<And>a. TriggerUpdate q a \<in> set uq \<longleftrightarrow> TriggerUpdate q a \<in> set ut"
    and mc: "\<And>a. CompleteUpdate q a \<in> set uq \<longleftrightarrow> CompleteUpdate q a \<in> set uc"
    by (rule node_updates_parts) blast
  have none: "us' = []" if "expression_updates parse mk w [j] [k] q ex = Inr us'" "\<forall>a. mk q a \<notin> set us'" for mk ex us'
    using expression_updates_set [OF that(1)] that(2) by (cases us') auto
  have "\<forall>t \<in> set (expression_targets (n_trigger ?a)). last t \<noteq> j"
    using f updates_trigger [of q us v] none [OF ut] same mt
    by (intro expression_away [OF reg val q(2) jk ut]) (auto simp: v faithful_def split: if_splits)
  moreover have "\<forall>t \<in> set (expression_targets (n_complete_trigger ?a)). last t \<noteq> j"
    using f updates_complete [of q us v] none [OF uc] same mc
    by (intro expression_away [OF reg val q(2) jk uc]) (auto simp: v faithful_def split: if_splits)
  moreover have "last (fst r) \<noteq> j" if r: "il \<in> set (n_in_limits ?a)" "il_limit il = Some r" for il r
  proof -
    have len: "length (n_in_limits ?a) = length (n_in_limits (attr w q))"
      using arg_cong [OF updates_rest(2) [of us v q], of "\<lambda>a. length (n_in_limits a)"] by (simp add: unlinked_node_def v)
    then obtain i where i: "i < length (n_in_limits (attr w q))" "il = n_in_limits ?a ! i" using r(1) by (metis in_set_conv_nth)
    then obtain ui' where u: "limit_updates w [j] [k] q (i, n_in_limits (attr w q) ! i) = Inr ui'"
      and m: "\<And>r. LimitUpdate q i r \<in> set us \<longleftrightarrow> LimitUpdate q i r \<in> set ui'" using ui same by force
    show ?thesis
    proof (cases "ui' = []")
      case True
      then have "il = n_in_limits (attr w q) ! i" using updates_limit [of i v q us] i m by (simp add: v)
      moreover from this have "il \<in> set (n_in_limits (attr w q))" using i(1) by simp
      then have "case il_node_path il of None \<Rightarrow> get_root (fst r) = get_root q | Some x \<Rightarrow> leads w q x (fst r)"
        using f r(2) by (simp only: faithful_def list_all_iff) (metis (no_types, lifting) option.simps(5))
      ultimately show ?thesis using limit_away [OF reg val q(2) jk _ r(2) _ refl] u True by simp
    next
      case False
      then obtain r0 where "LimitUpdate q i r0 \<in> set us" using limit_updates_set [OF u] m by (metis list.set_sel(1))
      then obtain r' where "LimitUpdate q i r' \<in> set us" "il_limit il = Some r'"
        using updates_limit [of i v q us] i unfolding v by (cases r0) (auto split: if_splits)
      then show ?thesis using limit_update_new [OF u] m r(2) jk by auto
    qed
  qed
  ultimately show ?thesis by (fastforce simp: node_targets_def List.map_filter_def)
qed

end
