(* ===== verification/Replacement_Effect.thy ===== *)
theory Replacement_Effect
  imports Replacement_Safety
begin

text \<open>
  The command as a whole: how a replacement runs, the exchange of the flows, and the two theorems about it.
\<close>

section \<open>A run of the command\<close>

lemma bunch_find_valid:
  assumes "registry_ok w" "bunch_find_node w x = Inr (Some t)"
  shows "valid w t"
proof -
  obtain p where p: "find_flow w (py_split slash x ! 1) = Some p" "find_node w p x = Inr (Some t)"
    using assms(2) by (auto simp: bunch_find_node_def split: if_splits option.splits)
  obtain i where i: "p = [i]" "valid w [i]" using registry_find [OF assms(1) p(1)] valid_root by blast
  obtain toks where "follow w [i] toks = Some t"
    using p(2) i(1) by (auto simp: find_node_def Let_def get_root_def split: list.splits if_splits)
  then show ?thesis using follow_inside [OF i(2)] by simp
qed

lemma replace_target_valid: "registry_ok w \<Longrightarrow> replace_target w path = Inr old \<Longrightarrow> valid w old"
  using bunch_find_valid by (auto simp: replace_target_def split: if_splits sum.splits option.splits)

lemma begin_begun: "flow_begin p force w = (Inr (), w') \<Longrightarrow> begun (n_flow (attr w' p))"
proof -
  assume b: "flow_begin p force w = (Inr (), w')"
  then obtain w2 where "notify p [''runtime''] (upd p (upd_flow (\<lambda>f. f\<lparr>begun := True\<rparr>)) w2) = (Inr (), w')"
    by (auto simp: flow_begin_def withState_def updN_def modify_def raise_def elim!: seqM_InrE split: if_splits)
  then have "attr w' p = attr (upd p (upd_flow (\<lambda>f. f\<lparr>begun := True\<rparr>)) w2) p" using attr_notify by (metis snd_conv)
  then show ?thesis by (simp add: attr_upd upd_flow_def)
qed

lemma initialized:
  assumes "replace_initialize old [length (w_shapes w)] (install (fresh_tree d) w) = (Inr (), w0)"
  shows "begun (n_flow (attr w0 [length (w_shapes w)]))" "\<not> in_bunch (n_flow (attr w0 [length (w_shapes w)]))"
    "name_of (install (fresh_tree d) w) [length (w_shapes w)] = name_of (install (fresh_tree d) w) old"
proof -
  let ?k = "length (w_shapes w)" and ?v = "install (fresh_tree d) w"
  have b: "flow_begin [?k] False ?v = (Inr (), w0)" and n: "name_of ?v [?k] = name_of ?v old"
    using assms by (auto simp: replace_initialize_def withState_def raise_def mapError_def split: if_splits prod.splits sum.splits)
  show "name_of ?v [?k] = name_of ?v old" by (rule n)
  have "own_only (w_shapes ?v) ?k ?v (after (flow_begin [?k] False ?v))" by (rule obeysD [OF own_flow_begin [OF own_fresh(2)]])
  then have "own (w_shapes ?v) ?k w0" using own_fresh(1) [of d w] b by (simp add: own_only_def)
  then show "\<not> in_bunch (n_flow (attr w0 [?k]))" using ownD(1) own_fresh(2) by blast
  show "begun (n_flow (attr w0 [?k]))"
    using b by (rule begin_begun)
qed

definition prepared :: "decoder \<Rightarrow> parser \<Rightarrow> string \<Rightarrow> world \<Rightarrow> nat \<Rightarrow> node_definition \<Rightarrow> update list \<Rightarrow> world \<Rightarrow> world \<Rightarrow> bool" where
  "prepared decode parse bytes w j d us w1 w2 \<longleftrightarrow> (let k = length (w_shapes w) in
     build_definition decode parse True (replace_initialize [j]) bytes w = (Inr (Some [k]), w1)
     \<and> decode bytes = Inr (FlowRoot d) \<and> root_error (FlowRoot d) = None
     \<and> candidate_only k (install (fresh_tree d) w) w1 \<and> nd_name (nd_fields d) = name_of w [j]
     \<and> begun (n_flow (attr w1 [k])) \<and> (\<forall>q \<in> set (walk (tree_shape (fresh_tree d)) [k]). linked (attr w1 q))
     \<and> reference_updates parse w1 [j] [k] = Inr us
     \<and> registers k w1 w2 \<and> w_flows w2 = w_flows w \<and> w_tracker w2 = w_tracker w)"

lemma replace_flow_cases:
  assumes "replace_flow decode parse path bytes w = (r, w')" and reg: "registry_ok w"
  shows "(\<exists>e. r = Inl e \<and> online w w' \<and> w_flows w' = w_flows w \<and> w_tracker w' = w_tracker w)
    \<or> (\<exists>j d us w1 w2. r = Inr () \<and> replace_target w path = Inr [j] \<and> j < length (w_shapes w) \<and> find_flow w (name_of w [j]) = Some [j]
        \<and> idle w [j] \<and> prepared decode parse bytes w j d us w1 w2 \<and> w' = exchange [j] [length (w_shapes w)] us w2)"
proof (cases "replace_target w path")
  case (Inl e)
  then show ?thesis using assms(1) by (auto simp: replace_flow_def bindM_def liftE_def online_def)
next
  case (Inr old)
  let ?k = "length (w_shapes w)"
  note val = replace_target_valid [OF reg Inr]
  obtain rb w1 where b: "build_definition decode parse True (replace_initialize old) bytes w = (rb, w1)" by (rule prod.exhaust)
  note bc = build_candidate [OF b replace_initialize_only]
  have on: "online w w1 \<and> w_flows w1 = w_flows w \<and> w_tracker w1 = w_tracker w"
    using bc candidate_online by (auto simp: online_def)
  show ?thesis
  proof (cases "\<exists>root us. rb = Inr (Some root) \<and> reference_updates parse w1 old root = Inr us")
    case False
    then have "\<exists>e. (r, w') = (Inl e, w1)" using assms(1) Inr b
      by (cases rb rule: sum.exhaust [case_product option.exhaust])
        (auto simp: replace_flow_def bindM_def liftE_def mapError_def raise_def split: option.splits sum.splits)
    then show ?thesis using on by blast
  next
    case True
    then obtain us d w0 where rb: "rb = Inr (Some [?k])" and us: "reference_updates parse w1 old [?k] = Inr us"
      and d: "decode bytes = Inr (FlowRoot d)" "root_error (FlowRoot d) = None"
        "replace_initialize old [?k] (install (fresh_tree d) w) = (Inr (), w0)"
        "candidate_only ?k (install (fresh_tree d) w) w1" "static_view w1 = static_view w0"
        "\<forall>q \<in> set (walk (tree_shape (fresh_tree d)) [?k]). linked (attr w1 q)"
      using bc by blast
    note ini = initialized [OF d(3)]
    have fl: "n_flow (attr w1 [?k]) = n_flow (attr w0 [?k])" using d(5) by (simp add: static_view_def fun_eq_iff)
    then have det: "\<not> has_bunch w1 [?k]" using ini(2) by (simp add: has_bunch_root)
    obtain rg w2 where g: "ensure_definition_generation [?k] None w1 = (rg, w2)" by (rule prod.exhaust)
    note gd = generation_detached [OF det g]
    have o2: "online w w2" using on gd(4) valid_last unfolding online_def registers_def by (metis (no_types, lifting) order_less_irrefl shape_at_append subtree_def valid_def)
    have nm: "name_of w2 old = name_of w old" using onlineD [OF o2 val] by simp
    have run: "(r, w') = (if find_flow w2 (name_of w2 old) \<noteq> Some old then (Inl FlowStateError, w2)
        else if \<not> idle w2 old then (Inl FlowStateError, w2) else (Inr (), exchange old [?k] us w2))"
      using assms(1) Inr b rb us g gd(1)
      by (simp add: replace_flow_def bindM_def liftE_def mapError_def raise_def withState_def seqM_def modify_def split: if_splits)
    show ?thesis
    proof (cases "find_flow w2 (name_of w2 old) = Some old \<and> idle w2 old")
      case False
      then have "r = Inl FlowStateError" "w' = w2" using run by (auto split: if_splits)
      then show ?thesis using o2 gd(2,3) on by simp
    next
      case True
      then have "find_flow w (name_of w old) = Some old" using nm gd(2) on by (simp add: find_flow_def)
      then obtain j where j: "old = [j]" "j < ?k" "find_flow w (name_of w [j]) = Some [j]" using registry_find [OF reg] by blast
      have "idle w [j]" using True online_idle [OF o2 _ reg val] gd(2) on j(1) by simp
      moreover have "nd_name (nd_fields d) = name_of w [j]"
        using ini(3) install_root(2) [of "fresh_tree d" w] fresh_root(3) [OF d(2)] install_old [of "[j]" w] j by simp
      ultimately have "prepared decode parse bytes w j d us w1 w2"
        using j(1) d us gd fl ini(1) on b rb by (simp add: prepared_def Let_def del: root_error.simps)
      moreover have "r = Inr ()" "w' = exchange [j] [?k] us w2" using True run j(1) by auto
      ultimately show ?thesis using \<open>idle w [j]\<close> Inr j by blast
    qed
  qed
qed

section \<open>The exchange\<close>

lemma exchange_parts:
  assumes "j \<noteq> k"
  obtains v where "exchange [j] [k] us w = fold apply_update us v" "v = w\<lparr>w_attrs := w_attrs v, w_flows := dict_set (name_of w [j]) k (w_flows w)\<rparr>"
    "attr v [k] = (attr w [k])\<lparr>n_state := (n_state (attr w [k]))\<lparr>suspended := suspended (n_state (attr w [j]))\<rparr>,
       n_flow := (n_flow (attr w [k]))\<lparr>in_bunch := True\<rparr>\<rparr>"
    "attr v [j] = (attr w [j])\<lparr>n_flow := (n_flow (attr w [j]))\<lparr>in_bunch := False\<rparr>\<rparr>"
    "\<And>q. q \<noteq> [j] \<Longrightarrow> q \<noteq> [k] \<Longrightarrow> attr v q = attr w q"
proof -
  let ?w1 = "upd [k] (\<lambda>a. a\<lparr>n_state := (n_state a)\<lparr>suspended := suspended (n_state (attr w [j]))\<rparr>\<rparr>) w"
  let ?w2 = "upd [k] (upd_flow (\<lambda>f. f\<lparr>in_bunch := True\<rparr>)) ?w1"
  let ?w3 = "?w2\<lparr>w_flows := dict_set (name_of w [j]) k (w_flows ?w2)\<rparr>"
  let ?v = "upd [j] (upd_flow (\<lambda>f. f\<lparr>in_bunch := False\<rparr>)) ?w3"
  show thesis
  proof (rule that)
    show "exchange [j] [k] us w = fold apply_update us ?v" by (simp add: exchange_def)
  qed (use assms in \<open>auto simp: upd_def upd_flow_def\<close>)
qed

lemma py_split_trailing: "\<exists>n ys. py_split c (y @ [c]) = n # ys @ [[]]"
proof (induction y)
  case (Cons x y)
  then obtain n ys where "py_split c (y @ [c]) = n # ys @ [[]]" by blast
  then show ?case by (auto intro: exI [of _ "n # ys"])
qed simp

lemma mark_target:
  assumes "replace_target v path = Inr old"
  shows "\<exists>t. mark path {} True w = (Inr (), w\<lparr>w_tracker := t\<rparr>)"
proof -
  have a: "startswith path ''/''" "[] \<notin> set (py_split slash (tl path))" using assms by (auto simp: replace_target_def list_ex_iff split: if_splits)
  then obtain y where y: "path = CHR ''/'' # y" by (cases path) (auto simp: startswith_def)
  have "\<not> endswith path ''/''"
  proof
    assume e: "endswith path ''/''"
    have "y \<noteq> []" using a(2) y by auto
    then obtain z where "y = z @ [CHR ''/'']" using e y by (cases y rule: rev_cases) (auto simp: endswith_def)
    then show False using a(2) y py_split_trailing [of slash z] by auto
  qed
  then show ?thesis using a(1)
    by (cases "w_tracker w") (auto simp: mark_def prog_defs qc_mark_def split_beta Let_def intro: exI [of _ "w_tracker w"])
qed

section \<open>All or nothing\<close>

lemma prepared_old:
  assumes "prepared decode parse bytes w j d us w1 w2"
  shows "online w w1" "w_flows w1 = w_flows w" "w_shapes w2 = w_shapes w @ [tree_shape (fresh_tree d)]"
    "p = [] \<or> last p \<noteq> length (w_shapes w) \<Longrightarrow> attr w2 p = attr w p" "load_view w2 = load_view w1"
    "w_server_state w2 = w_server_state w" "w_audit w2 = w_audit w"
proof -
  let ?k = "length (w_shapes w)"
  have p: "candidate_only ?k (install (fresh_tree d) w) w1" "registers ?k w1 w2" using assms by (simp_all add: prepared_def Let_def)
  note o = candidate_online [OF p(1)]
  show "online w w1" "w_flows w1 = w_flows w" using o by simp_all
  show "w_shapes w2 = w_shapes w @ [tree_shape (fresh_tree d)]" "load_view w2 = load_view w1"
    "w_server_state w2 = w_server_state w" "w_audit w2 = w_audit w"
    using o p(2) by (simp_all add: registers_def online_def)
  assume q: "p = [] \<or> last p \<noteq> ?k"
  then show "attr w2 p = attr w p"
    using p install_old [OF q, of "fresh_tree d"] unfolding registers_def candidate_only_def by metis
qed

lemma updates_elsewhere:
  assumes "prepared decode parse bytes w j d us w1 w2" "registry_ok w"
  shows "update_at ` set us \<subseteq> {q. last q < length (w_shapes w) \<and> last q \<noteq> j}"
proof
  fix q assume q: "q \<in> update_at ` set us"
  note old = prepared_old [OF assms(1)]
  have "reference_updates parse w1 [j] [length (w_shapes w)] = Inr us" using assms(1) by (simp add: prepared_def Let_def)
  from subsetD [OF reference_updates_parts(1) [OF this] q] have "q \<in> set (bunch_walk w)" "get_root q \<noteq> [j]"
    using online_bunch(2) [OF old(1,2) assms(2)] by simp_all
  then show "q \<in> {q. last q < length (w_shapes w) \<and> last q \<noteq> j}"
    using valid_last walk_bunch_valid [OF assms(2)] by (simp add: get_root_def)
qed

lemma exchanged:
  assumes p: "prepared decode parse bytes w j d us w1 w2" and reg: "registry_ok w" and j: "j < length (w_shapes w)"
    and v: "v = exchange [j] [length (w_shapes w)] us w2"
  shows "w_flows v = dict_set (name_of w [j]) (length (w_shapes w)) (w_flows w)" "w_shapes v = w_shapes w @ [tree_shape (fresh_tree d)]"
    "w_server_state v = w_server_state w" "w_audit v = w_audit w"
    "attr v [j] = (attr w [j])\<lparr>n_flow := (n_flow (attr w [j]))\<lparr>in_bunch := False\<rparr>\<rparr>"
    "attr v [length (w_shapes w)] = (attr w2 [length (w_shapes w)])\<lparr>
       n_state := (n_state (attr w2 [length (w_shapes w)]))\<lparr>suspended := suspended (n_state (attr w [j]))\<rparr>,
       n_flow := (n_flow (attr w2 [length (w_shapes w)]))\<lparr>in_bunch := True\<rparr>\<rparr>"
    "q \<noteq> [length (w_shapes w)] \<Longrightarrow> last q = length (w_shapes w) \<Longrightarrow> attr v q = attr w2 q"
    "q \<noteq> [] \<Longrightarrow> last q < length (w_shapes w) \<Longrightarrow> q \<noteq> [j] \<Longrightarrow> \<exists>x. attr v q = attr (fold apply_update us x) q \<and> attr x q = attr w q"
proof -
  let ?k = "length (w_shapes w)"
  note old = prepared_old [OF p] and away = updates_elsewhere [OF p reg]
  have w2: "w_flows w2 = w_flows w" "attr w2 [j] = attr w [j]" using p old(4) [of "[j]"] j by (simp_all add: prepared_def Let_def)
  have jk: "j \<noteq> ?k" using j by simp
  obtain x where x: "v = fold apply_update us x" "x = w2\<lparr>w_attrs := w_attrs x, w_flows := dict_set (name_of w [j]) ?k (w_flows w)\<rparr>"
    "attr x [?k] = (attr w2 [?k])\<lparr>n_state := (n_state (attr w2 [?k]))\<lparr>suspended := suspended (n_state (attr w [j]))\<rparr>,
       n_flow := (n_flow (attr w2 [?k]))\<lparr>in_bunch := True\<rparr>\<rparr>"
    "attr x [j] = (attr w [j])\<lparr>n_flow := (n_flow (attr w [j]))\<lparr>in_bunch := False\<rparr>\<rparr>"
    "\<And>q. q \<noteq> [j] \<Longrightarrow> q \<noteq> [?k] \<Longrightarrow> attr x q = attr w2 q"
    using exchange_parts [OF jk, of us w2] v w2 by metis
  have "v = x\<lparr>w_attrs := w_attrs v\<rparr>" using updates_rest(1) [of us x] x(1) by simp
  then have vx: "v = w2\<lparr>w_flows := dict_set (name_of w [j]) ?k (w_flows w), w_attrs := w_attrs v\<rparr>" by (subst (asm) x(2)) simp
  show "w_flows v = dict_set (name_of w [j]) ?k (w_flows w)" "w_shapes v = w_shapes w @ [tree_shape (fresh_tree d)]"
    "w_server_state v = w_server_state w" "w_audit v = w_audit w" by (subst vx; simp add: old)+
  have stay: "attr v q = attr x q" if "last q = j \<or> last q = ?k" for q
  proof -
    have "q \<notin> update_at ` set us" using subsetD [OF away, of q] that by auto
    then show ?thesis using updates_rest(3) x(1) by simp
  qed
  show "attr v [j] = (attr w [j])\<lparr>n_flow := (n_flow (attr w [j]))\<lparr>in_bunch := False\<rparr>\<rparr>"
    "attr v [?k] = (attr w2 [?k])\<lparr>n_state := (n_state (attr w2 [?k]))\<lparr>suspended := suspended (n_state (attr w [j]))\<rparr>,
       n_flow := (n_flow (attr w2 [?k]))\<lparr>in_bunch := True\<rparr>\<rparr>"
    using stay [of "[j]"] stay [of "[?k]"] x(3,4) by simp_all
  show "attr v q = attr w2 q" if "q \<noteq> [?k]" "last q = ?k" using stay [of q] x(5) [of q] that jk by (cases "q = [j]") auto
  show "\<exists>x. attr v q = attr (fold apply_update us x) q \<and> attr x q = attr w q" if "q \<noteq> []" "last q < ?k" "q \<noteq> [j]"
  proof -
    have "q \<noteq> [?k]" using that(2) by auto
    then have "attr x q = attr w q" using x(5) [of q] old(4) [of q] that by auto
    then show ?thesis using x(1) by blast
  qed
qed

text \<open>
  C31. Replacing a flow is all or nothing. When the command returns, its target was an idle flow of the bunch and the document a
  valid flow of the same name. The new flow stands in the place of the old one, begun, suspended if the old one was, and with
  every trigger and in-limit bound; the old one has left the bunch, and of all other nodes nothing but the bindings of
  references has changed. When the command raises, the registry and the journal are as before, and no node that was there
  has changed.
\<close>

theorem replace_all_or_nothing:
  assumes "run_command_replace decode parse path bytes w = (r, w')" and reg: "registry_ok w"
  shows "case r of
      Inl e \<Rightarrow> online w w' \<and> w_flows w' = w_flows w \<and> w_tracker w' = w_tracker w
    | Inr _ \<Rightarrow> (\<exists>j d. replace_target w path = Inr [j] \<and> find_flow w (name_of w [j]) = Some [j] \<and> idle w [j]
        \<and> decode bytes = Inr (FlowRoot d) \<and> root_error (FlowRoot d) = None \<and> nd_name (nd_fields d) = name_of w [j]
        \<and> map fst (w_flows w') = map fst (w_flows w)
        \<and> (\<forall>n. find_flow w' n = (if n = name_of w [j] then Some [length (w_shapes w)] else find_flow w n))
        \<and> subtree w' [length (w_shapes w)] = tree_shape (fresh_tree d)
        \<and> begun (n_flow (attr w' [length (w_shapes w)])) \<and> in_bunch (n_flow (attr w' [length (w_shapes w)]))
        \<and> suspended (n_state (attr w' [length (w_shapes w)])) = suspended (n_state (attr w [j]))
        \<and> (\<forall>q \<in> set (walk (tree_shape (fresh_tree d)) [length (w_shapes w)]). linked (attr w' q))
        \<and> \<not> in_bunch (n_flow (attr w' [j]))
        \<and> (\<forall>p. valid w p \<longrightarrow> p \<noteq> [j] \<longrightarrow> unlinked_node (attr w' p) = unlinked_node (attr w p))
        \<and> w_server_state w' = w_server_state w \<and> w_audit w' = w_audit w)"
proof -
  let ?k = "length (w_shapes w)"
  obtain r0 v where v: "replace_flow decode parse path bytes w = (r0, v)" by (rule prod.exhaust)
  from replace_flow_cases [OF v reg] show ?thesis
  proof (elim disjE exE conjE)
    fix e assume "r0 = Inl e" "online w v" "w_flows v = w_flows w" "w_tracker v = w_tracker w"
    then show ?thesis using assms(1) v by (auto simp: run_command_replace_def seqM_def bindM_def)
  next
    fix j d us w1 w2
    assume r0: "r0 = Inr ()" and t: "replace_target w path = Inr [j]" and j: "j < ?k" "find_flow w (name_of w [j]) = Some [j]"
      and idle: "idle w [j]" and p: "prepared decode parse bytes w j d us w1 w2" and ex: "v = exchange [j] [?k] us w2"
    note ex = exchanged [OF p reg j(1) ex]
    obtain t' where "mark path {} True v = (Inr (), v\<lparr>w_tracker := t'\<rparr>)" using mark_target [OF t] by blast
    then have fin: "r = Inr \<lparr>sv_flag = 0, sv_message = ''flow replaced in memory; checkpoint pending''\<rparr>" "w' = v\<lparr>w_tracker := t'\<rparr>"
      using assms(1) v r0 by (auto simp: run_command_replace_def seqM_def bindM_def ret_def)
    have "map_of (w_flows w) (name_of w [j]) \<noteq> None" using j(2) by (auto simp: find_flow_def)
    then have key: "map fst (w_flows v) = map fst (w_flows w)"
      by (simp add: ex(1) update_keys map_of_eq_None_iff)
    have fl: "find_flow v n = (if n = name_of w [j] then Some [?k] else find_flow w n)" for n
      by (simp add: find_flow_def ex(1) update_conv')
    have lv: "begun (n_flow (attr w2 [?k]))" "linked (attr w2 q) = linked (attr w1 q)" for q
      using prepared_old(5) [OF p] p by (simp_all add: prepared_def Let_def load_view_def begun_view_def trigger_view_def fun_eq_iff linked_def)
    have li: "linked (attr v q)" if "q \<in> set (walk (tree_shape (fresh_tree d)) [?k])" for q
      using that walk_candidate [OF that] p lv(2) ex(6,7) by (cases "q = [?k]") (auto simp: prepared_def Let_def linked_def)
    have un: "unlinked_node (attr v q) = unlinked_node (attr w q)" if "valid w q" "q \<noteq> [j]" for q
      using ex(8) [of q] valid_last [OF that(1)] that(2) updates_rest(2) by metis
    have sub: "subtree v [?k] = tree_shape (fresh_tree d)" by (simp add: subtree_def ex(2) nth_opt_conv)
    show ?thesis
      unfolding fin sum.case
      by (intro exI [of _ j] exI [of _ d])
        (use t j idle p ex key fl lv li un sub in \<open>simp add: prepared_def Let_def find_flow_def subtree_def del: root_error.simps\<close>)
  qed
qed

end
