(* ===== verification/Replacement_References.thy ===== *)
theory Replacement_References
  imports Replacement_Effect
begin

text \<open>
  After a replacement no node of the bunch is bound into the flow that was replaced: the nodes of the other flows, because
  their references were looked up again, and those of the new flow, because its paths never lead to the old one.
\<close>

section \<open>The references of the new flow\<close>

definition beside :: "nat \<Rightarrow> nat \<Rightarrow> world \<Rightarrow> bool" where
  "beside j k s \<longleftrightarrow> registry_ok s \<and> j \<noteq> k \<and> name_of s [k] = name_of s [j]"

lemma reference_away:
  assumes "beside j k s" "valid s q" "last q = k" "reference s True [k] q x = Inr (Some t)"
  shows "last t \<noteq> j"
proof (cases "startswith x ''/'' \<and> candidate_nodes s [k] x = None")
  case False
  then show ?thesis using assms candidate_last [of s k] find_node_last [OF assms(2)]
    by (auto simp: reference_def beside_def split: if_splits option.splits)
next
  case True
  then have n: "py_split slash x ! 1 \<noteq> name_of s [k]" and b: "bunch_find_node s x = Inr (Some t)"
    using assms(4) by (auto simp: reference_def split: if_splits)
  obtain p where p: "find_flow s (py_split slash x ! 1) = Some p" "find_node s p x = Inr (Some t)"
    using b by (auto simp: bunch_find_node_def split: if_splits option.splits)
  obtain i where i: "p = [i]" "valid s [i]" "name_of s [i] = py_split slash x ! 1"
    using registry_find [OF _ p(1)] valid_root assms(1) by (auto simp: beside_def)
  then have "last t = i" using find_node_last [OF i(2)] p(2) by simp
  then show ?thesis using n i(3) assms(1) by (auto simp: beside_def)
qed

lemma bind_targets: "bind look var s q a0 = Inr a \<Longrightarrow> t \<in> set (ast_targets a) \<Longrightarrow> \<exists>x. look s q x = Inr (Some t)"
proof (induction a0 arbitrary: a)
  case (AstNodePath np)
  then show ?case by (auto simp: ast_targets_def List.map_filter_def bind_path_def bound_to_def split: sum.splits option.splits)
next
  case (AstVariablePath np x)
  then show ?case by (auto simp: ast_targets_def List.map_filter_def bind_path_def bound_to_def split: sum.splits option.splits)
next
  case (AstInteger n)
  then show ?case by (auto simp: ast_targets_def List.map_filter_def)
next
  case (AstNodeStatus n)
  then show ?case by (auto simp: ast_targets_def List.map_filter_def)
qed (auto simp: ast_targets_def map_filter_append dest!: bind_both_bound)

lemma bind_expression_away:
  assumes "bind_expression parse (\<lambda>w. reference w True [k]) var s q ex = Inr ex'" "beside j k s" "valid s q" "last q = k"
  shows "\<forall>t \<in> set (expression_targets ex'). last t \<noteq> j"
  using assms(1) bind_targets [of "\<lambda>w. reference w True [k]" var s q] reference_away [OF assms(2-4)]
  by (fastforce simp: bind_expression_def expression_targets_def split: option.splits sum.splits)

definition triggers_away :: "nat \<Rightarrow> pos \<Rightarrow> world \<Rightarrow> bool" where
  "triggers_away j q s \<longleftrightarrow> (\<forall>t \<in> set (expression_targets (n_trigger (attr s q))). last t \<noteq> j)
     \<and> (\<forall>t \<in> set (expression_targets (n_complete_trigger (attr s q))). last t \<noteq> j)"

lemma beside_cong:
  assumes "w_shapes s' = w_shapes s" "w_flows s' = w_flows s" "\<And>p. name_of s' p = name_of s p"
  shows "beside j k s' = beside j k s"
  by (simp add: beside_def registry_ok_def assms)

lemma forM_establishes_inv:
  assumes "forM xs f s = (Inr u, s')" "I s"
    and "\<And>x s s1. x \<in> set xs \<Longrightarrow> I s \<Longrightarrow> f x s = (Inr (), s1) \<Longrightarrow> I s1 \<and> P x s1 \<and> (\<forall>y. P y s \<longrightarrow> P y s1)"
  shows "(\<forall>x \<in> set xs. P x s') \<and> (\<forall>y. P y s \<longrightarrow> P y s')"
  using assms
proof (induction xs arbitrary: s)
  case (Cons x xs)
  from Cons.prems(1) obtain s1 where s1: "f x s = (Inr (), s1)" "forM xs f s1 = (Inr u, s')" by (auto elim: seqM_InrE)
  have x: "I s1 \<and> P x s1 \<and> (\<forall>y. P y s \<longrightarrow> P y s1)" using Cons.prems(3) [OF _ Cons.prems(2) s1(1)] by simp
  have "(\<forall>x \<in> set xs. P x s') \<and> (\<forall>y. P y s1 \<longrightarrow> P y s')" using x Cons.prems(3) by (intro Cons.IH [OF s1(2)]) auto
  then show ?case using x by simp
qed (simp add: ret_def)

lemma bind_node_away:
  assumes "bind_node parse (\<lambda>w. reference w True [k]) var q s = (Inr (), s1)" "beside j k s" "valid s q" "last q = k"
  shows "beside j k s1" "w_shapes s1 = w_shapes s" "triggers_away j q s1" "triggers_away j y s \<Longrightarrow> triggers_away j y s1"
proof -
  let ?look = "\<lambda>w. reference w True [k]"
  obtain e where e: "bind_expression parse ?look var s q (n_trigger (attr s q)) = Inr e"
    using assms(1) by (auto simp: bind_node_def seqM_def bindM_def withState_def raise_def split: sum.splits)
  let ?m = "upd q (\<lambda>a. a\<lparr>n_trigger := e\<rparr>) s"
  have bm: "beside j k ?m" "valid ?m q" using assms(2,3) beside_cong [of ?m s] by (simp_all add: attr_upd valid_def upd_def)
  obtain c where c: "bind_expression parse ?look var ?m q (n_complete_trigger (attr ?m q)) = Inr c"
    and s1: "s1 = upd q (\<lambda>a. a\<lparr>n_complete_trigger := c\<rparr>) ?m"
    using assms(1) e by (auto simp: bind_node_def seqM_def bindM_def withState_def raise_def modify_def split: sum.splits)
  show "beside j k s1" using bm(1) beside_cong [of s1 ?m] by (simp add: s1 attr_upd upd_def)
  show "w_shapes s1 = w_shapes s" by (simp add: s1 upd_def)
  show q: "triggers_away j q s1"
    using bind_expression_away [OF e assms(2-4)] bind_expression_away [OF c bm assms(4)] by (simp add: triggers_away_def s1 attr_upd)
  show "triggers_away j y s1" if "triggers_away j y s"
    using that q by (cases "y = q") (simp_all add: triggers_away_def s1 attr_upd)
qed

lemma bind_expressions_away:
  assumes "bind_expressions parse True [k] s = (Inr u, s')" "beside j k s" "k < length (w_shapes s)"
  shows "\<forall>q \<in> set (walk (subtree s [k]) [k]). triggers_away j q s'"
proof -
  let ?ns = "walk (subtree s [k]) [k]" and ?I = "\<lambda>v. beside j k v \<and> w_shapes v = w_shapes s"
  have run: "forM ?ns (bind_node parse (\<lambda>w. reference w True [k]) find_variable) s = (Inr u, s')"
    using assms(1) by (simp add: bind_expressions_def withState_def)
  have step: "?I v1 \<and> triggers_away j q v1 \<and> (\<forall>y. triggers_away j y v \<longrightarrow> triggers_away j y v1)"
    if q: "q \<in> set ?ns" "?I v" and b: "bind_node parse (\<lambda>w. reference w True [k]) find_variable q v = (Inr (), v1)" for q v v1
  proof -
    have "valid v q" "last q = k"
      using walk_valid [OF valid_root [OF assms(3)] q(1)] walk_candidate [OF q(1)] q(2) by (simp_all add: valid_def)
    then show ?thesis using bind_node_away [OF b, of j] q(2) by auto
  qed
  have "(\<forall>q \<in> set ?ns. triggers_away j q s') \<and> (\<forall>q. triggers_away j q s \<longrightarrow> triggers_away j q s')"
    by (rule forM_establishes_inv [OF run, where I = ?I]) (use assms(2) in simp, rule step)
  then show ?thesis by blast
qed

definition limits_away :: "shape list \<Rightarrow> nat \<Rightarrow> nat \<Rightarrow> world \<Rightarrow> bool" where
  "limits_away ss j k s \<longleftrightarrow> w_shapes s = ss \<and> beside j k s
     \<and> (\<forall>q. inside ss k q \<longrightarrow> (\<forall>il \<in> set (n_in_limits (attr s q)). \<forall>r. il_limit il = Some r \<longrightarrow> last (fst r) \<noteq> j))"

definition away_only :: "shape list \<Rightarrow> nat \<Rightarrow> nat \<Rightarrow> world \<Rightarrow> world \<Rightarrow> bool" where
  "away_only ss j k s s' \<longleftrightarrow> limits_away ss j k s \<longrightarrow> limits_away ss j k s'"

interpretation awayf: frame "away_only ss j k" for ss j k
  by unfold_locales (auto simp: away_only_def)

lemma away_upd:
  assumes "\<And>a. n_name (f a) = n_name a"
    and "\<And>il r. il \<in> set (n_in_limits (f (attr s q))) \<Longrightarrow> il_limit il = Some r \<Longrightarrow> il \<notin> set (n_in_limits (attr s q)) \<Longrightarrow> last (fst r) \<noteq> j"
  shows "away_only ss j k s (upd q f s)"
  unfolding away_only_def limits_away_def
proof (intro impI conjI allI ballI; elim conjE)
  assume "w_shapes s = ss" "beside j k s"
  then show "w_shapes (upd q f s) = ss" "beside j k (upd q f s)"
    using beside_cong [of "upd q f s" s] assms(1) by (simp_all add: attr_upd upd_def)
next
  fix p il r
  assume p: "inside ss k p" "il \<in> set (n_in_limits (attr (upd q f s) p))" "il_limit il = Some r"
    and s: "\<forall>q. inside ss k q \<longrightarrow> (\<forall>il \<in> set (n_in_limits (attr s q)). \<forall>r. il_limit il = Some r \<longrightarrow> last (fst r) \<noteq> j)"
  show "last (fst r) \<noteq> j"
  proof (cases "il \<in> set (n_in_limits (attr s p))")
    case True
    then show ?thesis using s p(1,3) by blast
  next
    case False
    then have "p = q" using p(2) by (auto simp: attr_upd split: if_splits)
    then show ?thesis using assms(2) [OF _ p(3)] p(2) False by (simp add: attr_upd)
  qed
qed

lemma reference_limit_away:
  assumes "reference_limit (\<lambda>w. reference w True [k]) s q il = Inr (Some r)" "beside j k s" "valid s q" "last q = k"
  shows "last (fst r) \<noteq> j"
proof (cases "il_node_path il")
  case None
  then obtain p where p: "p \<in> set (ups q)" "find_limit s p (il_limit_name il) = Some r"
    using assms(1) first_some_SomeD by (fastforce simp: reference_limit_def find_limit_up_def)
  then have "last p = k" using get_root_ups [OF p(1)] assms(4) by (simp add: get_root_def)
  then show ?thesis using p(2) assms(2) by (auto simp: find_limit_def beside_def)
next
  case (Some x)
  then obtain p where "reference s True [k] q x = Inr (Some p)" "fst r = p"
    using assms(1) by (auto simp: reference_limit_def find_limit_def split: if_splits sum.splits option.splits)
  then show ?thesis using reference_away [OF assms(2-4)] by simp
qed

lemma away_check_reference:
  assumes "inside ss k q"
  shows "obeys (away_only ss j k) (check_reference (\<lambda>w. reference w True [k]) q i)"
  unfolding obeys_def
proof
  fix s
  let ?p = "check_reference (\<lambda>w. reference w True [k]) q i"
  show "away_only ss j k s (after (?p s))"
  proof (cases "limits_away ss j k s \<and> after (?p s) \<noteq> s")
    case True
    then obtain il r where r: "nth_opt (n_in_limits (attr s q)) i = Some il"
      "reference_limit (\<lambda>w. reference w True [k]) s q il = Inr (Some r)" "after (?p s) = upd q (set_limit i r) s"
      by (auto simp: check_reference_def withState_def ret_def raise_def modify_def split: option.splits sum.splits if_splits)
    have "last (fst r) \<noteq> j"
      using True assms by (intro reference_limit_away [OF r(2)]) (auto simp: limits_away_def inside_def valid_def)
    then have "away_only ss j k s (upd q (set_limit i r) s)"
      by (intro away_upd) (auto simp: set_limit_def in_set_conv_nth nth_opt_conv nth_list_update split: option.splits if_splits)
    then show ?thesis using r(3) by simp
  qed (auto simp: away_only_def)
qed

lemma away_validate:
  assumes "limits_away ss j k s" "k < length ss" "builder_validate_references True [k] s = (r, s')"
  shows "limits_away ss j k s'"
proof -
  have ss: "w_shapes s = ss" using assms(1) by (simp add: limits_away_def)
  have "inside ss k q" if "q \<in> set (walk (subtree s [k]) [k])" for q
    using walk_valid [OF valid_root that] walk_candidate [OF that] assms(2) ss by (simp add: inside_def valid_def)
  then have "obeys (away_only ss j k) (forM (walk (subtree s [k]) [k]) (check_references (\<lambda>w. reference w True [k])))"
    unfolding check_references_def by (intro awayf.obeys_forM awayf.obeys_withState away_check_reference)
  from obeysD [OF this, of s] show ?thesis
    using assms(1,3) by (simp add: away_only_def builder_validate_references_def withState_def)
qed

lemma away_bind: "obeys (away_only ss j k) (bind_expressions parse existing [k])"
proof -
  have u: "obeys (away_only ss j k) (modify (upd q f))" if "\<And>a. n_name (f a) = n_name a \<and> n_in_limits (f a) = n_in_limits a" for q f
    using that away_upd [of f] by (simp add: obeys_def modify_def)
  show ?thesis unfolding bind_expressions_def bind_node_def
    by (intro awayf.obeys_withState awayf.obeys_forM awayf.obeys_seqM awayf.obeys_sum awayf.obeys_raise u) simp_all
qed

lemma build_steps:
  assumes "build_definition decode parse existing initialize bytes w = (Inr (Some root), w1)"
  obtains d w0 wb u v where "decode bytes = Inr (FlowRoot d)" "root_error (FlowRoot d) = None" "root = [length (w_shapes w)]"
    "initialize root (install (fresh_tree d) w) = (Inr (), w0)"
    "bind_expressions parse existing root w0 = (Inr u, wb)" "builder_validate_references existing root wb = (Inr v, w1)"
proof -
  obtain d where d: "decode bytes = Inr (FlowRoot d)" "root_error (FlowRoot d) = None"
    using assms by (auto simp: build_definition_def withState_def raise_def ret_def split: sum.splits option.splits definition_root.splits)
  moreover have "construct d = Inr (fresh_tree d)" using d(2) construct_fresh [of d "{EFlow}"] by simp
  ultimately show thesis using that assms
    by (auto simp: build_definition_def withState_def Let_def modify_def ret_def simp del: root_error.simps elim!: seqM_InrE)
qed

lemma beside_begun:
  assumes "registry_ok w" "j < length (w_shapes w)" "replace_initialize [j] [length (w_shapes w)] (install (fresh_tree d) w) = (Inr (), w0)"
  shows "limits_away (w_shapes w @ [tree_shape (fresh_tree d)]) j (length (w_shapes w)) w0"
proof -
  let ?k = "length (w_shapes w)" and ?v = "install (fresh_tree d) w"
  have sh: "w_shapes ?v = w_shapes w @ [tree_shape (fresh_tree d)]" by (simp add: install_def Let_def)
  have b: "flow_begin [?k] False ?v = (Inr (), w0)" and n: "name_of ?v [?k] = name_of ?v [j]"
    using assms(3) by (auto simp: replace_initialize_def withState_def raise_def mapError_def split: if_splits prod.splits sum.splits)
  have "own_only (w_shapes ?v) ?k ?v (after (flow_begin [?k] False ?v))" by (rule obeysD [OF own_flow_begin [OF own_fresh(2)]])
  then have o: "own (w_shapes ?v) ?k w0" and c: "candidate_only ?k ?v w0" using own_fresh(1) [of d w] b by (simp_all add: own_only_def)
  have sk: "skeleton w0 = skeleton ?v" using skeleton_obeys [OF skel.obeys_flow_begin, of "[?k]" False ?v] b by simp
  note on = candidate_online [OF c]
  have "name_of w0 [i] = name_of w [i]" if "i < ?k" for i using onlineD [OF conjunct1 [OF on] valid_root [OF that]] by simp
  then have "registry_ok w0" using assms(1) on by (fastforce simp: registry_ok_def)
  moreover have "name_of w0 [?k] = name_of w0 [j]" using n skeletonD(3) [OF sk] by simp
  ultimately have "beside j ?k w0" using assms(2) by (simp add: beside_def)
  then show ?thesis using o own_shapes [OF o] ownD(2) [OF o] insideD assms(2) sh unfolding limits_away_def by fastforce
qed

lemma build_away:
  assumes "registry_ok w" "j < length (w_shapes w)"
    and "build_definition decode parse True (replace_initialize [j]) bytes w = (Inr (Some [length (w_shapes w)]), w1)"
    and "decode bytes = Inr (FlowRoot d)" "q \<in> set (walk (tree_shape (fresh_tree d)) [length (w_shapes w)])"
  shows "\<forall>t \<in> set (node_targets (attr w1 q)). last t \<noteq> j"
proof -
  let ?k = "length (w_shapes w)" and ?ss = "w_shapes w @ [tree_shape (fresh_tree d)]"
  from assms(3) obtain d' w0 wb u v where "decode bytes = Inr (FlowRoot d')"
    and i': "replace_initialize [j] [?k] (install (fresh_tree d') w) = (Inr (), w0)"
    and bi: "bind_expressions parse True [?k] w0 = (Inr u, wb)" and va: "builder_validate_references True [?k] wb = (Inr v, w1)"
    by (rule build_steps)
  then have i: "replace_initialize [j] [?k] (install (fresh_tree d) w) = (Inr (), w0)" using assms(4) by simp
  have l0: "limits_away ?ss j ?k w0" by (rule beside_begun [OF assms(1,2) i])
  have "away_only ?ss j ?k w0 (after (bind_expressions parse True [?k] w0))" by (rule obeysD [OF away_bind])
  then have "limits_away ?ss j ?k wb" using l0 bi by (simp add: away_only_def)
  then have l1: "limits_away ?ss j ?k w1" using away_validate [OF _ _ va] by simp
  have sub: "subtree w0 [?k] = tree_shape (fresh_tree d)" using l0 by (simp add: limits_away_def subtree_def nth_opt_conv)
  have "triggers_away j q wb" using bind_expressions_away [OF bi] l0 assms(5) sub by (simp add: limits_away_def)
  moreover have "trigger_view w1 = trigger_view wb" using obeys_same_wp [OF trigger_validate, of True "[?k]" wb] by (simp add: va)
  ultimately have "triggers_away j q w1" by (simp add: triggers_away_def trigger_view_def fun_eq_iff)
  moreover have "inside ?ss ?k q"
    using walk_valid [of w0 "[?k]" q] walk_candidate [OF assms(5)] valid_root [of ?k w0] sub assms(5) l0
    by (simp add: inside_def limits_away_def valid_def)
  then have "last (fst r) \<noteq> j" if "il \<in> set (n_in_limits (attr w1 q))" "il_limit il = Some r" for il r
    using l1 that unfolding limits_away_def by blast
  ultimately show ?thesis by (fastforce simp: node_targets_def triggers_away_def List.map_filter_def)
qed

section \<open>The references of the other flows\<close>

lemma faithful_online:
  assumes "online w w'" "w_flows w' = w_flows w" "registry_ok w" "valid w q" "faithful parse w q"
  shows "faithful parse w' q"
proof -
  have a: "attr w' q = attr w q" using onlineD [OF assms(1,4)] by simp
  have eq: "leads w' q = leads w q"
    using online_find_node [OF assms(1,4)] online_bunch(1) [OF assms(1-3)] by (simp add: leads_def fun_eq_iff)
  show ?thesis using assms(5) unfolding faithful_def faithful_expression_def eq a .
qed

lemma registry_online:
  assumes "online w w'" "w_flows w' = w_flows w" "registry_ok w" "length (w_shapes w) \<le> length (w_shapes w')"
  shows "registry_ok w'"
  using assms(2-4) onlineD [OF assms(1) valid_root] by (fastforce simp: registry_ok_def)

lemma new_targets:
  assumes p: "prepared decode parse bytes w j d us w1 w2" and reg: "registry_ok w" "j < length (w_shapes w)"
    and v: "v = exchange [j] [length (w_shapes w)] us w2" and q: "q \<in> set (walk (tree_shape (fresh_tree d)) [length (w_shapes w)])"
  shows "\<forall>t \<in> set (node_targets (attr v q)). last t \<noteq> j"
proof -
  let ?k = "length (w_shapes w)"
  have "load_view w2 = load_view w1" using prepared_old(5) [OF p] .
  then have "node_targets (attr w2 q) = node_targets (attr w1 q)"
    by (simp add: load_view_def trigger_view_def node_targets_def fun_eq_iff)
  moreover have "node_targets (attr v q) = node_targets (attr w2 q)"
    using exchanged(6,7) [OF p reg v] walk_candidate [OF q] by (cases "q = [?k]") (simp_all add: node_targets_def)
  moreover have "\<forall>t \<in> set (node_targets (attr w1 q)). last t \<noteq> j"
    using p build_away [OF reg _ _ q, of decode parse bytes w1] by (simp add: prepared_def Let_def)
  ultimately show ?thesis by simp
qed

lemma other_targets:
  assumes p: "prepared decode parse bytes w j d us w1 w2" and reg: "registry_ok w" "j < length (w_shapes w)"
    and v: "v = exchange [j] [length (w_shapes w)] us w2" and q: "q \<in> set (bunch_walk w)" "last q \<noteq> j" and f: "faithful parse w q"
  shows "\<forall>t \<in> set (node_targets (attr v q)). last t \<noteq> j"
proof -
  let ?k = "length (w_shapes w)"
  note old = prepared_old [OF p] and val = walk_bunch_valid [OF reg(1) q(1)]
  have us: "reference_updates parse w1 [j] [?k] = Inr us" and c: "candidate_only ?k (install (fresh_tree d) w) w1"
    using p by (simp_all add: prepared_def Let_def)
  have r1: "registry_ok w1" using registry_online [OF old(1,2) reg(1)] candidate_online [OF c] by simp
  have q1: "q \<in> set (bunch_walk w1)" using q(1) online_bunch(2) [OF old(1,2) reg(1)] by simp
  obtain x where x: "attr v q = attr (fold apply_update us x) q" "attr x q = attr w q"
    using exchanged(8) [OF p reg v, of q] valid_last [OF val] q(2) by (cases "q = [j]") auto
  have "attr x q = attr w1 q" using x(2) onlineD [OF old(1) val] by simp
  from references_away [OF r1 us q1 q(2) _ faithful_online [OF old(1,2) reg(1) val f] this] show ?thesis using reg(2) x(1) by simp
qed

lemma exchanged_walk:
  assumes p: "prepared decode parse bytes w j d us w1 w2" and reg: "registry_ok w" "j < length (w_shapes w)" "name_of w [j] = n"
    and v: "v = exchange [j] [length (w_shapes w)] us w2" and q: "q \<in> set (bunch_walk v)"
  shows "q \<in> set (walk (tree_shape (fresh_tree d)) [length (w_shapes w)]) \<or> (q \<in> set (bunch_walk w) \<and> last q \<noteq> j)"
proof -
  let ?k = "length (w_shapes w)"
  note ex = exchanged [OF p reg(1,2) v]
  obtain m i where i: "(m, i) \<in> set (w_flows v)" "q \<in> set (walk (subtree v [i]) [i])" using q by (auto simp: bunch_walk_def)
  have "distinct (map fst (w_flows v))" using reg(1) by (simp add: ex(1) registry_ok_def distinct_update)
  then have "map_of (w_flows v) m = Some i" using i(1) by simp
  then consider "i = ?k" | "m \<noteq> n" "(m, i) \<in> set (w_flows w)" by (auto simp: ex(1) update_conv' reg(3) split: if_splits dest: map_of_SomeD)
  then show ?thesis
  proof cases
    case 1
    then show ?thesis using i(2) by (simp add: subtree_def ex(2) nth_opt_conv)
  next
    case 2
    then have "i < ?k" "name_of w [i] = m" using reg(1) by (auto simp: registry_ok_def)
    then have "i \<noteq> j" "subtree v [i] = subtree w [i]" using reg(3) 2(1) by (auto simp: subtree_def ex(2) nth_opt_conv nth_append)
    then show ?thesis using i(2) 2(2) walk_candidate [OF i(2)] by (auto simp: bunch_walk_def)
  qed
qed

text \<open>
  C32. A replacement leaves no reference behind. If the bindings of the other flows were what their paths led to, then after
  the command no trigger, no complete trigger and no in-limit of any node of the bunch leads into the flow that was
  replaced: references to it lead into the new flow, which has no reference to the old one either.
\<close>

theorem replace_leaves_no_reference:
  assumes "run_command_replace decode parse path bytes w = (Inr s, w')" and reg: "registry_ok w"
    and "replace_target w path = Inr old" and "\<forall>q \<in> set (bunch_walk w). get_root q \<noteq> old \<longrightarrow> faithful parse w q"
    and "q \<in> set (bunch_walk w')" "t \<in> set (node_targets (attr w' q))"
  shows "get_root t \<noteq> old"
proof -
  obtain r0 v where v: "replace_flow decode parse path bytes w = (r0, v)" by (rule prod.exhaust)
  with assms(1) have r0: "r0 = Inr ()" by (cases r0) (simp_all add: run_command_replace_def seqM_def bindM_def)
  then obtain j d us w1 w2 where old: "old = [j]" "j < length (w_shapes w)" "find_flow w (name_of w [j]) = Some [j]"
    and p: "prepared decode parse bytes w j d us w1 w2" and ex: "v = exchange [j] [length (w_shapes w)] us w2"
    using replace_flow_cases [OF v reg] assms(3) by auto
  obtain t' where "mark path {} True v = (Inr (), v\<lparr>w_tracker := t'\<rparr>)" using mark_target [OF assms(3)] by blast
  then have "w' = v\<lparr>w_tracker := t'\<rparr>" using assms(1) v r0 by (simp add: run_command_replace_def seqM_def bindM_def ret_def)
  then have "q \<in> set (bunch_walk v)" "t \<in> set (node_targets (attr v q))" using assms(5,6) by (simp_all add: bunch_walk_def subtree_def)
  then have "last t \<noteq> j"
    using exchanged_walk [OF p reg old(2) refl ex] new_targets [OF p reg old(2) ex] other_targets [OF p reg old(2) ex] assms(4) old(1)
    by (auto simp: get_root_def)
  then show ?thesis by (simp add: old(1) get_root_def)
qed

end
