(* ===== verification/Replacement_Applications.thy ===== *)
theory Replacement_Applications
  imports Replacement_References Sample_World
begin

text \<open>
  The theorems about the replacement of a flow, applied to a bunch of two flows, where a task of the second waits for the
  first to complete and takes a token of its limit.
\<close>

definition rp_parse :: parser where
  "rp_parse text = (if text = ''/f == complete''
     then Inr (AstOpEq (AstNodePath \<lparr>np_node_path = ''/f'', np_parent_node = None, np_reference_node = None\<rparr>) (AstNodeStatus complete))
     else Inl (PyError PyValueError))"

definition rp_fields :: "string \<Rightarrow> string \<Rightarrow> limit_definition list \<Rightarrow> node_fields" where
  "rp_fields ty name ls = \<lparr>nd_type_id = ty, nd_name = name, nd_user_parameters = [], nd_default_node_status = queued,
     nd_trigger = None, nd_complete_trigger = None, nd_events = [], nd_meters = [], nd_limits = ls, nd_in_limits = [],
     nd_repeat = None, nd_times = [], nd_script_path = None\<rparr>"

text \<open>The new flow has no task, and a limit of two tokens instead of one.\<close>

definition rp_document :: node_definition where
  "rp_document = NodeDefinition (rp_fields ''takler.flow'' ''f'' [\<lparr>ld_name = ''l'', ld_limit = 2\<rparr>])
     []"

definition rp_flow :: "string \<Rightarrow> limit list \<Rightarrow> node_attrs" where
  "rp_flow name ls = (new_node KFlow name)\<lparr>n_limits := ls, n_state := \<lparr>node_status = queued, suspended = True\<rparr>,
     n_flow := new_flow_data\<lparr>in_bunch := True, begun := True\<rparr>\<rparr>"

definition rp_waiting :: node_attrs where
  "rp_waiting = (new_node KTask ''u'')\<lparr>n_trigger := Some \<lparr>ex_free = False, ex_ast = Some (AstOpEq (AstNodePath
       \<lparr>np_node_path = ''/f'', np_parent_node = Some [0, 1], np_reference_node = Some [0]\<rparr>) (AstNodeStatus complete)),
       ex_expression_str = ''/f == complete''\<rparr>,
     n_in_limits := [\<lparr>il_limit_name = ''l'', il_tokens = 1, il_node_path = Some ''/f'', il_limit = Some ([0], 0)\<rparr>]\<rparr>"

definition rp_world :: world where
  "rp_world = sample\<lparr>w_shapes := [Shape [Shape []], Shape [Shape []]],
     w_attrs := (\<lambda>p. if p = [0] then rp_flow ''f'' [Limit ''l'' 1] else if p = [0, 0] then new_node KTask ''t''
       else if p = [1] then rp_flow ''g'' [] else if p = [0, 1] then rp_waiting else new_node KContainer ''c''),
     w_flows := [(''f'', 0), (''g'', 1)]\<rparr>"

definition rp_run :: "(exc + service_response) \<times> world" where
  "rp_run = run_command_replace (\<lambda>_. Inr (FlowRoot rp_document)) rp_parse ''/f'' ''document'' rp_world"

lemma rp_result: "case rp_run of (Inl _, _) \<Rightarrow> False
    | (Inr _, w') \<Rightarrow> [0, 1] \<in> set (bunch_walk w') \<and> [2] \<in> set (node_targets (attr w' [0, 1]))"
  by code_simp

lemma rp_faithful: "list_all (\<lambda>q. get_root q \<noteq> [0] \<longrightarrow> faithful rp_parse rp_world q) (bunch_walk rp_world)"
  by code_simp

lemma rp_target: "replace_target rp_world ''/f'' = Inr [0]"
  by code_simp

lemma rp_registry: "registry_ok rp_world"
  by (simp add: registry_ok_def rp_world_def rp_flow_def new_node_def clean_name_def)

lemma rp_runs: obtains s w' where "run_command_replace (\<lambda>_. Inr (FlowRoot rp_document)) rp_parse ''/f'' ''document'' rp_world = (Inr s, w')"
  "[0, 1] \<in> set (bunch_walk w')" "[2] \<in> set (node_targets (attr w' [0, 1]))"
  using rp_result unfolding rp_run_def by (auto split: prod.splits sum.splits)

theorem replace_all_or_nothing_witness:
  "\<exists>s w'. run_command_replace (\<lambda>_. Inr (FlowRoot rp_document)) rp_parse ''/f'' ''document'' rp_world = (Inr s, w')
    \<and> find_flow w' ''f'' = Some [2] \<and> find_flow w' ''g'' = Some [1] \<and> begun (n_flow (attr w' [2])) \<and> suspended (n_state (attr w' [2]))
    \<and> unlinked_node (attr w' [0, 1]) = unlinked_node rp_waiting"
proof -
  obtain s w' where run: "run_command_replace (\<lambda>_. Inr (FlowRoot rp_document)) rp_parse ''/f'' ''document'' rp_world = (Inr s, w')"
    by (rule rp_runs)
  have k: "length (w_shapes rp_world) = 2" "name_of rp_world [0] = ''f''" "suspended (n_state (attr rp_world [0]))"
    "valid rp_world [0, 1]" "attr rp_world [0, 1] = rp_waiting" "find_flow rp_world ''g'' = Some [1]"
    by (simp_all add: rp_world_def rp_flow_def new_node_def valid_def find_flow_def)
  from replace_all_or_nothing [OF run rp_registry] obtain j where
    "replace_target rp_world ''/f'' = Inr [j]" "\<forall>n. find_flow w' n = (if n = name_of rp_world [j] then Some [2] else find_flow rp_world n)"
    "begun (n_flow (attr w' [2]))" "suspended (n_state (attr w' [2])) = suspended (n_state (attr rp_world [j]))"
    "\<forall>p. valid rp_world p \<longrightarrow> p \<noteq> [j] \<longrightarrow> unlinked_node (attr w' p) = unlinked_node (attr rp_world p)"
    unfolding sum.case k(1) by blast
  then show ?thesis using run k rp_target by auto
qed

theorem replace_leaves_no_reference_witness:
  "\<exists>s w'. run_command_replace (\<lambda>_. Inr (FlowRoot rp_document)) rp_parse ''/f'' ''document'' rp_world = (Inr s, w')
    \<and> [0, 1] \<in> set (bunch_walk w') \<and> [2] \<in> set (node_targets (attr w' [0, 1])) \<and> get_root [2] \<noteq> [0]"
proof -
  obtain s w' where run: "run_command_replace (\<lambda>_. Inr (FlowRoot rp_document)) rp_parse ''/f'' ''document'' rp_world = (Inr s, w')"
    and t: "[0, 1] \<in> set (bunch_walk w')" "[2] \<in> set (node_targets (attr w' [0, 1]))" by (rule rp_runs)
  have "\<forall>q \<in> set (bunch_walk rp_world). get_root q \<noteq> [0] \<longrightarrow> faithful rp_parse rp_world q"
    using rp_faithful by (simp add: list_all_iff)
  from replace_leaves_no_reference [OF run rp_registry rp_target this t] show ?thesis using run t by blast
qed

end
