(* ===== verification/Service_Applications.thy ===== *)
theory Service_Applications
  imports Applications Main_Loop Batch_Client Client_Retry Definition_Loading Checkpoint_Applications Document_Applications Replacement_Applications
begin

text \<open>
  The theorems about the audit trail, definition documents, the handlers, the batch protocol and the main loop, applied to the sample bunch.
\<close>

definition sample_entry :: audit_record where
  "sample_entry = \<lparr>au_timestamp = ''2026-01-01T00:00:00'', au_event = EVENT_CONTROL, au_command = ''requeue'',
     au_user = ''eve'', au_peer = ''unknown'', au_target = [''/f''], au_outcome = OUTCOME_SUCCESS, au_error_code = 0,
     au_reason = None, au_results = None\<rparr>"


section \<open>Loading\<close>

lemma build_journal:
  assumes "\<And>d. root_error (FlowRoot d) = None \<Longrightarrow> candidate_only (length (w_shapes w)) (install (fresh_tree d) w)
      (after (initialize [length (w_shapes w)] (install (fresh_tree d) w)))"
    "build_definition decode parse existing initialize bytes w = (r, w1)"
  shows "keeps_journal w w1"
  using build_candidate [OF assms(2,1)] candidate_online by (auto simp: keeps_journal_def journalled_def)

lemma mark_keeps: "obeys keeps_journal (mark path groups ivd)"
proof -
  have "keeps_journal w (after (mark path groups ivd w))" for w
    using mark_journalled [of w path groups ivd] by (auto simp: keeps_journal_def)
  then show ?thesis by (simp add: obeys_def)
qed

lemma load_journal: "obeys keeps_journal (run_command_load decode parse ty bytes)"
proof -
  have "keeps_journal w (after (run_command_load decode parse ty bytes w))" for w
  proof -
    obtain rb w1 where b: "build_definition decode parse True (\<lambda>_. ret ()) bytes w = (rb, w1)" by (rule prod.exhaust)
    have same: "keeps_journal w w1" by (rule build_journal [OF _ b]) (simp add: ret_def cand.R_refl)
    have flows: "obeys keeps_journal (modify (\<lambda>w. w\<lparr>w_flows := g w\<rparr>))" for g
      by (simp add: obeys_def prog_defs keeps_journal_def journalled_def)
    have up: "obeys keeps_journal (updN q f)" for q f
      by (simp add: obeys_def updN_def prog_defs keeps_journal_def journalled_def)
    have "obeys keeps_journal (add_flow root)" for root
      unfolding add_flow_def
      by (intro journal_inv.obeys_seqM journal_inv.obeys_withState journal_inv.obeys_ensure_definition_generation flows mark_keeps up)
    then have "obeys keeps_journal (withState (\<lambda>w. if find_flow w (name_of w root) \<noteq> None then raise FlowStateError
        else seqM (add_flow root) (withState (\<lambda>w. mark (node_path w root) {} True))))" for root
      by (intro journal_inv.obeys_withState journal_inv.obeys_if journal_inv.obeys_raise journal_inv.obeys_seqM mark_keeps)
    from obeysD [OF this] journal_inv.R_trans [OF same] same show ?thesis
      by (auto simp: run_command_load_def bindM_def mapError_def b raise_def journal_inv.R_refl split: sum.splits option.splits)
  qed
  then show ?thesis by (simp add: obeys_def)
qed

lemma exchange_journal: "keeps_journal w (exchange old new us w)"
proof -
  have "w_tracker (fold apply_update us v) = w_tracker v" for v by (subst updates_rest(1)) simp
  then show ?thesis by (simp add: exchange_def Let_def keeps_journal_def journalled_def upd_def)
qed

lemma replace_journal: "obeys keeps_journal (run_command_replace decode parse path bytes)"
proof -
  have step: "obeys keeps_journal (mapError replace_error (build_definition decode parse True (replace_initialize old) bytes))" for old
  proof -
    have "keeps_journal w (after (build_definition decode parse True (replace_initialize old) bytes w))" for w
      by (rule build_journal [where initialize = "replace_initialize old"]) (rule replace_initialize_only, rule prod.collapse [symmetric])
    then show ?thesis by (auto simp: obeys_def mapError_def split: prod.splits sum.splits dest: sndI)
  qed
  have ex: "obeys keeps_journal (modify (exchange old new us))" for old new us
    by (simp add: obeys_def modify_def exchange_journal)
  show ?thesis
    unfolding run_command_replace_def replace_flow_def
    by (intro journal_inv.obeys_seqM journal_inv.obeys_bindM journal_inv.obeys_liftE journal_inv.obeys_withState journal_inv.obeys_if
        journal_inv.obeys_raise journal_inv.obeys_ret journal_inv.obeys_ensure_definition_generation mark_keeps step ex)
      (auto split: option.splits intro!: journal_inv.obeys_seqM journal_inv.obeys_bindM journal_inv.obeys_liftE journal_inv.obeys_withState
        journal_inv.obeys_if journal_inv.obeys_raise journal_inv.obeys_ensure_definition_generation ex)
qed

definition sample_fields_of :: "string \<Rightarrow> string \<Rightarrow> node_fields" where
  "sample_fields_of ty name = \<lparr>nd_type_id = ty, nd_name = name, nd_user_parameters = [\<lparr>pd_name = ''N'', pd_value = PInt 3\<rparr>],
     nd_default_node_status = queued, nd_trigger = None, nd_complete_trigger = None,
     nd_events = [\<lparr>ed_name = ''e'', ed_initial_value = False\<rparr>], nd_meters = [\<lparr>md_name = ''m'', md_min_value = 0, md_max_value = 9\<rparr>],
     nd_limits = [\<lparr>ld_name = ''cpu'', ld_limit = 4\<rparr>], nd_in_limits = [\<lparr>id_limit_name = ''cpu'', id_node_path = None, id_tokens = 2\<rparr>],
     nd_repeat = Some \<lparr>rf_name = ''D'', rf_start_date = ''20240228'', rf_end_date = ''20240302'', rf_step = 1\<rparr>,
     nd_times = [''07:30''], nd_script_path = None\<rparr>"

definition sample_document :: "string \<Rightarrow> node_definition" where
  "sample_document name = NodeDefinition (sample_fields_of ''takler.flow'' name)
     [NodeDefinition (sample_fields_of ''takler.task'' ''a'') []]"

lemma sample_document_ok: "root_error (FlowRoot (sample_document ''g'')) = None"
  by code_simp

theorem definition_roundtrip_witness:
  "construct (sample_document ''g'') = Inr (fresh_tree (sample_document ''g''))
   \<and> export_definition (fresh_tree (sample_document ''g'')) = Inr (sample_document ''g'')"
  using definition_roundtrip [OF sample_document_ok] .

lemma sample_loads: "fst (run_command_load (\<lambda>b. Inr (FlowRoot (sample_document b))) no_parser ''json'' ''g'' sample) = Inr ()"
  by code_simp

theorem load_all_or_nothing_witness:
  "online sample (after (run_command_load (\<lambda>b. Inr (FlowRoot (sample_document b))) no_parser ''json'' ''g'' sample))
   \<and> find_flow (after (run_command_load (\<lambda>b. Inr (FlowRoot (sample_document b))) no_parser ''json'' ''g'' sample)) ''g'' = Some [1]
   \<and> find_flow (after (run_command_load (\<lambda>b. Inr (FlowRoot (sample_document b))) no_parser ''json'' ''g'' sample)) ''f'' = Some [0]"
proof -
  have k: "length (w_shapes sample) = 1" by (simp add: sample_def)
  from load_all_or_nothing [OF run_split [OF sample_loads]] show ?thesis
    by (auto simp: k sample_document_def sample_fields_of_def sample_fields find_flow_def simp del: root_error.simps)
qed

section \<open>The server boundary\<close>

text \<open>A server with the built-in tasks, the audit trail on, failing fast.\<close>

definition sample_env :: "unit handler_env" where
  "sample_env = \<lparr>he_zombie = None, he_hooks = (\<lambda>_. Task_hooks), he_skip_pending = None, he_checkpoint = None,
     he_last_checkpoint = None, he_snapshot = (\<lambda>w. Some ()), he_evidence = (\<lambda>w t. None),
     he_load = run_command_load (\<lambda>b. Inr (FlowRoot (sample_document b))) no_parser, 
     he_replace = run_command_replace (\<lambda>b. Inr (FlowRoot (sample_document b))) no_parser, he_coroutines = [],
     he_describe = (\<lambda>e. ''failed''), he_text = (\<lambda>e. ''failed''), he_fail_fast = True, he_audit_logger = True\<rparr>"

lemma sample_env_frame: "env_frame keeps_journal sample_env"
  by (simp add: env_frame_def sample_env_def journal_inv.obeys_raise journal_inv.obeys_Task_hooks load_journal replace_journal)

definition sample_handlers :: handler_state where
  "sample_handlers = \<lparr>hs_world = sample, hs_query_revision = 4, hs_fatal = False\<rparr>"


lemma client_accepts_server_batch_witness:
  "let resp = fst (batch_suspend (\<lambda>w. Some ()) (\<lambda>w t. None) [''/f/t3'', ''bad''] sample)
   in validate_batch_response SUSPEND \<lparr>bp_flow_name = None, bp_paths = [''/f/t3'', ''bad'']\<rparr> resp = Inr resp"
  unfolding Let_def batch_suspend_def
  by (rule client_accepts_server_batch [OF prod.collapse [symmetric]]) (simp_all add: expected_targets_def)

theorem sliced_scan_refines_witness:
  "run_slices [4, 1, 16] no_parser (\<lambda>_. Task_hooks) [0] (Fresh 63000000060000000) sample
   = seqM (process_flow no_parser (\<lambda>_. Task_hooks) [0] 63000000060000000) (ret None) sample"
  using sliced_scan_refines [OF quiet_Task_hooks _ sample_valid(1), of "[4, 1, 16]" no_parser 63000000060000000] sample_weight
  by (simp add: find_flow_def sample_fields sample_node_defs del: run_slices.simps)

definition calm :: surroundings where
  "calm = \<lparr>sr_budget = (\<lambda>i. 1), sr_between = (\<lambda>i w. w), sr_stop = (\<lambda>i. False)\<rparr>"


end
